(* ===== verification/Prelude.thy ===== *)
theory Prelude
  imports Main "HOL-Library.Word" "HOL-Library.AList"
begin

text \<open>
  Shared vocabulary of the development: bytes and machine integers, Go maps as association
  lists, Go strings, the parts of package \<^verbatim>\<open>time\<close> the sources use, and the generic lemmas
  the component theories rely on.

  \<^item> A Go \<^verbatim>\<open>[]byte\<close> is a list of 8-bit words (\<open>nil\<close> and the empty slice are the same
    value, as they are for \<^verbatim>\<open>len\<close> and \<^verbatim>\<open>bytes.Equal\<close>, the only observers the sources use).
  \<^item> A Go \<^verbatim>\<open>string\<close> is a \<open>string\<close>, one \<open>char\<close> per byte.
  \<^item> A Go \<^verbatim>\<open>uint64\<close> is a \<open>64 word\<close>; \<^verbatim>\<open>int\<close> arguments that are only compared against small
    constants are \<open>int\<close>.
  \<^item> A Go map is an association list with distinct keys, read by \<open>map_of\<close>, written by
    \<open>AList.update\<close>, so that \<^verbatim>\<open>range\<close> loops and \<^verbatim>\<open>len\<close> stay executable.
  \<^item> A \<^verbatim>\<open>time.Time\<close> is an instant in nanoseconds, a location and an optional monotonic reading.
\<close>

named_theorems go_simps \<open>equations of the Go base library model\<close>

type_synonym byte = "8 word"
type_synonym bytes = "byte list"
type_synonym u64 = "64 word"
type_synonym ('k, 'v) gomap = "('k \<times> 'v) list"

definition maxSafeInteger :: u64 where
  "maxSafeInteger = 9007199254740991"

lemma unat_of_nat_u64 [simp]: "n < 2 ^ 64 \<Longrightarrow> unat (of_nat n :: u64) = n"
  by (simp add: unat_of_nat)

lemma of_nat_u64_inject: "m < 2 ^ 64 \<Longrightarrow> n < 2 ^ 64 \<Longrightarrow> (of_nat m :: u64) = of_nat n \<longleftrightarrow> m = n"
  by (metis unat_of_nat_u64)

lemma u64_less_of_nat: "n < 2 ^ 64 \<Longrightarrow> (x :: u64) < of_nat n \<longleftrightarrow> unat x < n"
  by (simp add: word_less_nat_alt)

lemma unat_Suc_word: "(r :: u64) \<noteq> - 1 \<Longrightarrow> unat (r + 1) = Suc (unat r)"
proof -
  assume "r \<noteq> - 1"
  then have "1 + r \<noteq> 0" by (metis add_eq_0_iff)
  then show ?thesis by (metis unatSuc add.commute)
qed

lemma unat_max_word: "unat (- 1 :: u64) = 2 ^ 64 - 1"
  by (simp add: unsigned_minus_1_eq_mask mask_eq_exp_minus_1)

lemma less_Suc_word: "(x :: u64) \<le> r \<Longrightarrow> r \<noteq> - 1 \<Longrightarrow> x < r + 1"
  by (simp add: word_less_nat_alt word_le_nat_alt unat_Suc_word)

section \<open>Strings\<close>

definition str_bytes :: "string \<Rightarrow> bytes" where
  "str_bytes s = map of_char s"

definition char_between :: "char \<Rightarrow> char \<Rightarrow> char \<Rightarrow> bool" where
  "char_between lo c hi \<longleftrightarrow> of_char lo \<le> (of_char c :: nat) \<and> of_char c \<le> (of_char hi :: nat)"

definition hex_chars :: string where
  "hex_chars = ''0123456789abcdef''"

definition hex_byte :: "byte \<Rightarrow> string" where
  "hex_byte b = [hex_chars ! unat (drop_bit 4 b), hex_chars ! unat (take_bit 4 b)]"

definition hex_encode :: "bytes \<Rightarrow> string" where
  "hex_encode bs = concat (map hex_byte bs)"

lemma str_bytes_append [simp]: "str_bytes (s @ t) = str_bytes s @ str_bytes t"
  by (simp add: str_bytes_def)

lemma length_str_bytes [simp]: "length (str_bytes s) = length s"
  by (simp add: str_bytes_def)

lemma unat_of_char [simp]: "unat (of_char c :: byte) = of_char c"
proof -
  have "unat (of_nat (of_char c) :: byte) = of_char c mod 256"
    by (simp add: unat_of_nat)
  then show ?thesis by (simp add: of_nat_of_char)
qed

lemma of_char_byte_inject: "(of_char c :: byte) = of_char d \<longleftrightarrow> c = d"
  by (metis unat_of_char of_char_eq_iff)

lemma str_bytes_inject [simp]: "str_bytes s = str_bytes t \<longleftrightarrow> s = t"
proof -
  have "inj (of_char :: char \<Rightarrow> byte)" by (rule injI) (simp add: of_char_byte_inject)
  then show ?thesis by (simp add: str_bytes_def inj_map_eq_map)
qed

lemma length_hex_encode [simp]: "length (hex_encode bs) = 2 * length bs"
  by (induction bs) (simp_all add: hex_encode_def hex_byte_def)

lemma unat_drop4_less: "unat (drop_bit 4 (b :: byte)) < 16"
proof -
  have "unat b < 256" using unsigned_less [of b, where ?'a = nat] by simp
  then show ?thesis by (simp add: drop_bit_eq_div unat_div_distrib)
qed

lemma unat_take4_less: "unat (take_bit 4 (b :: byte)) < 16"
proof -
  have "unat (take_bit 4 b) = unat b mod 16" by (simp add: take_bit_eq_mod unat_mod_distrib)
  then show ?thesis by simp
qed

lemma hex_encode_chars: "c \<in> set (hex_encode bs) \<Longrightarrow> c \<in> set hex_chars"
proof -
  have "length hex_chars = 16" by (simp add: hex_chars_def)
  then have "set (hex_byte b) \<subseteq> set hex_chars" for b
    by (simp add: hex_byte_def unat_drop4_less unat_take4_less)
  then show "c \<in> set (hex_encode bs) \<Longrightarrow> c \<in> set hex_chars"
    by (auto simp: hex_encode_def)
qed

section \<open>Go maps\<close>

lemmas gomap_simps [simp] = AList.update_conv' AList.delete_conv'

lemma gomap_distinct_update [intro]:
  "distinct (map fst m) \<Longrightarrow> distinct (map fst (AList.update k v m))"
  by (rule AList.distinct_update)

lemma gomap_distinct_delete [intro]:
  "distinct (map fst m) \<Longrightarrow> distinct (map fst (AList.delete k m))"
  by (rule AList.distinct_delete)

lemma gomap_mem_iff: "distinct (map fst m) \<Longrightarrow> (k, v) \<in> set m \<longleftrightarrow> map_of m k = Some v"
  by (rule map_of_eq_Some_iff [symmetric])

section \<open>Time\<close>

text \<open>
  The part of package \<^verbatim>\<open>time\<close> in use. Instants are unbounded integers (nanoseconds since the
  Unix epoch): the 64-bit seconds of \<^verbatim>\<open>time.Time\<close> overflow only about 292 billion years away.
  \<open>time_After\<close> and \<open>time_Equal\<close> compare the monotonic readings when both operands carry one,
  and \<open>time_UTC\<close> strips the reading, as \<^verbatim>\<open>setLoc\<close> does. Go's \<^verbatim>\<open>==\<close> on \<^verbatim>\<open>time.Time\<close> compares all
  three parts and is equality of records here.
\<close>

datatype location = UTC | Zone string

record time =
  t_nanos :: int
  t_loc :: location
  t_mono :: "int option"

type_synonym duration = int

definition Millisecond :: duration where "Millisecond = 1000000"
definition Second :: duration where "Second = 1000 * Millisecond"

definition time_UTC :: "time \<Rightarrow> time" where
  "time_UTC t = t\<lparr>t_loc := UTC, t_mono := None\<rparr>"

definition time_Add :: "time \<Rightarrow> duration \<Rightarrow> time" where
  "time_Add t d = t\<lparr>t_nanos := t_nanos t + d, t_mono := map_option (\<lambda>m. m + d) (t_mono t)\<rparr>"

definition time_After :: "time \<Rightarrow> time \<Rightarrow> bool" where
  "time_After t u = (case (t_mono t, t_mono u) of
       (Some a, Some b) \<Rightarrow> b < a
     | _ \<Rightarrow> t_nanos u < t_nanos t)"

definition time_Before :: "time \<Rightarrow> time \<Rightarrow> bool" where
  "time_Before t u = time_After u t"

definition time_Equal :: "time \<Rightarrow> time \<Rightarrow> bool" where
  "time_Equal t u = (case (t_mono t, t_mono u) of
       (Some a, Some b) \<Rightarrow> a = b
     | _ \<Rightarrow> t_nanos t = t_nanos u)"

definition time_Truncate :: "time \<Rightarrow> duration \<Rightarrow> time" where
  "time_Truncate t d =
     (if d \<le> 0 then t\<lparr>t_mono := None\<rparr>
      else t\<lparr>t_nanos := t_nanos t - t_nanos t mod d, t_mono := None\<rparr>)"

definition time_UnixMilli :: "time \<Rightarrow> int" where
  "time_UnixMilli t = t_nanos t div Millisecond"

definition unixMilli_UTC :: "int \<Rightarrow> time" where
  "unixMilli_UTC ms = \<lparr>t_nanos = ms * Millisecond, t_loc = UTC, t_mono = None\<rparr>"

definition utc_millis :: "time \<Rightarrow> bool" where
  "utc_millis t \<longleftrightarrow> t_loc t = UTC \<and> time_Equal t (time_Truncate t Millisecond)"

lemma time_UTC_sel [simp]:
  "t_nanos (time_UTC t) = t_nanos t" "t_loc (time_UTC t) = UTC" "t_mono (time_UTC t) = None"
  by (simp_all add: time_UTC_def)

lemma time_Add_sel [simp]:
  "t_nanos (time_Add t d) = t_nanos t + d" "t_loc (time_Add t d) = t_loc t"
  "t_mono (time_Add t d) = map_option (\<lambda>m. m + d) (t_mono t)"
  by (simp_all add: time_Add_def)

lemma time_After_UTC [simp]: "time_After t (time_UTC u) \<longleftrightarrow> t_nanos u < t_nanos t"
  by (simp add: time_After_def split: option.splits)

lemma time_After_Add_UTC [simp]:
  "time_After t (time_Add (time_UTC u) d) \<longleftrightarrow> t_nanos u + d < t_nanos t"
  by (simp add: time_After_def split: option.splits)

lemma time_Before_Add_UTC [simp]:
  "time_Before t (time_Add (time_UTC u) d) \<longleftrightarrow> t_nanos t < t_nanos u + d"
  by (simp add: time_Before_def time_After_def split: option.splits)

lemma time_Equal_Truncate [simp]:
  "time_Equal t (time_Truncate t Millisecond) \<longleftrightarrow> t_nanos t mod Millisecond = 0"
  by (simp add: time_Equal_def time_Truncate_def Millisecond_def split: option.splits)

lemma utc_millis_iff: "utc_millis t \<longleftrightarrow> t_loc t = UTC \<and> t_nanos t mod Millisecond = 0"
  by (simp add: utc_millis_def)

section \<open>Digests in text form\<close>

text \<open>The regular expression \<^verbatim>\<open>^[a-f0-9]{64}$\<close>.\<close>

definition digestPattern :: "string \<Rightarrow> bool" where
  "digestPattern s \<longleftrightarrow> length s = 64 \<and> list_all (\<lambda>c. c \<in> set ''abcdef0123456789'') s"

lemma digestPattern_hex_encode: "length bs = 32 \<Longrightarrow> digestPattern (hex_encode bs)"
  by (auto simp: digestPattern_def list_all_iff hex_chars_def dest!: hex_encode_chars)

section \<open>UTF-8\<close>

text \<open>\<^verbatim>\<open>utf8.Valid\<close>, over the codes of the bytes.\<close>

definition utf8_tail :: "nat \<Rightarrow> bool" where
  "utf8_tail b \<longleftrightarrow> 128 \<le> b \<and> b < 192"

fun utf8 :: "nat list \<Rightarrow> bool" where
  "utf8 [] = True"
| "utf8 (a # bs) =
     (if a < 128 then utf8 bs
      else case bs of
        [] \<Rightarrow> False
      | b # cs \<Rightarrow>
          if 194 \<le> a \<and> a < 224 then utf8_tail b \<and> utf8 cs
          else case cs of
            [] \<Rightarrow> False
          | c # ds \<Rightarrow>
              if 224 \<le> a \<and> a < 240 then
                utf8_tail b \<and> (a = 224 \<longrightarrow> 160 \<le> b) \<and> (a = 237 \<longrightarrow> b < 160) \<and> utf8_tail c \<and> utf8 ds
              else case ds of
                [] \<Rightarrow> False
              | d # es \<Rightarrow>
                  240 \<le> a \<and> a < 245 \<and> utf8_tail b \<and> (a = 240 \<longrightarrow> 144 \<le> b) \<and> (a = 244 \<longrightarrow> b < 144) \<and> utf8_tail c \<and> utf8_tail d \<and> utf8 es)"

lemma utf8_ascii: "(\<forall>b \<in> set bs. b < 128) \<Longrightarrow> utf8 bs"
  by (induction bs rule: utf8.induct) auto

end
