(* ===== verification/Sha256.thy ===== *)
theory Sha256
  imports Prelude
begin

text \<open>
  SHA-256 (FIPS 180-4), the function \<^verbatim>\<open>crypto/sha256.Sum256\<close> the sources call for every digest:
  padding, message schedule (as a rolling window of sixteen words), the compression rounds and
  the big-endian output. \<open>sha256_length\<close> is the only fact about it the components use; the
  known-answer value of the empty input is in theory \<open>Sha256_Vector\<close>.
\<close>

unbundle bit_operations_syntax

type_synonym u32 = "32 word"

definition rotr :: "nat \<Rightarrow> u32 \<Rightarrow> u32" where
  "rotr n x = drop_bit n x OR push_bit (32 - n) x"

text \<open>
  The constants are defined as the standard defines them: the first 32 bits of the fractional parts of the
  cube roots (round constants) and square roots (initial state) of the first primes. \<open>iroot_bits k n b acc\<close> completes
  \<open>acc\<close> to the largest integer whose \<open>k\<close>-th power is at most \<open>n\<close>, deciding \<open>b\<close> bits; 35 bits hold each root.
\<close>

primrec iroot_bits :: "nat \<Rightarrow> int \<Rightarrow> nat \<Rightarrow> int \<Rightarrow> int" where
  "iroot_bits k n 0 acc = acc"
| "iroot_bits k n (Suc b) acc =
     iroot_bits k n b (if (acc + 2 ^ b) ^ k \<le> n then acc + 2 ^ b else acc)"

definition root_frac :: "nat \<Rightarrow> int \<Rightarrow> u32" where
  "root_frac k p = of_int (iroot_bits k (p * 2 ^ (32 * k)) 35 0)"

definition sha_primes :: "int list" where
  "sha_primes = filter (\<lambda>n. list_all (\<lambda>d. n \<le> d \<or> n mod d \<noteq> 0) [2..17]) [2..311]"

definition sha_k :: "u32 list" where
  "sha_k = map (root_frac 3) sha_primes"

record sha_state =
  sA :: u32
  sB :: u32
  sC :: u32
  sD :: u32
  sE :: u32
  sF :: u32
  sG :: u32
  sH :: u32

definition sha_init :: sha_state where
  "sha_init = \<lparr>sA = root_frac 2 2, sB = root_frac 2 3, sC = root_frac 2 5, sD = root_frac 2 7,
               sE = root_frac 2 11, sF = root_frac 2 13, sG = root_frac 2 17, sH = root_frac 2 19\<rparr>"

definition sha_round :: "u32 \<Rightarrow> u32 \<Rightarrow> sha_state \<Rightarrow> sha_state" where
  "sha_round k w s =
     (let e = sE s; a = sA s;
          t1 = sH s + (rotr 6 e XOR rotr 11 e XOR rotr 25 e) + ((e AND sF s) XOR (NOT e AND sG s)) + k + w;
          t2 = (rotr 2 a XOR rotr 13 a XOR rotr 22 a) + ((a AND sB s) XOR (a AND sC s) XOR (sB s AND sC s))
      in \<lparr>sA = t1 + t2, sB = a, sC = sB s, sD = sC s, sE = sD s + t1, sF = e, sG = sF s, sH = sG s\<rparr>)"

definition sha_next :: "u32 list \<Rightarrow> u32" where
  "sha_next w =
     (let w15 = w ! 1; w2 = w ! 14
      in hd w + (rotr 7 w15 XOR rotr 18 w15 XOR drop_bit 3 w15) + w ! 9
           + (rotr 17 w2 XOR rotr 19 w2 XOR drop_bit 10 w2))"

fun sha_rounds :: "u32 list \<Rightarrow> u32 list \<Rightarrow> sha_state \<Rightarrow> sha_state" where
  "sha_rounds [] w s = s"
| "sha_rounds (k # ks) w s = sha_rounds ks (tl w @ [sha_next w]) (sha_round k (hd w) s)"

definition sha_add :: "sha_state \<Rightarrow> sha_state \<Rightarrow> sha_state" where
  "sha_add s t = \<lparr>sA = sA s + sA t, sB = sB s + sB t, sC = sC s + sC t, sD = sD s + sD t,
                  sE = sE s + sE t, sF = sF s + sF t, sG = sG s + sG t, sH = sH s + sH t\<rparr>"

fun be32s :: "byte list \<Rightarrow> u32 list" where
  "be32s (a # b # c # d # r) =
     (push_bit 24 (ucast a) OR push_bit 16 (ucast b) OR push_bit 8 (ucast c) OR ucast d) # be32s r"
| "be32s _ = []"

definition sha_block :: "byte list \<Rightarrow> sha_state \<Rightarrow> sha_state" where
  "sha_block blk s = sha_add s (sha_rounds sha_k (be32s blk) s)"

definition put_be32 :: "u32 \<Rightarrow> byte list" where
  "put_be32 x = [ucast (drop_bit 24 x), ucast (drop_bit 16 x), ucast (drop_bit 8 x), ucast x]"

definition put_be64 :: "64 word \<Rightarrow> byte list" where
  "put_be64 x = map (\<lambda>n. ucast (drop_bit n x)) [56, 48, 40, 32, 24, 16, 8, 0]"

definition sha_pad :: "byte list \<Rightarrow> byte list" where
  "sha_pad m = m @ [0x80] @ replicate ((119 - length m mod 64) mod 64) 0 @ put_be64 (of_nat (8 * length m))"

fun sha_blocks :: "nat \<Rightarrow> byte list \<Rightarrow> sha_state \<Rightarrow> sha_state" where
  "sha_blocks 0 m s = s"
| "sha_blocks (Suc n) m s = sha_blocks n (drop 64 m) (sha_block (take 64 m) s)"

definition sha_output :: "sha_state \<Rightarrow> byte list" where
  "sha_output s = concat (map put_be32 [sA s, sB s, sC s, sD s, sE s, sF s, sG s, sH s])"

definition sha256 :: "byte list \<Rightarrow> byte list" where
  "sha256 m = (let p = sha_pad m in sha_output (sha_blocks (length p div 64) p sha_init))"

lemma length_put_be32 [simp]: "length (put_be32 x) = 4"
  by (simp add: put_be32_def)

lemma length_put_be64 [simp]: "length (put_be64 x) = 8"
  by (simp add: put_be64_def)

lemma sha256_length [simp]: "length (sha256 m) = 32"
  by (simp add: sha256_def sha_output_def Let_def)

definition hex_sha256 :: "bytes \<Rightarrow> string" where
  "hex_sha256 m = hex_encode (sha256 m)"

lemma length_hex_sha256 [simp]: "length (hex_sha256 m) = 64"
  by (simp add: hex_sha256_def)

lemma digestPattern_hex_sha256 [simp]: "digestPattern (hex_sha256 m)"
  by (simp add: hex_sha256_def digestPattern_hex_encode)

lemma hex_sha256_nonempty [simp]: "hex_sha256 m \<noteq> []"
  using length_hex_sha256 [of m] by (metis list.size(3) zero_neq_numeral)

end
