(* ===== verification/Sha256_Vector.thy ===== *)
theory Sha256_Vector
  imports Sha256
begin

text \<open>
  The known answer of SHA-256 on the empty input, evaluated by the simplifier. It is the constant
  \<^verbatim>\<open>X'E3B0C442...7852B855'\<close> that \<^verbatim>\<open>migrateV2\<close> of \<^verbatim>\<open>internal/relay/audit/sqlite/ledger.go\<close> writes as the Merkle root of a
  ledger without records.
\<close>

definition migrateV2_merkle_root :: bytes where
  "migrateV2_merkle_root = [0xE3, 0xB0, 0xC4, 0x42, 0x98, 0xFC, 0x1C, 0x14, 0x9A, 0xFB, 0xF4, 0xC8,
     0x99, 0x6F, 0xB9, 0x24, 0x27, 0xAE, 0x41, 0xE4, 0x64, 0x9B, 0x93, 0x4C, 0xA4, 0x95, 0x99, 0x1B,
     0x78, 0x52, 0xB8, 0x55]"

lemma sha256_empty: "sha256 [] = migrateV2_merkle_root"
  by code_simp

end
