(* ===== verification/Relay_Types.thy ===== *)
theory Relay_Types
  imports Sha256
begin

text \<open>
  The persistence boundary of the relay, \<^verbatim>\<open>internal/relay/store.go\<close>: its data types, its error
  values, the adapter-independent validation functions and the interfaces \<^verbatim>\<open>Store\<close> and
  \<^verbatim>\<open>AdmissionView\<close> (records of operations, as Go's interface values are). The locale \<open>relay_store\<close> at the end
  states what the clients of \<^verbatim>\<open>Store\<close> rely on; each adapter interprets it.

  An \<^verbatim>\<open>error\<close> result is \<open>relay_error option\<close> (\<open>None\<close> is \<^verbatim>\<open>nil\<close>) and a pair \<^verbatim>\<open>(T, error)\<close> is
  \<open>relay_error + T\<close>. A function value that may be \<^verbatim>\<open>nil\<close> is an option. The context argument is
  the value its \<^verbatim>\<open>Err()\<close> has when the operation reads it.
\<close>

section \<open>Data\<close>

datatype relay_error =
    ErrChannelNotFound
  | ErrChannelConflict
  | ErrEventIDCollision
  | ErrInvalidArgument
  | ErrCommitIndeterminate
  | ErrReceiptNotFound
  | ErrSignatureCollision
  | ErrEventNotFound
  | ErrSignaturePending
  | ErrResourceLimit
  | ErrTransitionConflict
  | ErrContext
  | Errorf string relay_error
  | ErrText string
  | Panicked

text \<open>\<open>Errorf m e\<close> is the error of \<^verbatim>\<open>fmt.Errorf\<close> with text \<open>m\<close> that wraps \<open>e\<close>, \<open>ErrText\<close> an error that wraps none of the
  sentinels, \<open>ErrContext\<close> the error of a finished context and \<open>Panicked\<close> a run-time panic.\<close>

fun errors_Is :: "relay_error \<Rightarrow> relay_error \<Rightarrow> bool" where
  "errors_Is (Errorf m e) target = (Errorf m e = target \<or> errors_Is e target)"
| "errors_Is e target = (e = target)"

type_synonym ctx = "relay_error option"

record ChannelKey =
  ck_tenant :: string
  ck_channel :: string
  ck_epoch :: string

record Channel =
  ch_key :: ChannelKey
  ch_uri :: string
  ch_metadata :: bytes
  ch_metadata_digest :: string
  ch_lifecycle :: string

record AppendIntent =
  in_channel :: ChannelKey
  in_event_id :: string
  in_canonical :: bytes

record AcceptedRecord =
  ar_channel :: ChannelKey
  ar_sequence :: u64
  ar_event_id :: string
  ar_canonical :: bytes
  ar_digest :: string
  ar_authn :: bytes
  ar_authz :: bytes
  ar_receipt_id :: string
  ar_key_id :: string
  ar_algorithm :: string
  ar_preimage :: bytes
  ar_signature :: bytes

record SignatureAttachment =
  sa_channel :: ChannelKey
  sa_receipt_id :: string
  sa_preimage :: bytes
  sa_signature :: bytes

type_synonym PrepareRecord = "u64 \<Rightarrow> string \<Rightarrow> relay_error + AcceptedRecord"

record AdmissionView =
  av_Lookup :: "string \<Rightarrow> relay_error + AcceptedRecord"
  av_Read :: "u64 \<Rightarrow> int \<Rightarrow> relay_error + AcceptedRecord list"

type_synonym Admit = "AdmissionView \<Rightarrow> relay_error option"

datatype AppendOutcome = AppendOutcomeAppended | AppendOutcomeDuplicate

record AppendResult =
  res_outcome :: AppendOutcome
  res_record :: AcceptedRecord

text \<open>The interface \<^verbatim>\<open>relay.Store\<close> over a state \<open>'s\<close>.\<close>

record 's Store =
  st_CreateChannel :: "'s \<Rightarrow> ctx \<Rightarrow> Channel \<Rightarrow> 's \<times> relay_error option"
  st_LookupChannel :: "'s \<Rightarrow> ctx \<Rightarrow> ChannelKey \<Rightarrow> relay_error + Channel"
  st_Lookup :: "'s \<Rightarrow> ctx \<Rightarrow> ChannelKey \<Rightarrow> string \<Rightarrow> relay_error + AcceptedRecord"
  st_Append :: "'s \<Rightarrow> ctx \<Rightarrow> AppendIntent \<Rightarrow> PrepareRecord option \<Rightarrow> 's \<times> (relay_error + AppendResult)"
  st_AppendChecked :: "'s \<Rightarrow> ctx \<Rightarrow> AppendIntent \<Rightarrow> Admit option \<Rightarrow> PrepareRecord option
     \<Rightarrow> 's \<times> (relay_error + AppendResult)"
  st_AttachSignature :: "'s \<Rightarrow> ctx \<Rightarrow> SignatureAttachment \<Rightarrow> 's \<times> (relay_error + AcceptedRecord)"
  st_Read :: "'s \<Rightarrow> ctx \<Rightarrow> ChannelKey \<Rightarrow> u64 \<Rightarrow> int \<Rightarrow> relay_error + AcceptedRecord list"

section \<open>Adapter-independent validation\<close>

definition SameEvent :: "AppendIntent \<Rightarrow> AppendIntent \<Rightarrow> bool" where
  "SameEvent l r \<longleftrightarrow> in_event_id l = in_event_id r \<and> in_canonical l = in_canonical r"

definition ValidateChannel :: "Channel \<Rightarrow> relay_error option" where
  "ValidateChannel c =
     (if ck_tenant (ch_key c) = '''' \<or> ck_channel (ch_key c) = '''' \<or> ck_epoch (ch_key c) = '''' \<or>
         ch_uri c = '''' \<or> length (ch_metadata c) = 0 \<or> ch_metadata_digest c = '''' \<or>
         ch_lifecycle c \<noteq> ''active''
      then Some ErrInvalidArgument else None)"

definition CloneChannel :: "Channel \<Rightarrow> Channel" where
  "CloneChannel c = c\<lparr>ch_metadata := ch_metadata c\<rparr>"

definition SameChannel :: "Channel \<Rightarrow> Channel \<Rightarrow> bool" where
  "SameChannel l r \<longleftrightarrow> ch_key l = ch_key r \<and> ch_uri l = ch_uri r \<and>
     ch_metadata_digest l = ch_metadata_digest r \<and> ch_lifecycle l = ch_lifecycle r \<and>
     ch_metadata l = ch_metadata r"

definition ValidateIntent :: "AppendIntent \<Rightarrow> relay_error option" where
  "ValidateIntent i =
     (if ck_tenant (in_channel i) = '''' \<or> ck_channel (in_channel i) = '''' \<or>
         ck_epoch (in_channel i) = '''' \<or> in_event_id i = '''' \<or> length (in_canonical i) = 0
      then Some ErrInvalidArgument else None)"

definition ValidateAppendIntent :: "AppendIntent \<Rightarrow> PrepareRecord option \<Rightarrow> relay_error option" where
  "ValidateAppendIntent i prepare =
     (case ValidateIntent i of
        Some e \<Rightarrow> Some e
      | None \<Rightarrow> if prepare = None then Some ErrInvalidArgument else None)"

definition ValidateCheckedAppend ::
  "AppendIntent \<Rightarrow> Admit option \<Rightarrow> PrepareRecord option \<Rightarrow> relay_error option" where
  "ValidateCheckedAppend i admit prepare =
     (if admit = None then Some ErrInvalidArgument else ValidateAppendIntent i prepare)"

definition EventDigest :: "bytes \<Rightarrow> string" where
  "EventDigest canonicalEvent = ''sha-256:'' @ hex_sha256 canonicalEvent"

definition ValidatePreparedRecord ::
  "AppendIntent \<Rightarrow> u64 \<Rightarrow> string \<Rightarrow> AcceptedRecord \<Rightarrow> relay_error option" where
  "ValidatePreparedRecord i sequence digest r =
     (if ar_channel r \<noteq> in_channel i \<or> ar_sequence r \<noteq> sequence \<or> ar_event_id r \<noteq> in_event_id i \<or>
         ar_canonical r \<noteq> in_canonical i \<or> ar_digest r \<noteq> digest
      then Some (Errorf ''prepared record does not match append intent'' ErrInvalidArgument)
      else if ar_receipt_id r = '''' \<or> ar_key_id r = '''' \<or> ar_algorithm r = '''' \<or>
         length (ar_authn r) = 0 \<or> length (ar_authz r) = 0 \<or> length (ar_preimage r) = 0
      then Some (Errorf ''prepared record is incomplete'' ErrInvalidArgument)
      else None)"

definition CloneRecord :: "AcceptedRecord \<Rightarrow> AcceptedRecord" where
  "CloneRecord r = r\<lparr>ar_canonical := ar_canonical r, ar_authn := ar_authn r,
     ar_authz := ar_authz r, ar_preimage := ar_preimage r, ar_signature := ar_signature r\<rparr>"

definition ValidateSignatureAttachment :: "SignatureAttachment \<Rightarrow> relay_error option" where
  "ValidateSignatureAttachment a =
     (if ck_tenant (sa_channel a) = '''' \<or> ck_channel (sa_channel a) = '''' \<or>
         ck_epoch (sa_channel a) = '''' \<or> sa_receipt_id a = '''' \<or>
         length (sa_preimage a) = 0 \<or> length (sa_signature a) = 0
      then Some ErrInvalidArgument else None)"

lemma CloneRecord_id [simp]: "CloneRecord r = r"
  by (simp add: CloneRecord_def)

lemma map_CloneRecord [simp]: "map CloneRecord rs = rs"
  by (rule map_idI) simp

lemma CloneChannel_id [simp]: "CloneChannel c = c"
  by (simp add: CloneChannel_def)

lemma SameChannel_iff [simp]: "SameChannel l r \<longleftrightarrow> l = r"
  by (cases l; cases r) (auto simp: SameChannel_def)

lemma ValidateCheckedAppend_None:
  "ValidateCheckedAppend i admit prepare = None \<longleftrightarrow>
     ValidateIntent i = None \<and> (\<exists>a p. admit = Some a \<and> prepare = Some p)"
  by (auto simp: ValidateCheckedAppend_def ValidateAppendIntent_def split: option.splits)

lemma ValidatePreparedRecord_NoneD:
  assumes "ValidatePreparedRecord i sequence digest r = None"
  shows "ar_channel r = in_channel i" "ar_sequence r = sequence" "ar_event_id r = in_event_id i"
    "ar_canonical r = in_canonical i" "ar_digest r = digest"
    "ar_receipt_id r \<noteq> ''''" "ar_key_id r \<noteq> ''''" "ar_algorithm r \<noteq> ''''" "ar_preimage r \<noteq> []"
  using assms by (auto simp: ValidatePreparedRecord_def split: if_splits)

section \<open>What a transcript promises\<close>

text \<open>
  \<open>rec_le r r'\<close>: \<open>r'\<close> is \<open>r\<close>, or \<open>r\<close> was unsigned and \<open>r'\<close> is \<open>r\<close> with a signature.
  \<open>extends rs rs'\<close>: the transcript \<open>rs'\<close> holds every record of \<open>rs\<close> at its place up to \<open>rec_le\<close>,
  possibly followed by more: history is never overwritten.
\<close>

definition rec_le :: "AcceptedRecord \<Rightarrow> AcceptedRecord \<Rightarrow> bool" where
  "rec_le r r' \<longleftrightarrow> r' = r \<or> ar_signature r = [] \<and> r' = r\<lparr>ar_signature := ar_signature r'\<rparr>"

definition extends :: "AcceptedRecord list \<Rightarrow> AcceptedRecord list \<Rightarrow> bool" where
  "extends rs rs' \<longleftrightarrow> length rs \<le> length rs' \<and> (\<forall>i < length rs. rec_le (rs ! i) (rs' ! i))"

definition contiguous :: "AcceptedRecord list \<Rightarrow> bool" where
  "contiguous rs \<longleftrightarrow> (\<forall>i < length rs. ar_sequence (rs ! i) = of_nat (i + 1))"

lemma rec_le_refl [simp]: "rec_le r r"
  by (simp add: rec_le_def)

lemma rec_le_trans: "rec_le a b \<Longrightarrow> rec_le b c \<Longrightarrow> rec_le a c"
  by (cases a; cases b; cases c) (auto simp: rec_le_def)

lemma rec_le_signed: "rec_le r r' \<Longrightarrow> ar_signature r \<noteq> [] \<Longrightarrow> r' = r"
  by (simp add: rec_le_def)

lemma rec_le_fields:
  assumes "rec_le r r'"
  shows "ar_channel r' = ar_channel r" "ar_sequence r' = ar_sequence r"
    "ar_event_id r' = ar_event_id r" "ar_canonical r' = ar_canonical r"
    "ar_digest r' = ar_digest r" "ar_receipt_id r' = ar_receipt_id r"
    "ar_preimage r' = ar_preimage r"
  using assms by (cases r; cases r'; auto simp: rec_le_def)+

lemma extends_refl [simp]: "extends rs rs"
  by (simp add: extends_def)

lemma extends_trans: "extends a b \<Longrightarrow> extends b c \<Longrightarrow> extends a c"
  by (auto simp: extends_def intro: rec_le_trans)

lemma extends_append [simp]: "extends rs (rs @ ext)"
  by (simp add: extends_def nth_append)

lemma extends_update:
  "i < length rs \<Longrightarrow> rec_le (rs ! i) r \<Longrightarrow> extends rs (rs[i := r])"
  by (auto simp: extends_def nth_list_update)

lemma contiguous_append:
  "contiguous rs \<Longrightarrow> ar_sequence r = of_nat (length rs + 1) \<Longrightarrow> contiguous (rs @ [r])"
  by (auto simp: contiguous_def nth_append less_Suc_eq)

lemma contiguous_update:
  "contiguous rs \<Longrightarrow> i < length rs \<Longrightarrow> rec_le (rs ! i) r \<Longrightarrow> contiguous (rs[i := r])"
  by (auto simp: contiguous_def nth_list_update rec_le_fields)

text \<open>
  The contract of an adapter, as its clients use it. \<open>records\<close> reads a transcript out of the
  adapter's state and \<open>storable\<close> says which prepared records the adapter keeps as they are.
  \<open>relay_store_safe\<close> says what every answer means; \<open>relay_store\<close> adds when an answer is given, for an
  adapter that does not fail on its own.
\<close>

locale relay_store_safe =
  fixes st :: "'s Store"
    and inv :: "'s \<Rightarrow> bool"
    and records :: "'s \<Rightarrow> ChannelKey \<Rightarrow> AcceptedRecord list option"
    and storable :: "PrepareRecord \<Rightarrow> bool"
  assumes append_inv: "inv s \<Longrightarrow> st_AppendChecked st s c i admit prepare = (s', r) \<Longrightarrow> inv s'"
    and append_extends: "inv s \<Longrightarrow> st_AppendChecked st s c i admit prepare = (s', r) \<Longrightarrow>
      records s k = Some rs \<Longrightarrow> \<exists>rs'. records s' k = Some rs' \<and> extends rs rs'"
    and append_ok: "inv s \<Longrightarrow> st_AppendChecked st s c i admit prepare = (s', Inr res) \<Longrightarrow>
      pred_option storable prepare \<Longrightarrow> \<exists>rs. records s' (in_channel i) = Some rs \<and> res_record res \<in> set rs \<and>
        ar_channel (res_record res) = in_channel i \<and> ar_event_id (res_record res) = in_event_id i \<and>
        ar_canonical (res_record res) = in_canonical i"
    and append_prepared: "inv s \<Longrightarrow> st_AppendChecked st s c i admit prepare = (s', Inr res) \<Longrightarrow>
      res_outcome res = AppendOutcomeAppended \<Longrightarrow>
      \<exists>p n. prepare = Some p \<and> p n (EventDigest (in_canonical i)) = Inr (res_record res)"
    and attach_inv: "inv s \<Longrightarrow> st_AttachSignature st s c a = (s', x) \<Longrightarrow> inv s'"
    and attach_extends: "inv s \<Longrightarrow> st_AttachSignature st s c a = (s', x) \<Longrightarrow>
      records s k = Some rs \<Longrightarrow> \<exists>rs'. records s' k = Some rs' \<and> extends rs rs'"
    and attach_ok: "inv s \<Longrightarrow> st_AttachSignature st s c a = (s', Inr sg) \<Longrightarrow>
      \<exists>rs. records s' (sa_channel a) = Some rs \<and> sg \<in> set rs \<and>
        ar_receipt_id sg = sa_receipt_id a \<and> ar_preimage sg = sa_preimage a \<and>
        ar_signature sg = sa_signature a \<and> sa_signature a \<noteq> []"
    and lookup_ok: "inv s \<Longrightarrow> st_Lookup st s c k e = Inr found \<Longrightarrow>
      \<exists>rs. records s (ar_channel found) = Some rs \<and> found \<in> set rs \<and> ar_event_id found = e"

locale relay_store = relay_store_safe +
  assumes lookup_found: "inv s \<Longrightarrow> records s k = Some rs \<Longrightarrow> found \<in> set rs \<Longrightarrow>
      st_Lookup st s None k (ar_event_id found) = Inr found"
    and attach_unique: "inv s \<Longrightarrow> records s k = Some rs \<Longrightarrow> found \<in> set rs \<Longrightarrow>
      (\<And>q. q \<in> set rs \<Longrightarrow> ar_receipt_id q = ar_receipt_id found \<Longrightarrow> q = found) \<Longrightarrow>
      ar_signature found = [] \<Longrightarrow> sig \<noteq> [] \<Longrightarrow>
      snd (st_AttachSignature st s None
        \<lparr>sa_channel = k, sa_receipt_id = ar_receipt_id found, sa_preimage = ar_preimage found,
         sa_signature = sig\<rparr>) = Inr (found\<lparr>ar_signature := sig\<rparr>)"
    and read_page: "inv s \<Longrightarrow> records s k = Some rs \<Longrightarrow> length rs < 2 ^ 64 \<Longrightarrow> 1 \<le> limit \<Longrightarrow> limit \<le> 1000 \<Longrightarrow>
      st_Read st s None k after limit = Inr (take (nat limit) (drop (unat after) rs))"

end
