(* ===== verification/Relay_Memory.thy ===== *)
theory Relay_Memory
  imports Relay_Types
begin

text \<open>
  The in-memory relay store, \<^verbatim>\<open>internal/relay/memory/store.go\<close>: the reference adapter of the
  contract. Each method holds the store's mutex from its first read of the state to its return, so it is
  one atomic function from state to state. The theory proves the store invariant, that history
  is only ever extended, that appends are idempotent, and interprets \<open>relay_store\<close>.
\<close>

section \<open>State and operations\<close>

record transcript =
  tr_channel :: Channel
  tr_records :: "AcceptedRecord list"

type_synonym channelIdentity = "string \<times> string"

record MemStore =
  ms_transcripts :: "(ChannelKey, transcript) gomap"
  ms_channelURIs :: "(channelIdentity, string) gomap"
  ms_events :: "(channelIdentity, (string, AcceptedRecord) gomap) gomap"

definition mem_New :: MemStore where
  "mem_New = \<lparr>ms_transcripts = [], ms_channelURIs = [], ms_events = []\<rparr>"

definition identityOf :: "ChannelKey \<Rightarrow> channelIdentity" where
  "identityOf k = (ck_tenant k, ck_channel k)"

text \<open>Reading \<^verbatim>\<open>s.events[identity][eventID]\<close>: a missing inner map reads as empty.\<close>

definition mem_event :: "MemStore \<Rightarrow> channelIdentity \<Rightarrow> string \<Rightarrow> AcceptedRecord option" where
  "mem_event s identity eventID =
     (case map_of (ms_events s) identity of None \<Rightarrow> None | Some m \<Rightarrow> map_of m eventID)"

definition mem_CreateChannel :: "MemStore \<Rightarrow> ctx \<Rightarrow> Channel \<Rightarrow> MemStore \<times> relay_error option" where
  "mem_CreateChannel s ctx channel =
     (case ctx of Some e \<Rightarrow> (s, Some e) | None \<Rightarrow>
      case ValidateChannel channel of Some e \<Rightarrow> (s, Some e) | None \<Rightarrow>
      let identity = identityOf (ch_key channel) in
      if (case map_of (ms_channelURIs s) identity of Some uri \<Rightarrow> uri \<noteq> ch_uri channel | None \<Rightarrow> False)
      then (s, Some ErrChannelConflict)
      else case map_of (ms_transcripts s) (ch_key channel) of
        Some existing \<Rightarrow>
          (if SameChannel (tr_channel existing) channel then (s, None)
           else (s, Some ErrChannelConflict))
      | None \<Rightarrow>
          (s\<lparr>ms_channelURIs := AList.update identity (ch_uri channel) (ms_channelURIs s),
             ms_events := (if map_of (ms_events s) identity = None
                           then AList.update identity [] (ms_events s) else ms_events s),
             ms_transcripts := AList.update (ch_key channel)
               \<lparr>tr_channel = CloneChannel channel, tr_records = []\<rparr> (ms_transcripts s)\<rparr>, None))"

definition mem_LookupChannel :: "MemStore \<Rightarrow> ctx \<Rightarrow> ChannelKey \<Rightarrow> relay_error + Channel" where
  "mem_LookupChannel s ctx key =
     (case ctx of Some e \<Rightarrow> Inl e | None \<Rightarrow>
      if ck_tenant key = '''' \<or> ck_channel key = '''' \<or> ck_epoch key = ''''
      then Inl ErrInvalidArgument
      else case map_of (ms_transcripts s) key of
        None \<Rightarrow> Inl ErrChannelNotFound
      | Some t \<Rightarrow> Inr (CloneChannel (tr_channel t)))"

text \<open>The slice \<^verbatim>\<open>t.records[start:end]\<close> both read operations return.\<close>

definition mem_slice :: "AcceptedRecord list \<Rightarrow> u64 \<Rightarrow> int \<Rightarrow> AcceptedRecord list" where
  "mem_slice rs after limit =
     (let start = (if after < of_nat (length rs) then unat after else length rs);
          end = min (start + nat limit) (length rs)
      in map CloneRecord (take (end - start) (drop start rs)))"

definition mem_view_Lookup :: "MemStore \<Rightarrow> ChannelKey \<Rightarrow> string \<Rightarrow> relay_error + AcceptedRecord" where
  "mem_view_Lookup s key eventID =
     (case mem_event s (identityOf key) eventID of
        None \<Rightarrow> Inl ErrEventNotFound
      | Some r \<Rightarrow> if ar_channel r \<noteq> key then Inl ErrEventNotFound else Inr (CloneRecord r))"

definition mem_view_Read ::
  "MemStore \<Rightarrow> ChannelKey \<Rightarrow> u64 \<Rightarrow> int \<Rightarrow> relay_error + AcceptedRecord list" where
  "mem_view_Read s key after limit =
     (if limit < 1 \<or> limit > 1000 then Inl ErrInvalidArgument
      else case map_of (ms_transcripts s) key of
        None \<Rightarrow> Inl Panicked
      | Some t \<Rightarrow> Inr (mem_slice (tr_records t) after limit))"

definition memoryAdmissionView :: "MemStore \<Rightarrow> ChannelKey \<Rightarrow> AdmissionView" where
  "memoryAdmissionView s key = \<lparr>av_Lookup = mem_view_Lookup s key, av_Read = mem_view_Read s key\<rparr>"

text \<open>The commit at the end of \<^verbatim>\<open>AppendChecked\<close>; writing to a missing inner map panics.\<close>

definition mem_commit ::
  "MemStore \<Rightarrow> ChannelKey \<Rightarrow> string \<Rightarrow> transcript \<Rightarrow> AcceptedRecord
     \<Rightarrow> MemStore \<times> (relay_error + AppendResult)" where
  "mem_commit s key eventID t committed =
     (let s1 = s\<lparr>ms_transcripts :=
            AList.update key (t\<lparr>tr_records := tr_records t @ [committed]\<rparr>) (ms_transcripts s)\<rparr> in
      case map_of (ms_events s1) (identityOf key) of
        None \<Rightarrow> (s1, Inl Panicked)
      | Some m \<Rightarrow>
          (s1\<lparr>ms_events := AList.update (identityOf key) (AList.update eventID committed m) (ms_events s1)\<rparr>,
           Inr \<lparr>res_outcome = AppendOutcomeAppended, res_record = CloneRecord committed\<rparr>))"

definition mem_AppendChecked ::
  "MemStore \<Rightarrow> ctx \<Rightarrow> AppendIntent \<Rightarrow> Admit option \<Rightarrow> PrepareRecord option
     \<Rightarrow> MemStore \<times> (relay_error + AppendResult)" where
  "mem_AppendChecked s ctx intent admit prepare =
     (case ctx of Some e \<Rightarrow> (s, Inl e) | None \<Rightarrow>
      case ValidateCheckedAppend intent admit prepare of Some e \<Rightarrow> (s, Inl e) | None \<Rightarrow>
      case map_of (ms_transcripts s) (in_channel intent) of
        None \<Rightarrow> (s, Inl ErrChannelNotFound)
      | Some t \<Rightarrow>
      case mem_event s (identityOf (in_channel intent)) (in_event_id intent) of
        Some existing \<Rightarrow>
          (if ar_channel existing \<noteq> in_channel intent \<or> ar_canonical existing \<noteq> in_canonical intent
           then (s, Inl ErrEventIDCollision)
           else (s, Inr \<lparr>res_outcome = AppendOutcomeDuplicate, res_record = CloneRecord existing\<rparr>))
      | None \<Rightarrow>
      case the admit (memoryAdmissionView s (in_channel intent)) of Some e \<Rightarrow> (s, Inl e) | None \<Rightarrow>
      let digest = EventDigest (in_canonical intent);
          sequence = of_nat (length (tr_records t) + 1) in
      case the prepare sequence digest of
        Inl e \<Rightarrow> (s, Inl (Errorf ''prepare accepted record'' e))
      | Inr record \<Rightarrow>
      case ValidatePreparedRecord intent sequence digest record of Some e \<Rightarrow> (s, Inl e) | None \<Rightarrow>
      mem_commit s (in_channel intent) (in_event_id intent) t (CloneRecord record))"

definition mem_Append ::
  "MemStore \<Rightarrow> ctx \<Rightarrow> AppendIntent \<Rightarrow> PrepareRecord option \<Rightarrow> MemStore \<times> (relay_error + AppendResult)" where
  "mem_Append s ctx intent prepare = mem_AppendChecked s ctx intent (Some (\<lambda>_. None)) prepare"

definition mem_Lookup :: "MemStore \<Rightarrow> ctx \<Rightarrow> ChannelKey \<Rightarrow> string \<Rightarrow> relay_error + AcceptedRecord" where
  "mem_Lookup s ctx key eventID =
     (case ctx of Some e \<Rightarrow> Inl e | None \<Rightarrow>
      if ck_tenant key = '''' \<or> ck_channel key = '''' \<or> ck_epoch key = '''' \<or> eventID = ''''
      then Inl ErrInvalidArgument
      else case map_of (ms_transcripts s) key of
        None \<Rightarrow> Inl ErrChannelNotFound
      | Some _ \<Rightarrow>
      case mem_event s (identityOf key) eventID of
        None \<Rightarrow> Inl ErrEventNotFound
      | Some r \<Rightarrow> Inr (CloneRecord r))"

definition mem_Read ::
  "MemStore \<Rightarrow> ctx \<Rightarrow> ChannelKey \<Rightarrow> u64 \<Rightarrow> int \<Rightarrow> relay_error + AcceptedRecord list" where
  "mem_Read s ctx key after limit =
     (case ctx of Some e \<Rightarrow> Inl e | None \<Rightarrow>
      if limit < 1 \<or> limit > 1000 then Inl ErrInvalidArgument
      else case map_of (ms_transcripts s) key of
        None \<Rightarrow> Inl ErrChannelNotFound
      | Some t \<Rightarrow> Inr (mem_slice (tr_records t) after limit))"

text \<open>The loop of \<^verbatim>\<open>AttachSignature\<close>: the first record that carries the receipt identity.\<close>

fun find_receipt :: "string \<Rightarrow> nat \<Rightarrow> AcceptedRecord list \<Rightarrow> (nat \<times> AcceptedRecord) option" where
  "find_receipt receiptID index [] = None"
| "find_receipt receiptID index (r # rs) =
     (if ar_receipt_id r \<noteq> receiptID then find_receipt receiptID (index + 1) rs
      else Some (index, r))"

definition mem_AttachSignature ::
  "MemStore \<Rightarrow> ctx \<Rightarrow> SignatureAttachment \<Rightarrow> MemStore \<times> (relay_error + AcceptedRecord)" where
  "mem_AttachSignature s ctx a =
     (case ctx of Some e \<Rightarrow> (s, Inl e) | None \<Rightarrow>
      case ValidateSignatureAttachment a of Some e \<Rightarrow> (s, Inl e) | None \<Rightarrow>
      case map_of (ms_transcripts s) (sa_channel a) of None \<Rightarrow> (s, Inl ErrReceiptNotFound) | Some t \<Rightarrow>
      case find_receipt (sa_receipt_id a) 0 (tr_records t) of
        None \<Rightarrow> (s, Inl ErrReceiptNotFound)
      | Some (index, r) \<Rightarrow>
          (if ar_preimage r \<noteq> sa_preimage a then (s, Inl ErrSignatureCollision)
           else if length (ar_signature r) > 0 then
             (if ar_signature r \<noteq> sa_signature a then (s, Inl ErrSignatureCollision)
              else (s, Inr (CloneRecord r)))
           else
             let r' = r\<lparr>ar_signature := sa_signature a\<rparr>;
                 s1 = s\<lparr>ms_transcripts := AList.update (sa_channel a)
                   (t\<lparr>tr_records := (tr_records t)[index := r']\<rparr>) (ms_transcripts s)\<rparr> in
             case map_of (ms_events s1) (identityOf (sa_channel a)) of
               None \<Rightarrow> (s1, Inl Panicked)
             | Some m \<Rightarrow>
               (s1\<lparr>ms_events := AList.update (identityOf (sa_channel a))
                     (AList.update (ar_event_id r') r' m) (ms_events s1)\<rparr>,
                Inr (CloneRecord r'))))"

definition mem_Store :: "MemStore Store" where
  "mem_Store = \<lparr>st_CreateChannel = mem_CreateChannel, st_LookupChannel = mem_LookupChannel,
     st_Lookup = mem_Lookup, st_Append = mem_Append, st_AppendChecked = mem_AppendChecked,
     st_AttachSignature = mem_AttachSignature, st_Read = mem_Read\<rparr>"

section \<open>The store invariant\<close>

definition mem_records :: "MemStore \<Rightarrow> ChannelKey \<Rightarrow> AcceptedRecord list option" where
  "mem_records s key = map_option tr_records (map_of (ms_transcripts s) key)"

text \<open>A record as \<^verbatim>\<open>ValidatePreparedRecord\<close> and \<^verbatim>\<open>ValidateIntent\<close> let it in.\<close>

definition complete_record :: "ChannelKey \<Rightarrow> AcceptedRecord \<Rightarrow> bool" where
  "complete_record key r \<longleftrightarrow> ar_channel r = key \<and> ar_event_id r \<noteq> [] \<and> ar_canonical r \<noteq> [] \<and>
     ar_digest r = EventDigest (ar_canonical r) \<and> ar_receipt_id r \<noteq> [] \<and> ar_key_id r \<noteq> [] \<and>
     ar_algorithm r \<noteq> [] \<and> ar_authn r \<noteq> [] \<and> ar_authz r \<noteq> [] \<and> ar_preimage r \<noteq> []"

definition mem_transcript_ok :: "MemStore \<Rightarrow> ChannelKey \<Rightarrow> transcript \<Rightarrow> bool" where
  "mem_transcript_ok s key t \<longleftrightarrow>
     ch_key (tr_channel t) = key \<and> ValidateChannel (tr_channel t) = None \<and>
     map_of (ms_channelURIs s) (identityOf key) = Some (ch_uri (tr_channel t)) \<and>
     map_of (ms_events s) (identityOf key) \<noteq> None \<and>
     contiguous (tr_records t) \<and> distinct (map ar_event_id (tr_records t)) \<and>
     (\<forall>r \<in> set (tr_records t). complete_record key r \<and>
        mem_event s (identityOf key) (ar_event_id r) = Some r)"

definition mem_index_ok :: "MemStore \<Rightarrow> bool" where
  "mem_index_ok s \<longleftrightarrow> (\<forall>identity e r. mem_event s identity e = Some r \<longrightarrow>
     identityOf (ar_channel r) = identity \<and> ar_event_id r = e \<and>
     (\<exists>t. map_of (ms_transcripts s) (ar_channel r) = Some t \<and> r \<in> set (tr_records t)))"

definition mem_inv :: "MemStore \<Rightarrow> bool" where
  "mem_inv s \<longleftrightarrow> (\<forall>key t. map_of (ms_transcripts s) key = Some t \<longrightarrow> mem_transcript_ok s key t) \<and> mem_index_ok s"

lemma mem_invD:
  assumes "mem_inv s" "map_of (ms_transcripts s) key = Some t"
  shows "mem_transcript_ok s key t"
  using assms by (simp add: mem_inv_def)

lemma mem_indexD:
  assumes "mem_inv s" "mem_event s identity e = Some r"
  shows "ar_event_id r = e" "\<exists>t. map_of (ms_transcripts s) (ar_channel r) = Some t \<and> r \<in> set (tr_records t)"
  using assms unfolding mem_inv_def mem_index_ok_def by blast+

lemma mem_inv_New [simp]: "mem_inv mem_New"
  by (simp add: mem_inv_def mem_New_def mem_index_ok_def mem_event_def)

text \<open>Both mutations replace one transcript and index one record of it.\<close>

abbreviation mem_put ::
  "MemStore \<Rightarrow> ChannelKey \<Rightarrow> transcript \<Rightarrow> AcceptedRecord list \<Rightarrow> (string, AcceptedRecord) gomap
     \<Rightarrow> AcceptedRecord \<Rightarrow> MemStore" where
  "mem_put s key t rs m r \<equiv>
     s\<lparr>ms_transcripts := AList.update key (t\<lparr>tr_records := rs\<rparr>) (ms_transcripts s),
       ms_events := AList.update (identityOf key) (AList.update (ar_event_id r) r m) (ms_events s)\<rparr>"

lemma mem_event_commit:
  assumes "map_of (ms_events s) (identityOf key) = Some m"
  shows "mem_event (mem_put s key t rs m r) identity e' =
    (if identity = identityOf key \<and> e' = ar_event_id r then Some r else mem_event s identity e')"
  using assms by (auto simp: mem_event_def)

lemma find_receipt_Some:
  "find_receipt receiptID n rs = Some (index, r) \<Longrightarrow>
     n \<le> index \<and> index - n < length rs \<and> rs ! (index - n) = r \<and> ar_receipt_id r = receiptID"
proof (induction rs arbitrary: n)
  case Nil
  then show ?case by simp
next
  case (Cons x xs)
  show ?case
  proof (cases "ar_receipt_id x = receiptID")
    case True
    with Cons.prems show ?thesis by auto
  next
    case False
    with Cons.prems have "find_receipt receiptID (n + 1) xs = Some (index, r)" by simp
    from Cons.IH [OF this] show ?thesis by (auto simp: nth_Cons')
  qed
qed

lemma find_receipt_None:
  "find_receipt receiptID n rs = None \<longleftrightarrow> (\<forall>r \<in> set rs. ar_receipt_id r \<noteq> receiptID)"
  by (induction rs arbitrary: n) auto

lemma mem_slice_eq:
  assumes "length rs < 2 ^ 64" "0 \<le> limit"
  shows "mem_slice rs after limit = take (nat limit) (drop (unat after) rs)"
proof (cases "after < of_nat (length rs)")
  case True
  then have "unat after < length rs"
    using assms(1) by (simp add: u64_less_of_nat)
  then show ?thesis using True
    by (auto simp: mem_slice_def Let_def min_def comp_def)
next
  case False
  then have "length rs \<le> unat after"
    using assms(1) by (simp add: u64_less_of_nat)
  then show ?thesis using False by (simp add: mem_slice_def)
qed

lemma mem_inv_CreateChannel:
  assumes inv: "mem_inv s" and step: "mem_CreateChannel s c ch = (s', r)"
  shows "mem_inv s'"
proof (cases "s' = s")
  case True
  with inv show ?thesis by simp
next
  case False
  let ?i = "identityOf (ch_key ch)"
  from step False have valid: "ValidateChannel ch = None"
    and uri: "\<And>u. map_of (ms_channelURIs s) ?i = Some u \<Longrightarrow> u = ch_uri ch"
    and fresh: "map_of (ms_transcripts s) (ch_key ch) = None"
    and s': "s' = s\<lparr>ms_channelURIs := AList.update ?i (ch_uri ch) (ms_channelURIs s),
             ms_events := (if map_of (ms_events s) ?i = None
                           then AList.update ?i [] (ms_events s) else ms_events s),
             ms_transcripts := AList.update (ch_key ch)
               \<lparr>tr_channel = ch, tr_records = []\<rparr> (ms_transcripts s)\<rparr>"
    by (auto simp: mem_CreateChannel_def Let_def split: option.splits if_splits)
  have ev: "mem_event s' identity e = mem_event s identity e" for identity e
    by (simp add: s' mem_event_def split: option.splits)
  have "mem_transcript_ok s' key t" if "map_of (ms_transcripts s') key = Some t" for key t
  proof (cases "key = ch_key ch")
    case True
    with that s' have "t = \<lparr>tr_channel = ch, tr_records = []\<rparr>" by simp
    with True valid show ?thesis
      by (auto simp: mem_transcript_ok_def s' contiguous_def)
  next
    case False
    with that s' have "map_of (ms_transcripts s) key = Some t" by simp
    with inv have "mem_transcript_ok s key t" by (rule mem_invD)
    then show ?thesis using uri unfolding mem_transcript_ok_def ev by (auto simp: s')
  qed
  moreover have "mem_index_ok s'"
    using inv fresh unfolding mem_inv_def mem_index_ok_def ev by (fastforce simp: s')
  ultimately show ?thesis by (simp add: mem_inv_def)
qed

lemma mem_inv_replace:
  assumes inv: "mem_inv s" and t: "map_of (ms_transcripts s) key = Some t"
    and m: "map_of (ms_events s) (identityOf key) = Some m"
    and keep: "\<And>r'. r' \<in> set rs' \<Longrightarrow> r' = r \<or> r' \<in> set (tr_records t) \<and> ar_event_id r' \<noteq> ar_event_id r"
    and all: "\<And>q. q \<in> set (tr_records t) \<Longrightarrow> ar_event_id q \<noteq> ar_event_id r \<Longrightarrow> q \<in> set rs'"
    and r: "r \<in> set rs'" "complete_record key r"
    and only: "\<And>q. mem_event s (identityOf key) (ar_event_id r) = Some q \<Longrightarrow> ar_channel q = key"
    and shape: "contiguous rs'" "distinct (map ar_event_id rs')"
  shows "mem_inv (mem_put s key t rs' m r)" (is "mem_inv ?s'")
proof -
  note ok = mem_invD [OF inv]
  have rk: "ar_channel r = key" using r(2) by (simp add: complete_record_def)
  have ev: "mem_event ?s' identity e = (if identity = identityOf key \<and> e = ar_event_id r then Some r
      else mem_event s identity e)" for identity e
    using m by (rule mem_event_commit)
  have "mem_transcript_ok ?s' k u" if u: "map_of (ms_transcripts ?s') k = Some u" for k u
  proof (cases "k = key")
    case True
    with u have "u = t\<lparr>tr_records := rs'\<rparr>" by simp
    then show ?thesis using True ok [OF t] shape r keep
      unfolding mem_transcript_ok_def ev by (auto simp: m)
  next
    case False
    with u have u': "map_of (ms_transcripts s) k = Some u" by simp
    have "\<not> (identityOf k = identityOf key \<and> ar_event_id q = ar_event_id r)"
      if "q \<in> set (tr_records u)" for q
      using ok [OF u'] that only False by (auto simp: mem_transcript_ok_def complete_record_def)
    then show ?thesis using ok [OF u'] unfolding mem_transcript_ok_def ev by (auto simp: m)
  qed
  moreover have "mem_index_ok ?s'"
    unfolding mem_index_ok_def ev
  proof (intro allI impI)
    fix identity e q
    assume q: "(if identity = identityOf key \<and> e = ar_event_id r then Some r
        else mem_event s identity e) = Some q"
    show "identityOf (ar_channel q) = identity \<and> ar_event_id q = e \<and>
      (\<exists>u. map_of (ms_transcripts ?s') (ar_channel q) = Some u \<and> q \<in> set (tr_records u))"
    proof (cases "identity = identityOf key \<and> e = ar_event_id r")
      case True
      with q rk r(1) show ?thesis by auto
    next
      case False
      with q have "mem_event s identity e = Some q" by simp
      with inv obtain u where u: "identityOf (ar_channel q) = identity" "ar_event_id q = e"
        "map_of (ms_transcripts s) (ar_channel q) = Some u" "q \<in> set (tr_records u)"
        unfolding mem_inv_def mem_index_ok_def by blast
      then show ?thesis using False t all by (cases "ar_channel q = key") auto
    qed
  qed
  ultimately show ?thesis by (simp add: mem_inv_def)
qed

section \<open>Appending\<close>

lemma mem_AppendChecked_cases:
  assumes "mem_AppendChecked s c i admit prepare = (s', res)"
  obtains (Failed) e where "s' = s" "res = Inl e"
    | (Duplicate) t existing where "s' = s" "ValidateIntent i = None"
        "map_of (ms_transcripts s) (in_channel i) = Some t"
        "mem_event s (identityOf (in_channel i)) (in_event_id i) = Some existing"
        "ar_channel existing = in_channel i" "ar_canonical existing = in_canonical i"
        "res = Inr \<lparr>res_outcome = AppendOutcomeDuplicate, res_record = existing\<rparr>"
    | (Appended) t r a p where "ValidateIntent i = None"
        "map_of (ms_transcripts s) (in_channel i) = Some t"
        "mem_event s (identityOf (in_channel i)) (in_event_id i) = None"
        "admit = Some a" "a (memoryAdmissionView s (in_channel i)) = None" "prepare = Some p"
        "p (of_nat (length (tr_records t) + 1)) (EventDigest (in_canonical i)) = Inr r"
        "ValidatePreparedRecord i (of_nat (length (tr_records t) + 1)) (EventDigest (in_canonical i)) r = None"
        "mem_commit s (in_channel i) (in_event_id i) t r = (s', res)"
proof (cases "c = None \<and> ValidateCheckedAppend i admit prepare = None")
  case False
  then show ?thesis using assms by (cases c) (auto simp: mem_AppendChecked_def intro: Failed)
next
  case True
  then obtain a p where ap: "ValidateIntent i = None" "admit = Some a" "prepare = Some p"
    by (auto simp: ValidateCheckedAppend_None)
  show ?thesis
  proof (cases "map_of (ms_transcripts s) (in_channel i)")
    case None
    then show ?thesis using assms True by (auto simp: mem_AppendChecked_def intro: Failed)
  next
    case (Some t)
    have "c = None" "ValidateCheckedAppend i (Some a) (Some p) = None"
      using True ap by auto
    note start = assms [unfolded ap mem_AppendChecked_def this Some Let_def, simplified]
    show ?thesis
    proof (cases "mem_event s (identityOf (in_channel i)) (in_event_id i)")
      case None
      then show ?thesis using start Some ap
        by (auto split: option.splits sum.splits intro: Failed Appended)
    next
      case (Some existing)
      then show ?thesis using start \<open>map_of (ms_transcripts s) (in_channel i) = Some t\<close> ap
        by (auto split: if_splits intro: Failed Duplicate)
    qed
  qed
qed

lemma mem_commit_eq:
  assumes "mem_inv s" "map_of (ms_transcripts s) key = Some t"
  shows "\<exists>m. map_of (ms_events s) (identityOf key) = Some m \<and>
    mem_commit s key (ar_event_id r) t r = (mem_put s key t (tr_records t @ [r]) m r,
      Inr \<lparr>res_outcome = AppendOutcomeAppended, res_record = r\<rparr>)"
  using mem_invD [OF assms] by (auto simp: mem_transcript_ok_def mem_commit_def)

lemma complete_prepared:
  assumes "ValidateIntent i = None" "ValidatePreparedRecord i n (EventDigest (in_canonical i)) r = None"
  shows "complete_record (in_channel i) r"
  using assms by (auto simp: complete_record_def ValidateIntent_def ValidatePreparedRecord_def split: if_splits)

lemma mem_inv_AppendChecked:
  assumes inv: "mem_inv s" and step: "mem_AppendChecked s c i admit prepare = (s', res)"
  shows "mem_inv s'"
  using step
proof (cases rule: mem_AppendChecked_cases)
  case (Appended t r a p)
  note r = ValidatePreparedRecord_NoneD [OF Appended(8)]
  have fresh: "ar_event_id r \<notin> ar_event_id ` set (tr_records t)"
    using mem_invD [OF inv Appended(2)] Appended(3) r(3) by (auto simp: mem_transcript_ok_def)
  obtain m where m: "map_of (ms_events s) (identityOf (in_channel i)) = Some m"
    "s' = mem_put s (in_channel i) t (tr_records t @ [r]) m r"
    using mem_commit_eq [OF inv Appended(2), of r] Appended(9) r(3) by auto
  show ?thesis
    unfolding m(2)
  proof (rule mem_inv_replace [OF inv Appended(2) m(1)])
    show "complete_record (in_channel i) r" using Appended by (intro complete_prepared)
    show "contiguous (tr_records t @ [r])" "distinct (map ar_event_id (tr_records t @ [r]))"
      using mem_invD [OF inv Appended(2)] r(2) fresh
      by (simp_all add: mem_transcript_ok_def contiguous_append)
  qed (use fresh Appended(3) r(3) in \<open>auto intro: rev_image_eqI\<close>)
qed (use inv in simp_all)

lemma mem_AppendChecked_records:
  assumes "mem_inv s" "mem_AppendChecked s c i admit prepare = (s', res)"
  shows "mem_records s' k = (case res of
      Inr a \<Rightarrow> if res_outcome a = AppendOutcomeAppended \<and> k = in_channel i
               then map_option (\<lambda>rs. rs @ [res_record a]) (mem_records s k) else mem_records s k
    | Inl _ \<Rightarrow> mem_records s k)"
  using assms(2)
proof (cases rule: mem_AppendChecked_cases)
  case (Appended t r a p)
  then show ?thesis
    using mem_commit_eq [OF assms(1) Appended(2), of r] ValidatePreparedRecord_NoneD(3) [OF Appended(8)]
    by (auto simp: mem_records_def)
qed (simp_all add: mem_records_def)

section \<open>Attaching signatures\<close>

lemma mem_AttachSignature_cases:
  assumes inv: "mem_inv s" and step: "mem_AttachSignature s c a = (s', x)"
  obtains (Failed) e where "s' = s" "x = Inl e"
    | (Present) t index r where "s' = s" "ValidateSignatureAttachment a = None"
        "map_of (ms_transcripts s) (sa_channel a) = Some t"
        "find_receipt (sa_receipt_id a) 0 (tr_records t) = Some (index, r)"
        "ar_preimage r = sa_preimage a" "ar_signature r = sa_signature a" "x = Inr r"
    | (Attached) t index r m where "ValidateSignatureAttachment a = None"
        "map_of (ms_transcripts s) (sa_channel a) = Some t"
        "find_receipt (sa_receipt_id a) 0 (tr_records t) = Some (index, r)"
        "ar_preimage r = sa_preimage a" "ar_signature r = []"
        "map_of (ms_events s) (identityOf (sa_channel a)) = Some m"
        "s' = mem_put s (sa_channel a) t ((tr_records t)[index := r\<lparr>ar_signature := sa_signature a\<rparr>]) m
           (r\<lparr>ar_signature := sa_signature a\<rparr>)"
        "x = Inr (r\<lparr>ar_signature := sa_signature a\<rparr>)"
proof (cases "c = None \<and> ValidateSignatureAttachment a = None")
  case False
  then show ?thesis using step by (cases c) (auto simp: mem_AttachSignature_def intro: Failed)
next
  case True
  show ?thesis
  proof (cases "map_of (ms_transcripts s) (sa_channel a)")
    case None
    then show ?thesis using step True by (auto simp: mem_AttachSignature_def intro: Failed)
  next
    case (Some t)
    note t = Some
    obtain m where m: "map_of (ms_events s) (identityOf (sa_channel a)) = Some m"
      using mem_invD [OF inv t] by (auto simp: mem_transcript_ok_def)
    note start = step [unfolded mem_AttachSignature_def Let_def, simplified True t m, simplified]
    show ?thesis
    proof (cases "find_receipt (sa_receipt_id a) 0 (tr_records t)")
      case None
      then show ?thesis using start by (auto intro: Failed)
    next
      case (Some ir)
      then show ?thesis using start t True m
        by (cases ir) (auto split: if_splits intro: Failed Present Attached)
    qed
  qed
qed

lemma mem_inv_AttachSignature:
  assumes inv: "mem_inv s" and step: "mem_AttachSignature s c a = (s', x)"
  shows "mem_inv s'"
  using assms
proof (cases rule: mem_AttachSignature_cases)
  case (Attached t index r m)
  let ?r = "r\<lparr>ar_signature := sa_signature a\<rparr>" and ?rs = "tr_records t"
  have i: "index < length ?rs" "?rs ! index = r"
    using find_receipt_Some [OF Attached(3)] by auto
  note ok = mem_invD [OF inv Attached(2), unfolded mem_transcript_ok_def]
  have ids: "map ar_event_id (?rs[index := ?r]) = map ar_event_id ?rs"
    using i by (simp add: map_update list_update_same_conv)
  have other: "ar_event_id (?rs ! j) \<noteq> ar_event_id r" if "j < length ?rs" "j \<noteq> index" for j
    using ok i that by (auto simp: distinct_conv_nth)
  have r: "r \<in> set ?rs" using i nth_mem by blast
  show ?thesis
    unfolding Attached(7)
  proof (rule mem_inv_replace [OF inv Attached(2,6)])
    show "contiguous (?rs[index := ?r])"
      using ok i by (intro contiguous_update) (auto simp: rec_le_def Attached(5))
    show "distinct (map ar_event_id (?rs[index := ?r]))" using ok ids by simp
    show "complete_record (sa_channel a) ?r" using ok r by (auto simp: complete_record_def)
    show "?r \<in> set (?rs[index := ?r])" using i by (simp add: set_update_memI)
    fix q
    show "q = ?r \<or> q \<in> set ?rs \<and> ar_event_id q \<noteq> ar_event_id ?r" if "q \<in> set (?rs[index := ?r])"
      using that i other by (auto simp: in_set_conv_nth nth_list_update split: if_splits)
    show "q \<in> set (?rs[index := ?r])" if "q \<in> set ?rs" "ar_event_id q \<noteq> ar_event_id ?r"
      using that i by (auto simp: in_set_conv_nth nth_list_update)
    show "ar_channel q = sa_channel a" if "mem_event s (identityOf (sa_channel a)) (ar_event_id ?r) = Some q"
      using that ok r by (auto simp: complete_record_def)
  qed
qed (use inv in simp_all)

section \<open>The contract\<close>

lemma mem_AppendChecked_extends:
  assumes "mem_inv s" "mem_AppendChecked s c i admit prepare = (s', res)" "mem_records s k = Some rs"
  shows "\<exists>rs'. mem_records s' k = Some rs' \<and> extends rs rs'"
  using mem_AppendChecked_records [OF assms(1,2), of k] assms(3) by (auto split: sum.splits)

lemma mem_AttachSignature_extends:
  assumes "mem_inv s" "mem_AttachSignature s c a = (s', x)" "mem_records s k = Some rs"
  shows "\<exists>rs'. mem_records s' k = Some rs' \<and> extends rs rs'"
  using assms(1,2)
proof (cases rule: mem_AttachSignature_cases)
  case (Attached t index r m)
  have "index < length (tr_records t)" "tr_records t ! index = r"
    using find_receipt_Some [OF Attached(3)] by auto
  then have "extends (tr_records t) ((tr_records t)[index := r\<lparr>ar_signature := sa_signature a\<rparr>])"
    by (intro extends_update) (auto simp: rec_le_def Attached(5))
  then show ?thesis using assms(3) Attached by (auto simp: mem_records_def)
qed (use assms(3) in simp_all)

lemma mem_CreateChannel_extends:
  assumes "mem_CreateChannel s c ch = (s', x)" "mem_records s k = Some rs"
  shows "\<exists>rs'. mem_records s' k = Some rs' \<and> extends rs rs'"
  using assms
  by (auto simp: mem_CreateChannel_def Let_def mem_records_def split: option.splits if_splits)

lemma mem_AppendChecked_ok:
  assumes inv: "mem_inv s" and step: "mem_AppendChecked s c i admit prepare = (s', Inr res)"
  shows "\<exists>rs. mem_records s' (in_channel i) = Some rs \<and> res_record res \<in> set rs \<and>
    ar_channel (res_record res) = in_channel i \<and> ar_event_id (res_record res) = in_event_id i \<and>
    ar_canonical (res_record res) = in_canonical i"
  using step
proof (cases rule: mem_AppendChecked_cases)
  case (Duplicate t existing)
  then show ?thesis using mem_indexD [OF inv Duplicate(4)] by (auto simp: mem_records_def)
next
  case (Appended t r a p)
  then have "mem_records s (in_channel i) = Some (tr_records t)" by (simp add: mem_records_def)
  moreover have "res = \<lparr>res_outcome = AppendOutcomeAppended, res_record = r\<rparr>"
    using mem_commit_eq [OF inv Appended(2), of r] ValidatePreparedRecord_NoneD(3) [OF Appended(8)]
      Appended(9) by auto
  ultimately show ?thesis
    using mem_AppendChecked_records [OF inv step] ValidatePreparedRecord_NoneD [OF Appended(8)] by simp
qed simp

lemma mem_AppendChecked_prepared:
  assumes inv: "mem_inv s" and step: "mem_AppendChecked s c i admit prepare = (s', Inr res)"
    and new: "res_outcome res = AppendOutcomeAppended"
  shows "\<exists>p n. prepare = Some p \<and> p n (EventDigest (in_canonical i)) = Inr (res_record res)"
  using step
proof (cases rule: mem_AppendChecked_cases)
  case (Appended t r a p)
  then show ?thesis
    using mem_commit_eq [OF inv Appended(2), of r] ValidatePreparedRecord_NoneD(3) [OF Appended(8)]
    by auto
qed (use new in simp_all)

lemma mem_AttachSignature_ok:
  assumes inv: "mem_inv s" and step: "mem_AttachSignature s c a = (s', Inr sg)"
  shows "\<exists>rs. mem_records s' (sa_channel a) = Some rs \<and> sg \<in> set rs \<and>
    ar_receipt_id sg = sa_receipt_id a \<and> ar_preimage sg = sa_preimage a \<and>
    ar_signature sg = sa_signature a \<and> sa_signature a \<noteq> []"
  using inv step
proof (cases rule: mem_AttachSignature_cases)
  case (Present t index r)
  then show ?thesis using find_receipt_Some [OF Present(4)]
    by (auto simp: mem_records_def ValidateSignatureAttachment_def split: if_splits)
next
  case (Attached t index r m)
  then show ?thesis using find_receipt_Some [OF Attached(3)]
    by (auto simp: mem_records_def ValidateSignatureAttachment_def set_update_memI split: if_splits)
qed simp

lemma mem_Lookup_ok:
  assumes "mem_inv s" "mem_Lookup s c k e = Inr found"
  shows "\<exists>rs. mem_records s (ar_channel found) = Some rs \<and> found \<in> set rs \<and> ar_event_id found = e"
proof -
  have "mem_event s (identityOf k) e = Some found"
    using assms(2) by (auto simp: mem_Lookup_def split: option.splits if_splits)
  from mem_indexD [OF assms(1) this] show ?thesis by (auto simp: mem_records_def)
qed

lemma mem_Lookup_found:
  assumes "mem_inv s" "mem_records s k = Some rs" "found \<in> set rs"
  shows "mem_Lookup s None k (ar_event_id found) = Inr found"
  using assms
  by (auto simp: mem_Lookup_def mem_records_def mem_transcript_ok_def complete_record_def
      ValidateChannel_def dest!: mem_invD split: if_splits)

lemma mem_AttachSignature_unique:
  assumes inv: "mem_inv s" and k: "mem_records s k = Some rs" "found \<in> set rs"
    and only: "\<And>q. q \<in> set rs \<Longrightarrow> ar_receipt_id q = ar_receipt_id found \<Longrightarrow> q = found"
    and pending: "ar_signature found = []" and sig: "sig \<noteq> []"
  shows "snd (mem_AttachSignature s None
    \<lparr>sa_channel = k, sa_receipt_id = ar_receipt_id found, sa_preimage = ar_preimage found,
     sa_signature = sig\<rparr>) = Inr (found\<lparr>ar_signature := sig\<rparr>)" (is "snd (mem_AttachSignature s None ?a) = _")
proof -
  obtain t where t: "map_of (ms_transcripts s) k = Some t" "tr_records t = rs"
    using k by (auto simp: mem_records_def)
  note ok = mem_invD [OF inv t(1), unfolded mem_transcript_ok_def t(2)]
  have "ValidateSignatureAttachment ?a = None"
    using ok k(2) sig
    by (auto simp: ValidateSignatureAttachment_def ValidateChannel_def complete_record_def split: if_splits)
  moreover obtain index where "find_receipt (ar_receipt_id found) 0 rs = Some (index, found)"
  proof (cases "find_receipt (ar_receipt_id found) 0 rs")
    case None
    with k(2) show ?thesis by (auto simp: find_receipt_None)
  next
    case (Some ir)
    then show ?thesis using that find_receipt_Some [of _ 0 rs "fst ir" "snd ir"] only nth_mem
      by (cases ir) force
  qed
  ultimately show ?thesis
    using t ok pending by (auto simp: mem_AttachSignature_def Let_def)
qed

lemma mem_Read_page:
  assumes "mem_records s k = Some rs" "length rs < 2 ^ 64" "1 \<le> limit" "limit \<le> 1000"
  shows "mem_Read s None k after limit = Inr (take (nat limit) (drop (unat after) rs))"
  using assms by (auto simp: mem_Read_def mem_records_def mem_slice_eq)

lemmas mem_contract = mem_inv_AppendChecked mem_AppendChecked_extends mem_AppendChecked_ok
  mem_AppendChecked_prepared mem_inv_AttachSignature mem_AttachSignature_extends
  mem_AttachSignature_ok mem_Lookup_ok mem_Lookup_found mem_AttachSignature_unique mem_Read_page

interpretation mem: relay_store mem_Store mem_inv mem_records "\<lambda>_. True"
  by (unfold_locales; unfold mem_Store_def Store.select_convs) (rule mem_contract; blast)+

section \<open>Every history of the store\<close>

inductive mem_step :: "MemStore \<Rightarrow> MemStore \<Rightarrow> bool" where
  create: "mem_CreateChannel s c ch = (s', r) \<Longrightarrow> mem_step s s'"
| append: "mem_AppendChecked s c i admit prepare = (s', res) \<Longrightarrow> mem_step s s'"
| attach: "mem_AttachSignature s c a = (s', x) \<Longrightarrow> mem_step s s'"

lemma mem_step_inv: "mem_step s s' \<Longrightarrow> mem_inv s \<Longrightarrow> mem_inv s'"
  by (induction rule: mem_step.induct)
    (blast intro: mem_inv_CreateChannel mem_inv_AppendChecked mem_inv_AttachSignature)+

lemma mem_steps_inv: "mem_step\<^sup>*\<^sup>* s s' \<Longrightarrow> mem_inv s \<Longrightarrow> mem_inv s'"
  by (induction rule: rtranclp_induct) (auto intro: mem_step_inv)

lemma mem_step_extends:
  "mem_step s s' \<Longrightarrow> mem_inv s \<Longrightarrow> mem_records s k = Some rs \<Longrightarrow>
     \<exists>rs'. mem_records s' k = Some rs' \<and> extends rs rs'"
  by (induction rule: mem_step.induct)
    (blast intro: mem_CreateChannel_extends mem_AppendChecked_extends mem_AttachSignature_extends)+

lemma mem_steps_extends:
  "mem_step\<^sup>*\<^sup>* s s' \<Longrightarrow> mem_inv s \<Longrightarrow> mem_records s k = Some rs \<Longrightarrow>
     \<exists>rs'. mem_records s' k = Some rs' \<and> extends rs rs'"
proof (induction rule: rtranclp_induct)
  case base
  then show ?case by auto
next
  case (step y z)
  then show ?case
    using mem_step_extends [OF step.hyps(2) mem_steps_inv [OF step.hyps(1)]] by (blast intro: extends_trans)
qed

lemma mem_retry:
  assumes inv: "mem_inv s" and k: "mem_records s (in_channel i) = Some rs" "r \<in> set rs"
    and same: "ar_event_id r = in_event_id i" "ar_canonical r = in_canonical i"
    and fns: "admit \<noteq> None" "prepare \<noteq> None"
  shows "mem_AppendChecked s None i admit prepare =
    (s, Inr \<lparr>res_outcome = AppendOutcomeDuplicate, res_record = r\<rparr>)"
proof -
  obtain t where t: "map_of (ms_transcripts s) (in_channel i) = Some t" "tr_records t = rs"
    using k by (auto simp: mem_records_def)
  note ok = mem_invD [OF inv t(1), unfolded mem_transcript_ok_def t(2)]
  have "ValidateIntent i = None"
    using ok k(2) same unfolding ValidateIntent_def
    by (auto simp: ValidateChannel_def complete_record_def split: if_splits)
  then have "ValidateCheckedAppend i admit prepare = None"
    using fns by (auto simp: ValidateCheckedAppend_None)
  then show ?thesis
    using t ok k(2) same by (auto simp: mem_AppendChecked_def complete_record_def)
qed

text \<open>A concrete channel with one accepted record, on which the witnesses below run.\<close>

definition ex_key :: ChannelKey where
  "ex_key = \<lparr>ck_tenant = ''t'', ck_channel = ''c'', ck_epoch = ''e''\<rparr>"

definition ex_channel :: Channel where
  "ex_channel = \<lparr>ch_key = ex_key, ch_uri = ''u'', ch_metadata = [1], ch_metadata_digest = ''d'',
     ch_lifecycle = ''active''\<rparr>"

definition ex_intent :: AppendIntent where
  "ex_intent = \<lparr>in_channel = ex_key, in_event_id = ''ev'', in_canonical = [7]\<rparr>"

definition ex_prepare :: PrepareRecord where
  "ex_prepare n d = Inr \<lparr>ar_channel = ex_key, ar_sequence = n, ar_event_id = ''ev'', ar_canonical = [7],
     ar_digest = d, ar_authn = [1], ar_authz = [1], ar_receipt_id = ''r'', ar_key_id = ''k'',
     ar_algorithm = ''a'', ar_preimage = [9], ar_signature = []\<rparr>"

definition ex_record :: AcceptedRecord where
  "ex_record = projr (ex_prepare 1 (EventDigest [7]))"

definition ex_store0 :: MemStore where
  "ex_store0 = fst (mem_CreateChannel mem_New None ex_channel)"

definition ex_store1 :: MemStore where
  "ex_store1 = fst (mem_AppendChecked ex_store0 None ex_intent (Some (\<lambda>_. None)) (Some ex_prepare))"

lemmas ex_defs = ex_key_def ex_channel_def ex_intent_def ex_prepare_def ex_record_def

lemma ex_store0_eq: "ex_store0 = \<lparr>ms_transcripts = [(ex_key, \<lparr>tr_channel = ex_channel, tr_records = []\<rparr>)],
    ms_channelURIs = [((''t'', ''c''), ''u'')], ms_events = [((''t'', ''c''), [])]\<rparr>"
  by (simp add: ex_store0_def mem_CreateChannel_def mem_New_def ValidateChannel_def identityOf_def
      ex_defs Let_def)

lemma ex_append: "mem_AppendChecked ex_store0 None ex_intent (Some (\<lambda>_. None)) (Some ex_prepare) =
    (ex_store1, Inr \<lparr>res_outcome = AppendOutcomeAppended, res_record = ex_record\<rparr>)"
  by (simp add: ex_store0_eq ex_store1_def mem_AppendChecked_def ValidateCheckedAppend_def
      ValidateAppendIntent_def ValidateIntent_def mem_event_def identityOf_def mem_commit_def
      ValidatePreparedRecord_def ex_defs Let_def)

lemma ex_store1_records: "mem_records ex_store1 ex_key = Some [ex_record]"
  by (simp add: ex_store0_eq ex_store1_def mem_AppendChecked_def ValidateCheckedAppend_def
      ValidateAppendIntent_def ValidateIntent_def mem_event_def identityOf_def mem_commit_def
      ValidatePreparedRecord_def mem_records_def ex_defs Let_def)

lemma ex_store0_reachable: "mem_step\<^sup>*\<^sup>* mem_New ex_store0"
  by (rule r_into_rtranclp, rule mem_step.create [of _ None ex_channel], unfold ex_store0_def)
    (simp add: prod_eq_iff)

lemma ex_steps: "mem_step\<^sup>*\<^sup>* ex_store0 ex_store1"
  by (rule r_into_rtranclp) (rule mem_step.append [OF ex_append])

lemma ex_store1_reachable: "mem_step\<^sup>*\<^sup>* mem_New ex_store1"
  using ex_store0_reachable ex_steps by (rule rtranclp_trans)

section \<open>Properties\<close>

text \<open>
  C1: in every state the in-memory store can reach, the store invariant holds: each transcript belongs
  to a valid channel bound to one URI, is numbered 1, 2, 3, ... without gaps, has distinct event
  identities and complete records with the digest of their canonical bytes, and the event index
  holds exactly the records of the transcripts.
\<close>

theorem mem_reachable_inv:
  assumes "mem_step\<^sup>*\<^sup>* mem_New s"
  shows "mem_inv s"
  by (rule mem_steps_inv [OF assms mem_inv_New])

theorem mem_reachable_inv_witness: "mem_inv ex_store1 \<and> mem_records ex_store1 ex_key = Some [ex_record]"
  using mem_reachable_inv [OF ex_store1_reachable] ex_store1_records by simp

text \<open>
  History is append-only. Whatever operations follow, a transcript keeps every record at its
  position; the only change to a record is that an unsigned one may receive its signature.
\<close>

theorem mem_history_append_only:
  assumes "mem_step\<^sup>*\<^sup>* mem_New s" "mem_step\<^sup>*\<^sup>* s s'" "mem_records s key = Some rs"
  shows "\<exists>rs'. mem_records s' key = Some rs' \<and> length rs \<le> length rs' \<and>
    (\<forall>i < length rs. rs' ! i = rs ! i \<or>
       ar_signature (rs ! i) = [] \<and> rs' ! i = (rs ! i)\<lparr>ar_signature := ar_signature (rs' ! i)\<rparr>)"
  using mem_steps_extends [OF assms(2) mem_steps_inv [OF assms(1) mem_inv_New] assms(3)]
  by (auto simp: extends_def rec_le_def)

text \<open>
  Appends are idempotent. Once an append of an intent has succeeded, the same intent presented
  again at any later time, with any callbacks, returns the accepted record as a duplicate (with the
  signature it may have received meanwhile) and leaves the store unchanged.
\<close>

theorem mem_append_idempotent:
  assumes "mem_step\<^sup>*\<^sup>* mem_New s" "mem_AppendChecked s c i admit prepare = (s1, Inr res)"
    and "mem_step\<^sup>*\<^sup>* s1 s2" and "admit' \<noteq> None" "prepare' \<noteq> None"
  shows "\<exists>r. mem_AppendChecked s2 None i admit' prepare' =
      (s2, Inr \<lparr>res_outcome = AppendOutcomeDuplicate, res_record = r\<rparr>) \<and> rec_le (res_record res) r"
proof -
  have inv: "mem_inv s" "mem_inv s1"
    using assms(1,2) by (blast intro: mem_steps_inv mem_inv_New mem_inv_AppendChecked)+
  obtain rs where rs: "mem_records s1 (in_channel i) = Some rs" "res_record res \<in> set rs"
    "ar_event_id (res_record res) = in_event_id i" "ar_canonical (res_record res) = in_canonical i"
    using mem_AppendChecked_ok [OF inv(1) assms(2)] by blast
  then obtain n where n: "n < length rs" "rs ! n = res_record res" by (auto simp: in_set_conv_nth)
  obtain rs' where rs': "mem_records s2 (in_channel i) = Some rs'" "extends rs rs'"
    using mem_steps_extends [OF assms(3) inv(2) rs(1)] by blast
  then have le: "rec_le (res_record res) (rs' ! n)" and mem: "rs' ! n \<in> set rs'"
    using n by (auto simp: extends_def)
  have "mem_AppendChecked s2 None i admit' prepare' =
      (s2, Inr \<lparr>res_outcome = AppendOutcomeDuplicate, res_record = rs' ! n\<rparr>)"
    using mem_steps_inv [OF assms(3) inv(2)] rs'(1) mem
    by (rule mem_retry) (use assms(4,5) rs(3,4) rec_le_fields [OF le] in simp_all)
  with le show ?thesis by blast
qed

text \<open>
  A page is exact. For a transcript that a 64-bit cursor can number, \<^verbatim>\<open>Read\<close> returns the records
  with sequence \<^verbatim>\<open>after+1, after+2, ...\<close>, as many as the limit and the transcript allow.
\<close>

theorem mem_Read_exact:
  assumes "mem_step\<^sup>*\<^sup>* mem_New s" "mem_records s key = Some rs" "length rs < 2 ^ 64"
    and "1 \<le> limit" "limit \<le> 1000"
  shows "\<exists>page. mem_Read s None key after limit = Inr page \<and>
    length page = min (nat limit) (length rs - unat after) \<and>
    (\<forall>j < length page. page ! j = rs ! (unat after + j) \<and> ar_sequence (page ! j) = after + of_nat (j + 1))"
proof -
  have "contiguous rs"
    using mem_invD [OF mem_steps_inv [OF assms(1) mem_inv_New]] assms(2)
    by (auto simp: mem_records_def mem_transcript_ok_def)
  then show ?thesis using mem_Read_page [OF assms(2-5)]
    by (auto simp: contiguous_def)
qed

end
