(* ===== verification/Append_Service.thy ===== *)
theory Append_Service
  imports Relay_Memory
begin

text \<open>
  The append use case, \<^verbatim>\<open>internal/relay/service/append.go\<close>. It calls the store up to three times and
  holds no lock in between, so other requests may run between its calls: a \<open>schedule\<close> says what the store
  state has become at each call and what the context reports then. The client lemmas are proved from the
  contract of the store alone and reach the in-memory store by its interpretation.
\<close>

section \<open>The service\<close>

record SigningSelection =
  sel_key :: string
  sel_algorithm :: string

text \<open>The interface \<^verbatim>\<open>Signer\<close>: the answers of its two methods during one request.\<close>

record Signer =
  sg_Select :: "relay_error + SigningSelection"
  sg_Sign :: "AcceptedRecord \<Rightarrow> relay_error + bytes"

type_synonym ServicePrepare = "u64 \<Rightarrow> string \<Rightarrow> SigningSelection \<Rightarrow> relay_error + AcceptedRecord"

record 's AppendService =
  as_store :: "'s Store"
  as_signer :: Signer

record 's schedule =
  at_lookup :: ctx
  at_append :: ctx
  at_attach :: ctx
  before_append :: "'s \<Rightarrow> 's"
  before_attach :: "'s \<Rightarrow> 's"

definition NewAppendService :: "'s Store option \<Rightarrow> Signer option \<Rightarrow> relay_error + 's AppendService" where
  "NewAppendService store signer =
     (case (store, signer) of
        (Some st, Some sg) \<Rightarrow> Inr \<lparr>as_store = st, as_signer = sg\<rparr>
      | _ \<Rightarrow> Inl ErrInvalidArgument)"

definition ensureSigned ::
  "'s AppendService \<Rightarrow> 's schedule \<Rightarrow> 's \<Rightarrow> AppendResult \<Rightarrow> 's \<times> (relay_error + AppendResult)" where
  "ensureSigned svc sched s result =
     (if length (ar_signature (res_record result)) > 0 then (s, Inr result)
      else case sg_Sign (as_signer svc) (res_record result) of
        Inl e \<Rightarrow> (s, Inl (Errorf ''sign receipt'' ErrSignaturePending))
      | Inr signature \<Rightarrow>
        case st_AttachSignature (as_store svc) (before_attach sched s) (at_attach sched)
            \<lparr>sa_channel = ar_channel (res_record result), sa_receipt_id = ar_receipt_id (res_record result),
             sa_preimage = ar_preimage (res_record result), sa_signature = signature\<rparr> of
          (s', Inl e) \<Rightarrow> (s', Inl (Errorf ''persist receipt signature'' ErrSignaturePending))
        | (s', Inr sg) \<Rightarrow> (s', Inr (result\<lparr>res_record := sg\<rparr>)))"

text \<open>The closure that checks the prepared record against the selected signing key.\<close>

definition bindSelection :: "SigningSelection \<Rightarrow> ServicePrepare \<Rightarrow> PrepareRecord" where
  "bindSelection selection prepare sequence digest =
     (case prepare sequence digest selection of
        Inl e \<Rightarrow> Inl e
      | Inr record \<Rightarrow>
          if ar_key_id record \<noteq> sel_key selection \<or> ar_algorithm record \<noteq> sel_algorithm selection
          then Inl (Errorf ''prepared receipt changed signing selection'' ErrInvalidArgument)
          else Inr record)"

definition AppendService_AppendChecked ::
  "'s AppendService \<Rightarrow> 's schedule \<Rightarrow> 's \<Rightarrow> AppendIntent \<Rightarrow> Admit option \<Rightarrow> ServicePrepare option
     \<Rightarrow> 's \<times> (relay_error + AppendResult)" where
  "AppendService_AppendChecked svc sched s intent admit prepare =
     (case (admit, prepare) of (Some adm, Some prep) \<Rightarrow>
       (case ValidateIntent intent of Some e \<Rightarrow> (s, Inl e) | None \<Rightarrow>
        case st_Lookup (as_store svc) s (at_lookup sched) (in_channel intent) (in_event_id intent) of
          Inr existing \<Rightarrow>
            (if ar_channel existing \<noteq> in_channel intent \<or> ar_canonical existing \<noteq> in_canonical intent
             then (s, Inl ErrEventIDCollision)
             else ensureSigned svc sched s
               \<lparr>res_outcome = AppendOutcomeDuplicate, res_record = existing\<rparr>)
        | Inl e \<Rightarrow>
          if \<not> errors_Is e ErrEventNotFound then (s, Inl e)
          else case sg_Select (as_signer svc) of
            Inl e' \<Rightarrow> (s, Inl (Errorf ''select receipt signing key'' e'))
          | Inr selection \<Rightarrow>
            if sel_key selection = '''' \<or> sel_algorithm selection = ''''
            then (s, Inl (Errorf ''incomplete signing selection'' ErrInvalidArgument))
            else case st_AppendChecked (as_store svc) (before_append sched s) (at_append sched) intent
                (Some adm) (Some (bindSelection selection prep)) of
              (s', Inl e') \<Rightarrow> (s', Inl e')
            | (s', Inr result) \<Rightarrow> ensureSigned svc sched s' result)
      | _ \<Rightarrow> (s, Inl ErrInvalidArgument))"

definition AppendService_Append ::
  "'s AppendService \<Rightarrow> 's schedule \<Rightarrow> 's \<Rightarrow> AppendIntent \<Rightarrow> ServicePrepare option
     \<Rightarrow> 's \<times> (relay_error + AppendResult)" where
  "AppendService_Append svc sched s intent prepare =
     AppendService_AppendChecked svc sched s intent (Some (\<lambda>_. None)) prepare"

section \<open>What the service guarantees over any store\<close>

text \<open>\<open>quiet\<close>: the requests that run in between obey the contract of the store.\<close>

definition quiet :: "('s \<Rightarrow> bool) \<Rightarrow> ('s \<Rightarrow> ChannelKey \<Rightarrow> AcceptedRecord list option) \<Rightarrow> ('s \<Rightarrow> 's) \<Rightarrow> bool" where
  "quiet ok records f \<longleftrightarrow> (\<forall>s. ok s \<longrightarrow> ok (f s) \<and>
     (\<forall>k rs. records s k = Some rs \<longrightarrow> (\<exists>rs'. records (f s) k = Some rs' \<and> extends rs rs')))"

text \<open>\<open>accepted\<close>: the transcript holds the intent's event with this receipt and preimage.\<close>

definition accepted :: "AcceptedRecord list \<Rightarrow> AppendIntent \<Rightarrow> string \<Rightarrow> bytes \<Rightarrow> bool" where
  "accepted rs i receipt preimage \<longleftrightarrow> (\<exists>r \<in> set rs. ar_event_id r = in_event_id i \<and>
     ar_canonical r = in_canonical i \<and> ar_receipt_id r = receipt \<and> ar_preimage r = preimage)"

lemma extends_mem: "extends rs rs' \<Longrightarrow> r \<in> set rs \<Longrightarrow> \<exists>r' \<in> set rs'. rec_le r r'"
  unfolding extends_def in_set_conv_nth by (metis nth_mem order_less_le_trans)

lemma accepted_extends: "extends rs rs' \<Longrightarrow> accepted rs i q p \<Longrightarrow> accepted rs' i q p"
  unfolding accepted_def by (metis extends_mem rec_le_fields(3,4,6,7))

context relay_store_safe
begin

lemma quiet_records:
  assumes "quiet inv records f" "inv s" "records s k = Some rs"
  shows "inv (f s)" "\<exists>rs'. records (f s) k = Some rs' \<and> extends rs rs'"
  using assms by (auto simp: quiet_def)

lemma ensureSigned_durable:
  assumes svc: "as_store svc = st" and q: "quiet inv records (before_attach sched)" and inv: "inv s"
    and k: "records s (in_channel i) = Some rs" "res_record result \<in> set rs"
    and r: "ar_channel (res_record result) = in_channel i"
      "ar_event_id (res_record result) = in_event_id i" "ar_canonical (res_record result) = in_canonical i"
    and step: "ensureSigned svc sched s result = (s', Inr res)"
  shows "inv s' \<and> (\<exists>rs'. records s' (in_channel i) = Some rs' \<and> res_record res \<in> set rs' \<and>
    ar_signature (res_record res) \<noteq> [] \<and>
    accepted rs' i (ar_receipt_id (res_record res)) (ar_preimage (res_record res)))"
proof (cases "ar_signature (res_record result) = []")
  case False
  then have "s' = s" "res = result" using step by (auto simp: ensureSigned_def)
  then show ?thesis using False k r inv by (auto simp: accepted_def)
next
  case True
  have acc: "accepted rs i (ar_receipt_id (res_record result)) (ar_preimage (res_record result))"
    using k(2) r by (auto simp: accepted_def)
  from True step obtain sig where attach:
    "st_AttachSignature st (before_attach sched s) (at_attach sched)
       \<lparr>sa_channel = in_channel i, sa_receipt_id = ar_receipt_id (res_record result),
        sa_preimage = ar_preimage (res_record result), sa_signature = sig\<rparr> = (s', Inr (res_record res))"
    by (auto simp: ensureSigned_def svc r split: sum.splits prod.splits)
  note pre = quiet_records [OF q inv k(1)]
  obtain rs1 where rs1: "records (before_attach sched s) (in_channel i) = Some rs1" "extends rs rs1"
    using pre(2) by blast
  obtain rs2 where rs2: "records s' (in_channel i) = Some rs2" "extends rs1 rs2"
    using attach_extends [OF pre(1) attach rs1(1)] by blast
  from attach_ok [OF pre(1) attach] rs2(1) have
    "res_record res \<in> set rs2" "ar_signature (res_record res) \<noteq> []"
    "ar_receipt_id (res_record res) = ar_receipt_id (res_record result)"
    "ar_preimage (res_record res) = ar_preimage (res_record result)" by auto
  moreover have "accepted rs2 i (ar_receipt_id (res_record result)) (ar_preimage (res_record result))"
    using acc rs1(2) rs2(2) by (blast intro: accepted_extends)
  ultimately show ?thesis using rs2(1) attach_inv [OF pre(1) attach] by auto
qed

lemma append_durable:
  assumes svc: "as_store svc = st" and inv: "inv s"
    and q: "quiet inv records (before_append sched)" "quiet inv records (before_attach sched)"
    and sound: "\<And>prep sel. prepare = Some prep \<Longrightarrow> storable (bindSelection sel prep)"
    and step: "AppendService_AppendChecked svc sched s i admit prepare = (s', Inr res)"
  shows "inv s' \<and> (\<exists>rs'. records s' (in_channel i) = Some rs' \<and> res_record res \<in> set rs' \<and>
    ar_signature (res_record res) \<noteq> [] \<and>
    accepted rs' i (ar_receipt_id (res_record res)) (ar_preimage (res_record res)))"
proof (cases "st_Lookup st s (at_lookup sched) (in_channel i) (in_event_id i)")
  case (Inr found)
  then have f: "ar_channel found = in_channel i" "ar_canonical found = in_canonical i"
    "ensureSigned svc sched s \<lparr>res_outcome = AppendOutcomeDuplicate, res_record = found\<rparr> = (s', Inr res)"
    using step by (auto simp: AppendService_AppendChecked_def svc split: option.splits if_splits)
  obtain rs where "records s (in_channel i) = Some rs" "found \<in> set rs" "ar_event_id found = in_event_id i"
    using lookup_ok [OF inv Inr] f(1) by auto
  with f show ?thesis by (intro ensureSigned_durable [OF svc q(2) inv]) auto
next
  case (Inl e)
  then obtain s1 r1 adm prep sel where f:
    "st_AppendChecked st (before_append sched s) (at_append sched) i adm (Some (bindSelection sel prep)) = (s1, Inr r1)"
    "ensureSigned svc sched s1 r1 = (s', Inr res)" "prepare = Some prep"
    using step by (auto simp: AppendService_AppendChecked_def svc split: option.splits if_splits sum.splits prod.splits)
  have pre: "inv (before_append sched s)" using q(1) inv by (auto simp: quiet_def)
  obtain rs where "records s1 (in_channel i) = Some rs" "res_record r1 \<in> set rs"
    "ar_channel (res_record r1) = in_channel i" "ar_event_id (res_record r1) = in_event_id i"
    "ar_canonical (res_record r1) = in_canonical i"
    using append_ok [OF pre f(1)] sound [OF f(3)] by auto
  with f(2) show ?thesis
    by (intro ensureSigned_durable [OF svc q(2) append_inv [OF pre f(1)]]) auto
qed

end

context relay_store
begin

lemma pending_retry:
  assumes svc: "as_store svc = st" and inv: "inv s" and live: "at_lookup sched = None" "at_attach sched = None"
    and idle: "before_attach sched s = s" and valid: "ValidateIntent i = None"
    and k: "records s (in_channel i) = Some rs" "r \<in> set rs"
    and r: "ar_channel r = in_channel i" "ar_event_id r = in_event_id i" "ar_canonical r = in_canonical i"
    and pending: "ar_signature r = []"
    and only: "\<And>q. q \<in> set rs \<Longrightarrow> ar_receipt_id q = ar_receipt_id r \<Longrightarrow> q = r"
    and fns: "admit \<noteq> None" "prepare \<noteq> None"
  shows "case sg_Sign (as_signer svc) r of
      Inl e \<Rightarrow> AppendService_AppendChecked svc sched s i admit prepare =
        (s, Inl (Errorf ''sign receipt'' ErrSignaturePending))
    | Inr sig \<Rightarrow> sig \<noteq> [] \<longrightarrow> snd (AppendService_AppendChecked svc sched s i admit prepare) =
        Inr \<lparr>res_outcome = AppendOutcomeDuplicate, res_record = r\<lparr>ar_signature := sig\<rparr>\<rparr>"
proof -
  have found: "st_Lookup st s None (in_channel i) (in_event_id i) = Inr r"
    using lookup_found [OF inv k] r by simp
  have start: "AppendService_AppendChecked svc sched s i admit prepare =
      ensureSigned svc sched s \<lparr>res_outcome = AppendOutcomeDuplicate, res_record = r\<rparr>"
    using fns found r valid by (auto simp: AppendService_AppendChecked_def svc live)
  show ?thesis
    using attach_unique [OF inv k only pending]
    by (auto simp: start ensureSigned_def pending svc idle live r split: sum.split prod.split)
      (metis Inl_Inr_False snd_conv, metis snd_conv sum.inject(2))
qed

end

section \<open>Properties\<close>

lemma quiet_mem: "(\<And>s. mem_step\<^sup>*\<^sup>* s (f s)) \<Longrightarrow> quiet mem_inv mem_records f"
  unfolding quiet_def by (blast intro: mem_steps_inv mem_steps_extends)

text \<open>
  C2: the service returns success only for a durable signature. Whatever other operations of the store
  run between its calls, a successful append over the in-memory store ends with a signed record in the
  channel's transcript that carries the receipt and preimage under which the intent's event was accepted.
\<close>

theorem svc_append_durable:
  assumes "as_store svc = mem_Store" "mem_step\<^sup>*\<^sup>* mem_New s"
    and "\<And>s. mem_step\<^sup>*\<^sup>* s (before_append sched s)" "\<And>s. mem_step\<^sup>*\<^sup>* s (before_attach sched s)"
    and "AppendService_AppendChecked svc sched s i admit prepare = (s', Inr res)"
  shows "\<exists>rs. mem_records s' (in_channel i) = Some rs \<and> res_record res \<in> set rs \<and>
    ar_signature (res_record res) \<noteq> [] \<and>
    accepted rs i (ar_receipt_id (res_record res)) (ar_preimage (res_record res))"
  using mem.append_durable [OF assms(1) mem_steps_inv [OF assms(2) mem_inv_New]
      quiet_mem [OF assms(3)] quiet_mem [OF assms(4)] TrueI assms(5)]
  by blast

definition ex_signer :: Signer where
  "ex_signer = \<lparr>sg_Select = Inr \<lparr>sel_key = ''k'', sel_algorithm = ''a''\<rparr>, sg_Sign = (\<lambda>_. Inr [5])\<rparr>"

definition ex_sched :: "MemStore schedule" where
  "ex_sched = \<lparr>at_lookup = None, at_append = None, at_attach = None, before_append = id, before_attach = id\<rparr>"

definition ex_svc :: "MemStore AppendService" where
  "ex_svc = \<lparr>as_store = mem_Store, as_signer = ex_signer\<rparr>"

lemma ex_bindSelection:
  "bindSelection \<lparr>sel_key = ''k'', sel_algorithm = ''a''\<rparr> (\<lambda>n d _. ex_prepare n d) = ex_prepare"
  by (intro ext) (simp add: bindSelection_def ex_prepare_def)

lemma ex_svc_run:
  "snd (AppendService_AppendChecked ex_svc ex_sched ex_store0 ex_intent (Some (\<lambda>_. None))
      (Some (\<lambda>n d _. ex_prepare n d))) =
    Inr \<lparr>res_outcome = AppendOutcomeAppended, res_record = ex_record\<lparr>ar_signature := [5]\<rparr>\<rparr>"
proof -
  have lookup: "mem_Lookup ex_store0 None ex_key ''ev'' = Inl ErrEventNotFound"
    by (simp add: mem_Lookup_def ex_store0_eq mem_event_def identityOf_def ex_key_def)
  have attach: "snd (mem_AttachSignature ex_store1 None \<lparr>sa_channel = ex_key, sa_receipt_id = ar_receipt_id ex_record,
      sa_preimage = ar_preimage ex_record, sa_signature = [5]\<rparr>) = Inr (ex_record\<lparr>ar_signature := [5]\<rparr>)"
    using mem_steps_inv [OF ex_store1_reachable mem_inv_New] ex_store1_records
    by (rule mem_AttachSignature_unique) (auto simp: ex_defs)
  have "ar_channel ex_record = ex_key" "ar_signature ex_record = []" by (simp_all add: ex_defs)
  then show ?thesis
    using lookup ex_append attach
    by (auto simp: AppendService_AppendChecked_def ex_svc_def ex_sched_def ex_signer_def mem_Store_def
        ex_bindSelection ensureSigned_def ValidateIntent_def ex_intent_def ex_key_def split: prod.splits sum.splits)
qed

theorem svc_append_durable_witness:
  "\<exists>s' rs. mem_records s' ex_key = Some rs \<and> ex_record\<lparr>ar_signature := [5]\<rparr> \<in> set rs"
proof -
  obtain s' where run: "AppendService_AppendChecked ex_svc ex_sched ex_store0 ex_intent (Some (\<lambda>_. None))
      (Some (\<lambda>n d _. ex_prepare n d)) =
      (s', Inr \<lparr>res_outcome = AppendOutcomeAppended, res_record = ex_record\<lparr>ar_signature := [5]\<rparr>\<rparr>)"
    using ex_svc_run by (metis prod.collapse)
  have "as_store ex_svc = mem_Store" by (simp add: ex_svc_def)
  from svc_append_durable [OF this ex_store0_reachable _ _ run]
  show ?thesis by (auto simp: ex_sched_def ex_intent_def)
qed

text \<open>
  A failed signature is recoverable by exact retry. When the accepted record of an intent is still
  unsigned and its receipt identity is unique in the transcript, presenting the intent again either signs
  that very record and returns it as a duplicate, or, when the signer fails, reports
  \<^verbatim>\<open>ErrSignaturePending\<close> and changes nothing, so that it can be retried again.
\<close>

theorem svc_pending_retry:
  assumes "as_store svc = mem_Store" "mem_step\<^sup>*\<^sup>* mem_New s"
    and "at_lookup sched = None" "at_attach sched = None" "before_attach sched s = s"
    and "ValidateIntent i = None" "mem_records s (in_channel i) = Some rs" "r \<in> set rs"
    and "ar_channel r = in_channel i" "ar_event_id r = in_event_id i" "ar_canonical r = in_canonical i"
    and "ar_signature r = []" "\<And>q. q \<in> set rs \<Longrightarrow> ar_receipt_id q = ar_receipt_id r \<Longrightarrow> q = r"
    and "admit \<noteq> None" "prepare \<noteq> None"
  shows "case sg_Sign (as_signer svc) r of
      Inl e \<Rightarrow> AppendService_AppendChecked svc sched s i admit prepare =
        (s, Inl (Errorf ''sign receipt'' ErrSignaturePending))
    | Inr sig \<Rightarrow> sig \<noteq> [] \<longrightarrow> snd (AppendService_AppendChecked svc sched s i admit prepare) =
        Inr \<lparr>res_outcome = AppendOutcomeDuplicate, res_record = r\<lparr>ar_signature := sig\<rparr>\<rparr>"
  by (rule mem.pending_retry [OF assms(1) mem_steps_inv [OF assms(2) mem_inv_New] assms(3-15)])

end
