(* ===== verification/Json.thy ===== *)
theory Json
  imports Sha256 Complex_Main
begin

text \<open>
  JSON values as \<^verbatim>\<open>encoding/json\<close> decodes them into \<^verbatim>\<open>any\<close>: objects are Go maps, numbers are
  \<^verbatim>\<open>float64\<close> (a rational). The textual syntax is not modelled: decoding text
  (\<^verbatim>\<open>json.Unmarshal\<close>) and producing canonical text (\<^verbatim>\<open>json.Marshal\<close> followed by the third-party
  \<^verbatim>\<open>jsoncanonicalizer.Transform\<close>) are the two operations of a \<open>codec\<close>, a parameter of the definitions that use them.
\<close>

datatype json =
    JNull
  | JBool bool
  | JNum rat
  | JStr string
  | JArr "json list"
  | JObj "(string \<times> json) list"

text \<open>\<open>jc_Unmarshal\<close> gives what decoding into an \<^verbatim>\<open>any\<close> leaves in the variable and whether it
  reports an error (a number out of range is an error after which the rest is still decoded);
  \<open>jc_canonicalJSON\<close> is \<open>None\<close> on an error.\<close>

record codec =
  jc_Unmarshal :: "bytes \<Rightarrow> json \<times> bool"
  jc_canonicalJSON :: "json \<Rightarrow> bytes option"

text \<open>Reading a member of a \<^verbatim>\<open>map[string]any\<close>: a missing member reads as \<^verbatim>\<open>nil\<close>.\<close>

definition member :: "(string, json) gomap \<Rightarrow> string \<Rightarrow> json" where
  "member m key = (case map_of m key of Some v \<Rightarrow> v | None \<Rightarrow> JNull)"

definition text_of :: "(string, json) gomap \<Rightarrow> string \<Rightarrow> string" where
  "text_of value key = (case member value key of JStr s \<Rightarrow> s | _ \<Rightarrow> '''')"

text \<open>Decoding into a variable of type \<^verbatim>\<open>map[string]any\<close>: an object, or \<^verbatim>\<open>null\<close>, which leaves
  the map nil; every other value is an error.\<close>

definition unmarshal_object :: "codec \<Rightarrow> bytes \<Rightarrow> (string, json) gomap \<times> bool" where
  "unmarshal_object c raw = (case jc_Unmarshal c raw of
       (JObj m, failed) \<Rightarrow> (m, failed)
     | (JNull, failed) \<Rightarrow> ([], failed)
     | _ \<Rightarrow> ([], True))"

text \<open>The canonical bytes when the error is discarded: \<^verbatim>\<open>canonical, _ := canonicalJSON(v)\<close>.\<close>

definition canonical_or_nil :: "codec \<Rightarrow> json \<Rightarrow> bytes" where
  "canonical_or_nil c v = (case jc_canonicalJSON c v of Some b \<Rightarrow> b | None \<Rightarrow> [])"

text \<open>The digests \<^verbatim>\<open>"sha-256:%x"\<close> of domain-separated bytes; \<open>zero_byte\<close> is the \<^verbatim>\<open>\x00\<close> that ends a domain.\<close>

definition zero_byte :: string where
  "zero_byte = [CHR 0x00]"

definition domain_digest :: "string \<Rightarrow> bytes \<Rightarrow> string" where
  "domain_digest domain payload = ''sha-256:'' @ hex_sha256 (str_bytes (domain @ zero_byte) @ payload)"

end
