(* ===== verification/Transitions.thy ===== *)
theory Transitions
  imports Relay_Memory Json
begin

text \<open>
  The transition validator, \<^verbatim>\<open>internal/relay/service/transition.go\<close>: it replays a transcript into a state of
  claims, offers and accepted handoffs and decides whether a candidate event may follow. The Go code
  shares claim and offer objects by pointer (a claim is reachable from the table of claims and from each of
  its offers), so the state holds them in two heaps and every pointer is an index into one.
\<close>

section \<open>State\<close>

record transitionEvent =
  te_id :: string
  te_kind :: string
  te_channel :: string
  te_correlation :: string
  te_causation :: string
  te_work :: string
  te_data :: "(string, json) gomap"
  te_evidence :: "json list"

record claimState =
  cs_id :: string
  cs_generation :: string
  cs_root :: string
  cs_work :: string
  cs_last :: string
  cs_active :: bool
  cs_offers :: "(string, nat) gomap"

record offerState =
  os_eventID :: string
  os_handoffID :: string
  os_recipient :: string
  os_boundaryDigest :: string
  os_evidenceDigest :: string
  os_claim :: nat
  os_accepted :: bool

record transcriptState =
  ts_events :: "(string, transitionEvent) gomap"
  ts_claims :: "(string, nat) gomap"
  ts_used :: "(string, bool) gomap"
  ts_offers :: "(string, nat) gomap"
  ts_accepted :: "(string, string) gomap"
  ts_claim_heap :: "claimState list"
  ts_offer_heap :: "offerState list"

definition ts_empty :: transcriptState where
  "ts_empty = \<lparr>ts_events = [], ts_claims = [], ts_used = [], ts_offers = [], ts_accepted = [],
     ts_claim_heap = [], ts_offer_heap = []\<rparr>"

abbreviation ts_claim :: "transcriptState \<Rightarrow> nat \<Rightarrow> claimState" where
  "ts_claim s a \<equiv> ts_claim_heap s ! a"

abbreviation ts_offer :: "transcriptState \<Rightarrow> nat \<Rightarrow> offerState" where
  "ts_offer s a \<equiv> ts_offer_heap s ! a"

definition set_claim :: "transcriptState \<Rightarrow> nat \<Rightarrow> claimState \<Rightarrow> transcriptState" where
  "set_claim s a c = s\<lparr>ts_claim_heap := (ts_claim_heap s)[a := c]\<rparr>"

definition set_offer_accepted :: "transcriptState \<Rightarrow> nat \<Rightarrow> transcriptState" where
  "set_offer_accepted s a =
     s\<lparr>ts_offer_heap := (ts_offer_heap s)[a := (ts_offer s a)\<lparr>os_accepted := True\<rparr>]\<rparr>"

definition transitionFailure :: "string \<Rightarrow> relay_error \<Rightarrow> relay_error" where
  "transitionFailure code sentinel = Errorf code sentinel"

definition claimKey :: "string \<Rightarrow> string \<Rightarrow> string" where
  "claimKey identity generation = identity @ zero_byte @ generation"

definition activeClaims :: "transcriptState \<Rightarrow> string \<Rightarrow> nat" where
  "activeClaims s work =
     length (filter (\<lambda>(k, a). cs_active (ts_claim s a) \<and> cs_work (ts_claim s a) = work) (ts_claims s))"

definition referenceType :: "transcriptState \<Rightarrow> transitionEvent \<Rightarrow> string \<Rightarrow> string \<Rightarrow> bool" where
  "referenceType s event parentID kind =
     (case map_of (ts_events s) parentID of
        None \<Rightarrow> False
      | Some parent \<Rightarrow> te_causation event = parentID \<and> te_kind parent = kind)"

definition digestEvidence :: "codec \<Rightarrow> json list \<Rightarrow> string" where
  "digestEvidence c evidence = domain_digest ''yukh.evidence-set.v0.1'' (canonical_or_nil c (JArr evidence))"

definition digestBoundary :: "codec \<Rightarrow> transitionEvent \<Rightarrow> string" where
  "digestBoundary c event =
     (let d = te_data event in
      domain_digest ''yukh.handoff-boundary.v0.1'' (canonical_or_nil c (JObj
        [(''work_uri'', JStr (te_work event)), (''claim_id'', JStr (text_of d ''claim_id'')),
         (''claim_generation'', JStr (text_of d ''generation'')), (''boundary'', JStr (text_of d ''boundary'')),
         (''next_action'', JStr (text_of d ''next_action'')),
         (''unresolved_risks'', member d ''unresolved_risks'')])))"

section \<open>Applying one event\<close>

type_synonym ts_result = "transcriptState \<times> relay_error option"

definition check_causation :: "transcriptState \<Rightarrow> transitionEvent \<Rightarrow> relay_error option" where
  "check_causation s event =
     (if te_causation event = '''' then None
      else case map_of (ts_events s) (te_causation event) of
        None \<Rightarrow> Some (transitionFailure ''UNRESOLVED_CAUSATION'' ErrTransitionConflict)
      | Some parent \<Rightarrow>
          let handoffSuccessor = te_kind event = ''claim'' \<and>
                text_of (te_data event) ''predecessor_handoff_event'' = te_causation event in
          if te_channel parent \<noteq> te_channel event \<or> te_work parent \<noteq> te_work event \<or>
             (\<not> handoffSuccessor \<and> te_correlation parent \<noteq> te_correlation event)
          then Some (transitionFailure ''INVALID_REFERENCE'' ErrTransitionConflict) else None)"

definition apply_claim :: "transcriptState \<Rightarrow> transitionEvent \<Rightarrow> string \<Rightarrow> ts_result" where
  "apply_claim s event participant =
     (let data = te_data event;
          key = claimKey (text_of data ''claim_id'') (text_of data ''generation'');
          conflict = Some (transitionFailure ''INVALID_CLAIM_TRANSITION'' ErrTransitionConflict) in
      if map_of (ts_used s) key = Some True then (s, conflict)
      else
        let predecessor = text_of data ''predecessor_handoff_event'';
            acc = (case map_of (ts_accepted s) predecessor of Some p \<Rightarrow> p | None \<Rightarrow> '''') in
        if predecessor \<noteq> '''' \<and> (acc \<noteq> participant \<or> te_causation event \<noteq> predecessor)
        then (s, conflict)
        else
          let s1 = (if predecessor \<noteq> '''' then s\<lparr>ts_accepted := AList.delete predecessor (ts_accepted s)\<rparr>
                    else s) in
          if activeClaims s1 (te_work event) \<ge> 32
          then (s1, Some (transitionFailure ''RESOURCE_LIMIT'' ErrResourceLimit))
          else
            let claim = \<lparr>cs_id = text_of data ''claim_id'', cs_generation = text_of data ''generation'',
                  cs_root = te_id event, cs_work = te_work event, cs_last = te_id event,
                  cs_active = True, cs_offers = []\<rparr> in
            (s1\<lparr>ts_claims := AList.update key (length (ts_claim_heap s1)) (ts_claims s1),
                ts_used := AList.update key True (ts_used s1),
                ts_claim_heap := ts_claim_heap s1 @ [claim]\<rparr>, None))"

definition apply_offer :: "codec \<Rightarrow> transcriptState \<Rightarrow> transitionEvent \<Rightarrow> nat \<Rightarrow> bool \<Rightarrow> ts_result" where
  "apply_offer c s event a enforce =
     (let data = te_data event; claim = ts_claim s a in
      if length (cs_offers claim) \<ge> 32
      then (s, Some (transitionFailure ''RESOURCE_LIMIT'' ErrResourceLimit))
      else if (if enforce then digestBoundary c event \<noteq> text_of data ''boundary_digest'' \<or>
           digestEvidence c (te_evidence event) \<noteq> text_of data ''evidence_set_digest'' else False)
      then (s, Some (transitionFailure ''INVALID_PAYLOAD'' ErrInvalidArgument))
      else
        let offer = \<lparr>os_eventID = te_id event, os_handoffID = text_of data ''handoff_id'',
              os_recipient = text_of data ''to_participant_instance_id'',
              os_boundaryDigest = text_of data ''boundary_digest'',
              os_evidenceDigest = text_of data ''evidence_set_digest'',
              os_claim = a, os_accepted = False\<rparr>;
            o_addr = length (ts_offer_heap s);
            s1 = s\<lparr>ts_offer_heap := ts_offer_heap s @ [offer],
                   ts_offers := AList.update (te_id event) o_addr (ts_offers s)\<rparr> in
        (set_claim s1 a (claim\<lparr>cs_offers := AList.update (te_id event) o_addr (cs_offers claim),
                               cs_last := te_id event\<rparr>), None))"

definition apply_on_claim :: "codec \<Rightarrow> transcriptState \<Rightarrow> transitionEvent \<Rightarrow> bool \<Rightarrow> ts_result" where
  "apply_on_claim c s event enforce =
     (let data = te_data event;
          conflict = Some (transitionFailure ''INVALID_CLAIM_TRANSITION'' ErrTransitionConflict) in
      case map_of (ts_claims s) (claimKey (text_of data ''claim_id'') (text_of data ''generation'')) of
        None \<Rightarrow> (s, conflict)
      | Some a \<Rightarrow>
          let parent = text_of data ''parent_claim_event_id''; claim = ts_claim s a in
          if \<not> cs_active claim \<or> cs_work claim \<noteq> te_work event \<or> parent \<noteq> cs_last claim \<or>
             te_causation event \<noteq> parent
          then (s, conflict)
          else if te_kind event = ''release''
          then (set_claim s a (claim\<lparr>cs_active := False, cs_last := te_id event, cs_offers := []\<rparr>), None)
          else if te_kind event = ''progress''
          then (set_claim s a (claim\<lparr>cs_last := te_id event\<rparr>), None)
          else apply_offer c s event a enforce)"

definition apply_accept :: "transcriptState \<Rightarrow> transitionEvent \<Rightarrow> string \<Rightarrow> ts_result" where
  "apply_accept s event participant =
     (let data = te_data event;
          conflict = Some (transitionFailure ''HANDOFF_PRECONDITION_FAILED'' ErrTransitionConflict) in
      case map_of (ts_offers s) (text_of data ''offer_event_id'') of
        None \<Rightarrow> (s, conflict)
      | Some o_addr \<Rightarrow>
          let offer = ts_offer s o_addr; a = os_claim offer; claim = ts_claim s a in
          if os_accepted offer \<or> \<not> cs_active claim \<or> map_of (cs_offers claim) (os_eventID offer) = None \<or>
             te_causation event \<noteq> os_eventID offer \<or> participant \<noteq> os_recipient offer \<or>
             text_of data ''handoff_id'' \<noteq> os_handoffID offer \<or>
             text_of data ''source_claim_event_id'' \<noteq> cs_root claim \<or>
             text_of data ''claim_id'' \<noteq> cs_id claim \<or> text_of data ''generation'' \<noteq> cs_generation claim \<or>
             text_of data ''boundary_digest'' \<noteq> os_boundaryDigest offer \<or>
             text_of data ''evidence_set_digest'' \<noteq> os_evidenceDigest offer
          then (s, conflict)
          else
            let s1 = set_offer_accepted s o_addr;
                s2 = set_claim s1 a (claim\<lparr>cs_last := te_id event\<rparr>);
                s3 = fold (\<lambda>(k, current) st. set_offer_accepted st current) (cs_offers (ts_claim s2 a)) s2;
                s4 = set_claim s3 a ((ts_claim s3 a)\<lparr>cs_offers := []\<rparr>) in
            (s4\<lparr>ts_accepted := AList.update (te_id event) participant (ts_accepted s4)\<rparr>, None))"

text \<open>The loop over the evidence of the referenced event; it counts the matching descriptors.
  A descriptor that is not an object, or has no digest object, fails a type assertion.\<close>

fun match_evidence :: "codec \<Rightarrow> (string, json) gomap \<Rightarrow> nat \<Rightarrow> json list \<Rightarrow> relay_error + nat" where
  "match_evidence c data matches [] = Inr matches"
| "match_evidence c data matches (JObj descriptor # rest) =
     (if domain_digest ''yukh.evidence-descriptor.v0.1'' (canonical_or_nil c (JObj descriptor)) =
         text_of data ''descriptor_digest''
      then (case member descriptor ''digest'' of
          JObj digestObject \<Rightarrow>
            (if text_of data ''uri'' \<noteq> text_of descriptor ''uri'' \<or>
                text_of data ''algorithm'' \<noteq> text_of digestObject ''algorithm'' \<or>
                text_of data ''expected_digest'' \<noteq> ''sha-256:'' @ text_of digestObject ''value''
             then Inl (transitionFailure ''INVALID_PAYLOAD'' ErrInvalidArgument)
             else match_evidence c data (matches + 1) rest)
        | _ \<Rightarrow> Inl Panicked)
      else match_evidence c data matches rest)"
| "match_evidence c data matches (_ # rest) = Inl Panicked"

definition apply_verification :: "codec \<Rightarrow> transcriptState \<Rightarrow> transitionEvent \<Rightarrow> relay_error option" where
  "apply_verification c s event =
     (let parentID = text_of (te_data event) ''referenced_event_id'';
          bad = Some (transitionFailure ''INVALID_REFERENCE'' ErrTransitionConflict) in
      case map_of (ts_events s) parentID of
        None \<Rightarrow> bad
      | Some parent \<Rightarrow>
          if te_causation event \<noteq> parentID then bad
          else case match_evidence c (te_data event) 0 (te_evidence parent) of
            Inl e \<Rightarrow> Some e
          | Inr matches \<Rightarrow> if matches \<noteq> 1 then bad else None)"

definition apply_kind :: "codec \<Rightarrow> transcriptState \<Rightarrow> transitionEvent \<Rightarrow> string \<Rightarrow> bool \<Rightarrow> ts_result" where
  "apply_kind c s event participant enforce =
     (let data = te_data event;
          bad = Some (transitionFailure ''INVALID_REFERENCE'' ErrTransitionConflict) in
      if te_kind event = ''claim'' then apply_claim s event participant
      else if te_kind event \<in> {''progress'', ''release'', ''handoff_offer''}
      then apply_on_claim c s event enforce
      else if te_kind event = ''handoff_accept'' then apply_accept s event participant
      else if te_kind event = ''answer''
      then (s, if \<not> referenceType s event (text_of data ''question_event_id'') ''question''
               then bad else None)
      else if te_kind event = ''verdict''
      then (s, if \<not> referenceType s event (text_of data ''review_event_id'') ''review_request'' then bad
               else case map_of (ts_events s) (text_of data ''review_event_id'') of
                 None \<Rightarrow> if text_of data ''evidence_set_digest'' \<noteq> '''' then bad else None
               | Some parent \<Rightarrow>
                   if text_of data ''evidence_set_digest'' \<noteq> text_of (te_data parent) ''evidence_set_digest''
                   then bad else None)
      else if te_kind event = ''evidence_verification'' then (s, apply_verification c s event)
      else (s, None))"

definition ts_apply ::
  "codec \<Rightarrow> transcriptState \<Rightarrow> transitionEvent \<Rightarrow> string \<Rightarrow> bool \<Rightarrow> bool \<Rightarrow> ts_result" where
  "ts_apply c s event participant enforce candidate =
     (case check_causation s event of Some e \<Rightarrow> (s, Some e) | None \<Rightarrow>
      case apply_kind c s event participant enforce of
        (s', Some e) \<Rightarrow> (s', Some e)
      | (s', None) \<Rightarrow>
          (if candidate then s'\<lparr>ts_events := AList.update (te_id event) event (ts_events s')\<rparr> else s', None))"

section \<open>Replaying a transcript\<close>

text \<open>A failed type assertion on \<^verbatim>\<open>data\<close> or \<^verbatim>\<open>evidence\<close> panics.\<close>

definition parseTransitionEvent :: "codec \<Rightarrow> bytes \<Rightarrow> relay_error + transitionEvent" where
  "parseTransitionEvent c raw =
     (case unmarshal_object c raw of
        (_, True) \<Rightarrow> Inl (ErrText ''json'')
      | (value, False) \<Rightarrow>
          (case (member value ''data'', member value ''evidence'') of
             (JObj data, JArr evidence) \<Rightarrow>
               Inr \<lparr>te_id = text_of value ''id'', te_kind = text_of value ''type'',
                 te_channel = text_of value ''channel'', te_correlation = text_of value ''correlation_id'',
                 te_causation = text_of value ''causation_id'',
                 te_work = (case member value ''work'' of JObj work \<Rightarrow> text_of work ''uri'' | _ \<Rightarrow> ''''),
                 te_data = data, te_evidence = evidence\<rparr>
           | _ \<Rightarrow> Inl Panicked))"

definition receiptParticipant :: "codec \<Rightarrow> AcceptedRecord \<Rightarrow> string" where
  "receiptParticipant c record =
     text_of (fst (unmarshal_object c (ar_preimage record))) ''participant_instance_id''"

definition replay_record ::
  "codec \<Rightarrow> transcriptState \<Rightarrow> AcceptedRecord \<Rightarrow> relay_error + transcriptState" where
  "replay_record c s record =
     (case parseTransitionEvent c (ar_canonical record) of
        Inl e \<Rightarrow>
          Inl (if e = Panicked then Panicked else Errorf ''stored transition state'' ErrInvalidArgument)
      | Inr event \<Rightarrow>
          (case ts_apply c s event (receiptParticipant c record) False False of
             (s', Some e) \<Rightarrow> Inl (if e = Panicked then Panicked else Errorf ''stored transition state'' e)
           | (s', None) \<Rightarrow> Inr (s'\<lparr>ts_events := AList.update (te_id event) event (ts_events s')\<rparr>)))"

fun replay_page ::
  "codec \<Rightarrow> transcriptState \<Rightarrow> u64 \<Rightarrow> AcceptedRecord list \<Rightarrow> relay_error + (transcriptState \<times> u64)" where
  "replay_page c s after [] = Inr (s, after)"
| "replay_page c s after (r # rs) =
     (case replay_record c s r of Inl e \<Rightarrow> Inl e | Inr s' \<Rightarrow> replay_page c s' (ar_sequence r) rs)"

text \<open>The paging loop ends only when the view returns a short page.\<close>

partial_function (option) replay_loop ::
  "codec \<Rightarrow> AdmissionView \<Rightarrow> transcriptState \<Rightarrow> u64 \<Rightarrow> (relay_error + transcriptState) option" where
  "replay_loop c view s after =
     (case av_Read view after 1000 of
        Inl e \<Rightarrow> Some (Inl e)
      | Inr records \<Rightarrow>
          (case replay_page c s after records of
             Inl e \<Rightarrow> Some (Inl e)
           | Inr (s', after') \<Rightarrow>
               if length records < 1000 then Some (Inr s') else replay_loop c view s' after'))"

definition admit_candidate :: "codec \<Rightarrow> transcriptState \<Rightarrow> bytes \<Rightarrow> string \<Rightarrow> relay_error option" where
  "admit_candidate c state canonical participant =
     (case parseTransitionEvent c canonical of
        Inl e \<Rightarrow> Some (if e = Panicked then Panicked else ErrInvalidArgument)
      | Inr event \<Rightarrow> snd (ts_apply c state event participant True True))"

definition transition_Validate ::
  "codec \<Rightarrow> AdmissionView option \<Rightarrow> bytes \<Rightarrow> string \<Rightarrow> relay_error option option" where
  "transition_Validate c view canonical participantInstanceID =
     (case view of
        None \<Rightarrow> Some (Some ErrInvalidArgument)
      | Some v \<Rightarrow>
          if participantInstanceID = '''' then Some (Some ErrInvalidArgument)
          else case replay_loop c v ts_empty 0 of
            None \<Rightarrow> None
          | Some (Inl e) \<Rightarrow> Some (Some e)
          | Some (Inr state) \<Rightarrow> Some (admit_candidate c state canonical participantInstanceID))"

end
