(* ===== verification/Transition_Laws.thy ===== *)
theory Transition_Laws
  imports Transitions
begin

text \<open>
  What the transition validator guarantees: its paging loop terminates and replays the whole transcript,
  an admitted event never makes a transcript unreadable, and the state it builds keeps the rules of
  claims and handoffs.
\<close>

section \<open>The whole transcript is replayed\<close>

fun replay_all :: "codec \<Rightarrow> transcriptState \<Rightarrow> AcceptedRecord list \<Rightarrow> relay_error + transcriptState" where
  "replay_all c s [] = Inr s"
| "replay_all c s (r # rs) = (case replay_record c s r of Inl e \<Rightarrow> Inl e | Inr s' \<Rightarrow> replay_all c s' rs)"

lemma replay_all_append:
  "replay_all c s (xs @ ys) = (case replay_all c s xs of Inl e \<Rightarrow> Inl e | Inr s' \<Rightarrow> replay_all c s' ys)"
  by (induction xs arbitrary: s) (auto split: sum.splits)

lemma replay_page_eq:
  "replay_page c s after rs = (case replay_all c s rs of Inl e \<Rightarrow> Inl e
     | Inr s' \<Rightarrow> Inr (s', if rs = [] then after else ar_sequence (last rs)))"
  by (induction rs arbitrary: s after) (auto split: sum.splits)

text \<open>What the validator relies on of the view a store hands it.\<close>

locale admission_view =
  fixes view_of :: "'s \<Rightarrow> ChannelKey \<Rightarrow> AdmissionView"
    and ok :: "'s \<Rightarrow> bool"
    and records :: "'s \<Rightarrow> ChannelKey \<Rightarrow> AcceptedRecord list option"
  assumes view_read: "ok s \<Longrightarrow> records s k = Some rs \<Longrightarrow> length rs < 2 ^ 64 \<Longrightarrow>
      av_Read (view_of s k) after 1000 = Inr (take 1000 (drop (unat after) rs))"
    and view_contiguous: "ok s \<Longrightarrow> records s k = Some rs \<Longrightarrow> contiguous rs"
begin

lemma replay_loop_eq:
  assumes s: "ok s" "records s k = Some rs" and fits: "length rs < 2 ^ 64"
  shows "n \<le> length rs \<Longrightarrow>
    replay_loop c (view_of s k) t (of_nat n) = Some (replay_all c t (drop n rs))"
proof (induction "length rs - n" arbitrary: n t rule: less_induct)
  case less
  let ?page = "take 1000 (drop n rs)" and ?m = "min (length rs) (n + 1000)"
  have read: "av_Read (view_of s k) (of_nat n) 1000 = Inr ?page"
    using view_read [OF s fits] less.prems fits by simp
  have split: "drop n rs = ?page @ drop (n + 1000) rs"
    by (metis append_take_drop_id drop_drop add.commute)
  have all: "replay_all c t (drop n rs) = (case replay_all c t ?page of Inl e \<Rightarrow> Inl e
      | Inr t' \<Rightarrow> replay_all c t' (drop (n + 1000) rs))"
    by (subst (1) split) (rule replay_all_append)
  have step: "replay_loop c (view_of s k) t (of_nat n) = (case replay_all c t ?page of Inl e \<Rightarrow> Some (Inl e)
      | Inr t' \<Rightarrow> if length ?page < 1000 then Some (Inr t')
          else replay_loop c (view_of s k) t' (if ?page = [] then of_nat n else ar_sequence (last ?page)))"
    by (subst replay_loop.simps) (simp only: read replay_page_eq sum.case sum.case_distrib [of "case_sum _ _"]
        prod.case cong: sum.case_cong split: sum.split)
  show ?case
  proof (cases "length ?page < 1000")
    case True
    then have "drop (n + 1000) rs = []" by simp
    then show ?thesis
      unfolding step all using True by (auto split: sum.split)
  next
    case False
    then have long: "n + 1000 \<le> length rs" by simp
    then have "last ?page = rs ! (n + 999)" by (simp add: last_conv_nth)
    then have "ar_sequence (last ?page) = of_nat (n + 1000)"
      using view_contiguous [OF s] long by (simp add: contiguous_def)
    moreover have "?page \<noteq> []" using long by auto
    moreover have "replay_loop c (view_of s k) t' (of_nat (n + 1000)) = Some (replay_all c t' (drop (n + 1000) rs))" for t'
      using less.hyps [of "n + 1000"] long by simp
    ultimately show ?thesis
      unfolding step all using False by (auto split: sum.split)
  qed
qed

lemma validate_eq:
  assumes "ok s" "records s k = Some rs" "length rs < 2 ^ 64" "participant \<noteq> ''''"
  shows "transition_Validate c (Some (view_of s k)) canonical participant =
    Some (case replay_all c ts_empty rs of Inl e \<Rightarrow> Some e | Inr t \<Rightarrow> admit_candidate c t canonical participant)"
  using replay_loop_eq [OF assms(1-3), of 0 c ts_empty] assms(4)
  by (simp add: transition_Validate_def split: sum.split)

end

lemma mem_view_read:
  assumes "mem_records s k = Some rs" "length rs < 2 ^ 64"
  shows "av_Read (memoryAdmissionView s k) after 1000 = Inr (take 1000 (drop (unat after) rs))"
  using assms by (auto simp: memoryAdmissionView_def mem_view_Read_def mem_records_def mem_slice_eq)

lemma mem_view_contiguous:
  assumes "mem_inv s" "mem_records s k = Some rs"
  shows "contiguous rs"
  using assms mem_invD by (fastforce simp: mem_records_def mem_transcript_ok_def)

interpretation memv: admission_view memoryAdmissionView mem_inv mem_records
  by unfold_locales (blast intro: mem_view_read mem_view_contiguous)+

section \<open>Admission never poisons a transcript\<close>

lemma apply_offer_enforced:
  "apply_offer c s ev a True = (s', None) \<Longrightarrow> apply_offer c s ev a False = (s', None)"
  unfolding apply_offer_def Let_def by (simp only: simp_thms split: if_split_asm) auto

lemma apply_kind_enforced:
  assumes "apply_kind c s ev p True = (s', None)"
  shows "apply_kind c s ev p False = (s', None)"
proof (cases "te_kind ev \<in> {''progress'', ''release'', ''handoff_offer''}")
  case True
  then have kind: "apply_kind c s ev p enforce = apply_on_claim c s ev enforce" for enforce
    by (auto simp: apply_kind_def)
  obtain a where a: "map_of (ts_claims s)
      (claimKey (text_of (te_data ev) ''claim_id'') (text_of (te_data ev) ''generation'')) = Some a"
    using assms unfolding kind by (cases "map_of (ts_claims s)
      (claimKey (text_of (te_data ev) ''claim_id'') (text_of (te_data ev) ''generation''))")
      (simp_all add: apply_on_claim_def)
  show ?thesis
    using assms apply_offer_enforced [of c s ev a s'] unfolding kind apply_on_claim_def Let_def
    by (simp add: a split: if_split_asm)
next
  case False
  then have "apply_kind c s ev p True = apply_kind c s ev p False"
    unfolding apply_kind_def by (simp only: if_False)
  then show ?thesis using assms by simp
qed

lemma apply_admitted:
  assumes "ts_apply c s ev p True True = (s', None)"
  obtains s0 where "ts_apply c s ev p False False = (s0, None)"
    "s' = s0\<lparr>ts_events := AList.update (te_id ev) ev (ts_events s0)\<rparr>"
proof (cases "apply_kind c s ev p True")
  case (Pair s0 r)
  then have "check_causation s ev = None" "r = None"
    "s' = s0\<lparr>ts_events := AList.update (te_id ev) ev (ts_events s0)\<rparr>"
    using assms by (auto simp: ts_apply_def split: option.splits)
  then show ?thesis using that [of s0] apply_kind_enforced Pair by (simp add: ts_apply_def)
qed

lemma admitted_replays:
  assumes "admit_candidate c s canonical p = None"
    and "ar_canonical r = canonical" "receiptParticipant c r = p"
  shows "\<exists>s'. replay_record c s r = Inr s'"
proof (cases "parseTransitionEvent c canonical")
  case (Inr ev)
  then have "ts_apply c s ev p True True = (fst (ts_apply c s ev p True True), None)"
    using assms(1) by (simp add: admit_candidate_def prod_eq_iff)
  then show ?thesis using Inr assms(2,3) by (elim apply_admitted) (simp add: replay_record_def)
qed (use assms(1) in \<open>simp add: admit_candidate_def\<close>)

section \<open>The rules of claims and handoffs\<close>

text \<open>
  The state invariant: every pointer is valid, a claim is registered under one key and marked used, at most
  32 claims of one work item are active, and a claim has at most 32 open offers, all of them its own
  and none of them accepted; a released claim has none.
\<close>

definition claim_ok :: "transcriptState \<Rightarrow> nat \<Rightarrow> bool" where
  "claim_ok s a \<longleftrightarrow> length (cs_offers (ts_claim s a)) \<le> 32 \<and>
     (\<not> cs_active (ts_claim s a) \<longrightarrow> cs_offers (ts_claim s a) = []) \<and>
     (\<forall>(e, q) \<in> set (cs_offers (ts_claim s a)). q < length (ts_offer_heap s) \<and>
        os_claim (ts_offer s q) = a \<and> os_eventID (ts_offer s q) = e \<and> \<not> os_accepted (ts_offer s q))"

definition ts_inv :: "transcriptState \<Rightarrow> bool" where
  "ts_inv s \<longleftrightarrow>
     (\<forall>k a. map_of (ts_claims s) k = Some a \<longrightarrow> a < length (ts_claim_heap s) \<and> map_of (ts_used s) k = Some True) \<and>
     (\<forall>a < length (ts_claim_heap s). claim_ok s a) \<and>
     (\<forall>e q. map_of (ts_offers s) e = Some q \<longrightarrow> q < length (ts_offer_heap s) \<and> os_eventID (ts_offer s q) = e) \<and>
     (\<forall>q < length (ts_offer_heap s). os_claim (ts_offer s q) < length (ts_claim_heap s)) \<and>
     distinct (map fst (ts_claims s)) \<and>
     (\<forall>w. activeClaims s w \<le> 32)"

lemma ts_invD:
  assumes "ts_inv s"
  shows "\<And>k a. map_of (ts_claims s) k = Some a \<Longrightarrow> a < length (ts_claim_heap s)"
    "\<And>k a. map_of (ts_claims s) k = Some a \<Longrightarrow> map_of (ts_used s) k = Some True"
    "\<And>a. a < length (ts_claim_heap s) \<Longrightarrow> claim_ok s a"
    "\<And>e q. map_of (ts_offers s) e = Some q \<Longrightarrow> q < length (ts_offer_heap s)"
    "\<And>e q. map_of (ts_offers s) e = Some q \<Longrightarrow> os_eventID (ts_offer s q) = e"
    "\<And>q. q < length (ts_offer_heap s) \<Longrightarrow> os_claim (ts_offer s q) < length (ts_claim_heap s)"
    "distinct (map fst (ts_claims s))" "\<And>w. activeClaims s w \<le> 32"
  using assms by (auto simp: ts_inv_def)

lemma ts_inv_empty [simp]: "ts_inv ts_empty"
  by (simp add: ts_inv_def ts_empty_def activeClaims_def)

lemma update_fresh: "map_of m k = None \<Longrightarrow> AList.update k v m = m @ [(k, v)]"
  by (induction m) auto

lemma length_update_le: "length (AList.update k v m) \<le> Suc (length m)"
  by (induction m) auto

lemma set_update_subset: "set (AList.update k v m) \<subseteq> insert (k, v) (set m)"
  by (induction m) auto

lemma length_filter_imp_le:
  "(\<And>x. x \<in> set xs \<Longrightarrow> P x \<Longrightarrow> Q x) \<Longrightarrow> length (filter P xs) \<le> length (filter Q xs)"
  by (induction xs) (auto simp: le_Suc_eq)

lemma activeClaims_mono:
  assumes "ts_claims s' = ts_claims s"
    and "\<And>k a. (k, a) \<in> set (ts_claims s) \<Longrightarrow> cs_active (ts_claim s' a) \<Longrightarrow> cs_active (ts_claim s a)"
    and "\<And>k a. (k, a) \<in> set (ts_claims s) \<Longrightarrow> cs_work (ts_claim s' a) = cs_work (ts_claim s a)"
  shows "activeClaims s' w \<le> activeClaims s w"
  unfolding activeClaims_def assms(1)
proof (rule length_filter_imp_le)
  fix e
  assume "e \<in> set (ts_claims s)"
  then show "case e of (k, a) \<Rightarrow> cs_active (ts_claim s' a) \<and> cs_work (ts_claim s' a) = w \<Longrightarrow>
      case e of (k, a) \<Rightarrow> cs_active (ts_claim s a) \<and> cs_work (ts_claim s a) = w"
    using assms(2,3) [of "fst e" "snd e"] by (simp add: case_prod_beta)
qed

text \<open>Every event but a claim only changes one claim and the offers of that claim.\<close>

lemma ts_inv_modify:
  assumes inv: "ts_inv s" and a: "a < length (ts_claim_heap s)"
    and same: "ts_claims s' = ts_claims s" "ts_used s' = ts_used s"
    and heap: "ts_claim_heap s' = (ts_claim_heap s)[a := cl]"
    and cl: "cs_work cl = cs_work (ts_claim s a)" "cs_active cl \<Longrightarrow> cs_active (ts_claim s a)" "claim_ok s' a"
    and offers: "\<And>q. q < length (ts_offer_heap s) \<Longrightarrow> os_claim (ts_offer s q) \<noteq> a \<Longrightarrow>
       q < length (ts_offer_heap s') \<and> ts_offer s' q = ts_offer s q"
    and ids: "\<And>e q. map_of (ts_offers s') e = Some q \<Longrightarrow> q < length (ts_offer_heap s') \<and> os_eventID (ts_offer s' q) = e"
    and owner: "\<And>q. q < length (ts_offer_heap s') \<Longrightarrow> os_claim (ts_offer s' q) < length (ts_claim_heap s)"
  shows "ts_inv s'"
proof -
  have "activeClaims s' w \<le> 32" for w
  proof -
    have "activeClaims s' w \<le> activeClaims s w"
      by (rule activeClaims_mono)
        (use a cl heap same in \<open>auto simp: nth_list_update split: if_splits\<close>)
    then show ?thesis using ts_invD(8) [OF inv, of w] by linarith
  qed
  moreover have "claim_ok s' b" if b: "b < length (ts_claim_heap s')" for b
  proof (cases "b = a")
    case False
    then have eq: "ts_claim s' b = ts_claim s b" and ok: "claim_ok s b"
      using b heap ts_invD(3) [OF inv] by auto
    have "q < length (ts_offer_heap s') \<and> ts_offer s' q = ts_offer s q"
      if "(e, q) \<in> set (cs_offers (ts_claim s b))" for e q
      using ok that offers False by (auto simp: claim_ok_def)
    then show ?thesis using ok unfolding claim_ok_def eq by auto
  qed (use cl(3) in simp)
  moreover have "length (ts_claim_heap s') = length (ts_claim_heap s)" using heap by simp
  ultimately show ?thesis
    unfolding ts_inv_def same using ts_invD(1,2,7) [OF inv] ids owner by presburger
qed

lemma ts_inv_irrelevant [simp]:
  "ts_inv (s\<lparr>ts_accepted := x\<rparr>) = ts_inv s" "ts_inv (s\<lparr>ts_events := y\<rparr>) = ts_inv s"
  by (simp_all add: ts_inv_def claim_ok_def activeClaims_def)

abbreviation add_claim :: "transcriptState \<Rightarrow> string \<Rightarrow> claimState \<Rightarrow> transcriptState" where
  "add_claim s key cl \<equiv> s\<lparr>ts_claims := AList.update key (length (ts_claim_heap s)) (ts_claims s),
     ts_used := AList.update key True (ts_used s), ts_claim_heap := ts_claim_heap s @ [cl]\<rparr>"

abbreviation event_key :: "transitionEvent \<Rightarrow> string" where
  "event_key ev \<equiv> claimKey (text_of (te_data ev) ''claim_id'') (text_of (te_data ev) ''generation'')"

abbreviation predecessor :: "transitionEvent \<Rightarrow> string" where
  "predecessor ev \<equiv> text_of (te_data ev) ''predecessor_handoff_event''"

lemma ts_inv_new_claim:
  assumes inv: "ts_inv s" and fresh: "map_of (ts_claims s) key = None"
    and room: "activeClaims s (cs_work cl) < 32" and none: "cs_offers cl = []"
  shows "ts_inv (add_claim s key cl)" (is "ts_inv ?s'")
proof -
  note D = ts_invD [OF inv]
  have bound: "a < length (ts_claim_heap s)" if "(k, a) \<in> set (ts_claims s)" for k a
    using D(1,7) that by auto
  have "activeClaims ?s' w \<le> 32" for w
  proof -
    have "filter (\<lambda>(k, a). cs_active (ts_claim ?s' a) \<and> cs_work (ts_claim ?s' a) = w) (ts_claims s) =
        filter (\<lambda>(k, a). cs_active (ts_claim s a) \<and> cs_work (ts_claim s a) = w) (ts_claims s)"
      by (rule filter_cong) (auto simp: nth_append dest!: bound)
    then have "activeClaims ?s' w \<le> activeClaims s w + (if w = cs_work cl then 1 else 0)"
      by (simp add: activeClaims_def update_fresh [OF fresh])
    then show ?thesis using room D(8) [of w] by (auto split: if_splits)
  qed
  moreover have "claim_ok ?s' a" if "a < Suc (length (ts_claim_heap s))" for a
    using D(3) [of a] that none by (cases "a < length (ts_claim_heap s)") (auto simp: claim_ok_def nth_append less_Suc_eq)
  moreover have "distinct (map fst (ts_claims ?s'))" using D(7) by auto
  ultimately show ?thesis
    unfolding ts_inv_def using D(1,2,4,5,6) by (auto intro: less_SucI)
qed

lemma apply_claim_cases:
  assumes "apply_claim s ev p = (s', r)"
  obtains (Failed) e acc where "r = Some e" "s' = s\<lparr>ts_accepted := acc\<rparr>"
    | (Opened) acc where "r = None" "map_of (ts_used s) (event_key ev) \<noteq> Some True"
        "acc = (if predecessor ev = '''' then ts_accepted s else AList.delete (predecessor ev) (ts_accepted s))"
        "predecessor ev \<noteq> '''' \<Longrightarrow> p \<noteq> '''' \<Longrightarrow> map_of (ts_accepted s) (predecessor ev) = Some p"
        "activeClaims s (te_work ev) < 32"
        "s' = add_claim (s\<lparr>ts_accepted := acc\<rparr>) (event_key ev)
           \<lparr>cs_id = text_of (te_data ev) ''claim_id'', cs_generation = text_of (te_data ev) ''generation'',
            cs_root = te_id ev, cs_work = te_work ev, cs_last = te_id ev, cs_active = True, cs_offers = []\<rparr>"
proof -
  let ?acc = "if predecessor ev = '''' then ts_accepted s else AList.delete (predecessor ev) (ts_accepted s)"
  have s1: "(if predecessor ev \<noteq> '''' then s\<lparr>ts_accepted := AList.delete (predecessor ev) (ts_accepted s)\<rparr> else s) =
      s\<lparr>ts_accepted := ?acc\<rparr>" by simp
  have act: "activeClaims (s\<lparr>ts_accepted := x\<rparr>) w = activeClaims s w" for x w
    by (simp add: activeClaims_def)
  note start = assms [unfolded apply_claim_def Let_def s1 act]
  consider "r = Some (transitionFailure ''INVALID_CLAIM_TRANSITION'' ErrTransitionConflict)" "s' = s"
    | "r = Some (transitionFailure ''RESOURCE_LIMIT'' ErrResourceLimit)" "s' = s\<lparr>ts_accepted := ?acc\<rparr>"
    | "r = None"
    using start by (simp only: prod.inject split: if_split_asm)
  then show ?thesis
  proof cases
    case 1
    then show ?thesis using Failed [of _ "ts_accepted s"] by simp
  next
    case 2
    then show ?thesis by (rule Failed)
  next
    case 3
    then show ?thesis
      using start Opened [of ?acc] by (auto split: if_split_asm option.splits)
  qed
qed

lemma ts_inv_apply_claim:
  assumes inv: "ts_inv s" and step: "apply_claim s ev p = (s', r)"
  shows "ts_inv s'"
  using step
proof (cases rule: apply_claim_cases)
  case (Opened acc)
  have "map_of (ts_claims s) (event_key ev) = None"
    using ts_invD(2) [OF inv, of "event_key ev"] Opened(2) by (cases "map_of (ts_claims s) (event_key ev)") auto
  then show ?thesis
    unfolding Opened(6) using inv Opened(5)
    by (intro ts_inv_new_claim) (simp_all add: activeClaims_def)
qed (use inv in simp)

lemma set_offer_accepted_sel [simp]:
  "ts_claims (set_offer_accepted s q) = ts_claims s" "ts_used (set_offer_accepted s q) = ts_used s"
  "ts_claim_heap (set_offer_accepted s q) = ts_claim_heap s"
  "ts_offers (set_offer_accepted s q) = ts_offers s" "ts_accepted (set_offer_accepted s q) = ts_accepted s"
  "ts_events (set_offer_accepted s q) = ts_events s"
  "length (ts_offer_heap (set_offer_accepted s q)) = length (ts_offer_heap s)"
  by (simp_all add: set_offer_accepted_def)

lemma set_offer_accepted_nth:
  "x < length (ts_offer_heap s) \<Longrightarrow> ts_offer (set_offer_accepted s q) x =
     (if x = q then (ts_offer s x)\<lparr>os_accepted := True\<rparr> else ts_offer s x)"
  by (simp add: set_offer_accepted_def nth_list_update)

abbreviation accept_all :: "(string \<times> nat) list \<Rightarrow> transcriptState \<Rightarrow> transcriptState" where
  "accept_all \<equiv> fold (\<lambda>(k, q) st. set_offer_accepted st q)"

lemma accept_all_sel [simp]:
  "ts_claim_heap (accept_all xs s) = ts_claim_heap s" "ts_claims (accept_all xs s) = ts_claims s"
  "ts_used (accept_all xs s) = ts_used s" "ts_offers (accept_all xs s) = ts_offers s"
  "ts_events (accept_all xs s) = ts_events s" "ts_accepted (accept_all xs s) = ts_accepted s"
  "length (ts_offer_heap (accept_all xs s)) = length (ts_offer_heap s)"
  by (induction xs arbitrary: s) (auto split: prod.splits)

lemma accept_all_nth:
  "x < length (ts_offer_heap s) \<Longrightarrow> ts_offer (accept_all xs s) x =
     (if \<exists>k. (k, x) \<in> set xs then (ts_offer s x)\<lparr>os_accepted := True\<rparr> else ts_offer s x)"
proof (induction xs arbitrary: s)
  case Nil
  then show ?case by simp
next
  case (Cons e xs)
  have "(\<exists>k. (k, x) \<in> set (e # xs)) \<longleftrightarrow> x = snd e \<or> (\<exists>k. (k, x) \<in> set xs)"
    by (cases e) auto
  then show ?case
    using Cons.prems by (cases e) (auto simp: Cons.IH set_offer_accepted_nth)
qed

lemma apply_on_claim_cases:
  assumes "apply_on_claim c s ev enforce = (s', r)"
  obtains (Failed) e where "r = Some e" "s' = s"
    | (Release) a where "r = None" "te_kind ev = ''release''" "map_of (ts_claims s) (event_key ev) = Some a"
        "cs_active (ts_claim s a)"
        "s' = set_claim s a ((ts_claim s a)\<lparr>cs_active := False, cs_last := te_id ev, cs_offers := []\<rparr>)"
    | (Progress) a where "r = None" "te_kind ev = ''progress''" "map_of (ts_claims s) (event_key ev) = Some a"
        "cs_active (ts_claim s a)" "s' = set_claim s a ((ts_claim s a)\<lparr>cs_last := te_id ev\<rparr>)"
    | (Offer) a offer where "r = None" "map_of (ts_claims s) (event_key ev) = Some a"
        "cs_active (ts_claim s a)" "length (cs_offers (ts_claim s a)) < 32"
        "os_eventID offer = te_id ev" "os_claim offer = a" "\<not> os_accepted offer"
        "te_kind ev \<notin> {''release'', ''progress''}"
        "s' = set_claim (s\<lparr>ts_offer_heap := ts_offer_heap s @ [offer],
             ts_offers := AList.update (te_id ev) (length (ts_offer_heap s)) (ts_offers s)\<rparr>) a
           ((ts_claim s a)\<lparr>cs_offers := AList.update (te_id ev) (length (ts_offer_heap s)) (cs_offers (ts_claim s a)),
             cs_last := te_id ev\<rparr>)"
proof (cases "r")
  case None
  obtain a where a: "map_of (ts_claims s) (event_key ev) = Some a"
    using assms None by (cases "map_of (ts_claims s) (event_key ev)") (simp_all add: apply_on_claim_def)
  have act: "cs_active (ts_claim s a)"
    using assms None by (simp add: apply_on_claim_def Let_def a split: if_split_asm)
  consider "te_kind ev = ''release''" | "te_kind ev = ''progress''"
    | "te_kind ev \<notin> {''release'', ''progress''}" "apply_offer c s ev a enforce = (s', None)"
    using assms None by (auto simp: apply_on_claim_def Let_def a split: if_split_asm)
  then show ?thesis
  proof cases
    case 3
    then show ?thesis using a act None
      by (auto simp: apply_offer_def Let_def split: if_split_asm intro!: Offer [of a])
  qed (use assms None a act in \<open>auto simp: apply_on_claim_def Let_def split: if_split_asm intro: Release Progress\<close>)
next
  case (Some e)
  have "s' = s"
    using assms Some
    by (auto simp: apply_on_claim_def apply_offer_def Let_def split: option.splits if_split_asm)
  then show ?thesis using Some Failed by blast
qed

lemma set_claim_sel [simp]:
  "ts_claims (set_claim s a cl) = ts_claims s" "ts_used (set_claim s a cl) = ts_used s"
  "ts_claim_heap (set_claim s a cl) = (ts_claim_heap s)[a := cl]"
  "ts_offer_heap (set_claim s a cl) = ts_offer_heap s" "ts_offers (set_claim s a cl) = ts_offers s"
  "ts_accepted (set_claim s a cl) = ts_accepted s" "ts_events (set_claim s a cl) = ts_events s"
  by (simp_all add: set_claim_def)

lemma ts_inv_apply_on_claim:
  assumes inv: "ts_inv s" and step: "apply_on_claim c s ev enforce = (s', r)"
  shows "ts_inv s'"
  using step
proof (cases rule: apply_on_claim_cases)
  case (Release a)
  note a = ts_invD(1) [OF inv Release(3)]
  show ?thesis unfolding Release(5)
    by (rule ts_inv_modify [OF inv a, where cl = "(ts_claim s a)\<lparr>cs_active := False, cs_last := te_id ev, cs_offers := []\<rparr>"])
      (use a ts_invD(4-6) [OF inv] in \<open>auto simp: claim_ok_def\<close>)
next
  case (Progress a)
  note a = ts_invD(1) [OF inv Progress(3)]
  have "claim_ok s' a" using ts_invD(3) [OF inv a] a unfolding Progress(5) claim_ok_def by simp
  then show ?thesis using a ts_invD(4-6) [OF inv] unfolding Progress(5)
    by (intro ts_inv_modify [OF inv a, where cl = "(ts_claim s a)\<lparr>cs_last := te_id ev\<rparr>"]) auto
next
  case (Offer a offer)
  note a = ts_invD(1) [OF inv Offer(2)]
  let ?q = "length (ts_offer_heap s)"
  have ok: "claim_ok s a" by (rule ts_invD(3) [OF inv a])
  have "claim_ok s' a"
    using ok Offer(3-7) a length_update_le [of "te_id ev" ?q "cs_offers (ts_claim s a)"]
      set_update_subset [of "te_id ev" ?q "cs_offers (ts_claim s a)"]
    unfolding claim_ok_def Offer(9) by (auto simp: nth_append)
  then show ?thesis
    using a ts_invD(4-6) [OF inv] Offer(5,6) unfolding Offer(9)
    by (intro ts_inv_modify [OF inv a, where cl = "(ts_claim s a)
        \<lparr>cs_offers := AList.update (te_id ev) ?q (cs_offers (ts_claim s a)), cs_last := te_id ev\<rparr>"])
      (auto simp: nth_append less_Suc_eq split: if_splits)
qed (use inv in simp)

lemma apply_accept_cases:
  assumes inv: "ts_inv s" and step: "apply_accept s ev p = (s', r)"
  obtains (Failed) e where "r = Some e" "s' = s"
    | (Accepted) q a where "r = None" "map_of (ts_offers s) (text_of (te_data ev) ''offer_event_id'') = Some q"
        "os_claim (ts_offer s q) = a" "\<not> os_accepted (ts_offer s q)" "cs_active (ts_claim s a)"
        "p = os_recipient (ts_offer s q)"
        "ts_claim_heap s' = (ts_claim_heap s)[a := (ts_claim s a)\<lparr>cs_last := te_id ev, cs_offers := []\<rparr>]"
        "ts_claims s' = ts_claims s" "ts_used s' = ts_used s" "ts_offers s' = ts_offers s" "ts_events s' = ts_events s"
        "ts_accepted s' = AList.update (te_id ev) p (ts_accepted s)"
        "length (ts_offer_heap s') = length (ts_offer_heap s)"
        "\<And>x. x < length (ts_offer_heap s) \<Longrightarrow> ts_offer s' x =
           (if x = q \<or> (\<exists>k. (k, x) \<in> set (cs_offers (ts_claim s a)))
            then (ts_offer s x)\<lparr>os_accepted := True\<rparr> else ts_offer s x)"
proof (cases "map_of (ts_offers s) (text_of (te_data ev) ''offer_event_id'')")
  case None
  then show ?thesis using step Failed by (auto simp: apply_accept_def)
next
  case (Some q)
  let ?a = "os_claim (ts_offer s q)"
  have a: "?a < length (ts_claim_heap s)" using ts_invD(4,6) [OF inv] Some by blast
  show ?thesis
  proof (cases r)
    case None
    have pre: "\<not> os_accepted (ts_offer s q)" "cs_active (ts_claim s ?a)" "p = os_recipient (ts_offer s q)"
      and s': "s' = (let s2 = set_claim (set_offer_accepted s q) ?a ((ts_claim s ?a)\<lparr>cs_last := te_id ev\<rparr>);
          s3 = accept_all (cs_offers (ts_claim s2 ?a)) s2;
          s4 = set_claim s3 ?a ((ts_claim s3 ?a)\<lparr>cs_offers := []\<rparr>)
        in s4\<lparr>ts_accepted := AList.update (te_id ev) p (ts_accepted s4)\<rparr>)"
      using step None by (auto simp: apply_accept_def Some Let_def split: if_split_asm)
    show ?thesis
    proof (rule Accepted [OF None Some refl pre])
      fix x
      assume "x < length (ts_offer_heap s)"
      then show "ts_offer s' x = (if x = q \<or> (\<exists>k. (k, x) \<in> set (cs_offers (ts_claim s ?a)))
            then (ts_offer s x)\<lparr>os_accepted := True\<rparr> else ts_offer s x)"
        using a by (simp add: s' Let_def accept_all_nth set_offer_accepted_nth)
    qed (use a in \<open>simp_all add: s' Let_def\<close>)
  next
    case (Some e)
    then show ?thesis
      using step Failed \<open>map_of _ _ = Some q\<close> by (auto simp: apply_accept_def Let_def split: if_split_asm)
  qed
qed

lemma ts_inv_apply_accept:
  assumes inv: "ts_inv s" and step: "apply_accept s ev p = (s', r)"
  shows "ts_inv s'"
  using inv step
proof (cases rule: apply_accept_cases)
  case (Accepted q a)
  have a: "a < length (ts_claim_heap s)" and q: "q < length (ts_offer_heap s)"
    using ts_invD(4,6) [OF inv] Accepted(2,3) by blast+
  have own: "os_claim (ts_offer s x) = a" if "(k, x) \<in> set (cs_offers (ts_claim s a))" for k x
    using ts_invD(3) [OF inv a] that by (auto simp: claim_ok_def)
  show ?thesis
  proof (rule ts_inv_modify [OF inv a Accepted(8,9,7)])
    show "claim_ok s' a" using a by (simp add: claim_ok_def Accepted(7))
    show "x < length (ts_offer_heap s') \<and> ts_offer s' x = ts_offer s x"
      if "x < length (ts_offer_heap s)" "os_claim (ts_offer s x) \<noteq> a" for x
      using that own Accepted(3,13) Accepted(14) [of x] by auto
    show "x < length (ts_offer_heap s') \<and> os_eventID (ts_offer s' x) = e" if "map_of (ts_offers s') e = Some x" for e x
      using that ts_invD(4,5) [OF inv, of e x] Accepted(10,13) Accepted(14) [of x] by simp
    show "os_claim (ts_offer s' x) < length (ts_claim_heap s)" if "x < length (ts_offer_heap s')" for x
      using that ts_invD(6) [OF inv, of x] Accepted(13) Accepted(14) [of x] by simp
  qed simp_all
qed (use inv in simp)

lemma apply_kind_cases:
  assumes "apply_kind c s ev p enforce = (s', r)"
  obtains (Claim) "te_kind ev = ''claim''" "apply_claim s ev p = (s', r)"
    | (On_Claim) "te_kind ev \<in> {''progress'', ''release'', ''handoff_offer''}"
        "apply_on_claim c s ev enforce = (s', r)"
    | (Accept) "te_kind ev = ''handoff_accept''" "apply_accept s ev p = (s', r)"
    | (Same) "te_kind ev \<notin> {''claim'', ''progress'', ''release'', ''handoff_offer'', ''handoff_accept''}" "s' = s"
proof -
  let ?on = "te_kind ev \<in> {''progress'', ''release'', ''handoff_offer''}"
  consider "te_kind ev = ''claim''" | "te_kind ev \<noteq> ''claim''" ?on | "te_kind ev = ''handoff_accept''"
    | "te_kind ev \<noteq> ''claim''" "\<not> ?on" "te_kind ev \<noteq> ''handoff_accept''" by blast
  then show ?thesis
  proof cases
    case 1
    then show ?thesis using assms Claim by (simp add: apply_kind_def)
  next
    case 2
    then have "apply_kind c s ev p enforce = apply_on_claim c s ev enforce"
      unfolding apply_kind_def by (simp only: if_True if_False Let_def)
    with 2 On_Claim assms show ?thesis by simp
  next
    case 3
    then show ?thesis using assms Accept by (simp add: apply_kind_def)
  next
    case 4
    then have "fst (apply_kind c s ev p enforce) = s"
      unfolding apply_kind_def Let_def by (simp only: if_False if_distrib [of fst] fst_conv if_cancel)
    with 4 Same assms show ?thesis by simp
  qed
qed

lemma ts_apply_cases:
  assumes "ts_apply c s ev p enforce candidate = (s', r)"
  obtains (Refused) e where "r = Some e" "s' = s"
    | (Kind) s1 where "apply_kind c s ev p enforce = (s1, r)"
        "s' = s1 \<or> s' = s1\<lparr>ts_events := AList.update (te_id ev) ev (ts_events s1)\<rparr>"
proof (cases "check_causation s ev")
  case None
  then show ?thesis
    using assms Kind by (cases "apply_kind c s ev p enforce") (auto simp: ts_apply_def split: option.splits if_splits)
next
  case (Some e)
  then show ?thesis using assms Refused [of e] by (simp add: ts_apply_def)
qed

lemma ts_inv_apply:
  assumes inv: "ts_inv s" and step: "ts_apply c s ev p enforce candidate = (s', r)"
  shows "ts_inv s'"
  using step
proof (cases rule: ts_apply_cases)
  case (Kind s1)
  have "ts_inv s1"
    using Kind(1) inv by (cases rule: apply_kind_cases)
      (auto intro: ts_inv_apply_claim ts_inv_apply_on_claim ts_inv_apply_accept)
  with Kind(2) show ?thesis by auto
qed (use inv in simp)

lemma ts_inv_replay_record: "ts_inv s \<Longrightarrow> replay_record c s r = Inr s' \<Longrightarrow> ts_inv s'"
  by (auto simp: replay_record_def split: sum.splits option.splits prod.splits dest: ts_inv_apply)

lemma ts_inv_replay_all: "ts_inv s \<Longrightarrow> replay_all c s rs = Inr s' \<Longrightarrow> ts_inv s'"
  by (induction rs arbitrary: s) (auto split: sum.splits dest: ts_inv_replay_record)

text \<open>What no event can undo.\<close>

definition ts_frame :: "string \<Rightarrow> transcriptState \<Rightarrow> transcriptState \<Rightarrow> bool" where
  "ts_frame eventID s s' \<longleftrightarrow>
     (\<forall>k. map_of (ts_used s) k = Some True \<longrightarrow> map_of (ts_used s') k = Some True) \<and>
     (\<forall>k a. map_of (ts_claims s) k = Some a \<longrightarrow> map_of (ts_claims s') k = Some a \<and>
        (\<not> cs_active (ts_claim s a) \<longrightarrow> \<not> cs_active (ts_claim s' a))) \<and>
     (\<forall>e. e \<noteq> eventID \<longrightarrow> map_of (ts_offers s') e = map_of (ts_offers s) e) \<and>
     (\<forall>q < length (ts_offer_heap s). os_accepted (ts_offer s q) \<longrightarrow> os_accepted (ts_offer s' q)) \<and>
     (\<forall>e. e \<noteq> eventID \<longrightarrow> map_of (ts_accepted s) e = None \<longrightarrow> map_of (ts_accepted s') e = None)"

lemma ts_frame_refl [simp]: "ts_frame e s s"
  by (simp add: ts_frame_def)

lemma ts_frame_claim:
  assumes inv: "ts_inv s" and step: "apply_claim s ev p = (s', r)"
  shows "ts_frame (te_id ev) s s' \<or> (\<exists>acc. r \<noteq> None \<and> s' = s\<lparr>ts_accepted := acc\<rparr>)"
  using step
proof (cases rule: apply_claim_cases)
  case (Opened acc)
  have "k \<noteq> event_key ev" if "map_of (ts_claims s) k = Some a" for k a
    using ts_invD(2) [OF inv that] Opened(2) by auto
  then show ?thesis
    unfolding Opened(6) using ts_invD(1) [OF inv] by (auto simp: ts_frame_def Opened(3) nth_append)
qed auto

lemma ts_frame_on_claim:
  assumes inv: "ts_inv s" and step: "apply_on_claim c s ev enforce = (s', r)"
  shows "ts_frame (te_id ev) s s'"
  using step
proof (cases rule: apply_on_claim_cases)
  case (Release a)
  show ?thesis unfolding Release(5) using ts_invD(1) [OF inv Release(3)]
    by (auto simp: ts_frame_def nth_list_update)
next
  case (Progress a)
  show ?thesis unfolding Progress(5) using ts_invD(1) [OF inv Progress(3)]
    by (auto simp: ts_frame_def nth_list_update)
next
  case (Offer a offer)
  show ?thesis unfolding Offer(9) using ts_invD(1) [OF inv Offer(2)]
    by (auto simp: ts_frame_def nth_list_update nth_append)
qed simp

lemma ts_frame_accept:
  assumes inv: "ts_inv s" and step: "apply_accept s ev p = (s', r)"
  shows "ts_frame (te_id ev) s s'"
  using inv step
proof (cases rule: apply_accept_cases)
  case (Accepted q a)
  have "cs_active (ts_claim s' b) = cs_active (ts_claim s b)" for b
    using Accepted(7) by (cases "b = a \<and> a < length (ts_claim_heap s)") (auto simp: list_update_beyond)
  moreover have "os_accepted (ts_offer s' x)" if "x < length (ts_offer_heap s)" "os_accepted (ts_offer s x)" for x
    using Accepted(14) [OF that(1)] that(2) by simp
  ultimately show ?thesis unfolding ts_frame_def Accepted(8-12) by simp
qed simp

lemma ts_frame_apply:
  assumes inv: "ts_inv s" and step: "ts_apply c s ev p enforce candidate = (s', None)"
  shows "ts_frame (te_id ev) s s'"
  using step
proof (cases rule: ts_apply_cases)
  case (Kind s1)
  have "ts_frame (te_id ev) s s1"
    using Kind(1)
  proof (cases rule: apply_kind_cases)
    case Claim
    then show ?thesis using ts_frame_claim [OF inv Claim(2)] by auto
  qed (auto intro: ts_frame_on_claim ts_frame_accept inv)
  with Kind(2) show ?thesis by (auto simp: ts_frame_def)
qed simp

text \<open>The events of a transcript with the participants of their receipts.\<close>

definition transcript_events :: "codec \<Rightarrow> AcceptedRecord list \<Rightarrow> (transitionEvent \<times> string) list" where
  "transcript_events c rs = map (\<lambda>r. (projr (parseTransitionEvent c (ar_canonical r)), receiptParticipant c r)) rs"

fun apply_events :: "codec \<Rightarrow> transcriptState \<Rightarrow> (transitionEvent \<times> string) list \<Rightarrow> transcriptState option" where
  "apply_events c s [] = Some s"
| "apply_events c s ((ev, p) # evs) = (case ts_apply c s ev p False False of
       (s', None) \<Rightarrow> apply_events c (s'\<lparr>ts_events := AList.update (te_id ev) ev (ts_events s')\<rparr>) evs
     | (s', Some e) \<Rightarrow> None)"

lemma replay_all_events:
  "replay_all c s rs = Inr s' \<Longrightarrow> apply_events c s (transcript_events c rs) = Some s'"
  by (induction rs arbitrary: s)
    (auto simp: transcript_events_def replay_record_def split: sum.splits option.splits prod.splits)

lemma apply_events_snoc:
  "apply_events c s (evs @ [(ev, p)]) = Some s' \<longleftrightarrow> (\<exists>s1 s2. apply_events c s evs = Some s1 \<and>
     ts_apply c s1 ev p False False = (s2, None) \<and> s' = s2\<lparr>ts_events := AList.update (te_id ev) ev (ts_events s2)\<rparr>)"
  by (induction evs arbitrary: s) (auto split: prod.splits option.splits)

lemma apply_events_inv: "apply_events c s evs = Some s' \<Longrightarrow> ts_inv s \<Longrightarrow> ts_inv s'"
  by (induction evs arbitrary: s)
    (auto split: prod.splits option.splits, metis ts_inv_apply ts_inv_irrelevant(2))

abbreviation events_of_kind :: "string \<Rightarrow> (transitionEvent \<times> string) list \<Rightarrow> transitionEvent list" where
  "events_of_kind k evs \<equiv> filter (\<lambda>ev. te_kind ev = k) (map fst evs)"

abbreviation offer_ref :: "transitionEvent \<Rightarrow> string" where
  "offer_ref ev \<equiv> text_of (te_data ev) ''offer_event_id''"

lemma apply_claim_effect:
  assumes "ts_apply c s ev p enforce candidate = (s', None)" "te_kind ev = ''claim''"
  shows "map_of (ts_used s) (event_key ev) \<noteq> Some True" "map_of (ts_used s') (event_key ev) = Some True"
    "predecessor ev \<noteq> '''' \<Longrightarrow> p \<noteq> '''' \<Longrightarrow>
       map_of (ts_accepted s) (predecessor ev) = Some p \<and> map_of (ts_accepted s') (predecessor ev) = None"
proof -
  obtain s1 where s1: "apply_claim s ev p = (s1, None)"
    "s' = s1 \<or> s' = s1\<lparr>ts_events := AList.update (te_id ev) ev (ts_events s1)\<rparr>"
    using assms by (auto elim!: ts_apply_cases apply_kind_cases)
  from s1(1) show "map_of (ts_used s) (event_key ev) \<noteq> Some True"
    "map_of (ts_used s') (event_key ev) = Some True"
    "predecessor ev \<noteq> '''' \<Longrightarrow> p \<noteq> '''' \<Longrightarrow>
       map_of (ts_accepted s) (predecessor ev) = Some p \<and> map_of (ts_accepted s') (predecessor ev) = None"
    using s1(2) by (elim apply_claim_cases; auto)+
qed

lemma apply_accept_effect:
  assumes inv: "ts_inv s" and "ts_apply c s ev p enforce candidate = (s', None)" "te_kind ev = ''handoff_accept''"
  shows "\<exists>q < length (ts_offer_heap s). map_of (ts_offers s) (offer_ref ev) = Some q \<and> \<not> os_accepted (ts_offer s q) \<and>
    map_of (ts_offers s') (offer_ref ev) = Some q \<and> q < length (ts_offer_heap s') \<and> os_accepted (ts_offer s' q)"
proof -
  obtain s1 where s1: "apply_accept s ev p = (s1, None)"
    "s' = s1 \<or> s' = s1\<lparr>ts_events := AList.update (te_id ev) ev (ts_events s1)\<rparr>"
    using assms(2,3) by (auto elim!: ts_apply_cases apply_kind_cases)
  from inv s1(1) show ?thesis
  proof (cases rule: apply_accept_cases)
    case (Accepted q a)
    then show ?thesis using s1(2) ts_invD(4) [OF inv Accepted(2)] Accepted(14) [of q] by auto
  qed simp
qed

lemma apply_events_rev_induct [consumes 1, case_names Nil Snoc]:
  assumes run: "apply_events c ts_empty evs = Some s"
    and base: "P [] ts_empty"
    and snoc: "\<And>evs ev p s1 s2. apply_events c ts_empty evs = Some s1 \<Longrightarrow> P evs s1 \<Longrightarrow> ts_inv s1 \<Longrightarrow>
      ts_apply c s1 ev p False False = (s2, None) \<Longrightarrow> ts_frame (te_id ev) s1 s2 \<Longrightarrow> ts_inv s2 \<Longrightarrow>
      P (evs @ [(ev, p)]) (s2\<lparr>ts_events := AList.update (te_id ev) ev (ts_events s2)\<rparr>)"
  shows "P evs s"
  using run
proof (induction evs arbitrary: s rule: rev_induct)
  case (snoc x evs)
  obtain ev p where x: "x = (ev, p)" by (cases x)
  with snoc.prems obtain s1 s2 where s1: "apply_events c ts_empty evs = Some s1"
    "ts_apply c s1 ev p False False = (s2, None)" "s = s2\<lparr>ts_events := AList.update (te_id ev) ev (ts_events s2)\<rparr>"
    by (auto simp: apply_events_snoc)
  have inv: "ts_inv s1" using apply_events_inv [OF s1(1)] by simp
  show ?case
    unfolding x s1(3)
    by (rule assms(3) [OF s1(1) snoc.IH [OF s1(1)] inv s1(2) ts_frame_apply [OF inv s1(2)] ts_inv_apply [OF inv s1(2)]])
qed (use base in simp)

lemma claim_keys_distinct:
  assumes "apply_events c ts_empty evs = Some s"
  shows "distinct (map event_key (events_of_kind ''claim'' evs)) \<and>
    (\<forall>ev \<in> set (events_of_kind ''claim'' evs). map_of (ts_used s) (event_key ev) = Some True)"
  using assms
proof (induction rule: apply_events_rev_induct)
  case (Snoc evs ev p s1 s2)
  then show ?case using apply_claim_effect(1,2) [OF Snoc.hyps(3)] by (auto simp: ts_frame_def)
qed simp

text \<open>Bookkeeping of identities: an offer or an open handoff belongs to an event of the transcript.\<close>

lemma events_known:
  assumes "apply_events c ts_empty evs = Some s"
  shows "\<forall>e. map_of (ts_offers s) e \<noteq> None \<or> map_of (ts_accepted s) e \<noteq> None \<longrightarrow> e \<in> te_id ` fst ` set evs"
  using assms
proof (induction rule: apply_events_rev_induct)
  case (Snoc evs ev p s1 s2)
  have "e = te_id ev \<or> map_of (ts_offers s1) e \<noteq> None \<or> map_of (ts_accepted s1) e \<noteq> None"
    if "map_of (ts_offers s2) e \<noteq> None \<or> map_of (ts_accepted s2) e \<noteq> None" for e
    using Snoc.hyps(4) that unfolding ts_frame_def by metis
  then have "e = te_id ev \<or> e \<in> te_id ` fst ` set evs"
    if "map_of (ts_offers s2) e \<noteq> None \<or> map_of (ts_accepted s2) e \<noteq> None" for e
    using that Snoc.IH by metis
  then show ?case by (simp del: not_None_eq)
qed (simp add: ts_empty_def)

definition offer_taken :: "transcriptState \<Rightarrow> string \<Rightarrow> bool" where
  "offer_taken s e \<longleftrightarrow> (\<exists>q < length (ts_offer_heap s). map_of (ts_offers s) e = Some q \<and> os_accepted (ts_offer s q))"

lemma offer_taken_frame:
  assumes "ts_frame eventID s s'" "ts_inv s'" "e \<noteq> eventID" "offer_taken s e"
  shows "offer_taken s' e"
  using assms ts_invD(4) [OF assms(2)] by (fastforce simp: ts_frame_def offer_taken_def)

lemma accepts_distinct:
  assumes "apply_events c ts_empty evs = Some s" and "distinct (map (te_id \<circ> fst) evs)"
  shows "distinct (map offer_ref (events_of_kind ''handoff_accept'' evs)) \<and>
    (\<forall>ev \<in> set (events_of_kind ''handoff_accept'' evs). offer_taken s (offer_ref ev))"
  using assms
proof (induction rule: apply_events_rev_induct)
  case (Snoc evs ev p s1 s2)
  then have IH: "distinct (map offer_ref (events_of_kind ''handoff_accept'' evs))"
    "\<And>e. e \<in> set (events_of_kind ''handoff_accept'' evs) \<Longrightarrow> offer_taken s1 (offer_ref e)" by auto
  have fresh: "te_id ev \<notin> te_id ` fst ` set evs" using Snoc.prems by auto
  have keep: "offer_taken s2 e" if "offer_taken s1 e" for e
  proof (rule offer_taken_frame [OF Snoc.hyps(4,5) _ that])
    show "e \<noteq> te_id ev" using events_known [OF Snoc.hyps(1)] that fresh by (auto simp: offer_taken_def)
  qed
  have eff: "\<not> offer_taken s1 (offer_ref ev)" "offer_taken s2 (offer_ref ev)" if "te_kind ev = ''handoff_accept''"
    using apply_accept_effect [OF Snoc.hyps(2,3) that] by (auto simp: offer_taken_def)
  have new: "offer_ref ev \<notin> offer_ref ` set (events_of_kind ''handoff_accept'' evs)" if "te_kind ev = ''handoff_accept''"
    by (rule notI, erule imageE, drule IH(2)) (use eff(1) [OF that] in simp)
  have "offer_taken (s2\<lparr>ts_events := x\<rparr>) e = offer_taken s2 e" for x e by (simp add: offer_taken_def)
  with IH keep eff new show ?case by (cases "te_kind ev = ''handoff_accept''") simp_all
qed simp

lemma successors_distinct:
  assumes "apply_events c ts_empty evs = Some s" and "distinct (map (te_id \<circ> fst) evs)" "\<forall>(ev, p) \<in> set evs. p \<noteq> ''''"
  shows "distinct (filter (\<lambda>e. e \<noteq> '''') (map predecessor (events_of_kind ''claim'' evs))) \<and>
    (\<forall>ev \<in> set (events_of_kind ''claim'' evs). predecessor ev \<noteq> '''' \<longrightarrow>
       map_of (ts_accepted s) (predecessor ev) = None \<and> predecessor ev \<in> te_id ` fst ` set evs)"
  using assms
proof (induction rule: apply_events_rev_induct)
  case (Snoc evs ev p s1 s2)
  then have IH: "distinct (filter (\<lambda>e. e \<noteq> '''') (map predecessor (events_of_kind ''claim'' evs)))"
    "\<And>e. e \<in> set (events_of_kind ''claim'' evs) \<Longrightarrow> predecessor e \<noteq> '''' \<Longrightarrow>
      map_of (ts_accepted s1) (predecessor e) = None \<and> predecessor e \<in> te_id ` fst ` set evs" by auto
  have fresh: "te_id ev \<notin> te_id ` fst ` set evs" using Snoc.prems by auto
  have keep: "map_of (ts_accepted s2) (predecessor e) = None"
    if "e \<in> set (events_of_kind ''claim'' evs)" "predecessor e \<noteq> ''''" for e
  proof -
    have "predecessor e \<noteq> te_id ev" using IH(2) [OF that] fresh by metis
    then show ?thesis using Snoc.hyps(4) IH(2) [OF that] by (simp add: ts_frame_def)
  qed
  have eff: "map_of (ts_accepted s1) (predecessor ev) = Some p \<and> map_of (ts_accepted s2) (predecessor ev) = None"
    if "te_kind ev = ''claim''" "predecessor ev \<noteq> ''''"
    using apply_claim_effect(3) [OF Snoc.hyps(3) that] Snoc.prems by auto
  have known: "predecessor ev \<in> te_id ` fst ` set evs" if "te_kind ev = ''claim''" "predecessor ev \<noteq> ''''"
    using events_known [OF Snoc.hyps(1)] eff [OF that] by auto
  have "predecessor ev \<notin> predecessor ` set (events_of_kind ''claim'' evs)"
    if "te_kind ev = ''claim''" "predecessor ev \<noteq> ''''"
    by (rule notI, erule imageE, drule IH(2)) (use eff [OF that] that in auto)
  with IH keep eff known show ?case
    by (cases "te_kind ev = ''claim'' \<and> predecessor ev \<noteq> []") (auto simp: image_iff)
qed simp

lemma apply_release_effect:
  assumes "ts_inv s" "ts_apply c s ev p enforce candidate = (s', None)" "te_kind ev = ''release''"
  shows "\<exists>a. map_of (ts_claims s') (event_key ev) = Some a \<and> \<not> cs_active (ts_claim s' a)"
proof -
  obtain s1 where s1: "apply_on_claim c s ev enforce = (s1, None)"
    "s' = s1 \<or> s' = s1\<lparr>ts_events := AList.update (te_id ev) ev (ts_events s1)\<rparr>"
    using assms(2,3) by (auto elim!: ts_apply_cases apply_kind_cases)
  from s1(1) show ?thesis
  proof (cases rule: apply_on_claim_cases)
    case (Release a)
    then show ?thesis using s1(2) ts_invD(1) [OF assms(1) Release(3)] by auto
  qed (use assms(3) in auto)
qed

lemma apply_needs_active:
  assumes "ts_apply c s ev p enforce candidate = (s', None)"
    and "te_kind ev \<in> {''progress'', ''release'', ''handoff_offer''}"
  shows "\<exists>a. map_of (ts_claims s) (event_key ev) = Some a \<and> cs_active (ts_claim s a)"
proof -
  obtain s1 where "apply_on_claim c s ev enforce = (s1, None)"
    using assms by (auto elim!: ts_apply_cases apply_kind_cases)
  then show ?thesis by (cases rule: apply_on_claim_cases) auto
qed

lemma released_closed:
  assumes "apply_events c ts_empty evs = Some s" and "i < length evs" "te_kind (fst (evs ! i)) = ''release''"
  shows "(\<exists>a. map_of (ts_claims s) (event_key (fst (evs ! i))) = Some a \<and> \<not> cs_active (ts_claim s a)) \<and>
    (\<forall>j < length evs. i < j \<longrightarrow> te_kind (fst (evs ! j)) \<in> {''progress'', ''release'', ''handoff_offer''} \<longrightarrow>
       event_key (fst (evs ! j)) \<noteq> event_key (fst (evs ! i)))"
  using assms
proof (induction rule: apply_events_rev_induct)
  case (Snoc evs ev p s1 s2)
  show ?case
  proof (cases "i < length evs")
    case False
    then have "i = length evs" using Snoc.prems by simp
    then show ?thesis using apply_release_effect [OF Snoc.hyps(2,3)] Snoc.prems by auto
  next
    case True
    then have IH: "\<exists>a. map_of (ts_claims s1) (event_key (fst (evs ! i))) = Some a \<and> \<not> cs_active (ts_claim s1 a)"
      "\<forall>j < length evs. i < j \<longrightarrow> te_kind (fst (evs ! j)) \<in> {''progress'', ''release'', ''handoff_offer''} \<longrightarrow>
         event_key (fst (evs ! j)) \<noteq> event_key (fst (evs ! i))"
      using Snoc.IH Snoc.prems by (auto simp: nth_append)
    then have "\<exists>a. map_of (ts_claims s2) (event_key (fst (evs ! i))) = Some a \<and> \<not> cs_active (ts_claim s2 a)"
      using Snoc.hyps(4) by (fastforce simp: ts_frame_def)
    moreover have "te_kind ev \<in> {''progress'', ''release'', ''handoff_offer''} \<Longrightarrow>
        event_key ev \<noteq> event_key (fst (evs ! i))"
      using apply_needs_active [OF Snoc.hyps(3)] IH(1) by fastforce
    ultimately show ?thesis using IH(2) True by (auto simp: nth_append less_Suc_eq)
  qed
qed simp

section \<open>Properties\<close>

text \<open>A concrete transcript: a claim, an offer of it, the acceptance, the successor claim and the release of
  the first claim. The codec of the example reads an event by its number.\<close>

definition ex_event :: "string \<Rightarrow> string \<Rightarrow> string \<Rightarrow> (string \<times> string) list \<Rightarrow> json" where
  "ex_event eid kind causation data = JObj [(''id'', JStr eid), (''type'', JStr kind), (''correlation_id'', JStr ''k''),
     (''causation_id'', JStr causation), (''data'', JObj (map (\<lambda>(k, v). (k, JStr v)) data)), (''evidence'', JArr [])]"

definition ex_codec :: codec where
  "ex_codec = \<lparr>jc_Unmarshal = (\<lambda>b.
       if b = [1] then (ex_event ''1'' ''claim'' '''' [(''claim_id'', ''c''), (''generation'', ''g'')], False)
       else if b = [2] then (ex_event ''2'' ''handoff_offer'' ''1'' [(''claim_id'', ''c''), (''generation'', ''g''),
         (''parent_claim_event_id'', ''1''), (''to_participant_instance_id'', ''q'')], False)
       else if b = [3] then (ex_event ''3'' ''handoff_accept'' ''2'' [(''claim_id'', ''c''), (''generation'', ''g''),
         (''offer_event_id'', ''2''), (''source_claim_event_id'', ''1'')], False)
       else if b = [4] then (ex_event ''4'' ''claim'' ''3'' [(''claim_id'', ''c''), (''generation'', ''h''),
         (''predecessor_handoff_event'', ''3'')], False)
       else if b = [5] then (ex_event ''5'' ''release'' ''3'' [(''claim_id'', ''c''), (''generation'', ''g''),
         (''parent_claim_event_id'', ''3'')], False)
       else if b = [8] then (ex_event ''8'' ''progress'' ''4'' [(''claim_id'', ''c''), (''generation'', ''h''),
         (''parent_claim_event_id'', ''4'')], False)
       else if b = [6] then (JObj [(''participant_instance_id'', JStr ''p'')], False)
       else (JObj [(''participant_instance_id'', JStr ''q'')], False)),
     jc_canonicalJSON = (\<lambda>_. Some [])\<rparr>"

definition ex_rec :: "nat \<Rightarrow> byte \<Rightarrow> AcceptedRecord" where
  "ex_rec n who = \<lparr>ar_channel = ex_key, ar_sequence = of_nat n, ar_event_id = [], ar_canonical = [of_nat n], ar_digest = [],
     ar_authn = [], ar_authz = [], ar_receipt_id = [], ar_key_id = [], ar_algorithm = [], ar_preimage = [who], ar_signature = []\<rparr>"

definition ex_handoff :: "AcceptedRecord list" where
  "ex_handoff = [ex_rec 1 6, ex_rec 2 6, ex_rec 3 7, ex_rec 4 7, ex_rec 5 6]"

definition ex_state :: transcriptState where
  "ex_state = projr (replay_all ex_codec ts_empty ex_handoff)"

lemma ex_replays: "replay_all ex_codec ts_empty ex_handoff = Inr ex_state"
proof -
  have "\<not> isl (replay_all ex_codec ts_empty ex_handoff)" by code_simp
  then show ?thesis by (simp add: ex_state_def)
qed

text \<open>
  C21: the validator terminates and decides on the whole transcript. Over the view of the in-memory
  store its paging loop always ends (for a transcript a 64-bit cursor can number), and its answer
  is that of replaying every record of the transcript in order and then applying the candidate.
\<close>

theorem transition_Validate_total:
  assumes "mem_step\<^sup>*\<^sup>* mem_New s" "mem_records s key = Some rs" "length rs < 2 ^ 64" "participant \<noteq> ''''"
  shows "transition_Validate c (Some (memoryAdmissionView s key)) canonical participant =
    Some (case replay_all c ts_empty rs of Inl e \<Rightarrow> Some e
      | Inr state \<Rightarrow> admit_candidate c state canonical participant)"
  by (rule memv.validate_eq [OF mem_steps_inv [OF assms(1) mem_inv_New] assms(2-4)])

theorem transition_Validate_total_witness:
  "transition_Validate ex_codec (Some (memoryAdmissionView ex_store0 ex_key)) [1] ''p'' = Some None"
proof -
  have "mem_records ex_store0 ex_key = Some []" by (simp add: ex_store0_eq mem_records_def)
  moreover have "admit_candidate ex_codec ts_empty [1] ''p'' = None" by code_simp
  ultimately show ?thesis using transition_Validate_total [OF ex_store0_reachable] by simp
qed

text \<open>
  C22: admission never poisons a transcript. When the validator admits a candidate, the record committed
  for it (the same canonical bytes, the admitted participant in its receipt) replays, so every later
  validation over the extended transcript still reaches its candidate.
\<close>

theorem admission_never_poisons:
  assumes "mem_step\<^sup>*\<^sup>* mem_New s" "mem_records s key = Some rs" "length rs < 2 ^ 64"
    and "transition_Validate c (Some (memoryAdmissionView s key)) canonical participant = Some None"
    and "ar_canonical r = canonical" "receiptParticipant c r = participant"
  shows "\<exists>state. replay_all c ts_empty (rs @ [r]) = Inr state"
proof -
  have p: "participant \<noteq> ''''" using assms(4) by (auto simp: transition_Validate_def)
  from memv.validate_eq [OF mem_steps_inv [OF assms(1) mem_inv_New] assms(2,3) p] assms(4)
  obtain t where t: "replay_all c ts_empty rs = Inr t" "admit_candidate c t canonical participant = None"
    by (auto split: sum.splits)
  then show ?thesis using admitted_replays [OF t(2) assms(5,6)] by (auto simp: replay_all_append)
qed

theorem admission_never_poisons_witness:
  "\<exists>state. replay_all ex_codec ts_empty ([] @ [ex_rec 1 6]) = Inr state"
proof -
  have rs: "mem_records ex_store0 ex_key = Some []" by (simp add: ex_store0_eq mem_records_def)
  have "admit_candidate ex_codec ts_empty [1] ''p'' = None" by code_simp
  then have "transition_Validate ex_codec (Some (memoryAdmissionView ex_store0 ex_key)) [1] ''p'' = Some None"
    using memv.validate_eq [OF mem_steps_inv [OF ex_store0_reachable mem_inv_New] rs] by simp
  moreover have "receiptParticipant ex_codec (ex_rec 1 6) = ''p''" by code_simp
  ultimately show ?thesis
    using admission_never_poisons [OF ex_store0_reachable rs, of ex_codec "[1]" "''p''" "ex_rec 1 6"]
    by (simp add: ex_rec_def)
qed

text \<open>
  C23: resource limits hold in every transcript that replays: at most 32 claims of one work item
  are active and a claim has at most 32 open offers.
\<close>

theorem transition_limits:
  assumes "replay_all c ts_empty rs = Inr state"
  shows "activeClaims state work \<le> 32 \<and>
    (\<forall>a < length (ts_claim_heap state). length (cs_offers (ts_claim_heap state ! a)) \<le> 32)"
  using ts_inv_replay_all [OF ts_inv_empty assms] by (auto simp: ts_inv_def claim_ok_def)

theorem transition_limits_witness: "activeClaims ex_state '''' \<le> 32 \<and> length (ts_claim_heap ex_state) = 2"
proof -
  have "length (ts_claim_heap ex_state) = 2" by code_simp
  then show ?thesis using transition_limits [OF ex_replays, of "''''"] by simp
qed

text \<open>
  A claim generation is opened once: in a transcript that replays, no two claim events carry the same
  claim identity and generation.
\<close>

theorem claim_generation_unique:
  assumes "replay_all c ts_empty rs = Inr state"
  shows "distinct (map (\<lambda>ev. claimKey (text_of (te_data ev) ''claim_id'') (text_of (te_data ev) ''generation''))
    (filter (\<lambda>ev. te_kind ev = ''claim'') (map fst (transcript_events c rs))))"
  using claim_keys_distinct [OF replay_all_events [OF assms]] by blast

text \<open>
  A handoff offer is accepted at most once: in a transcript with distinct event identities that replays,
  no two acceptances refer to the same offer.
\<close>

theorem handoff_accepted_once:
  assumes "replay_all c ts_empty rs = Inr state" "distinct (map (te_id \<circ> fst) (transcript_events c rs))"
  shows "distinct (map (\<lambda>ev. text_of (te_data ev) ''offer_event_id'')
    (filter (\<lambda>ev. te_kind ev = ''handoff_accept'') (map fst (transcript_events c rs))))"
  using accepts_distinct [OF replay_all_events [OF assms(1)] assms(2)] by blast

lemma ex_ids: "distinct (map (te_id \<circ> fst) (transcript_events ex_codec ex_handoff))"
  by code_simp

text \<open>
  C24: an accepted handoff is consumed at most once: when every receipt names its participant and event
  identities are distinct, no two successor claims name the same accepted handoff.
\<close>

theorem handoff_consumed_once:
  assumes "replay_all c ts_empty rs = Inr state" "distinct (map (te_id \<circ> fst) (transcript_events c rs))"
    and "\<forall>(ev, participant) \<in> set (transcript_events c rs). participant \<noteq> ''''"
  shows "distinct (filter (\<lambda>e. e \<noteq> '''') (map (\<lambda>ev. text_of (te_data ev) ''predecessor_handoff_event'')
    (filter (\<lambda>ev. te_kind ev = ''claim'') (map fst (transcript_events c rs)))))"
  using successors_distinct [OF replay_all_events [OF assms(1)] assms(2,3)] by blast

theorem handoff_consumed_once_witness:
  "distinct (filter (\<lambda>e. e \<noteq> '''') (map predecessor
    (filter (\<lambda>ev. te_kind ev = ''claim'') (map fst (transcript_events ex_codec ex_handoff)))))"
proof -
  have "\<forall>(ev, participant) \<in> set (transcript_events ex_codec ex_handoff). participant \<noteq> ''''"
    by code_simp
  then show ?thesis by (rule handoff_consumed_once [OF ex_replays ex_ids])
qed

text \<open>
  A released claim stays closed: after its release no progress, release or offer of the same claim
  identity and generation occurs in a transcript that replays.
\<close>

theorem released_claim_closed:
  assumes "replay_all c ts_empty rs = Inr state" and "evs = map fst (transcript_events c rs)"
    and "i < j" "j < length evs" "te_kind (evs ! i) = ''release''"
    and "te_kind (evs ! j) \<in> {''progress'', ''release'', ''handoff_offer''}"
  shows "claimKey (text_of (te_data (evs ! j)) ''claim_id'') (text_of (te_data (evs ! j)) ''generation'') \<noteq>
    claimKey (text_of (te_data (evs ! i)) ''claim_id'') (text_of (te_data (evs ! i)) ''generation'')"
  using released_closed [OF replay_all_events [OF assms(1)], of i] assms(2-6) by auto

definition ex_released :: "AcceptedRecord list" where
  "ex_released = ex_handoff @ [ex_rec 8 7]"

end
