(* ===== verification/Coordination.thy ===== *)
theory Coordination
  imports Prelude
begin

text \<open>
  Nonces and fenced leases: the ports of \<^verbatim>\<open>internal/coordination/store.go\<close> and their in-memory
  adapter \<^verbatim>\<open>internal/coordination/memory/store.go\<close>. Each method holds the store's mutex, so it is one
  atomic function; the readings of the clock are arguments, one for each call of \<^verbatim>\<open>Now\<close>. A lease handle is a
  value that its methods return updated; \<open>lease_system\<close> holds a store with every handle it has given out.
\<close>

section \<open>Ports\<close>

datatype coord_error = CInvalidArgument | CUnavailable | CConflict | CInvariant

type_synonym Digest = string

datatype NonceOutcome = NonceConsumed | NonceReplayed

datatype LeaseStatus = LeaseValid | LeaseExpired | LeaseReleased | LeaseStale

record NonceValue =
  nv_digest :: Digest
  nv_expires :: time
  nv_epoch :: u64

record LeaseValue =
  lv_holder :: Digest
  lv_expires :: time
  lv_epoch :: u64

record LeaseResumeValue =
  rv_holder :: Digest
  rv_expires :: time
  rv_epoch :: u64
  rv_token :: u64

definition NewLeaseResumeValue ::
  "Digest \<Rightarrow> time \<Rightarrow> u64 \<Rightarrow> u64 \<Rightarrow> coord_error + LeaseResumeValue" where
  "NewLeaseResumeValue holder expires epoch token =
     (if \<not> digestPattern holder \<or> t_loc expires \<noteq> UTC \<or>
         \<not> time_Equal expires (time_Truncate expires Millisecond) \<or> epoch = 0 \<or> epoch > maxSafeInteger \<or>
         token = 0 \<or> token > maxSafeInteger
      then Inl CInvalidArgument
      else Inr \<lparr>rv_holder = holder, rv_expires = expires, rv_epoch = epoch, rv_token = token\<rparr>)"

section \<open>The in-memory adapter\<close>

record leaseRecord =
  lr_holder :: Digest
  lr_expires :: time
  lr_epoch :: u64
  lr_revision :: u64
  lr_released :: bool

record CoordStore =
  co_MaxLifetime :: duration
  co_Epoch :: u64
  co_nonces :: "(Digest, NonceValue) gomap"
  co_leases :: "(Digest, leaseRecord) gomap"
  co_revision :: u64

record lease =
  le_key :: Digest
  le_holder :: Digest
  le_expires :: time
  le_revision :: u64
  le_released :: bool

definition co_New :: "duration \<Rightarrow> u64 \<Rightarrow> bool \<Rightarrow> coord_error + CoordStore" where
  "co_New maxLifetime epoch nowGiven =
     (if maxLifetime \<le> 0 \<or> epoch = 0 \<or> \<not> nowGiven then Inl CInvalidArgument
      else Inr \<lparr>co_MaxLifetime = maxLifetime, co_Epoch = epoch, co_nonces = [], co_leases = [],
        co_revision = 0\<rparr>)"

definition co_valid :: "CoordStore \<Rightarrow> time \<Rightarrow> Digest \<Rightarrow> Digest \<Rightarrow> time \<Rightarrow> u64 \<Rightarrow> bool" where
  "co_valid s Now key identity expires epoch =
     (let now = time_UTC Now in
      digestPattern key \<and> digestPattern identity \<and> epoch = co_Epoch s \<and>
      time_After expires now \<and> \<not> time_After expires (time_Add now (co_MaxLifetime s)))"

definition co_Consume :: "CoordStore \<Rightarrow> time \<Rightarrow> Digest \<Rightarrow> NonceValue \<Rightarrow> CoordStore \<times> (coord_error + NonceOutcome)" where
  "co_Consume s now key v =
     (if \<not> co_valid s now key (nv_digest v) (nv_expires v) (nv_epoch v) then (s, Inl CInvalidArgument)
      else if map_of (co_nonces s) key \<noteq> None then (s, Inr NonceReplayed)
      else (s\<lparr>co_nonces := AList.update key v (co_nonces s)\<rparr>, Inr NonceConsumed))"

definition co_Acquire ::
  "CoordStore \<Rightarrow> time \<Rightarrow> time \<Rightarrow> Digest \<Rightarrow> LeaseValue \<Rightarrow> CoordStore \<times> (coord_error + lease)" where
  "co_Acquire s now1 now2 key v =
     (if \<not> co_valid s now1 key (lv_holder v) (lv_expires v) (lv_epoch v) then (s, Inl CInvalidArgument)
      else if (case map_of (co_leases s) key of
          Some current \<Rightarrow> \<not> lr_released current \<and> time_After (lr_expires current) (time_UTC now2)
        | None \<Rightarrow> False)
      then (s, Inl CConflict)
      else
        let revision = co_revision s + 1;
            current = \<lparr>lr_holder = lv_holder v, lr_expires = lv_expires v, lr_epoch = lv_epoch v,
              lr_revision = revision, lr_released = False\<rparr> in
        (s\<lparr>co_revision := revision, co_leases := AList.update key current (co_leases s)\<rparr>,
         Inr \<lparr>le_key = key, le_holder = lv_holder v, le_expires = lv_expires v,
           le_revision = revision, le_released = False\<rparr>))"

definition co_Resume ::
  "CoordStore \<Rightarrow> time \<Rightarrow> Digest \<Rightarrow> LeaseResumeValue \<Rightarrow> coord_error + lease" where
  "co_Resume s now key v =
     (if \<not> digestPattern key \<or> rv_epoch v \<noteq> co_Epoch s then Inl CInvalidArgument
      else case map_of (co_leases s) key of
        None \<Rightarrow> Inl CConflict
      | Some current \<Rightarrow>
          if lr_released current \<or> lr_holder current \<noteq> rv_holder v \<or> lr_expires current \<noteq> rv_expires v \<or>
             lr_epoch current \<noteq> rv_epoch v \<or> lr_revision current \<noteq> rv_token v \<or>
             \<not> time_After (lr_expires current) (time_UTC now)
          then Inl CConflict
          else Inr \<lparr>le_key = key, le_holder = lr_holder current, le_expires = lr_expires current,
            le_revision = lr_revision current, le_released = False\<rparr>)"

definition co_Inspect ::
  "CoordStore \<Rightarrow> time \<Rightarrow> Digest \<Rightarrow> LeaseResumeValue \<Rightarrow> coord_error + LeaseStatus" where
  "co_Inspect s now key v =
     (if \<not> digestPattern key \<or> rv_epoch v \<noteq> co_Epoch s then Inl CInvalidArgument
      else case map_of (co_leases s) key of
        None \<Rightarrow> Inr LeaseStale
      | Some current \<Rightarrow>
          if lr_holder current \<noteq> rv_holder v \<or> lr_expires current \<noteq> rv_expires v \<or>
             lr_epoch current \<noteq> rv_epoch v
          then Inr LeaseStale
          else if lr_released current \<and> rv_token v < - 1 \<and> lr_revision current = rv_token v + 1
          then Inr LeaseReleased
          else if lr_revision current \<noteq> rv_token v \<or> lr_released current then Inr LeaseStale
          else if \<not> time_After (lr_expires current) (time_UTC now) then Inr LeaseExpired
          else Inr LeaseValid)"

definition lease_Renew ::
  "CoordStore \<Rightarrow> lease \<Rightarrow> time \<Rightarrow> time \<Rightarrow> CoordStore \<times> lease \<times> coord_error option" where
  "lease_Renew s held now expires =
     (if le_released held \<or> \<not> co_valid s now (le_key held) (le_holder held) expires (co_Epoch s)
      then (s, held, Some CConflict)
      else if (case map_of (co_leases s) (le_key held) of
          None \<Rightarrow> True | Some current \<Rightarrow> lr_revision current \<noteq> le_revision held)
      then (s, held, Some CConflict)
      else
        let revision = co_revision s + 1;
            held' = held\<lparr>le_revision := revision, le_expires := expires\<rparr> in
        (s\<lparr>co_revision := revision, co_leases := AList.update (le_key held)
             \<lparr>lr_holder = le_holder held, lr_expires = expires, lr_epoch = co_Epoch s,
              lr_revision = revision, lr_released = False\<rparr> (co_leases s)\<rparr>, held', None))"

definition lease_Valid :: "CoordStore \<Rightarrow> lease \<Rightarrow> time \<Rightarrow> bool" where
  "lease_Valid s held now =
     (case map_of (co_leases s) (le_key held) of
        None \<Rightarrow> False
      | Some current \<Rightarrow> \<not> le_released held \<and> lr_revision current = le_revision held \<and>
          time_After (lr_expires current) (time_UTC now))"

definition lease_Release :: "CoordStore \<Rightarrow> lease \<Rightarrow> CoordStore \<times> lease \<times> coord_error option" where
  "lease_Release s held =
     (case map_of (co_leases s) (le_key held) of
        None \<Rightarrow> (s, held, Some CConflict)
      | Some current \<Rightarrow>
          if le_released held \<or> lr_revision current \<noteq> le_revision held then (s, held, Some CConflict)
          else
            let revision = co_revision s + 1 in
            (s\<lparr>co_revision := revision, co_leases := AList.update (le_key held)
                 (current\<lparr>lr_revision := revision, lr_released := True\<rparr>) (co_leases s)\<rparr>,
             held\<lparr>le_revision := revision, le_released := True\<rparr>, None))"

section \<open>A store and its handles\<close>

record lease_system =
  sy_store :: CoordStore
  sy_handles :: "lease list"

inductive co_step :: "lease_system \<Rightarrow> lease_system \<Rightarrow> bool" where
  consume: "co_Consume (sy_store y) now key v = (s', r) \<Longrightarrow> co_step y (y\<lparr>sy_store := s'\<rparr>)"
| refused: "co_Acquire (sy_store y) now1 now2 key v = (s', Inl e) \<Longrightarrow> co_step y (y\<lparr>sy_store := s'\<rparr>)"
| acquire: "co_Acquire (sy_store y) now1 now2 key v = (s', Inr h) \<Longrightarrow>
    co_step y \<lparr>sy_store = s', sy_handles = sy_handles y @ [h]\<rparr>"
| resume: "co_Resume (sy_store y) now key v = Inr h \<Longrightarrow> co_step y (y\<lparr>sy_handles := sy_handles y @ [h]\<rparr>)"
| renew: "i < length (sy_handles y) \<Longrightarrow> lease_Renew (sy_store y) (sy_handles y ! i) now expires = (s', h, r) \<Longrightarrow>
    co_step y \<lparr>sy_store = s', sy_handles = (sy_handles y)[i := h]\<rparr>"
| release: "i < length (sy_handles y) \<Longrightarrow> lease_Release (sy_store y) (sy_handles y ! i) = (s', h, r) \<Longrightarrow>
    co_step y \<lparr>sy_store = s', sy_handles = (sy_handles y)[i := h]\<rparr>"

definition co_initial :: "lease_system \<Rightarrow> bool" where
  "co_initial y \<longleftrightarrow> (\<exists>maxLifetime epoch. co_New maxLifetime epoch True = Inr (sy_store y)) \<and> sy_handles y = []"

section \<open>Invariant\<close>

text \<open>
  No token exceeds the revision counter, and a handle that carries the current token of its key agrees
  with the stored lease. The counter is a \<^verbatim>\<open>uint64\<close>: the facts below are about the first \<open>2^64 - 1\<close> steps.
\<close>

definition handle_ok :: "CoordStore \<Rightarrow> lease \<Rightarrow> bool" where
  "handle_ok s h \<longleftrightarrow> le_revision h \<le> co_revision s \<and>
     (\<forall>c. map_of (co_leases s) (le_key h) = Some c \<longrightarrow> lr_revision c = le_revision h \<longrightarrow>
        lr_holder c = le_holder h \<and> lr_expires c = le_expires h \<and> lr_released c = le_released h)"

definition co_inv :: "lease_system \<Rightarrow> bool" where
  "co_inv y \<longleftrightarrow> (\<forall>h \<in> set (sy_handles y). handle_ok (sy_store y) h) \<and>
     (\<forall>k c. map_of (co_leases (sy_store y)) k = Some c \<longrightarrow> lr_revision c \<le> co_revision (sy_store y))"

text \<open>The one mutation all three operations share: a new lease record under the next token.\<close>

lemma co_inv_supersede:
  assumes inv: "co_inv y" and room: "co_revision (sy_store y) \<noteq> - 1"
    and s': "s' = (sy_store y)\<lparr>co_revision := co_revision (sy_store y) + 1, co_leases := AList.update key c (co_leases (sy_store y))\<rparr>"
    and c: "lr_revision c = co_revision (sy_store y) + 1"
    and h: "le_key h = key" "le_revision h = lr_revision c" "le_holder h = lr_holder c" "le_expires h = lr_expires c"
      "le_released h = lr_released c"
    and hs: "set hs \<subseteq> insert h (set (sy_handles y))"
  shows "co_inv \<lparr>sy_store = s', sy_handles = hs\<rparr>"
proof -
  define R where "R = co_revision (sy_store y) + 1"
  have new: "x < R" if "x \<le> co_revision (sy_store y)" for x
    unfolding R_def using that room by (rule less_Suc_word)
  have old: "handle_ok s' g" if g: "g \<in> set (sy_handles y)" for g
  proof -
    have ok: "handle_ok (sy_store y) g" using inv g by (simp add: co_inv_def)
    then have lt: "le_revision g < R" by (simp add: new handle_ok_def)
    have stored: "map_of (co_leases s') (le_key g) = (if le_key g = key then Some c else map_of (co_leases (sy_store y)) (le_key g))"
      and rev: "co_revision s' = R" by (simp_all add: s' R_def)
    have "lr_revision c \<noteq> le_revision g" using lt c by (metis R_def less_irrefl)
    with ok lt show ?thesis unfolding handle_ok_def stored rev by (metis less_imp_le option.inject)
  qed
  have "lr_revision d \<le> R" if "map_of (co_leases s') k = Some d" for k d
    using inv that new [of "lr_revision d"] c unfolding s' R_def [symmetric]
    by (cases "k = key") (auto simp: co_inv_def less_imp_le)
  moreover have "handle_ok s' h" using h c unfolding handle_ok_def s' by simp
  ultimately show ?thesis using hs old unfolding co_inv_def by (auto simp: s' R_def)
qed

lemma co_Acquire_Inr:
  assumes "co_Acquire s now1 now2 key v = (s', Inr h)"
  shows "s' = s\<lparr>co_revision := co_revision s + 1, co_leases := AList.update key
      \<lparr>lr_holder = lv_holder v, lr_expires = lv_expires v, lr_epoch = lv_epoch v,
       lr_revision = co_revision s + 1, lr_released = False\<rparr> (co_leases s)\<rparr>"
    "h = \<lparr>le_key = key, le_holder = lv_holder v, le_expires = lv_expires v, le_revision = co_revision s + 1, le_released = False\<rparr>"
  using assms by (auto simp: co_Acquire_def Let_def split: if_splits)

lemma handle_update: "i < length hs \<Longrightarrow> set (hs[i := h]) \<subseteq> insert h (set hs)"
  by (rule set_update_subset_insert)

lemma lease_Renew_None:
  assumes "lease_Renew s held now expires = (s', h, None)"
  shows "\<exists>c. \<not> le_released held \<and> map_of (co_leases s) (le_key held) = Some c \<and> lr_revision c = le_revision held \<and>
    h = held\<lparr>le_revision := co_revision s + 1, le_expires := expires\<rparr> \<and>
    s' = s\<lparr>co_revision := co_revision s + 1, co_leases := AList.update (le_key held)
       \<lparr>lr_holder = le_holder held, lr_expires = expires, lr_epoch = co_Epoch s,
        lr_revision = co_revision s + 1, lr_released = False\<rparr> (co_leases s)\<rparr>"
  using assms unfolding lease_Renew_def Let_def
  by (cases "map_of (co_leases s) (le_key held)") (simp_all split: if_split_asm)

lemma lease_Renew_Some:
  assumes "lease_Renew s held now expires = (s', h, Some e)"
  shows "s' = s" "h = held"
  using assms unfolding lease_Renew_def Let_def by (simp_all split: if_split_asm)

lemma lease_Release_None:
  assumes "lease_Release s held = (s', h, None)"
  shows "\<exists>c. \<not> le_released held \<and> map_of (co_leases s) (le_key held) = Some c \<and> lr_revision c = le_revision held \<and>
    h = held\<lparr>le_revision := co_revision s + 1, le_released := True\<rparr> \<and>
    s' = s\<lparr>co_revision := co_revision s + 1, co_leases := AList.update (le_key held)
       (c\<lparr>lr_revision := co_revision s + 1, lr_released := True\<rparr>) (co_leases s)\<rparr>"
  using assms unfolding lease_Release_def Let_def
  by (cases "map_of (co_leases s) (le_key held)") (simp_all split: if_split_asm)

lemma lease_Release_Some:
  assumes "lease_Release s held = (s', h, Some e)"
  shows "s' = s" "h = held"
  using assms unfolding lease_Release_def Let_def
  by (cases "map_of (co_leases s) (le_key held)"; simp split: if_split_asm)+

lemma co_inv_step:
  assumes "co_step y y'" "co_inv y" "co_revision (sy_store y) \<noteq> - 1"
  shows "co_inv y'"
  using assms
proof (induction rule: co_step.induct)
  case (consume y now key v s' r)
  then show ?case by (auto simp: co_Consume_def co_inv_def handle_ok_def split: if_splits)
next
  case (refused y now1 now2 key v s' e)
  then have "s' = sy_store y" by (auto simp: co_Acquire_def Let_def split: if_splits)
  then show ?case using refused by simp
next
  case (acquire y now1 now2 key v s' h)
  note eff = co_Acquire_Inr [OF acquire(1)]
  show ?case by (rule co_inv_supersede [OF acquire(2,3) eff(1), where h = h]) (simp_all add: eff(2))
next
  case (resume y now key v h)
  then obtain c where "map_of (co_leases (sy_store y)) key = Some c" "\<not> lr_released c"
    "h = \<lparr>le_key = key, le_holder = lr_holder c, le_expires = lr_expires c, le_revision = lr_revision c, le_released = False\<rparr>"
    by (auto simp: co_Resume_def split: if_splits option.splits)
  then show ?case using resume by (auto simp: co_inv_def handle_ok_def)
next
  case (renew i y now expires s' h r)
  show ?case
  proof (cases r)
    case None
    with lease_Renew_None renew(2) have eff:
      "h = (sy_handles y ! i)\<lparr>le_revision := co_revision (sy_store y) + 1, le_expires := expires\<rparr>"
      "\<not> le_released (sy_handles y ! i)"
      "s' = (sy_store y)\<lparr>co_revision := co_revision (sy_store y) + 1, co_leases := AList.update (le_key (sy_handles y ! i))
       \<lparr>lr_holder = le_holder (sy_handles y ! i), lr_expires = expires, lr_epoch = co_Epoch (sy_store y),
        lr_revision = co_revision (sy_store y) + 1, lr_released = False\<rparr> (co_leases (sy_store y))\<rparr>"
      by blast+
    show ?thesis
      by (rule co_inv_supersede [OF renew(3,4) eff(3) _ _ _ _ _ _ handle_update [OF renew(1)]])
        (use eff in simp_all)
  next
    case (Some e)
    then have "s' = sy_store y" "h = sy_handles y ! i" using lease_Renew_Some renew(2) by blast+
    then show ?thesis using renew(3) by (simp add: co_inv_def)
  qed
next
  case (release i y s' h r)
  have ok: "handle_ok (sy_store y) (sy_handles y ! i)" using release by (auto simp: co_inv_def)
  show ?case
  proof (cases r)
    case None
    then obtain c where c: "map_of (co_leases (sy_store y)) (le_key (sy_handles y ! i)) = Some c"
      "lr_revision c = le_revision (sy_handles y ! i)"
      "h = (sy_handles y ! i)\<lparr>le_revision := co_revision (sy_store y) + 1, le_released := True\<rparr>"
      "s' = (sy_store y)\<lparr>co_revision := co_revision (sy_store y) + 1, co_leases := AList.update (le_key (sy_handles y ! i))
       (c\<lparr>lr_revision := co_revision (sy_store y) + 1, lr_released := True\<rparr>) (co_leases (sy_store y))\<rparr>"
      using lease_Release_None release(2) by blast
    show ?thesis
      by (rule co_inv_supersede [OF release(3,4) c(4) _ _ _ _ _ _ handle_update [OF release(1)]])
        (use c ok in \<open>simp_all add: handle_ok_def\<close>)
  next
    case (Some e)
    then have "s' = sy_store y" "h = sy_handles y ! i" using lease_Release_Some release(2) by blast+
    then show ?thesis using release(3) by (simp add: co_inv_def)
  qed
qed

lemma co_step_revision:
  assumes "co_step y y'"
  shows "co_revision (sy_store y') = co_revision (sy_store y) \<or> co_revision (sy_store y') = co_revision (sy_store y) + 1"
  using assms
proof (induction rule: co_step.induct)
  case (renew i y now expires s' h r)
  then show ?case by (cases r) (auto dest: lease_Renew_None lease_Renew_Some)
next
  case (release i y s' h r)
  then show ?case by (cases r) (auto dest: lease_Release_None lease_Release_Some)
qed (auto simp: co_Consume_def co_Acquire_def Let_def split: if_splits)

lemma co_initialD:
  assumes "co_initial y"
  shows "co_leases (sy_store y) = []" "co_nonces (sy_store y) = []" "co_revision (sy_store y) = 0" "sy_handles y = []"
proof -
  obtain m e where "sy_store y = \<lparr>co_MaxLifetime = m, co_Epoch = e, co_nonces = [], co_leases = [], co_revision = 0\<rparr>"
    using assms unfolding co_initial_def co_New_def by (metis Inl_Inr_False Inr_inject)
  then show "co_leases (sy_store y) = []" "co_nonces (sy_store y) = []" "co_revision (sy_store y) = 0" by simp_all
  show "sy_handles y = []" using assms by (simp add: co_initial_def)
qed

lemma co_run_inv:
  assumes "co_initial y0" "(co_step ^^ n) y0 y" "n < 2 ^ 64"
  shows "co_inv y \<and> unat (co_revision (sy_store y)) \<le> n"
  using assms(2,3)
proof (induction n arbitrary: y)
  case 0
  then show ?case using co_initialD [OF assms(1)] by (simp add: co_inv_def)
next
  case (Suc n)
  then obtain z where z: "(co_step ^^ n) y0 z" "co_step z y" by auto
  with Suc have IH: "co_inv z" "unat (co_revision (sy_store z)) \<le> n" by auto
  have room: "co_revision (sy_store z) \<noteq> - 1"
  proof
    assume "co_revision (sy_store z) = - 1"
    then show False using IH(2) Suc.prems(2) unat_max_word by simp
  qed
  have "unat (co_revision (sy_store y)) \<le> Suc n"
    using co_step_revision [OF z(2)] IH(2) unat_Suc_word [OF room] by auto
  then show ?case using co_inv_step [OF z(2) IH(1) room] by simp
qed

lemma co_run_room:
  assumes "co_initial y0" "(co_step ^^ n) y0 y" "n < 2 ^ 64 - 1"
  shows "co_inv y" "co_revision (sy_store y) \<noteq> - 1"
proof -
  have *: "co_inv y" "unat (co_revision (sy_store y)) \<le> n" using co_run_inv [OF assms(1,2)] assms(3) by auto
  then show "co_inv y" by simp
  show "co_revision (sy_store y) \<noteq> - 1"
  proof
    assume "co_revision (sy_store y) = - 1"
    then show False using * assms(3) unat_max_word by simp
  qed
qed

text \<open>The tokens a system has issued: those of its handles and of its stored leases.\<close>

definition tokens :: "lease_system \<Rightarrow> u64 set" where
  "tokens y = le_revision ` set (sy_handles y) \<union> lr_revision ` ran (map_of (co_leases (sy_store y)))"

lemma tokens_bound:
  assumes "co_inv y" "t \<in> tokens y"
  shows "t \<le> co_revision (sy_store y)"
  using assms by (auto simp: tokens_def co_inv_def handle_ok_def ran_def)

text \<open>A handle whose key now has another token.\<close>

definition superseded :: "lease_system \<Rightarrow> nat \<Rightarrow> bool" where
  "superseded y i \<longleftrightarrow> i < length (sy_handles y) \<and> (\<exists>c. map_of (co_leases (sy_store y)) (le_key (sy_handles y ! i)) = Some c \<and>
     le_revision (sy_handles y ! i) < lr_revision c)"

lemma superseded_other:
  assumes sup: "superseded y i" and inv: "co_inv y" and room: "co_revision (sy_store y) \<noteq> - 1"
    and hs: "i < length hs" "hs ! i = sy_handles y ! i"
    and s': "s' = (sy_store y)\<lparr>co_revision := co_revision (sy_store y) + 1, co_leases := AList.update key c (co_leases (sy_store y))\<rparr>"
    and c: "lr_revision c = co_revision (sy_store y) + 1"
  shows "superseded \<lparr>sy_store = s', sy_handles = hs\<rparr> i"
proof -
  have "le_revision (sy_handles y ! i) \<le> co_revision (sy_store y)"
    using sup inv by (auto simp: superseded_def co_inv_def handle_ok_def)
  then have "le_revision (sy_handles y ! i) < lr_revision c" unfolding c using room by (rule less_Suc_word)
  then show ?thesis using sup hs unfolding superseded_def s' by auto
qed

lemma superseded_step:
  assumes "co_step y y'" "superseded y i" "co_inv y" "co_revision (sy_store y) \<noteq> - 1"
  shows "superseded y' i \<and> sy_handles y' ! i = sy_handles y ! i"
  using assms
proof (induction rule: co_step.induct)
  case (consume y now key v s' r)
  then show ?case by (auto simp: co_Consume_def superseded_def split: if_splits)
next
  case (refused y now1 now2 key v s' e)
  then have "s' = sy_store y" by (auto simp: co_Acquire_def Let_def split: if_splits)
  then show ?case using refused by simp
next
  case (acquire y now1 now2 key v s' h)
  note eff = co_Acquire_Inr [OF acquire(1)]
  have i: "i < length (sy_handles y)" using acquire(2) by (simp add: superseded_def)
  show ?case
    using superseded_other [OF acquire(2-4) _ _ eff(1), of "sy_handles y @ [h]"] i by (simp add: nth_append)
next
  case (resume y now key v h)
  then show ?case by (auto simp: superseded_def nth_append)
next
  case (renew j y now expires s' h r)
  show ?case
  proof (cases r)
    case None
    with lease_Renew_None renew(2) obtain c where eff:
      "map_of (co_leases (sy_store y)) (le_key (sy_handles y ! j)) = Some c" "lr_revision c = le_revision (sy_handles y ! j)"
      "s' = (sy_store y)\<lparr>co_revision := co_revision (sy_store y) + 1, co_leases := AList.update (le_key (sy_handles y ! j))
       \<lparr>lr_holder = le_holder (sy_handles y ! j), lr_expires = expires, lr_epoch = co_Epoch (sy_store y),
        lr_revision = co_revision (sy_store y) + 1, lr_released = False\<rparr> (co_leases (sy_store y))\<rparr>"
      by blast
    then have ij: "j \<noteq> i" using renew(3) by (auto simp: superseded_def)
    with renew(3) have i: "i < length ((sy_handles y)[j := h])" "(sy_handles y)[j := h] ! i = sy_handles y ! i"
      by (auto simp: superseded_def)
    then show ?thesis using superseded_other [OF renew(3-5) i eff(3)] by simp
  next
    case (Some e)
    then have "s' = sy_store y" "h = sy_handles y ! j" using lease_Renew_Some renew(2) by blast+
    then show ?thesis using renew(3) by (simp add: superseded_def)
  qed
next
  case (release j y s' h r)
  show ?case
  proof (cases r)
    case None
    with lease_Release_None release(2) obtain c where eff:
      "map_of (co_leases (sy_store y)) (le_key (sy_handles y ! j)) = Some c" "lr_revision c = le_revision (sy_handles y ! j)"
      "s' = (sy_store y)\<lparr>co_revision := co_revision (sy_store y) + 1, co_leases := AList.update (le_key (sy_handles y ! j))
       (c\<lparr>lr_revision := co_revision (sy_store y) + 1, lr_released := True\<rparr>) (co_leases (sy_store y))\<rparr>"
      by blast
    then have ij: "j \<noteq> i" using release(3) by (auto simp: superseded_def)
    with release(3) have i: "i < length ((sy_handles y)[j := h])" "(sy_handles y)[j := h] ! i = sy_handles y ! i"
      by (auto simp: superseded_def)
    then show ?thesis using superseded_other [OF release(3-5) i eff(3)] by simp
  next
    case (Some e)
    then have "s' = sy_store y" "h = sy_handles y ! j" using lease_Release_Some release(2) by blast+
    then show ?thesis using release(3) by (simp add: superseded_def)
  qed
qed

lemma superseded_run:
  assumes "co_initial y0" "(co_step ^^ n) y0 y" "superseded y i" "(co_step ^^ m) y y'" "n + m < 2 ^ 64 - 1"
  shows "superseded y' i \<and> sy_handles y' ! i = sy_handles y ! i"
  using assms(4,5)
proof (induction m arbitrary: y')
  case 0
  then show ?case using assms(3) by simp
next
  case (Suc m)
  then obtain z where z: "(co_step ^^ m) y z" "co_step z y'" by auto
  have "(co_step ^^ (n + m)) y0 z" unfolding relpowp_add using assms(2) z(1) by blast
  with co_run_room [OF assms(1) this] Suc.prems have "co_inv z" "co_revision (sy_store z) \<noteq> - 1" by auto
  with superseded_step [OF z(2)] Suc.IH [OF z(1)] Suc.prems show ?case by simp
qed

section \<open>Exclusion\<close>

text \<open>
  What everybody but the holder of the lease \<open>h\<close> may do before it expires: any operation on other keys, acquiring the key of \<open>h\<close>
  as long as the clock it reads has not reached the expiry, resuming any lease, and renewing and releasing
  handles that belong to other holders.
\<close>

definition foreign :: "lease \<Rightarrow> lease \<Rightarrow> bool" where
  "foreign h g \<longleftrightarrow> le_key g \<noteq> le_key h \<or> le_holder g \<noteq> le_holder h"

inductive others_step :: "lease \<Rightarrow> lease_system \<Rightarrow> lease_system \<Rightarrow> bool" for h where
  consume: "co_Consume (sy_store y) now key v = (s', r) \<Longrightarrow> others_step h y (y\<lparr>sy_store := s'\<rparr>)"
| refused: "co_Acquire (sy_store y) now1 now2 key v = (s', Inl e) \<Longrightarrow> others_step h y (y\<lparr>sy_store := s'\<rparr>)"
| acquire: "co_Acquire (sy_store y) now1 now2 key v = (s', Inr g) \<Longrightarrow> key \<noteq> le_key h \<or> time_After (le_expires h) (time_UTC now2) \<Longrightarrow>
    others_step h y \<lparr>sy_store = s', sy_handles = sy_handles y @ [g]\<rparr>"
| resume: "co_Resume (sy_store y) now key v = Inr g \<Longrightarrow> others_step h y (y\<lparr>sy_handles := sy_handles y @ [g]\<rparr>)"
| renew: "i < length (sy_handles y) \<Longrightarrow> foreign h (sy_handles y ! i) \<Longrightarrow>
    lease_Renew (sy_store y) (sy_handles y ! i) now expires = (s', g, r) \<Longrightarrow>
    others_step h y \<lparr>sy_store = s', sy_handles = (sy_handles y)[i := g]\<rparr>"
| release: "i < length (sy_handles y) \<Longrightarrow> foreign h (sy_handles y ! i) \<Longrightarrow>
    lease_Release (sy_store y) (sy_handles y ! i) = (s', g, r) \<Longrightarrow>
    others_step h y \<lparr>sy_store = s', sy_handles = (sy_handles y)[i := g]\<rparr>"

lemma others_co_step: "others_step h y y' \<Longrightarrow> co_step y y'"
  by (induction rule: others_step.induct) (blast intro: co_step.intros)+

lemma others_co_run: "(others_step h ^^ m) y y' \<Longrightarrow> (co_step ^^ m) y y'"
  by (induction m arbitrary: y') (auto dest: others_co_step)

text \<open>The store has \<open>h\<close> as the live lease of its key.\<close>

definition holds :: "CoordStore \<Rightarrow> lease \<Rightarrow> bool" where
  "holds s h \<longleftrightarrow> (\<exists>c. map_of (co_leases s) (le_key h) = Some c \<and> \<not> lr_released c \<and> lr_revision c = le_revision h \<and>
     lr_holder c = le_holder h \<and> lr_expires c = le_expires h)"

lemma foreign_token:
  assumes "holds s h" "handle_ok s g" "foreign h g" "map_of (co_leases s) (le_key g) = Some c" "lr_revision c = le_revision g"
  shows "le_key g \<noteq> le_key h"
proof
  assume eq: "le_key g = le_key h"
  with assms(1,4) have "lr_holder c = le_holder h" by (auto simp: holds_def)
  moreover have "lr_holder c = le_holder g" using assms(2,4,5) by (simp add: handle_ok_def)
  ultimately show False using assms(3) eq by (simp add: foreign_def)
qed

lemma others_hold:
  assumes "others_step h y y'" "co_inv y" "holds (sy_store y) h"
  shows "holds (sy_store y') h"
  using assms
proof (induction rule: others_step.induct)
  case (consume y now key v s' r)
  then show ?case by (auto simp: co_Consume_def holds_def split: if_splits)
next
  case (refused y now1 now2 key v s' e)
  then have "s' = sy_store y" by (auto simp: co_Acquire_def Let_def split: if_splits)
  then show ?case using refused by simp
next
  case (acquire y now1 now2 key v s' g)
  have "key \<noteq> le_key h"
  proof
    assume key: "key = le_key h"
    with acquire(2) have "time_After (le_expires h) (time_UTC now2)" by simp
    with acquire(1,4) key show False by (auto simp: co_Acquire_def holds_def Let_def split: if_splits)
  qed
  then show ?case using acquire(4) co_Acquire_Inr(1) [OF acquire(1)] by (simp add: holds_def)
next
  case (resume y now key v g)
  then show ?case by simp
next
  case (renew i y now expires s' g r)
  then have ok: "handle_ok (sy_store y) (sy_handles y ! i)" by (simp add: co_inv_def)
  show ?case
  proof (cases r)
    case None
    with renew(3) obtain c where c: "map_of (co_leases (sy_store y)) (le_key (sy_handles y ! i)) = Some c"
        "lr_revision c = le_revision (sy_handles y ! i)" and s': "\<exists>d. s' = (sy_store y)\<lparr>co_revision := co_revision (sy_store y) + 1,
          co_leases := AList.update (le_key (sy_handles y ! i)) d (co_leases (sy_store y))\<rparr>"
      using lease_Renew_None by blast
    from foreign_token [OF renew(5) ok renew(2) c] s' renew(5) show ?thesis by (auto simp: holds_def)
  next
    case (Some e)
    then have "s' = sy_store y" using lease_Renew_Some(1) renew(3) by blast
    then show ?thesis using renew(5) by simp
  qed
next
  case (release i y s' g r)
  then have ok: "handle_ok (sy_store y) (sy_handles y ! i)" by (simp add: co_inv_def)
  show ?case
  proof (cases r)
    case None
    with release(3) obtain c where c: "map_of (co_leases (sy_store y)) (le_key (sy_handles y ! i)) = Some c"
        "lr_revision c = le_revision (sy_handles y ! i)" and s': "\<exists>d. s' = (sy_store y)\<lparr>co_revision := co_revision (sy_store y) + 1,
          co_leases := AList.update (le_key (sy_handles y ! i)) d (co_leases (sy_store y))\<rparr>"
      using lease_Release_None by blast
    from foreign_token [OF release(5) ok release(2) c] s' release(5) show ?thesis by (auto simp: holds_def)
  next
    case (Some e)
    then have "s' = sy_store y" using lease_Release_Some(1) release(3) by blast
    then show ?thesis using release(5) by simp
  qed
qed

lemma others_hold_run:
  assumes "co_initial y0" "(co_step ^^ n) y0 y" "holds (sy_store y) h" "(others_step h ^^ m) y y'" "n + m < 2 ^ 64"
  shows "holds (sy_store y') h"
  using assms(4,5)
proof (induction m arbitrary: y')
  case 0
  then show ?case using assms(3) by simp
next
  case (Suc m)
  then obtain z where z: "(others_step h ^^ m) y z" "others_step h z y'" by auto
  have "(co_step ^^ (n + m)) y0 z" unfolding relpowp_add using assms(2) others_co_run [OF z(1)] by blast
  then have "co_inv z" using co_run_inv [OF assms(1)] Suc.prems by simp
  then show ?case using others_hold [OF z(2)] Suc z(1) by simp
qed

lemma nonce_kept:
  assumes "co_step\<^sup>*\<^sup>* y y'" "map_of (co_nonces (sy_store y)) k \<noteq> None"
  shows "map_of (co_nonces (sy_store y')) k \<noteq> None"
  using assms
proof (induction rule: rtranclp_induct)
  case (step y z)
  from step.hyps(2) have "map_of (co_nonces (sy_store z)) k \<noteq> None" if "map_of (co_nonces (sy_store y)) k \<noteq> None"
    using that
  proof (induction rule: co_step.induct)
    case (renew i y now expires s' h r)
    then show ?case by (cases r) (auto dest: lease_Renew_None lease_Renew_Some)
  next
    case (release i y s' h r)
    then show ?case by (cases r) (auto dest: lease_Release_None lease_Release_Some)
  qed (auto simp: co_Consume_def co_Acquire_def Let_def split: if_splits)
  with step show ?case by blast
qed simp

section \<open>Properties\<close>

text \<open>A store with one lease, taken at time 0 until time 50.\<close>

definition ex_digest :: Digest where
  "ex_digest = replicate 64 (CHR ''a'')"

definition ex_time :: "int \<Rightarrow> time" where
  "ex_time n = \<lparr>t_nanos = n, t_loc = UTC, t_mono = None\<rparr>"

definition ex_system :: lease_system where
  "ex_system = \<lparr>sy_store = \<lparr>co_MaxLifetime = 100, co_Epoch = 1, co_nonces = [], co_leases = [], co_revision = 0\<rparr>, sy_handles = []\<rparr>"

definition ex_value :: LeaseValue where
  "ex_value = \<lparr>lv_holder = ex_digest, lv_expires = ex_time 50, lv_epoch = 1\<rparr>"

definition ex_taken :: lease_system where
  "ex_taken = (case co_Acquire (sy_store ex_system) (ex_time 0) (ex_time 0) ex_digest ex_value of
     (s, Inr h) \<Rightarrow> \<lparr>sy_store = s, sy_handles = [h]\<rparr> | (s, Inl e) \<Rightarrow> ex_system)"

lemmas ex_lease_defs = ex_system_def ex_taken_def ex_value_def ex_time_def ex_digest_def

lemma ex_system_initial: "co_initial ex_system"
  unfolding co_initial_def by (intro conjI exI [of _ 100] exI [of _ 1]) (simp_all add: ex_system_def co_New_def)

lemma ex_acquired: "\<exists>s h. co_Acquire (sy_store ex_system) (ex_time 0) (ex_time 0) ex_digest ex_value = (s, Inr h) \<and>
    ex_taken = \<lparr>sy_store = s, sy_handles = [h]\<rparr>"
  unfolding ex_taken_def
  by (simp add: ex_system_def ex_value_def ex_digest_def ex_time_def co_Acquire_def co_valid_def digestPattern_def
      time_After_def list_all_iff)

lemma ex_taken_run: "(co_step ^^ 1) ex_system ex_taken"
proof -
  have "co_step ex_system ex_taken"
    using ex_acquired co_step.acquire [of ex_system "ex_time 0" "ex_time 0" ex_digest ex_value] by (auto simp: ex_system_def)
  then show ?thesis by (simp only: relpowp_1)
qed

text \<open>
  C25: a lease is exclusive until it expires. From a state reached in \<open>n\<close> operations in which a handle is valid, let everybody but its
  holder go on with \<open>m\<close> operations, on this key only before the lease expires. At any time before the expiry the handle
  is then still valid, every other valid handle of its key carries the same token and belongs to the same holder, and
  acquiring the key is refused and changes nothing. This holds for the first \<open>2^64 - 1\<close> operations.
\<close>

theorem lease_mutual_exclusion:
  assumes "co_initial y0" "(co_step ^^ n) y0 y" "h \<in> set (sy_handles y)" "lease_Valid (sy_store y) h now"
    and "(others_step h ^^ m) y y'" "n + m < 2 ^ 64" "time_After (le_expires h) (time_UTC later)"
  shows "lease_Valid (sy_store y') h later \<and>
    (\<forall>g \<in> set (sy_handles y'). le_key g = le_key h \<and> lease_Valid (sy_store y') g later \<longrightarrow>
       le_revision g = le_revision h \<and> le_holder g = le_holder h) \<and>
    (\<exists>e. co_Acquire (sy_store y') now1 later (le_key h) v = (sy_store y', Inl e))"
proof -
  have "handle_ok (sy_store y) h" using co_run_inv [OF assms(1,2)] assms(3,6) by (simp add: co_inv_def)
  then have "holds (sy_store y) h" and live: "\<not> le_released h"
    using assms(4) by (auto simp: lease_Valid_def handle_ok_def holds_def split: option.splits)
  then obtain c where c: "map_of (co_leases (sy_store y')) (le_key h) = Some c" "\<not> lr_released c" "lr_revision c = le_revision h"
      "lr_holder c = le_holder h" "lr_expires c = le_expires h"
    using others_hold_run [OF assms(1,2) _ assms(5,6)] by (auto simp: holds_def)
  have "(co_step ^^ (n + m)) y0 y'" unfolding relpowp_add using assms(2) others_co_run [OF assms(5)] by blast
  then have "handle_ok (sy_store y') g" if "g \<in> set (sy_handles y')" for g
    using co_run_inv [OF assms(1)] assms(6) that by (simp add: co_inv_def)
  then have "le_revision g = le_revision h \<and> le_holder g = le_holder h"
    if "g \<in> set (sy_handles y')" "le_key g = le_key h" "lease_Valid (sy_store y') g later" for g
    using c that by (auto simp: lease_Valid_def handle_ok_def)
  moreover have "\<exists>e. co_Acquire (sy_store y') now1 later (le_key h) v = (sy_store y', Inl e)"
    using c assms(7) by (simp add: co_Acquire_def)
  moreover have "lease_Valid (sy_store y') h later" using c live assms(7) by (simp add: lease_Valid_def)
  ultimately show ?thesis by blast
qed

text \<open>The witness: a second handle resumes the lease, a rival tries to acquire its key and acquires another one.\<close>

definition ex_rival :: LeaseValue where
  "ex_rival = \<lparr>lv_holder = replicate 64 (CHR ''b''), lv_expires = ex_time 60, lv_epoch = 1\<rparr>"

definition ex_resumed :: lease_system where
  "ex_resumed = ex_taken\<lparr>sy_handles := sy_handles ex_taken @ sy_handles ex_taken\<rparr>"

definition ex_contended :: lease_system where
  "ex_contended = (case co_Acquire (sy_store ex_resumed) (ex_time 5) (ex_time 5) (replicate 64 (CHR ''b'')) ex_rival of
     (s, Inr g) \<Rightarrow> \<lparr>sy_store = s, sy_handles = sy_handles ex_resumed @ [g]\<rparr> | (s, Inl e) \<Rightarrow> ex_resumed)"

lemma ex_contended_run: "(others_step (hd (sy_handles ex_taken)) ^^ 3) ex_taken ex_contended"
proof -
  let ?h = "hd (sy_handles ex_taken)"
  define v where "v = \<lparr>rv_holder = ex_digest, rv_expires = ex_time 50, rv_epoch = 1, rv_token = 1\<rparr>"
  have "co_Resume (sy_store ex_taken) (ex_time 0) ex_digest v = Inr ?h" unfolding v_def by code_simp
  moreover have "[?h] = sy_handles ex_taken" by code_simp
  ultimately have resume: "others_step ?h ex_taken ex_resumed" using others_step.resume unfolding ex_resumed_def by metis
  have "snd (co_Acquire (sy_store ex_resumed) (ex_time 5) (ex_time 5) ex_digest ex_rival) = Inl CConflict"
    "fst (co_Acquire (sy_store ex_resumed) (ex_time 5) (ex_time 5) ex_digest ex_rival) = sy_store ex_resumed" by code_simp+
  then have "co_Acquire (sy_store ex_resumed) (ex_time 5) (ex_time 5) ex_digest ex_rival = (sy_store ex_resumed, Inl CConflict)"
    by (simp add: prod_eq_iff)
  from others_step.refused [OF this] have refused: "others_step ?h ex_resumed ex_resumed" by simp
  have "\<not> isl (snd (co_Acquire (sy_store ex_resumed) (ex_time 5) (ex_time 5) (replicate 64 (CHR ''b'')) ex_rival))" by code_simp
  then obtain s g where acq: "co_Acquire (sy_store ex_resumed) (ex_time 5) (ex_time 5) (replicate 64 (CHR ''b'')) ex_rival = (s, Inr g)"
    by (metis isl_def prod.collapse sum.collapse(2))
  have "replicate 64 (CHR ''b'') \<noteq> le_key ?h" by code_simp
  then have "others_step ?h ex_resumed ex_contended"
    using others_step.acquire [OF acq] by (simp add: ex_contended_def acq)
  with resume refused show ?thesis by (auto simp: numeral_3_eq_3)
qed

theorem lease_mutual_exclusion_witness:
  "length (sy_handles ex_contended) = 3 \<and> lease_Valid (sy_store ex_contended) (hd (sy_handles ex_taken)) (ex_time 40) \<and>
   lease_Valid (sy_store ex_contended) (sy_handles ex_contended ! 1) (ex_time 40) \<and>
   le_holder (sy_handles ex_contended ! 1) = le_holder (hd (sy_handles ex_taken)) \<and>
   (\<exists>e. co_Acquire (sy_store ex_contended) (ex_time 40) (ex_time 40) ex_digest ex_rival = (sy_store ex_contended, Inl e))"
proof -
  let ?h = "hd (sy_handles ex_taken)"
  have v: "lease_Valid (sy_store ex_taken) ?h (ex_time 10)" by code_simp
  have h: "?h \<in> set (sy_handles ex_taken)" by code_simp
  have later: "time_After (le_expires ?h) (time_UTC (ex_time 40))" by code_simp
  have key: "le_key ?h = ex_digest" "le_key (sy_handles ex_contended ! 1) = ex_digest" by code_simp+
  have len: "length (sy_handles ex_contended) = 3" by code_simp
  then have mem: "sy_handles ex_contended ! 1 \<in> set (sy_handles ex_contended)" by (simp add: nth_mem)
  have second: "lease_Valid (sy_store ex_contended) (sy_handles ex_contended ! 1) (ex_time 40)" by code_simp
  show ?thesis
    using lease_mutual_exclusion [OF ex_system_initial ex_taken_run h v ex_contended_run _ later, of "ex_time 40" ex_rival]
      key mem second len by auto
qed

text \<open>
  C26: fencing tokens strictly increase. Each successful acquire, renewal and release of any key is given a
  token greater than every token issued before, as long as fewer than \<open>2^64 - 1\<close> operations have run.
\<close>

theorem fencing_tokens_increase:
  assumes "co_initial y0" "(co_step ^^ n) y0 y" "n < 2 ^ 64 - 1" "t \<in> tokens y"
  shows "(co_Acquire (sy_store y) now1 now2 key v = (s', Inr h) \<longrightarrow> t < le_revision h) \<and>
    (lease_Renew (sy_store y) g now1 expires = (s', h, None) \<longrightarrow> t < le_revision h) \<and>
    (lease_Release (sy_store y) g = (s', h, None) \<longrightarrow> t < le_revision h)"
proof -
  note room = co_run_room [OF assms(1-3)]
  have "t < co_revision (sy_store y) + 1" using tokens_bound [OF room(1) assms(4)] room(2) by (rule less_Suc_word)
  then show ?thesis by (auto dest: co_Acquire_Inr(2) lease_Renew_None lease_Release_None)
qed

theorem fencing_tokens_increase_witness:
  "\<exists>s h. lease_Release (sy_store ex_taken) (hd (sy_handles ex_taken)) = (s, h, None) \<and>
     le_revision (hd (sy_handles ex_taken)) < le_revision h"
proof -
  have "snd (snd (lease_Release (sy_store ex_taken) (hd (sy_handles ex_taken)))) = None" by code_simp
  then obtain s h where rel: "lease_Release (sy_store ex_taken) (hd (sy_handles ex_taken)) = (s, h, None)"
    by (metis prod.collapse)
  have "hd (sy_handles ex_taken) \<in> set (sy_handles ex_taken)" by code_simp
  then have "le_revision (hd (sy_handles ex_taken)) \<in> tokens ex_taken" by (simp add: tokens_def)
  with fencing_tokens_increase [OF ex_system_initial ex_taken_run] rel show ?thesis by auto
qed

text \<open>
  A superseded handle is dead. Once the key of a handle has a newer token, the handle is never valid again and its
  renewals and releases fail, whatever happens later (within the first \<open>2^64 - 1\<close> operations).
\<close>

theorem superseded_handle_dead:
  assumes "co_initial y0" "(co_step ^^ n) y0 y" "superseded y i" "(co_step ^^ m) y y'" "n + m < 2 ^ 64 - 1"
  shows "\<not> lease_Valid (sy_store y') (sy_handles y' ! i) now \<and>
    snd (snd (lease_Renew (sy_store y') (sy_handles y' ! i) now expires)) = Some CConflict \<and>
    snd (snd (lease_Release (sy_store y') (sy_handles y' ! i))) = Some CConflict"
proof -
  have "superseded y' i" using superseded_run [OF assms] by blast
  then obtain c where "map_of (co_leases (sy_store y')) (le_key (sy_handles y' ! i)) = Some c"
    "lr_revision c \<noteq> le_revision (sy_handles y' ! i)" by (auto simp: superseded_def)
  then show ?thesis by (simp add: lease_Valid_def lease_Renew_def lease_Release_def)
qed

text \<open>
  A nonce is consumed at most once. After a nonce key has been consumed, no later attempt on it is told
  that it was consumed, whatever operations run in between.
\<close>

theorem nonce_consumed_once:
  assumes "co_Consume (sy_store y) now key v = (s, Inr NonceConsumed)" "co_step\<^sup>*\<^sup>* (y\<lparr>sy_store := s\<rparr>) y'"
  shows "snd (co_Consume (sy_store y') now' key v') \<in> {Inr NonceReplayed, Inl CInvalidArgument}"
proof -
  have "map_of (co_nonces s) key \<noteq> None" using assms(1) by (auto simp: co_Consume_def split: if_splits)
  then have "map_of (co_nonces (sy_store y')) key \<noteq> None" using nonce_kept [OF assms(2), of key] by simp
  then show ?thesis by (auto simp: co_Consume_def)
qed

definition ex_nonce :: NonceValue where
  "ex_nonce = \<lparr>nv_digest = ex_digest, nv_expires = ex_time 50, nv_epoch = 1\<rparr>"

text \<open>
  C38: what Inspect says of a lease after its holder released it. The code asks whether the record's revision follows the fencing
  token, but revisions are drawn from a counter that all the keys share: the answer is \<^verbatim>\<open>released\<close> exactly when no other lease
  was acquired, renewed or released between the last write of this one and its release, and \<^verbatim>\<open>stale\<close> otherwise.
\<close>

theorem released_status:
  assumes "co_Inspect s now (le_key held) v = Inr LeaseValid" "rv_token v < - 1" "rv_token v = le_revision held"
    and "lease_Release s held = (s', held', None)"
  shows "co_Inspect s' now' (le_key held) v = Inr (if co_revision s = rv_token v then LeaseReleased else LeaseStale)"
proof -
  obtain c where "map_of (co_leases s) (le_key held) = Some c"
    and s': "s' = s\<lparr>co_revision := co_revision s + 1, co_leases := AList.update (le_key held)
       (c\<lparr>lr_revision := co_revision s + 1, lr_released := True\<rparr>) (co_leases s)\<rparr>"
    using lease_Release_None [OF assms(4)] by auto
  then show ?thesis using assms(1,2) by (auto simp: co_Inspect_def split: if_split_asm)
qed

text \<open>The witness: a second key is acquired before the first is released, and the first is stale although its holder released it.\<close>

definition ex_two_leases :: CoordStore where
  "ex_two_leases = fst (co_Acquire (sy_store ex_taken) (ex_time 0) (ex_time 0) (replicate 64 (CHR ''b'')) ex_value)"

theorem released_status_witness:
  "\<exists>s'. fst (lease_Release ex_two_leases (hd (sy_handles ex_taken))) = s' \<and>
     co_Inspect s' (ex_time 1) ex_digest \<lparr>rv_holder = ex_digest, rv_expires = ex_time 50, rv_epoch = 1, rv_token = 1\<rparr> = Inr LeaseStale"
proof -
  let ?held = "hd (sy_handles ex_taken)"
  let ?v = "\<lparr>rv_holder = ex_digest, rv_expires = ex_time 50, rv_epoch = 1, rv_token = 1\<rparr>"
  have key: "le_key ?held = ex_digest" "le_revision ?held = 1" "co_revision ex_two_leases = 2" by code_simp+
  have valid: "co_Inspect ex_two_leases (ex_time 1) (le_key ?held) ?v = Inr LeaseValid" by code_simp
  have "snd (snd (lease_Release ex_two_leases ?held)) = None" by code_simp
  then obtain s' held' where r: "lease_Release ex_two_leases ?held = (s', held', None)" by (metis prod.collapse)
  have token: "rv_token ?v < - 1" "rv_token ?v = le_revision ?held" by code_simp+
  have "co_Inspect s' (ex_time 1) (le_key ?held) ?v = Inr LeaseStale"
    using released_status [OF valid token r, of "ex_time 1"] key(3) by simp
  then show ?thesis using r key(1) by simp
qed

end
