(* ===== verification/Budget.thy ===== *)
theory Budget
  imports Coordination
begin

text \<open>
  Capability budgets: \<^verbatim>\<open>internal/coordination/budget.go\<close> and the in-memory adapter
  \<^verbatim>\<open>internal/coordination/memory/budget.go\<close>. A principal holds at most \<open>limit\<close> capabilities; a capability
  is first reserved (pending, for a short time) and then committed (active, until its lease expires). Every method
  holds the mutex; each call of \<^verbatim>\<open>now\<close> is an argument.
\<close>

type_synonym CapabilityTokenID = bytes

text \<open>A token of sixteen zero bytes is refused; the loop computes the disjunction of the bytes.\<close>

unbundle bit_operations_syntax

definition NewCapabilityTokenID :: "bytes \<Rightarrow> coord_error + CapabilityTokenID" where
  "NewCapabilityTokenID raw =
     (if foldl (\<lambda>seen value. seen OR value) 0 raw = 0 then Inl CInvalidArgument else Inr raw)"

record budgetEntry =
  be_token :: CapabilityTokenID
  be_expires :: time
  be_leaseExpires :: time
  be_active :: bool

record CapabilityBudget =
  cb_limit :: int
  cb_pendingTTL :: duration
  cb_epoch :: u64
  cb_entries :: "(Digest, budgetEntry list) gomap"

definition NewCapabilityBudget :: "int \<Rightarrow> duration \<Rightarrow> u64 \<Rightarrow> bool \<Rightarrow> coord_error + CapabilityBudget" where
  "NewCapabilityBudget limit pendingTTL epoch nowGiven =
     (if limit < 1 \<or> limit > 32 \<or> pendingTTL \<le> 0 \<or> pendingTTL > 5 * Second \<or> epoch = 0 \<or> \<not> nowGiven
      then Inl CInvalidArgument
      else Inr \<lparr>cb_limit = limit, cb_pendingTTL = pendingTTL, cb_epoch = epoch, cb_entries = []\<rparr>)"

definition cb_of :: "CapabilityBudget \<Rightarrow> Digest \<Rightarrow> budgetEntry list" where
  "cb_of b prin = (case map_of (cb_entries b) prin of Some es \<Rightarrow> es | None \<Rightarrow> [])"

definition cb_set :: "CapabilityBudget \<Rightarrow> Digest \<Rightarrow> budgetEntry list \<Rightarrow> CapabilityBudget" where
  "cb_set b prin es = b\<lparr>cb_entries := AList.update prin es (cb_entries b)\<rparr>"

definition cb_prune :: "CapabilityBudget \<Rightarrow> time \<Rightarrow> Digest \<Rightarrow> CapabilityBudget \<times> budgetEntry list" where
  "cb_prune b now prin =
     (let kept = filter (\<lambda>entry. time_After (be_expires entry) (time_UTC now)) (cb_of b prin)
      in (cb_set b prin kept, kept))"

fun find_token :: "CapabilityTokenID \<Rightarrow> nat \<Rightarrow> budgetEntry list \<Rightarrow> nat option" where
  "find_token token index [] = None"
| "find_token token index (e # es) = (if be_token e = token then Some index else find_token token (index + 1) es)"

definition cb_find ::
  "CapabilityBudget \<Rightarrow> time \<Rightarrow> Digest \<Rightarrow> CapabilityTokenID \<Rightarrow> u64
     \<Rightarrow> CapabilityBudget \<times> (coord_error + (budgetEntry list \<times> nat))" where
  "cb_find b now prin token epoch =
     (if \<not> digestPattern prin \<or> epoch \<noteq> cb_epoch b then (b, Inl CInvalidArgument)
      else
        let (b', entries) = cb_prune b now prin in
        case find_token token 0 entries of
          Some index \<Rightarrow> (b', Inr (entries, index))
        | None \<Rightarrow> (b', Inl CConflict))"

definition cb_remove :: "CapabilityBudget \<Rightarrow> Digest \<Rightarrow> budgetEntry list \<Rightarrow> nat \<Rightarrow> CapabilityBudget" where
  "cb_remove b prin entries index = cb_set b prin (take index entries @ drop (index + 1) entries)"

definition cb_Reserve ::
  "CapabilityBudget \<Rightarrow> time \<Rightarrow> time \<Rightarrow> time \<Rightarrow> Digest \<Rightarrow> CapabilityTokenID \<Rightarrow> time \<Rightarrow> u64
     \<Rightarrow> CapabilityBudget \<times> coord_error option" where
  "cb_Reserve b now1 now2 now3 prin token expires epoch =
     (if \<not> digestPattern prin \<or> epoch \<noteq> cb_epoch b \<or> t_loc expires \<noteq> UTC \<or>
         \<not> time_Equal expires (time_Truncate expires Millisecond) \<or> \<not> time_After expires (time_UTC now1)
      then (b, Some CInvalidArgument)
      else
        let (b', entries) = cb_prune b now2 prin in
        if \<exists>entry \<in> set entries. be_token entry = token then (b', Some CConflict)
        else if int (length entries) \<ge> cb_limit b then (b', Some CUnavailable)
        else
          let pending = time_Add (time_UTC now3) (cb_pendingTTL b);
              pending = (if time_Before expires pending then expires else pending) in
          (cb_set b' prin (entries @ [\<lparr>be_token = token, be_expires = pending,
             be_leaseExpires = expires, be_active = False\<rparr>]), None))"

definition cb_Commit ::
  "CapabilityBudget \<Rightarrow> time \<Rightarrow> Digest \<Rightarrow> CapabilityTokenID \<Rightarrow> u64 \<Rightarrow> CapabilityBudget \<times> coord_error option" where
  "cb_Commit b now prin token epoch =
     (case cb_find b now prin token epoch of
        (b', Inl e) \<Rightarrow> (b', Some e)
      | (b', Inr (entries, index)) \<Rightarrow>
          if be_active (entries ! index) then (b', Some CConflict)
          else (cb_set b' prin (entries[index := (entries ! index)
            \<lparr>be_active := True, be_expires := be_leaseExpires (entries ! index)\<rparr>]), None))"

definition cb_Cancel ::
  "CapabilityBudget \<Rightarrow> time \<Rightarrow> Digest \<Rightarrow> CapabilityTokenID \<Rightarrow> u64 \<Rightarrow> CapabilityBudget \<times> coord_error option" where
  "cb_Cancel b now prin token epoch =
     (case cb_find b now prin token epoch of
        (b', Inl e) \<Rightarrow> (b', Some e)
      | (b', Inr (entries, index)) \<Rightarrow>
          if be_active (entries ! index) then (b', Some CConflict)
          else (cb_remove b' prin entries index, None))"

definition cb_Replace ::
  "CapabilityBudget \<Rightarrow> time \<Rightarrow> time \<Rightarrow> Digest \<Rightarrow> CapabilityTokenID \<Rightarrow> CapabilityTokenID \<Rightarrow> time \<Rightarrow> u64
     \<Rightarrow> CapabilityBudget \<times> coord_error option" where
  "cb_Replace b now1 now2 prin old next expires epoch =
     (case cb_find b now1 prin old epoch of
        (b', Inl e) \<Rightarrow> (b', Some e)
      | (b', Inr (entries, index)) \<Rightarrow>
          if \<not> be_active (entries ! index) then (b', Some CConflict)
          else if \<exists>entry \<in> set entries. be_token entry = next then (b', Some CConflict)
          else if \<not> time_After expires (time_UTC now2) \<or> t_loc expires \<noteq> UTC \<or>
             \<not> time_Equal expires (time_Truncate expires Millisecond)
          then (b', Some CInvalidArgument)
          else (cb_set b' prin (entries[index := \<lparr>be_token = next, be_expires = expires,
            be_leaseExpires = expires, be_active = True\<rparr>]), None))"

definition cb_Retire ::
  "CapabilityBudget \<Rightarrow> time \<Rightarrow> Digest \<Rightarrow> CapabilityTokenID \<Rightarrow> u64 \<Rightarrow> CapabilityBudget \<times> coord_error option" where
  "cb_Retire b now prin token epoch =
     (case cb_find b now prin token epoch of
        (b', Inl e) \<Rightarrow> (b', Some e)
      | (b', Inr (entries, index)) \<Rightarrow>
          if \<not> be_active (entries ! index) then (b', Some CConflict)
          else (cb_remove b' prin entries index, None))"

section \<open>Invariant\<close>

text \<open>
  A principal has at most \<open>limit\<close> entries with distinct tokens; a lease expiry is a UTC time in whole
  milliseconds; an active entry lasts as long as its lease, a pending one at most as long.
\<close>

definition entry_ok :: "budgetEntry \<Rightarrow> bool" where
  "entry_ok e \<longleftrightarrow> utc_millis (be_leaseExpires e) \<and>
     (if be_active e then be_expires e = be_leaseExpires e
      else t_nanos (be_expires e) \<le> t_nanos (be_leaseExpires e))"

definition entries_ok :: "int \<Rightarrow> budgetEntry list \<Rightarrow> bool" where
  "entries_ok limit es \<longleftrightarrow> int (length es) \<le> limit \<and> distinct (map be_token es) \<and> list_all entry_ok es"

definition cb_inv :: "CapabilityBudget \<Rightarrow> bool" where
  "cb_inv b \<longleftrightarrow> 1 \<le> cb_limit b \<and> (\<forall>prin. entries_ok (cb_limit b) (cb_of b prin))"

lemma cb_of_set [simp]: "cb_of (cb_set b p es) q = (if q = p then es else cb_of b q)"
  by (simp add: cb_of_def cb_set_def)

lemma cb_set_sel [simp]:
  "cb_limit (cb_set b p es) = cb_limit b" "cb_epoch (cb_set b p es) = cb_epoch b"
  "cb_pendingTTL (cb_set b p es) = cb_pendingTTL b"
  by (simp_all add: cb_set_def)

lemma cb_inv_set: "cb_inv b \<Longrightarrow> entries_ok (cb_limit b) es \<Longrightarrow> cb_inv (cb_set b p es)"
  by (simp add: cb_inv_def)

lemma entries_ok_filter: "entries_ok n es \<Longrightarrow> entries_ok n (filter P es)"
  unfolding entries_ok_def
  by (metis (no_types, lifting) distinct_map_filter filter_is_subset length_filter_le list.pred_set
      of_nat_le_iff order_trans subsetD)

lemma entries_ok_update:
  assumes "entries_ok n es" "i < length es" "entry_ok e" "be_token e \<notin> be_token ` set es \<or> be_token e = be_token (es ! i)"
  shows "entries_ok n (es[i := e])"
proof -
  have "distinct (map be_token (es[i := e]))"
    using assms by (auto simp: entries_ok_def map_update distinct_list_update)
  moreover have "list_all entry_ok (es[i := e])"
    using assms set_update_subset_insert [of es i e] by (auto simp: entries_ok_def list_all_iff)
  ultimately show ?thesis using assms(1) by (simp add: entries_ok_def)
qed

lemma entries_ok_remove:
  assumes "entries_ok n es"
  shows "entries_ok n (take i es @ drop (i + 1) es)"
proof -
  have "set (take i (map be_token es)) \<inter> set (drop (i + 1) (map be_token es)) = {}"
    using assms by (intro set_take_disj_set_drop_if_distinct) (simp_all add: entries_ok_def)
  then have "distinct (map be_token (take i es @ drop (i + 1) es))"
    using assms by (simp add: entries_ok_def take_map [symmetric] drop_map [symmetric])
  moreover have "length (take i es @ drop (i + 1) es) \<le> length es" by simp
  then have "int (length (take i es @ drop (i + 1) es)) \<le> n" using assms unfolding entries_ok_def by linarith
  ultimately show ?thesis
    using assms by (auto simp: entries_ok_def list_all_iff dest: in_set_takeD in_set_dropD)
qed

lemma find_token_Some:
  "find_token token n es = Some i \<Longrightarrow> n \<le> i \<and> i - n < length es \<and> be_token (es ! (i - n)) = token"
proof (induction es arbitrary: n)
  case (Cons e es)
  show ?case
  proof (cases "be_token e = token")
    case False
    with Cons.prems have "find_token token (n + 1) es = Some i" by simp
    from Cons.IH [OF this] show ?thesis by (auto simp: nth_Cons')
  qed (use Cons.prems in auto)
qed simp

lemma find_token_None: "find_token token n es = None \<longleftrightarrow> token \<notin> be_token ` set es"
  by (induction es arbitrary: n) auto

lemma cb_find_cases:
  assumes inv: "cb_inv b" and step: "cb_find b now p token epoch = (b', r)"
  obtains (Failed) e where "r = Inl e" "cb_inv b'" "cb_limit b' = cb_limit b"
    | (Found) es i where "r = Inr (es, i)" "cb_inv b'" "cb_limit b' = cb_limit b"
        "entries_ok (cb_limit b) es" "i < length es" "be_token (es ! i) = token"
proof -
  let ?es = "filter (\<lambda>e. time_After (be_expires e) (time_UTC now)) (cb_of b p)"
  have es: "entries_ok (cb_limit b) ?es" using inv by (simp add: cb_inv_def entries_ok_filter)
  have inv': "cb_inv (cb_set b p ?es)" using inv es by (rule cb_inv_set)
  show ?thesis
  proof (cases "\<not> digestPattern p \<or> epoch \<noteq> cb_epoch b")
    case True
    then have "b' = b" "r = Inl CInvalidArgument" using step by (auto simp: cb_find_def)
    then show ?thesis using inv Failed by simp
  next
    case False
    then have start: "(b', r) = (cb_set b p ?es, case find_token token 0 ?es of
        Some i \<Rightarrow> Inr (?es, i) | None \<Rightarrow> Inl CConflict)"
      using step by (auto simp: cb_find_def cb_prune_def Let_def split: option.splits)
    show ?thesis
    proof (cases "find_token token 0 ?es")
      case None
      then show ?thesis using start inv' Failed by simp
    next
      case (Some i)
      then show ?thesis using start inv' es find_token_Some [OF Some] Found [of ?es i] by simp
    qed
  qed
qed

lemma cb_inv_Reserve:
  assumes inv: "cb_inv b" and step: "cb_Reserve b now1 now2 now3 p token expires epoch = (b', r)"
  shows "cb_inv b'"
proof -
  let ?es = "filter (\<lambda>e. time_After (be_expires e) (time_UTC now2)) (cb_of b p)"
  have es: "entries_ok (cb_limit b) ?es" using inv by (simp add: cb_inv_def entries_ok_filter)
  have inv': "cb_inv (cb_set b p ?es)" using inv es by (rule cb_inv_set)
  have new: "entries_ok (cb_limit b) (?es @ [\<lparr>be_token = token, be_expires =
        (if time_Before expires pending then expires else pending), be_leaseExpires = expires, be_active = False\<rparr>])"
    if "\<not> cb_limit b \<le> int (length ?es)" "\<not> (\<exists>e \<in> set ?es. be_token e = token)" "utc_millis expires"
      "pending = time_Add (time_UTC now3) (cb_pendingTTL b)" for pending
    using es that by (auto simp: entries_ok_def entry_ok_def not_less)
  show ?thesis
  proof (cases "\<not> digestPattern p \<or> epoch \<noteq> cb_epoch b \<or> t_loc expires \<noteq> UTC \<or>
         \<not> time_Equal expires (time_Truncate expires Millisecond) \<or> \<not> time_After expires (time_UTC now1)")
    case True
    then show ?thesis using step inv unfolding cb_Reserve_def by (simp only: if_True prod.inject)
  next
    case False
    then have "utc_millis expires" by (simp add: utc_millis_def)
    note new' = new [OF _ _ this refl]
    show ?thesis
      using step False inv' cb_inv_set [OF inv' , of _ p] new'
      unfolding cb_Reserve_def cb_prune_def Let_def by (auto simp del: set_filter split: if_split_asm)
  qed
qed

lemma cb_inv_ops:
  assumes inv: "cb_inv b"
  shows "cb_Commit b now p token epoch = (b', r) \<Longrightarrow> cb_inv b'"
    "cb_Cancel b now p token epoch = (b', r) \<Longrightarrow> cb_inv b'"
    "cb_Retire b now p token epoch = (b', r) \<Longrightarrow> cb_inv b'"
    "cb_Replace b now now2 p token next expires epoch = (b', r) \<Longrightarrow> cb_inv b'"
proof -
  obtain b1 x where f: "cb_find b now p token epoch = (b1, x)" by (cases "cb_find b now p token epoch")
  have "(cb_Commit b now p token epoch = (b', r) \<longrightarrow> cb_inv b') \<and> (cb_Cancel b now p token epoch = (b', r) \<longrightarrow> cb_inv b') \<and>
    (cb_Retire b now p token epoch = (b', r) \<longrightarrow> cb_inv b') \<and>
    (cb_Replace b now now2 p token next expires epoch = (b', r) \<longrightarrow> cb_inv b')"
    using inv f
  proof (cases rule: cb_find_cases)
    case (Failed e)
    then show ?thesis by (auto simp: cb_Commit_def cb_Cancel_def cb_Retire_def cb_Replace_def f)
  next
    case (Found es i)
    have ok: "entry_ok (es ! i)" using Found by (auto simp: entries_ok_def list_all_iff)
    have commit: "entries_ok (cb_limit b) (es[i := (es ! i)\<lparr>be_active := True, be_expires := be_leaseExpires (es ! i)\<rparr>])"
      using Found(4,5) by (rule entries_ok_update) (use ok in \<open>simp_all add: entry_ok_def\<close>)
    have replace: "entries_ok (cb_limit b) (es[i := \<lparr>be_token = next, be_expires = expires, be_leaseExpires = expires, be_active = True\<rparr>])"
      if "\<not> (\<exists>e \<in> set es. be_token e = next)" "t_loc expires = UTC" "time_Equal expires (time_Truncate expires Millisecond)"
      using Found(4,5) by (rule entries_ok_update) (use that in \<open>auto simp: entry_ok_def utc_millis_def\<close>)
    have remove: "cb_inv (cb_remove b1 p es i)"
      unfolding cb_remove_def using Found(2) entries_ok_remove [OF Found(4), of i] Found(3) by (intro cb_inv_set) simp_all
    note set = cb_inv_set [OF Found(2), unfolded Found(3), of _ p]
    show ?thesis
      using remove Found(2) set [OF commit] set [OF replace]
      by (auto simp: cb_Commit_def cb_Cancel_def cb_Retire_def cb_Replace_def f Found(1) simp del: time_Equal_Truncate split: if_split_asm)
  qed
  then show "cb_Commit b now p token epoch = (b', r) \<Longrightarrow> cb_inv b'"
    "cb_Cancel b now p token epoch = (b', r) \<Longrightarrow> cb_inv b'"
    "cb_Retire b now p token epoch = (b', r) \<Longrightarrow> cb_inv b'"
    "cb_Replace b now now2 p token next expires epoch = (b', r) \<Longrightarrow> cb_inv b'" by blast+
qed

inductive cb_step :: "CapabilityBudget \<Rightarrow> CapabilityBudget \<Rightarrow> bool" where
  reserve: "cb_Reserve b now1 now2 now3 p token expires epoch = (b', r) \<Longrightarrow> cb_step b b'"
| commit: "cb_Commit b now p token epoch = (b', r) \<Longrightarrow> cb_step b b'"
| cancel: "cb_Cancel b now p token epoch = (b', r) \<Longrightarrow> cb_step b b'"
| replace: "cb_Replace b now1 now2 p old next expires epoch = (b', r) \<Longrightarrow> cb_step b b'"
| retire: "cb_Retire b now p token epoch = (b', r) \<Longrightarrow> cb_step b b'"

lemma cb_step_inv: "cb_step b b' \<Longrightarrow> cb_inv b \<Longrightarrow> cb_inv b'"
  by (induction rule: cb_step.induct) (blast intro: cb_inv_Reserve cb_inv_ops)+

lemma cb_steps_inv: "cb_step\<^sup>*\<^sup>* b b' \<Longrightarrow> cb_inv b \<Longrightarrow> cb_inv b'"
  by (induction rule: rtranclp_induct) (auto intro: cb_step_inv)

lemma cb_step_limit: "cb_step b b' \<Longrightarrow> cb_limit b' = cb_limit b"
  by (induction rule: cb_step.induct)
    (auto simp: cb_Reserve_def cb_Commit_def cb_Cancel_def cb_Replace_def cb_Retire_def cb_find_def cb_prune_def
      cb_remove_def Let_def split: if_split_asm option.splits)

section \<open>Properties\<close>

text \<open>
  C27: a capability budget is never exceeded. From its creation on, whatever operations run, every principal
  holds at most the configured number of capabilities, under distinct tokens, and no capability outlives its lease.
\<close>

theorem budget_bounded:
  assumes "NewCapabilityBudget limit pendingTTL epoch True = Inr b0" "cb_step\<^sup>*\<^sup>* b0 b"
  shows "int (length (cb_of b prin)) \<le> limit \<and> distinct (map be_token (cb_of b prin)) \<and>
    (\<forall>e \<in> set (cb_of b prin). t_nanos (be_expires e) \<le> t_nanos (be_leaseExpires e))"
proof -
  have b0: "cb_limit b0 = limit" "cb_inv b0"
    using assms(1) by (auto simp: NewCapabilityBudget_def cb_inv_def cb_of_def entries_ok_def split: if_splits)
  have "cb_limit b = limit" using assms(2) b0(1)
    by (induction rule: rtranclp_induct) (auto dest: cb_step_limit)
  moreover have "entries_ok (cb_limit b) (cb_of b prin)"
    using cb_steps_inv [OF assms(2) b0(2)] by (simp add: cb_inv_def)
  ultimately show ?thesis
    by (auto simp: entries_ok_def entry_ok_def list_all_iff split: if_splits)
qed

definition ex_budget :: CapabilityBudget where
  "ex_budget = \<lparr>cb_limit = 1, cb_pendingTTL = Second, cb_epoch = 1, cb_entries = []\<rparr>"

definition ex_reserved :: CapabilityBudget where
  "ex_reserved = fst (cb_Reserve ex_budget (ex_time 0) (ex_time 0) (ex_time 0) ex_digest [7] (ex_time (9 * Second)) 1)"

theorem budget_bounded_witness: "int (length (cb_of ex_reserved ex_digest)) \<le> 1 \<and> length (cb_of ex_reserved ex_digest) = 1"
proof -
  have "NewCapabilityBudget 1 Second 1 True = Inr ex_budget"
    by (simp add: NewCapabilityBudget_def ex_budget_def Second_def Millisecond_def)
  moreover have "cb_step\<^sup>*\<^sup>* ex_budget ex_reserved"
    unfolding ex_reserved_def by (rule r_into_rtranclp, rule cb_step.reserve) (rule prod.collapse [symmetric])
  moreover have "length (cb_of ex_reserved ex_digest) = 1" by code_simp
  ultimately show ?thesis using budget_bounded by auto
qed

end
