(* ===== verification/Lease_KV.thy ===== *)
theory Lease_KV
  imports Coordination
begin

text \<open>
  Nonces and fenced leases over a JetStream key-value bucket, \<^verbatim>\<open>internal/coordination/jetstreamkv/store.go\<close>.
  The bucket is a service outside the repository: it is a parameter, a record of the three operations
  of the interface \<^verbatim>\<open>atomicKV\<close> over an abstract state, and what the service promises is the predicate
  \<open>kv_contract\<close>: writes are atomic, reads may lag. A call may fail after it has taken effect. Other clients may write between two calls of one
  operation: \<open>env n\<close> is what they do before the \<open>n\<close>-th call. The text of a stored value (JSON) and of a time
  (RFC 3339) is produced and read by a \<open>value_codec\<close>.
\<close>

section \<open>The bucket\<close>

datatype kv_error = KVKeyNotFound | KVKeyDeleted | KVKeyExists | KVOther

record 'k atomicKV =
  kv_Create :: "'k \<Rightarrow> string \<Rightarrow> bytes \<Rightarrow> 'k \<times> (kv_error + u64)"
  kv_Get :: "'k \<Rightarrow> string \<Rightarrow> 'k \<times> (kv_error + (u64 \<times> bytes))"
  kv_Update :: "'k \<Rightarrow> string \<Rightarrow> bytes \<Rightarrow> u64 \<Rightarrow> 'k \<times> (kv_error + u64)"

text \<open>
  \<open>cur\<close> reads the content of the bucket, \<open>hist\<close> every entry that was ever committed for a key, oldest first. Create writes an
  absent key and update a key whose last revision is the expected one; both are decided by the leader of the stream, and
  revisions grow. A failed call has changed nothing or has taken effect. The buckets are opened with \<^verbatim>\<open>AllowDirect\<close>, so a
  read may be answered by a replica that lags: it returns some committed entry, or finds none, whatever the bucket holds by now.
\<close>

type_synonym 'k kv_content = "'k \<Rightarrow> string \<Rightarrow> (u64 \<times> bytes) option"
type_synonym 'k kv_history = "'k \<Rightarrow> string \<Rightarrow> (u64 \<times> bytes) list"

definition kv_create_ok :: "'k atomicKV \<Rightarrow> 'k kv_content \<Rightarrow> bool" where
  "kv_create_ok kv cur \<longleftrightarrow> (\<forall>k key raw. case kv_Create kv k key raw of (k', r) \<Rightarrow>
     (case r of Inr rvn \<Rightarrow> cur k key = None \<and> cur k' = (cur k)(key \<mapsto> (rvn, raw))
      | Inl e \<Rightarrow> cur k' = cur k \<or>
          e \<noteq> KVKeyExists \<and> cur k key = None \<and> (\<exists>rvn. cur k' = (cur k)(key \<mapsto> (rvn, raw)))))"

definition kv_update_ok :: "'k atomicKV \<Rightarrow> 'k kv_content \<Rightarrow> bool" where
  "kv_update_ok kv cur \<longleftrightarrow> (\<forall>k key raw old. case kv_Update kv k key raw old of (k', r) \<Rightarrow>
     (case r of Inr rvn \<Rightarrow> (\<exists>v. cur k key = Some (old, v)) \<and> old < rvn \<and> cur k' = (cur k)(key \<mapsto> (rvn, raw))
      | Inl e \<Rightarrow> cur k' = cur k \<or>
          (\<exists>v rvn. cur k key = Some (old, v) \<and> old < rvn \<and> cur k' = (cur k)(key \<mapsto> (rvn, raw)))))"

definition kv_get_ok :: "'k atomicKV \<Rightarrow> 'k kv_content \<Rightarrow> 'k kv_history \<Rightarrow> bool" where
  "kv_get_ok kv cur hist \<longleftrightarrow> (\<forall>k key. case kv_Get kv k key of (k', r) \<Rightarrow> cur k' = cur k \<and> hist k' = hist k \<and>
     (case r of Inr e \<Rightarrow> e \<in> set (hist k key) | Inl e \<Rightarrow> True))"

text \<open>A write is either not committed or appended to the history of its key.\<close>

definition kv_logged :: "'k kv_content \<Rightarrow> 'k kv_history \<Rightarrow> string \<Rightarrow> bytes \<Rightarrow> 'k \<Rightarrow> 'k \<Rightarrow> bool" where
  "kv_logged cur hist key raw k k' \<longleftrightarrow> cur k' = cur k \<and> hist k' = hist k \<or>
     (\<exists>rvn. (\<forall>e \<in> set (hist k key). fst e < rvn) \<and> cur k' = (cur k)(key \<mapsto> (rvn, raw)) \<and>
        hist k' = (hist k)(key := hist k key @ [(rvn, raw)]))"

definition kv_log_ok :: "'k atomicKV \<Rightarrow> 'k kv_content \<Rightarrow> 'k kv_history \<Rightarrow> bool" where
  "kv_log_ok kv cur hist \<longleftrightarrow> (\<forall>k key raw. kv_logged cur hist key raw k (fst (kv_Create kv k key raw))) \<and>
     (\<forall>k key raw old. kv_logged cur hist key raw k (fst (kv_Update kv k key raw old)))"

definition kv_contract :: "'k atomicKV \<Rightarrow> 'k kv_content \<Rightarrow> 'k kv_history \<Rightarrow> bool" where
  "kv_contract kv cur hist \<longleftrightarrow> kv_create_ok kv cur \<and> kv_update_ok kv cur \<and> kv_get_ok kv cur hist \<and> kv_log_ok kv cur hist"

text \<open>The case in which reads are up to date, as the leader answers them.\<close>

definition kv_fresh :: "'k atomicKV \<Rightarrow> 'k kv_content \<Rightarrow> bool" where
  "kv_fresh kv cur \<longleftrightarrow> (\<forall>k key. case kv_Get kv k key of (k', r) \<Rightarrow> cur k' = cur k \<and>
     (case r of Inr e \<Rightarrow> cur k key = Some e
      | Inl e \<Rightarrow> e = KVKeyNotFound \<or> e = KVKeyDeleted \<longrightarrow> cur k key = None))"

definition kv_linear :: "'k atomicKV \<Rightarrow> 'k kv_content \<Rightarrow> bool" where
  "kv_linear kv cur \<longleftrightarrow> kv_fresh kv cur \<and> kv_create_ok kv cur \<and> kv_update_ok kv cur"

section \<open>Stored values\<close>

record kv_value =
  v_schema :: int
  v_kind :: string
  v_digest :: string
  v_expires_at :: string
  v_epoch :: u64
  v_released :: bool

record value_codec =
  vc_marshal :: "kv_value \<Rightarrow> bytes option"
  vc_unmarshal :: "bytes \<Rightarrow> kv_value option"
  vc_format :: "time \<Rightarrow> string"
  vc_parse :: "string \<Rightarrow> time option"

record KVConfig =
  kc_MaxLifetime :: duration
  kc_Epoch :: u64

record ('k) KVStore =
  ks_nonces :: "'k atomicKV"
  ks_leases :: "'k atomicKV"
  ks_config :: KVConfig
  ks_codec :: value_codec

definition maxValueBytes :: nat where
  "maxValueBytes = 1024"

definition kv_validExpiry :: "'k KVStore \<Rightarrow> time \<Rightarrow> time \<Rightarrow> bool" where
  "kv_validExpiry st Now expires =
     (let now = time_UTC Now in
      time_After expires now \<and> \<not> time_After expires (time_Add now (kc_MaxLifetime (ks_config st))))"

definition kv_encode :: "value_codec \<Rightarrow> string \<Rightarrow> Digest \<Rightarrow> time \<Rightarrow> u64 \<Rightarrow> bool \<Rightarrow> bytes option" where
  "kv_encode c kind digest expires epoch released =
     vc_marshal c \<lparr>v_schema = 1, v_kind = kind, v_digest = digest,
       v_expires_at = vc_format c (time_UTC expires), v_epoch = epoch, v_released = released\<rparr>"

definition kv_decode :: "value_codec \<Rightarrow> bytes \<Rightarrow> kv_value option" where
  "kv_decode c raw =
     (if length raw = 0 \<or> length raw > maxValueBytes then None
      else case vc_unmarshal c raw of
        None \<Rightarrow> None
      | Some decoded \<Rightarrow> if v_schema decoded \<noteq> 1 then None else Some decoded)"

definition kv_exact ::
  "value_codec \<Rightarrow> kv_value \<Rightarrow> string \<Rightarrow> Digest \<Rightarrow> time \<Rightarrow> u64 \<Rightarrow> bool \<Rightarrow> bool" where
  "kv_exact c observed kind digest expires epoch released \<longleftrightarrow>
     v_kind observed = kind \<and> v_digest observed = digest \<and>
     v_expires_at observed = vc_format c (time_UTC expires) \<and> v_epoch observed = epoch \<and>
     v_released observed = released"

section \<open>Nonces\<close>

definition kv_Consume ::
  "'k KVStore \<Rightarrow> (nat \<Rightarrow> 'k \<Rightarrow> 'k) \<Rightarrow> 'k \<Rightarrow> time \<Rightarrow> Digest \<Rightarrow> NonceValue \<Rightarrow> 'k \<times> (coord_error + NonceOutcome)" where
  "kv_Consume st env k now key nonce =
     (if \<not> digestPattern key \<or> \<not> digestPattern (nv_digest nonce) \<or> nv_epoch nonce \<noteq> kc_Epoch (ks_config st) \<or>
         \<not> kv_validExpiry st now (nv_expires nonce)
      then (k, Inl CInvalidArgument)
      else case kv_encode (ks_codec st) ''nonce'' (nv_digest nonce) (nv_expires nonce) (nv_epoch nonce) False of
        None \<Rightarrow> (k, Inl CInvalidArgument)
      | Some raw \<Rightarrow>
        (case kv_Create (ks_nonces st) (env 0 k) key raw of
           (k1, Inr _) \<Rightarrow> (k1, Inr NonceConsumed)
         | (k1, Inl e) \<Rightarrow>
             if e = KVKeyExists then (k1, Inr NonceReplayed)
             else
               (case kv_Get (ks_nonces st) (env 1 k1) key of
                  (k2, Inl _) \<Rightarrow> (k2, Inl CUnavailable)
                | (k2, Inr (rvn, v)) \<Rightarrow>
                    (k2, case kv_decode (ks_codec st) v of
                       None \<Rightarrow> Inl CConflict
                     | Some observed \<Rightarrow>
                         if \<not> kv_exact (ks_codec st) observed ''nonce'' (nv_digest nonce) (nv_expires nonce)
                               (nv_epoch nonce) False
                         then Inl CConflict else Inr NonceConsumed))))"

section \<open>Leases\<close>

definition kv_newLease :: "Digest \<Rightarrow> LeaseValue \<Rightarrow> u64 \<Rightarrow> lease" where
  "kv_newLease key candidate revision =
     \<lparr>le_key = key, le_holder = lv_holder candidate, le_expires = lv_expires candidate,
      le_revision = revision, le_released = False\<rparr>"

definition reconcileLeaseMutation ::
  "'k KVStore \<Rightarrow> 'k \<Rightarrow> Digest \<Rightarrow> bytes \<Rightarrow> u64 \<Rightarrow> 'k \<times> (coord_error + u64)" where
  "reconcileLeaseMutation st k key expectedRaw previousRevision =
     (case kv_Get (ks_leases st) k key of
        (k', Inl _) \<Rightarrow> (k', Inl CUnavailable)
      | (k', Inr (rvn, v)) \<Rightarrow>
          if rvn \<le> previousRevision \<or> v \<noteq> expectedRaw then (k', Inl CConflict) else (k', Inr rvn))"

text \<open>The update with its reconciliation, as acquire, renew and release perform it.\<close>

definition kv_mutate ::
  "'k KVStore \<Rightarrow> (nat \<Rightarrow> 'k \<Rightarrow> 'k) \<Rightarrow> 'k \<Rightarrow> Digest \<Rightarrow> bytes \<Rightarrow> u64 \<Rightarrow> 'k \<times> (coord_error + u64)" where
  "kv_mutate st env k key raw previous =
     (case kv_Update (ks_leases st) (env 2 k) key raw previous of
        (k', Inr rvn) \<Rightarrow> (k', Inr rvn)
      | (k', Inl _) \<Rightarrow> reconcileLeaseMutation st (env 3 k') key raw previous)"

definition kv_Acquire ::
  "'k KVStore \<Rightarrow> (nat \<Rightarrow> 'k \<Rightarrow> 'k) \<Rightarrow> 'k \<Rightarrow> time \<Rightarrow> time \<Rightarrow> Digest \<Rightarrow> LeaseValue \<Rightarrow> 'k \<times> (coord_error + lease)" where
  "kv_Acquire st env k now1 now2 key candidate =
     (if \<not> digestPattern key \<or> \<not> digestPattern (lv_holder candidate) \<or>
         lv_epoch candidate \<noteq> kc_Epoch (ks_config st) \<or> \<not> kv_validExpiry st now1 (lv_expires candidate)
      then (k, Inl CInvalidArgument)
      else case kv_encode (ks_codec st) ''lease'' (lv_holder candidate) (lv_expires candidate) (lv_epoch candidate) False of
        None \<Rightarrow> (k, Inl CInvalidArgument)
      | Some raw \<Rightarrow>
        (case kv_Create (ks_leases st) (env 0 k) key raw of
           (k1, Inr revision) \<Rightarrow> (k1, Inr (kv_newLease key candidate revision))
         | (k1, Inl e) \<Rightarrow>
           (case kv_Get (ks_leases st) (env 1 k1) key of
              (k2, Inl _) \<Rightarrow> (k2, Inl CUnavailable)
            | (k2, Inr (revision, v)) \<Rightarrow>
              (case kv_decode (ks_codec st) v of
                 None \<Rightarrow> (k2, Inl CConflict)
               | Some observed \<Rightarrow>
                 if v_kind observed \<noteq> ''lease'' \<or> v_epoch observed \<noteq> kc_Epoch (ks_config st)
                 then (k2, Inl CConflict)
                 else if e \<noteq> KVKeyExists \<and> kv_exact (ks_codec st) observed ''lease'' (lv_holder candidate)
                      (lv_expires candidate) (lv_epoch candidate) False
                 then (k2, Inr (kv_newLease key candidate revision))
                 else case vc_parse (ks_codec st) (v_expires_at observed) of
                   None \<Rightarrow> (k2, Inl CConflict)
                 | Some expires \<Rightarrow>
                   if \<not> v_released observed \<and> time_After expires (time_UTC now2) then (k2, Inl CConflict)
                   else case kv_mutate st env k2 key raw revision of
                     (k3, Inl e') \<Rightarrow> (k3, Inl e')
                   | (k3, Inr rvn) \<Rightarrow> (k3, Inr (kv_newLease key candidate rvn))))))"

definition kv_Resume ::
  "'k KVStore \<Rightarrow> 'k \<Rightarrow> time \<Rightarrow> Digest \<Rightarrow> LeaseResumeValue \<Rightarrow> 'k \<times> (coord_error + lease)" where
  "kv_Resume st k now key resume =
     (if \<not> digestPattern key \<or> rv_epoch resume \<noteq> kc_Epoch (ks_config st) then (k, Inl CInvalidArgument)
      else case kv_Get (ks_leases st) k key of
        (k', Inl e) \<Rightarrow> (k', Inl (if e = KVKeyNotFound \<or> e = KVKeyDeleted then CConflict else CUnavailable))
      | (k', Inr (revision, v)) \<Rightarrow>
          (k', case kv_decode (ks_codec st) v of
             None \<Rightarrow> Inl CConflict
           | Some observed \<Rightarrow>
               if v_kind observed \<noteq> ''lease'' \<or> v_released observed \<or> v_digest observed \<noteq> rv_holder resume \<or>
                  v_expires_at observed \<noteq> vc_format (ks_codec st) (rv_expires resume) \<or>
                  v_epoch observed \<noteq> rv_epoch resume \<or> revision \<noteq> rv_token resume \<or>
                  \<not> time_After (rv_expires resume) (time_UTC now)
               then Inl CConflict
               else Inr \<lparr>le_key = key, le_holder = rv_holder resume, le_expires = rv_expires resume,
                 le_revision = rv_token resume, le_released = False\<rparr>))"

definition kv_Inspect ::
  "'k KVStore \<Rightarrow> 'k \<Rightarrow> time \<Rightarrow> Digest \<Rightarrow> LeaseResumeValue \<Rightarrow> 'k \<times> (coord_error + LeaseStatus)" where
  "kv_Inspect st k now key resume =
     (if \<not> digestPattern key \<or> rv_epoch resume \<noteq> kc_Epoch (ks_config st) then (k, Inl CInvalidArgument)
      else case kv_Get (ks_leases st) k key of
        (k', Inl e) \<Rightarrow> (k', if e = KVKeyNotFound \<or> e = KVKeyDeleted then Inr LeaseStale else Inl CUnavailable)
      | (k', Inr (revision, v)) \<Rightarrow>
          (k', case kv_decode (ks_codec st) v of
             None \<Rightarrow> Inl CUnavailable
           | Some observed \<Rightarrow>
               if v_kind observed \<noteq> ''lease'' then Inl CUnavailable
               else if v_digest observed \<noteq> rv_holder resume \<or>
                  v_expires_at observed \<noteq> vc_format (ks_codec st) (rv_expires resume) \<or>
                  v_epoch observed \<noteq> rv_epoch resume
               then Inr LeaseStale
               else if v_released observed \<and> rv_token resume < - 1 \<and> revision = rv_token resume + 1
               then Inr LeaseReleased
               else if v_released observed \<or> revision \<noteq> rv_token resume then Inr LeaseStale
               else if \<not> time_After (rv_expires resume) (time_UTC now) then Inr LeaseExpired
               else Inr LeaseValid))"

definition kv_Renew ::
  "'k KVStore \<Rightarrow> (nat \<Rightarrow> 'k \<Rightarrow> 'k) \<Rightarrow> 'k \<Rightarrow> lease \<Rightarrow> time \<Rightarrow> time \<Rightarrow> 'k \<times> lease \<times> coord_error option" where
  "kv_Renew st env k held now expires =
     (if le_released held \<or> \<not> kv_validExpiry st now expires then (k, held, Some CConflict)
      else case kv_encode (ks_codec st) ''lease'' (le_holder held) expires (kc_Epoch (ks_config st)) False of
        None \<Rightarrow> (k, held, Some CInvalidArgument)
      | Some raw \<Rightarrow>
          (case kv_mutate st env k (le_key held) raw (le_revision held) of
             (k', Inl e) \<Rightarrow> (k', held, Some e)
           | (k', Inr rvn) \<Rightarrow> (k', held\<lparr>le_revision := rvn, le_expires := expires\<rparr>, None)))"

definition kv_Valid :: "'k KVStore \<Rightarrow> 'k \<Rightarrow> lease \<Rightarrow> time \<Rightarrow> 'k \<times> (coord_error + bool)" where
  "kv_Valid st k held now =
     (if le_released held \<or> \<not> time_After (le_expires held) (time_UTC now) then (k, Inr False)
      else case kv_Get (ks_leases st) k (le_key held) of
        (k', Inl _) \<Rightarrow> (k', Inl CUnavailable)
      | (k', Inr (revision, v)) \<Rightarrow> (k', Inr (revision = le_revision held)))"

definition kv_Release ::
  "'k KVStore \<Rightarrow> (nat \<Rightarrow> 'k \<Rightarrow> 'k) \<Rightarrow> 'k \<Rightarrow> lease \<Rightarrow> 'k \<times> lease \<times> coord_error option" where
  "kv_Release st env k held =
     (if le_released held then (k, held, Some CConflict)
      else case kv_encode (ks_codec st) ''lease'' (le_holder held) (le_expires held) (kc_Epoch (ks_config st)) True of
        None \<Rightarrow> (k, held, Some CInvalidArgument)
      | Some raw \<Rightarrow>
          (case kv_mutate st env k (le_key held) raw (le_revision held) of
             (k', Inl e) \<Rightarrow> (k', held, Some e)
           | (k', Inr rvn) \<Rightarrow> (k', held\<lparr>le_revision := rvn, le_released := True\<rparr>, None)))"

section \<open>Laws\<close>

lemma kv_fresh_Get:
  assumes "kv_fresh kv cur" "kv_Get kv k key = (k', r)"
  shows "cur k' = cur k" "r = Inr e \<Longrightarrow> cur k key = Some e"
  using assms(1) [unfolded kv_fresh_def, THEN spec [where x = k], THEN spec [where x = key]] assms(2) by simp_all

lemma kv_contract_Get:
  assumes "kv_contract kv cur hist" "kv_Get kv k key = (k', r)"
  shows "cur k' = cur k" "hist k' = hist k" "r = Inr e \<Longrightarrow> e \<in> set (hist k key)"
  using assms(1) [unfolded kv_contract_def kv_get_ok_def, THEN conjunct2, THEN conjunct2, THEN conjunct1, THEN spec [where x = k], THEN spec [where x = key]]
    assms(2) by simp_all

lemma kv_create_ok_Inr:
  assumes "kv_create_ok kv cur" "kv_Create kv k key raw = (k', Inr rvn)"
  shows "cur k key = None" "cur k' = (cur k)(key \<mapsto> (rvn, raw))"
  using assms(1) [unfolded kv_create_ok_def, THEN spec [where x = k], THEN spec [where x = key], THEN spec [where x = raw]] assms(2) by simp_all

lemma kv_create_ok_failed:
  assumes "kv_create_ok kv cur" "kv_Create kv k key raw = (k', Inl e)" "cur k key \<noteq> None"
  shows "cur k' = cur k"
  using assms(1) [unfolded kv_create_ok_def, THEN spec [where x = k], THEN spec [where x = key], THEN spec [where x = raw]] assms(2,3) by simp

lemma kv_update_ok_Inr:
  assumes "kv_update_ok kv cur" "kv_Update kv k key raw old = (k', Inr rvn)"
  shows "\<exists>v. cur k key = Some (old, v)" "old < rvn" "cur k' = (cur k)(key \<mapsto> (rvn, raw))"
  using assms(1) [unfolded kv_update_ok_def, THEN spec [where x = k], THEN spec [where x = key], THEN spec [where x = raw], THEN spec [where x = old]]
    assms(2) by simp_all

lemma kv_update_ok_stale:
  assumes "kv_update_ok kv cur" "kv_Update kv k key raw old = (k', r)" "cur k key = Some (rvn, v)" "rvn \<noteq> old"
  shows "cur k' = cur k" "isl r"
  using assms(1) [unfolded kv_update_ok_def, THEN spec [where x = k], THEN spec [where x = key], THEN spec [where x = raw], THEN spec [where x = old]]
    assms(2-4) by (auto split: sum.splits)

lemma kv_contract_writes:
  assumes "kv_contract kv cur hist"
  shows "kv_create_ok kv cur" "kv_update_ok kv cur"
  using assms by (simp_all add: kv_contract_def)

lemma kv_linear_ok:
  assumes "kv_linear kv cur"
  shows "kv_fresh kv cur" "kv_create_ok kv cur" "kv_update_ok kv cur"
  using assms by (simp_all add: kv_linear_def)

text \<open>A write the leader confirmed is in the history.\<close>

lemma kv_logged_committed:
  assumes "kv_logged cur hist key raw k k'" "cur k' = (cur k)(key \<mapsto> (rvn, raw))" "cur k key \<noteq> Some (rvn, raw)"
  shows "(rvn, raw) \<in> set (hist k' key)"
proof -
  have changed: "cur k' key = Some (rvn, raw)" using assms(2) by simp
  with assms(3) have "cur k' \<noteq> cur k" by metis
  with assms(1) obtain x where x: "cur k' = (cur k)(key \<mapsto> (x, raw))" "hist k' = (hist k)(key := hist k key @ [(x, raw)])"
    unfolding kv_logged_def by auto
  with changed have "x = rvn" by simp
  with x show ?thesis by simp
qed

lemma kv_Create_committed:
  assumes "kv_contract kv cur hist" "kv_Create kv k key raw = (k', Inr rvn)"
  shows "(rvn, raw) \<in> set (hist k' key)"
proof (rule kv_logged_committed [where cur = cur and hist = hist and k = k and k' = k'])
  show "kv_logged cur hist key raw k k'" using assms by (metis fst_conv kv_contract_def kv_log_ok_def)
  show "cur k' = (cur k)(key \<mapsto> (rvn, raw))" "cur k key \<noteq> Some (rvn, raw)"
    using kv_create_ok_Inr [OF kv_contract_writes(1) [OF assms(1)] assms(2)] by simp_all
qed

lemma kv_Update_committed:
  assumes "kv_contract kv cur hist" "kv_Update kv k key raw old = (k', Inr rvn)"
  shows "(rvn, raw) \<in> set (hist k' key)"
proof (rule kv_logged_committed [where cur = cur and hist = hist and k = k and k' = k'])
  show "kv_logged cur hist key raw k k'" using assms by (metis fst_conv kv_contract_def kv_log_ok_def)
  note u = kv_update_ok_Inr [OF kv_contract_writes(2) [OF assms(1)] assms(2)]
  show "cur k' = (cur k)(key \<mapsto> (rvn, raw))" by (rule u(3))
  show "cur k key \<noteq> Some (rvn, raw)" using u(1,2) by auto
qed

text \<open>The bucket has committed an entry, and holds it if reads are up to date.\<close>

definition committed :: "'k atomicKV \<Rightarrow> 'k kv_content \<Rightarrow> 'k kv_history \<Rightarrow> 'k \<Rightarrow> string \<Rightarrow> u64 \<Rightarrow> bytes \<Rightarrow> bool" where
  "committed kv cur hist k key rvn raw \<longleftrightarrow> (rvn, raw) \<in> set (hist k key) \<and> (kv_fresh kv cur \<longrightarrow> cur k key = Some (rvn, raw))"

lemma committed_Get:
  assumes "kv_contract kv cur hist" "kv_Get kv k key = (k', Inr (rvn, raw))"
  shows "committed kv cur hist k' key rvn raw"
  using kv_contract_Get [OF assms] kv_fresh_Get [OF _ assms(2)] by (simp add: committed_def)

lemma committed_Create:
  assumes "kv_contract kv cur hist" "kv_Create kv k key raw = (k', Inr rvn)"
  shows "committed kv cur hist k' key rvn raw"
  using kv_Create_committed [OF assms] kv_create_ok_Inr(2) [OF kv_contract_writes(1) [OF assms(1)] assms(2)] by (simp add: committed_def)

lemma committed_Update:
  assumes "kv_contract kv cur hist" "kv_Update kv k key raw old = (k', Inr rvn)"
  shows "committed kv cur hist k' key rvn raw"
  using kv_Update_committed [OF assms] kv_update_ok_Inr(3) [OF kv_contract_writes(2) [OF assms(1)] assms(2)] by (simp add: committed_def)

text \<open>A successful mutation has committed its bytes under a revision greater than the expected one, also
  when the acknowledgement was lost and the value was found by reading it back.\<close>

lemma kv_mutate_stored:
  assumes kv: "kv_contract (ks_leases st) cur hist" and step: "kv_mutate st env k key raw previous = (k', Inr rvn)"
  shows "committed (ks_leases st) cur hist k' key rvn raw \<and> previous < rvn"
proof (cases "kv_Update (ks_leases st) (env 2 k) key raw previous")
  case (Pair k1 r)
  show ?thesis
  proof (cases r)
    case (Inr x)
    with step Pair have "k' = k1" "rvn = x" by (simp_all add: kv_mutate_def)
    then show ?thesis using committed_Update [OF kv] kv_update_ok_Inr(2) [OF kv_contract_writes(2) [OF kv]] Pair Inr by metis
  next
    case (Inl e)
    with step Pair have rec: "reconcileLeaseMutation st (env 3 k1) key raw previous = (k', Inr rvn)"
      by (simp add: kv_mutate_def)
    obtain k2 g where g: "kv_Get (ks_leases st) (env 3 k1) key = (k2, g)" by (cases "kv_Get (ks_leases st) (env 3 k1) key")
    with rec have "g = Inr (rvn, raw)" "k' = k2" "previous < rvn"
      by (auto simp: reconcileLeaseMutation_def split: sum.splits if_splits)
    with committed_Get [OF kv] g show ?thesis by simp
  qed
qed

definition stored_value :: "value_codec \<Rightarrow> bytes \<Rightarrow> string \<Rightarrow> Digest \<Rightarrow> time \<Rightarrow> u64 \<Rightarrow> bool \<Rightarrow> bool" where
  "stored_value c raw kind digest expires epoch released \<longleftrightarrow>
     kv_encode c kind digest expires epoch released = Some raw \<or>
     (\<exists>observed. kv_decode c raw = Some observed \<and> kv_exact c observed kind digest expires epoch released)"

lemma kv_Acquire_stored:
  assumes kv: "kv_contract (ks_leases st) cur hist" and step: "kv_Acquire st env k now1 now2 key v = (k', Inr h)"
  shows "\<exists>raw. committed (ks_leases st) cur hist k' key (le_revision h) raw \<and>
    stored_value (ks_codec st) raw ''lease'' (lv_holder v) (lv_expires v) (lv_epoch v) False \<and>
    le_key h = key \<and> le_holder h = lv_holder v \<and> le_expires h = lv_expires v \<and> \<not> le_released h"
proof -
  obtain raw where raw: "kv_encode (ks_codec st) ''lease'' (lv_holder v) (lv_expires v) (lv_epoch v) False = Some raw"
    using step by (cases "kv_encode (ks_codec st) ''lease'' (lv_holder v) (lv_expires v) (lv_epoch v) False")
      (auto simp: kv_Acquire_def split: if_splits)
  note stored = stored_value_def [of "ks_codec st" _ "''lease''" "lv_holder v" "lv_expires v" "lv_epoch v" False, THEN iffD2]
  obtain k1 r where c: "kv_Create (ks_leases st) (env 0 k) key raw = (k1, r)" by (cases "kv_Create (ks_leases st) (env 0 k) key raw")
  show ?thesis
  proof (cases r)
    case (Inr rvn)
    with step raw c have "k' = k1" "h = kv_newLease key v rvn" by (auto simp: kv_Acquire_def split: if_splits)
    then show ?thesis using committed_Create [OF kv c [unfolded Inr]] raw stored by (auto simp: kv_newLease_def)
  next
    case (Inl e)
    obtain k2 g where g: "kv_Get (ks_leases st) (env 1 k1) key = (k2, g)" by (cases "kv_Get (ks_leases st) (env 1 k1) key")
    from step raw c Inl g obtain rvn w where w: "g = Inr (rvn, w)"
      by (cases g) (auto simp: kv_Acquire_def split: if_splits)
    from step raw c Inl g w obtain obs where obs: "kv_decode (ks_codec st) w = Some obs"
      by (cases "kv_decode (ks_codec st) w") (auto simp: kv_Acquire_def split: if_splits)
    consider (Own) "kv_exact (ks_codec st) obs ''lease'' (lv_holder v) (lv_expires v) (lv_epoch v) False"
        "k' = k2" "h = kv_newLease key v rvn"
      | (Taken) r3 where "kv_mutate st env k2 key raw rvn = (k', Inr r3)" "h = kv_newLease key v r3"
      using step raw c Inl g w obs
      by (auto simp: kv_Acquire_def split: if_split_asm option.split_asm prod.split_asm sum.split_asm)
    then show ?thesis
    proof cases
      case Own
      then show ?thesis using committed_Get [OF kv g [unfolded w]] obs stored by (auto simp: kv_newLease_def)
    next
      case Taken
      then show ?thesis using kv_mutate_stored [OF kv Taken(1)] raw stored by (auto simp: kv_newLease_def)
    qed
  qed
qed

section \<open>Properties\<close>

text \<open>
  C28: a lease is owned only when it was committed. Whatever other clients do in between, even when an acknowledgement is lost
  and when reads lag, the bucket has committed the candidate's lease under the revision that the handle of a successful
  acquire carries as its fencing token. If reads are up to date, the bucket holds that entry when the call returns.
\<close>

theorem kv_acquire_durable:
  assumes "kv_contract (ks_leases st) cur hist" "kv_Acquire st env k now1 now2 key v = (k', Inr h)"
  shows "\<exists>raw. (le_revision h, raw) \<in> set (hist k' key) \<and> (kv_fresh (ks_leases st) cur \<longrightarrow> cur k' key = Some (le_revision h, raw)) \<and>
    stored_value (ks_codec st) raw ''lease'' (lv_holder v) (lv_expires v) (lv_epoch v) False \<and>
    le_key h = key \<and> le_holder h = lv_holder v \<and> le_expires h = lv_expires v"
  using kv_Acquire_stored [OF assms] by (auto simp: committed_def)

text \<open>
  A bucket in which acknowledgements of updates are lost and reads come from a replica that stopped after the second entry. A
  lease of the key was released before; the acquire replaces it, and another client writes again before the value is read back.
\<close>

definition ex_lagging :: "(string \<Rightarrow> (u64 \<times> bytes) list) atomicKV" where
  "ex_lagging = \<lparr>kv_Create = (\<lambda>k key raw. if k key = [] then (k(key := [(1, raw)]), Inr 1) else (k, Inl KVKeyExists)),
     kv_Get = (\<lambda>k key. (k, if k key = [] then Inl KVKeyNotFound else Inr (last (take 2 (k key))))),
     kv_Update = (\<lambda>k key raw old. if k key \<noteq> [] \<and> fst (last (k key)) = old \<and> (\<forall>e \<in> set (k key). fst e \<le> old) \<and> old \<noteq> - 1
         then (k(key := k key @ [(old + 1, raw)]), Inl KVOther) else (k, Inl KVOther))\<rparr>"

definition ex_last :: "(string \<Rightarrow> (u64 \<times> bytes) list) kv_content" where
  "ex_last k key = (if k key = [] then None else Some (last (k key)))"

text \<open>A bucket that obeys the contract: a map, each key with its own revisions.\<close>

definition ex_kv :: "(string \<Rightarrow> (u64 \<times> bytes) option) atomicKV" where
  "ex_kv = \<lparr>kv_Create = (\<lambda>k key raw. if k key = None then (k(key \<mapsto> (1, raw)), Inr 1) else (k, Inl KVKeyExists)),
     kv_Get = (\<lambda>k key. (k, case k key of None \<Rightarrow> Inl KVKeyNotFound | Some e \<Rightarrow> Inr e)),
     kv_Update = (\<lambda>k key raw old. case k key of
         Some (r, v) \<Rightarrow> if r = old \<and> old \<noteq> - 1 then (k(key \<mapsto> (old + 1, raw)), Inr (old + 1)) else (k, Inl KVOther)
       | None \<Rightarrow> (k, Inl KVOther))\<rparr>"

definition ex_value_codec :: value_codec where
  "ex_value_codec = \<lparr>vc_marshal = (\<lambda>v. Some (if v_released v then [1] else [0])),
     vc_unmarshal = (\<lambda>b. Some \<lparr>v_schema = 1, v_kind = ''lease'', v_digest = ex_digest, v_expires_at = '''', v_epoch = 1,
        v_released = (b = [1])\<rparr>),
     vc_format = (\<lambda>_. ''''), vc_parse = (\<lambda>_. Some (ex_time 50))\<rparr>"

lemma ex_kv_linear: "kv_linear ex_kv (\<lambda>k. k)"
proof -
  have "old < old + 1" if "old \<noteq> - 1" for old :: u64 using that by (intro less_Suc_word) simp_all
  then show ?thesis unfolding kv_linear_def kv_fresh_def kv_create_ok_def kv_update_ok_def ex_kv_def
    by (auto split: option.splits if_splits prod.splits)
qed

lemma ex_last_update: "ex_last (k(key := es @ [e])) = (ex_last k)(key \<mapsto> e)"
  by (auto simp: ex_last_def fun_eq_iff)

lemma ex_lagging_contract: "kv_contract ex_lagging ex_last (\<lambda>k. k)"
proof -
  have up: "old < old + 1" if "old \<noteq> - 1" for old :: u64 using that by (intro less_Suc_word) simp_all
  have first: "ex_last (k(key := [e])) = (ex_last k)(key \<mapsto> e)" for k key e using ex_last_update [of k key "[]" e] by simp
  have "kv_create_ok ex_lagging ex_last"
    unfolding kv_create_ok_def by (auto simp: ex_lagging_def first) (simp add: ex_last_def)
  moreover have "kv_update_ok ex_lagging ex_last"
  proof -
    have "\<exists>v. ex_last k key = Some (old, v)" if "k key \<noteq> []" "fst (last (k key)) = old" for k key old
      using that by (auto simp: ex_last_def prod_eq_iff)
    then show ?thesis unfolding kv_update_ok_def using up by (simp add: ex_lagging_def ex_last_update) blast
  qed
  moreover have "kv_get_ok ex_lagging ex_last (\<lambda>k. k)"
    unfolding kv_get_ok_def by (auto simp: ex_lagging_def) (metis in_set_takeD last_in_set take_eq_Nil2 zero_neq_numeral)
  moreover have "kv_log_ok ex_lagging ex_last (\<lambda>k. k)"
  proof -
    have same: "kv_logged ex_last (\<lambda>k. k) key raw k k" for key raw k by (simp add: kv_logged_def)
    have put: "kv_logged ex_last (\<lambda>k. k) key raw k (k(key := k key @ [(rvn, raw)]))" if "\<forall>e \<in> set (k key). fst e < rvn" for k key raw rvn
      unfolding kv_logged_def by (rule disjI2, rule exI [of _ rvn]) (simp add: that ex_last_update)
    have new: "kv_logged ex_last (\<lambda>k. k) key raw k (k(key := [(1, raw)]))" if "k key = []" for k key raw
      using put [of k key 1 raw] that by simp
    have "kv_logged ex_last (\<lambda>k. k) key raw k (k(key := k key @ [(old + 1, raw)]))"
      if "\<forall>e \<in> set (k key). fst e \<le> old" "old \<noteq> - 1" for k key raw old
      using that up [of old] by (intro put) (auto intro: le_less_trans)
    then show ?thesis unfolding kv_log_ok_def using same new by (simp add: ex_lagging_def)
  qed
  ultimately show ?thesis by (simp add: kv_contract_def)
qed

lemma ex_digest_ok [simp]: "digestPattern ex_digest"
  by (simp add: digestPattern_def ex_digest_def list_all_iff)

definition ex_lagging_store :: "(string \<Rightarrow> (u64 \<times> bytes) list) KVStore" where
  "ex_lagging_store = \<lparr>ks_nonces = ex_lagging, ks_leases = ex_lagging, ks_config = \<lparr>kc_MaxLifetime = 100, kc_Epoch = 1\<rparr>,
     ks_codec = ex_value_codec\<rparr>"

definition ex_writer :: "nat \<Rightarrow> (string \<Rightarrow> (u64 \<times> bytes) list) \<Rightarrow> string \<Rightarrow> (u64 \<times> bytes) list" where
  "ex_writer n k = (if n = 3 then k(ex_digest := k ex_digest @ [(3, [1])]) else k)"

lemma ex_lagging_acquired:
  "kv_Acquire ex_lagging_store ex_writer ((\<lambda>_. [])(ex_digest := [(1, [1])])) (ex_time 0) (ex_time 0) ex_digest ex_value =
    ((\<lambda>_. [])(ex_digest := [(1, [1]), (2, [0]), (3, [1])]), Inr (kv_newLease ex_digest ex_value 2))"
proof -
  have "\<not> (2 :: u64) \<le> 1" by code_simp
  then show ?thesis
    by (simp add: kv_Acquire_def ex_lagging_store_def ex_lagging_def ex_writer_def ex_value_codec_def ex_value_def ex_time_def
        kv_validExpiry_def kv_encode_def kv_decode_def kv_mutate_def reconcileLeaseMutation_def maxValueBytes_def time_After_def)
qed

theorem kv_acquire_durable_witness:
  "\<exists>k h raw. kv_Acquire ex_lagging_store ex_writer ((\<lambda>_. [])(ex_digest := [(1, [1])])) (ex_time 0) (ex_time 0) ex_digest ex_value = (k, Inr h) \<and>
     le_revision h = 2 \<and> (2, raw) \<in> set (k ex_digest) \<and> ex_last k ex_digest = Some (3, [1]) \<and>
     stored_value ex_value_codec raw ''lease'' ex_digest (ex_time 50) 1 False"
proof -
  have "kv_contract (ks_leases ex_lagging_store) ex_last (\<lambda>k. k)" using ex_lagging_contract by (simp add: ex_lagging_store_def)
  from kv_acquire_durable [OF this ex_lagging_acquired] obtain raw where
    "(2 :: u64, raw) \<in> set (((\<lambda>_. [])(ex_digest := [(1, [1]), (2, [0]), (3, [1])])) ex_digest)"
    "stored_value ex_value_codec raw ''lease'' ex_digest (ex_time 50) 1 False"
    by (auto simp: kv_newLease_def ex_lagging_store_def ex_value_def)
  then show ?thesis using ex_lagging_acquired
    by (intro exI [of _ "(\<lambda>_. [])(ex_digest := [(1, [1]), (2, [0]), (3, [1])])"] exI [of _ "kv_newLease ex_digest ex_value 2"] exI [of _ raw])
      (simp add: kv_newLease_def ex_last_def)
qed

text \<open>
  Renewal and release are fenced. Each succeeds only when the bucket has committed the new lease under a revision greater than
  the one the handle held, and the handle then carries that revision.
\<close>

theorem kv_mutation_fenced:
  assumes "kv_contract (ks_leases st) cur hist"
  shows "(kv_Renew st env k held now expires = (k', h, None) \<longrightarrow>
      le_revision held < le_revision h \<and> (\<exists>raw. committed (ks_leases st) cur hist k' (le_key held) (le_revision h) raw \<and>
        kv_encode (ks_codec st) ''lease'' (le_holder held) expires (kc_Epoch (ks_config st)) False = Some raw)) \<and>
    (kv_Release st env k held = (k', h, None) \<longrightarrow>
      le_revision held < le_revision h \<and> le_released h \<and> (\<exists>raw. committed (ks_leases st) cur hist k' (le_key held) (le_revision h) raw \<and>
        kv_encode (ks_codec st) ''lease'' (le_holder held) (le_expires held) (kc_Epoch (ks_config st)) True = Some raw))"
proof -
  have "kv_Renew st env k held now expires = (k', h, None) \<Longrightarrow> \<exists>raw rvn. kv_mutate st env k (le_key held) raw (le_revision held) = (k', Inr rvn) \<and>
      h = held\<lparr>le_revision := rvn, le_expires := expires\<rparr> \<and>
      kv_encode (ks_codec st) ''lease'' (le_holder held) expires (kc_Epoch (ks_config st)) False = Some raw"
    by (auto simp: kv_Renew_def split: if_split_asm option.split_asm prod.split_asm sum.split_asm)
  moreover have "kv_Release st env k held = (k', h, None) \<Longrightarrow> \<exists>raw rvn. kv_mutate st env k (le_key held) raw (le_revision held) = (k', Inr rvn) \<and>
      h = held\<lparr>le_revision := rvn, le_released := True\<rparr> \<and>
      kv_encode (ks_codec st) ''lease'' (le_holder held) (le_expires held) (kc_Epoch (ks_config st)) True = Some raw"
    by (auto simp: kv_Release_def split: if_split_asm option.split_asm prod.split_asm sum.split_asm)
  ultimately show ?thesis by (auto dest!: kv_mutate_stored [OF assms])
qed

text \<open>
  A live lease is not overwritten, even when reads lag: an acquire replaces only the entry it read, so an entry that is
  unreleased and has not expired stays, when no other client interferes and revisions name one value each.
\<close>

lemma kv_mutate_stale:
  assumes kv: "kv_contract (ks_leases st) cur hist" and quiet: "\<And>n k. env n k = k"
    and held: "cur k key = Some (rvn, w)" "rvn \<noteq> previous"
  shows "cur (fst (kv_mutate st env k key raw previous)) = cur k"
proof -
  obtain k1 r where u: "kv_Update (ks_leases st) k key raw previous = (k1, r)" by (cases "kv_Update (ks_leases st) k key raw previous")
  have k1: "cur k1 = cur k" and "isl r" using kv_update_ok_stale [OF kv_contract_writes(2) [OF kv] u held] by auto
  then obtain e where e: "r = Inl e" by (auto simp: isl_def)
  obtain k2 g where g: "kv_Get (ks_leases st) k1 key = (k2, g)" by (cases "kv_Get (ks_leases st) k1 key")
  have "cur k2 = cur k" using kv_contract_Get(1) [OF kv g] k1 by simp
  then show ?thesis using u e g by (simp add: kv_mutate_def quiet reconcileLeaseMutation_def split: sum.split)
qed

theorem kv_acquire_no_takeover:
  assumes kv: "kv_contract (ks_leases st) cur hist" and quiet: "\<And>n k. env n k = k"
    and held: "cur k key = Some (rvn, raw)" "(rvn, raw) \<in> set (hist k key)" "\<And>w. (rvn, w) \<in> set (hist k key) \<Longrightarrow> w = raw"
    and live: "kv_decode (ks_codec st) raw = Some observed" "\<not> v_released observed"
      "vc_parse (ks_codec st) (v_expires_at observed) = Some t" "time_After t (time_UTC now2)"
  shows "cur (fst (kv_Acquire st env k now1 now2 key v)) = cur k"
proof (cases "digestPattern key \<and> digestPattern (lv_holder v) \<and> lv_epoch v = kc_Epoch (ks_config st) \<and> kv_validExpiry st now1 (lv_expires v)")
  case False
  then show ?thesis by (auto simp: kv_Acquire_def)
next
  case True
  define epoch where "epoch = kc_Epoch (ks_config st)"
  with True have valid: "digestPattern key" "digestPattern (lv_holder v)" "lv_epoch v = epoch" "kv_validExpiry st now1 (lv_expires v)" by simp_all
  show ?thesis
  proof (cases "kv_encode (ks_codec st) ''lease'' (lv_holder v) (lv_expires v) epoch False")
    case None
    then show ?thesis using valid by (simp add: kv_Acquire_def epoch_def [symmetric])
  next
    case (Some new)
    obtain k1 r where c: "kv_Create (ks_leases st) k key new = (k1, r)" by (cases "kv_Create (ks_leases st) k key new")
    obtain e where e: "r = Inl e" using kv_create_ok_Inr(1) [OF kv_contract_writes(1) [OF kv]] c held(1) by (cases r) fastforce+
    have k1: "cur k1 = cur k" using kv_create_ok_failed [OF kv_contract_writes(1) [OF kv] c [unfolded e]] held(1) by simp
    have "kv_logged cur hist key new k k1" using kv c by (metis fst_conv kv_contract_def kv_log_ok_def)
    then have hist: "hist k1 = hist k" using k1 held(1,2) unfolding kv_logged_def by (auto simp: fun_eq_iff split: if_splits)
    obtain k2 g where g: "kv_Get (ks_leases st) k1 key = (k2, g)" by (cases "kv_Get (ks_leases st) k1 key")
    note k2 = kv_contract_Get [OF kv g, unfolded k1 hist]
    have mut: "cur (fst (kv_mutate st env k2 key new x)) = cur k" if "x \<noteq> rvn" for x
      using kv_mutate_stale [OF kv quiet, where k = k2 and key = key and rvn = rvn and w = raw and previous = x and raw = new] k2(1) held(1) that by simp
    show ?thesis
    proof (cases g)
      case (Inl x)
      then show ?thesis using Some c e g k2(1) valid by (simp add: kv_Acquire_def quiet epoch_def [symmetric])
    next
      case (Inr entry)
      obtain x w where entry: "entry = (x, w)" by (cases entry)
      note run = Some c e g Inr entry k2(1) valid
      show ?thesis
      proof (cases "x = rvn")
        case True
        then have "w = raw" using k2(3) [OF Inr] held(3) entry by simp
        then show ?thesis using run live by (auto simp: kv_Acquire_def quiet epoch_def [symmetric])
      next
        case False
        then show ?thesis using run mut [of x]
          by (cases "kv_mutate st env k2 key new x") (auto simp: kv_Acquire_def quiet epoch_def [symmetric] split: option.splits sum.splits)
      qed
    qed
  qed
qed

text \<open>
  C29: an ambiguous failure can consume a nonce twice. When the bucket already holds exactly this nonce (it was
  consumed before) and the create call fails with any error but \<^verbatim>\<open>ErrKeyExists\<close>, the reconciliation mistakes the
  earlier consumption for its own and reports \<^verbatim>\<open>NonceConsumed\<close> again, where RFC-0012 asks that existing exact values
  return \<^verbatim>\<open>replayed\<close>. It happens already when reads are up to date.
\<close>

theorem kv_nonce_reconsumed:
  assumes kv: "kv_linear (ks_nonces st) cur" and quiet: "\<And>n k. env n k = k"
    and valid: "digestPattern key" "digestPattern (nv_digest v)" "nv_epoch v = kc_Epoch (ks_config st)" "kv_validExpiry st now (nv_expires v)"
    and raw: "kv_encode (ks_codec st) ''nonce'' (nv_digest v) (nv_expires v) (nv_epoch v) False = Some raw"
    and decodes: "kv_decode (ks_codec st) raw = Some observed"
      "kv_exact (ks_codec st) observed ''nonce'' (nv_digest v) (nv_expires v) (nv_epoch v) False"
    and consumed: "cur k key = Some (rvn, raw)"
    and ambiguous: "kv_Create (ks_nonces st) k key raw = (k1, Inl e)" "e \<noteq> KVKeyExists"
    and answered: "kv_Get (ks_nonces st) k1 key = (k2, Inr found)"
  shows "kv_Consume st env k now key v = (k2, Inr NonceConsumed) \<and> cur k2 = cur k"
proof -
  have k1: "cur k1 = cur k" using kv_create_ok_failed [OF kv_linear_ok(2) [OF kv] ambiguous(1)] consumed by simp
  then have "found = (rvn, raw)" using kv_fresh_Get(2) [OF kv_linear_ok(1) [OF kv] answered] consumed by simp
  then show ?thesis
    using valid raw decodes ambiguous answered kv_fresh_Get(1) [OF kv_linear_ok(1) [OF kv] answered] k1
    by (simp add: kv_Consume_def quiet)
qed

definition ex_kv_ambiguous :: "(string \<Rightarrow> (u64 \<times> bytes) option) atomicKV" where
  "ex_kv_ambiguous = ex_kv\<lparr>kv_Create := (\<lambda>k key raw. (k, Inl KVOther))\<rparr>"

definition ex_nonce_codec :: value_codec where
  "ex_nonce_codec = ex_value_codec\<lparr>vc_unmarshal := (\<lambda>b. Some \<lparr>v_schema = 1, v_kind = ''nonce'', v_digest = ex_digest,
     v_expires_at = [], v_epoch = 1, v_released = False\<rparr>)\<rparr>"

theorem kv_nonce_reconsumed_witness:
  "let st = \<lparr>ks_nonces = ex_kv_ambiguous, ks_leases = ex_kv, ks_config = \<lparr>kc_MaxLifetime = 100, kc_Epoch = 1\<rparr>, ks_codec = ex_nonce_codec\<rparr>
   in snd (kv_Consume st (\<lambda>_ k. k) ((\<lambda>_. None)(ex_digest \<mapsto> (1, [0]))) (ex_time 0) ex_digest ex_nonce) = Inr NonceConsumed"
proof -
  define st where "st = \<lparr>ks_nonces = ex_kv_ambiguous, ks_leases = ex_kv, ks_config = \<lparr>kc_MaxLifetime = 100, kc_Epoch = 1\<rparr>, ks_codec = ex_nonce_codec\<rparr>"
  let ?k = "(\<lambda>_. None)(ex_digest \<mapsto> (1 :: u64, [0 :: byte]))"
  have "kv_linear ex_kv_ambiguous (\<lambda>k. k)"
    using ex_kv_linear unfolding kv_linear_def kv_fresh_def kv_create_ok_def kv_update_ok_def ex_kv_ambiguous_def by simp
  then have "kv_linear (ks_nonces st) (\<lambda>k. k)" by (simp add: st_def)
  then have "kv_Consume st (\<lambda>_ k. k) ?k (ex_time 0) ex_digest ex_nonce = (?k, Inr NonceConsumed) \<and> ?k = ?k"
    by (rule kv_nonce_reconsumed [where raw = "[0]" and rvn = 1 and e = KVOther and found = "(1, [0])" and ?k1.0 = ?k and cur = "\<lambda>k. k" and
        observed = "\<lparr>v_schema = 1, v_kind = ''nonce'', v_digest = ex_digest, v_expires_at = [], v_epoch = 1, v_released = False\<rparr>"])
      (simp_all add: st_def ex_nonce_def ex_kv_ambiguous_def ex_kv_def ex_nonce_codec_def ex_value_codec_def ex_time_def
        kv_validExpiry_def kv_encode_def kv_decode_def kv_exact_def maxValueBytes_def time_After_def)
  then show ?thesis unfolding Let_def st_def by simp
qed

end
