(* ===== verification/Budget_KV.thy ===== *)
theory Budget_KV
  imports Budget Lease_KV "HOL-Library.List_Lexorder" "HOL-Library.Char_ord"
begin

text \<open>
  Capability budgets over a JetStream key-value bucket, \<^verbatim>\<open>internal/coordination/jetstreamkv/budget.go\<close>. A principal's
  capabilities are one stored value: every operation reads it, changes it and writes it back on the revision it
  read. The bucket is the parameter of \<open>Lease_KV\<close>; the JSON text of a value and the RFC 3339 text of a time are
  produced and read by a \<open>budget_codec\<close>. Each call of \<^verbatim>\<open>now\<close> is an argument.
\<close>

section \<open>Stored values\<close>

record budgetSlot =
  bs_token :: string
  bs_expires_at :: string
  bs_lease_expires :: string
  bs_phase :: string

record budgetValue =
  bv_schema :: int
  bv_epoch :: u64
  bv_entries :: "budgetSlot list"

text \<open>Decoding fills a value that already has its defaults, as \<^verbatim>\<open>json.Unmarshal\<close> into an initialised struct does.\<close>

record budget_codec =
  bc_marshal :: "budgetValue \<Rightarrow> bytes option"
  bc_unmarshal :: "bytes \<Rightarrow> budgetValue \<Rightarrow> budgetValue option"
  bc_format :: "time \<Rightarrow> string"
  bc_parse :: "string \<Rightarrow> time option"

record 'k KVBudget =
  kb_kv :: "'k atomicKV"
  kb_limit :: int
  kb_pendingTTL :: duration
  kb_epoch :: u64
  kb_codec :: budget_codec

definition maxBudgetValueBytes :: nat where
  "maxBudgetValueBytes = 8192"

definition tokenText :: "CapabilityTokenID \<Rightarrow> string" where
  "tokenText token = hex_encode token"

fun findSlot :: "budgetSlot list \<Rightarrow> string \<Rightarrow> nat option" where
  "findSlot [] token = None"
| "findSlot (e # es) token = (if bs_token e = token then Some 0 else map_option Suc (findSlot es token))"

definition formatTime :: "budget_codec \<Rightarrow> time \<Rightarrow> string" where
  "formatTime c t = bc_format c (time_UTC t)"

definition hex_text :: "string \<Rightarrow> bool" where
  "hex_text s \<longleftrightarrow> even (length s) \<and> list_all (\<lambda>c. c \<in> set ''0123456789abcdefABCDEF'') s"

definition slot_valid :: "budget_codec \<Rightarrow> budgetSlot \<Rightarrow> bool" where
  "slot_valid c entry \<longleftrightarrow>
     length (bs_token entry) = 32 \<and> bs_phase entry \<in> {''pending'', ''active''} \<and> hex_text (bs_token entry) \<and>
     (case (bc_parse c (bs_expires_at entry), bc_parse c (bs_lease_expires entry)) of
        (Some expires, Some leaseExpires) \<Rightarrow>
          t_loc expires = UTC \<and> t_loc leaseExpires = UTC \<and>
          time_Equal expires (time_Truncate expires Millisecond) \<and>
          time_Equal leaseExpires (time_Truncate leaseExpires Millisecond) \<and>
          \<not> (bs_phase entry = ''active'' \<and> \<not> time_Equal expires leaseExpires \<or>
             bs_phase entry = ''pending'' \<and> time_After expires leaseExpires)
      | _ \<Rightarrow> False)"

definition decodeBudget :: "budget_codec \<Rightarrow> bytes \<Rightarrow> budgetValue \<Rightarrow> budgetValue option" where
  "decodeBudget c raw initial =
     (if length raw = 0 \<or> length raw > maxBudgetValueBytes then None
      else case bc_unmarshal c raw initial of
        None \<Rightarrow> None
      | Some value \<Rightarrow>
          if bv_schema value \<noteq> 1 \<or> bv_epoch value = 0 \<or> length (bv_entries value) > 32 then None
          else if bc_marshal c value \<noteq> Some raw then None
          else if list_all (slot_valid c) (bv_entries value) then Some value else None)"

section \<open>Operations\<close>

definition kb_validate :: "'k KVBudget \<Rightarrow> time \<Rightarrow> Digest \<Rightarrow> time \<Rightarrow> u64 \<Rightarrow> coord_error option" where
  "kb_validate b now prin expires epoch =
     (if \<not> digestPattern prin \<or> epoch \<noteq> kb_epoch b \<or> t_loc expires \<noteq> UTC \<or>
         \<not> time_Equal expires (time_Truncate expires Millisecond) \<or> \<not> time_After expires (time_UTC now)
      then Some CInvalidArgument else None)"

definition kb_prune :: "'k KVBudget \<Rightarrow> time \<Rightarrow> budgetValue \<Rightarrow> budgetValue" where
  "kb_prune b now value =
     value\<lparr>bv_entries := filter (\<lambda>entry. case bc_parse (kb_codec b) (bs_expires_at entry) of
         None \<Rightarrow> False | Some expires \<Rightarrow> time_After expires (time_UTC now)) (bv_entries value)\<rparr>"

definition kb_fresh :: "'k KVBudget \<Rightarrow> budgetValue" where
  "kb_fresh b = \<lparr>bv_schema = 1, bv_epoch = kb_epoch b, bv_entries = []\<rparr>"

text \<open>The value a read gives: the defaults for a missing key, a reset for an older epoch.\<close>

definition kb_current :: "'k KVBudget \<Rightarrow> bytes option \<Rightarrow> coord_error + budgetValue" where
  "kb_current b stored =
     (case stored of
        None \<Rightarrow> Inr (kb_fresh b)
      | Some raw \<Rightarrow>
          (case decodeBudget (kb_codec b) raw (kb_fresh b) of
             None \<Rightarrow> Inl CInvariant
           | Some value \<Rightarrow>
               if bv_epoch value > kb_epoch b then Inl CInvariant
               else if bv_epoch value < kb_epoch b then Inr (kb_fresh b)
               else Inr value))"

definition sort_entries :: "budgetValue \<Rightarrow> budgetValue" where
  "sort_entries value = value\<lparr>bv_entries := sort_key bs_token (bv_entries value)\<rparr>"

text \<open>The write with its reconciliation.\<close>

definition kb_write ::
  "'k KVBudget \<Rightarrow> (nat \<Rightarrow> 'k \<Rightarrow> 'k) \<Rightarrow> 'k \<Rightarrow> Digest \<Rightarrow> bool \<Rightarrow> u64 \<Rightarrow> bytes \<Rightarrow> 'k \<times> coord_error option" where
  "kb_write b env k prin missing revision raw =
     (case (if missing then kv_Create (kb_kv b) (env 1 k) prin raw else kv_Update (kb_kv b) (env 1 k) prin raw revision) of
        (k2, Inr _) \<Rightarrow> (k2, None)
      | (k2, Inl _) \<Rightarrow>
          (case kv_Get (kb_kv b) (env 2 k2) prin of
             (k3, Inl _) \<Rightarrow> (k3, Some CUnavailable)
           | (k3, Inr (rvn, v)) \<Rightarrow> (k3, if rvn > revision \<and> v = raw then None else Some CConflict)))"

definition kb_mutate ::
  "'k KVBudget \<Rightarrow> (nat \<Rightarrow> 'k \<Rightarrow> 'k) \<Rightarrow> 'k \<Rightarrow> Digest \<Rightarrow> (budgetValue \<Rightarrow> coord_error + budgetValue)
     \<Rightarrow> 'k \<times> coord_error option" where
  "kb_mutate b env k prin change =
     (case kv_Get (kb_kv b) (env 0 k) prin of (k1, entry) \<Rightarrow>
        let missing = (entry = Inl KVKeyNotFound \<or> entry = Inl KVKeyDeleted) in
        if (\<exists>e. entry = Inl e) \<and> \<not> missing then (k1, Some CUnavailable)
        else
          let revision = (case entry of Inr (rvn, _) \<Rightarrow> rvn | Inl _ \<Rightarrow> 0) in
          case kb_current b (case entry of Inr (_, raw) \<Rightarrow> Some raw | Inl _ \<Rightarrow> None) of
            Inl e \<Rightarrow> (k1, Some e)
          | Inr value \<Rightarrow>
            (case change value of
               Inl e \<Rightarrow> (k1, Some e)
             | Inr value' \<Rightarrow>
               (case bc_marshal (kb_codec b) (sort_entries value') of
                  None \<Rightarrow> (k1, Some CUnavailable)
                | Some raw \<Rightarrow>
                    if length raw > maxBudgetValueBytes then (k1, Some CUnavailable)
                    else kb_write b env k1 prin missing revision raw)))"

definition reserve_slot ::
  "'k KVBudget \<Rightarrow> time \<Rightarrow> time \<Rightarrow> CapabilityTokenID \<Rightarrow> time \<Rightarrow> budgetValue \<Rightarrow> coord_error + budgetValue" where
  "reserve_slot b now2 now3 token expires value0 =
     (let value = kb_prune b now2 value0; encoded = tokenText token in
      if findSlot (bv_entries value) encoded \<noteq> None then Inl CConflict
      else if int (length (bv_entries value)) \<ge> kb_limit b then Inl CUnavailable
      else
        let pending = time_Add (time_UTC now3) (kb_pendingTTL b);
            pending = (if time_Before expires pending then expires else pending) in
        Inr (value\<lparr>bv_entries := bv_entries value @ [\<lparr>bs_token = encoded,
          bs_expires_at = formatTime (kb_codec b) pending, bs_lease_expires = formatTime (kb_codec b) expires,
          bs_phase = ''pending''\<rparr>]\<rparr>))"

definition kb_Reserve ::
  "'k KVBudget \<Rightarrow> (nat \<Rightarrow> 'k \<Rightarrow> 'k) \<Rightarrow> 'k \<Rightarrow> time \<Rightarrow> time \<Rightarrow> time \<Rightarrow> Digest \<Rightarrow> CapabilityTokenID \<Rightarrow> time \<Rightarrow> u64
     \<Rightarrow> 'k \<times> coord_error option" where
  "kb_Reserve b env k now1 now2 now3 prin token expires epoch =
     (case kb_validate b now1 prin expires epoch of
        Some e \<Rightarrow> (k, Some e)
      | None \<Rightarrow> kb_mutate b env k prin (reserve_slot b now2 now3 token expires))"

definition kb_change ::
  "'k KVBudget \<Rightarrow> (nat \<Rightarrow> 'k \<Rightarrow> 'k) \<Rightarrow> 'k \<Rightarrow> time \<Rightarrow> Digest \<Rightarrow> CapabilityTokenID \<Rightarrow> u64
     \<Rightarrow> (budgetSlot list \<Rightarrow> nat \<Rightarrow> coord_error + budgetSlot list) \<Rightarrow> 'k \<times> coord_error option" where
  "kb_change b env k now prin token epoch change =
     (if \<not> digestPattern prin \<or> epoch \<noteq> kb_epoch b then (k, Some CInvalidArgument)
      else kb_mutate b env k prin (\<lambda>value0.
        let value = kb_prune b now value0 in
        case findSlot (bv_entries value) (tokenText token) of
          None \<Rightarrow> Inl CConflict
        | Some index \<Rightarrow>
            (case change (bv_entries value) index of
               Inl e \<Rightarrow> Inl e
             | Inr entries \<Rightarrow> Inr (value\<lparr>bv_entries := entries\<rparr>))))"

definition commit_slot :: "budgetSlot list \<Rightarrow> nat \<Rightarrow> coord_error + budgetSlot list" where
  "commit_slot entries index =
     (if bs_phase (entries ! index) \<noteq> ''pending'' then Inl CConflict
      else Inr (entries[index := (entries ! index)
        \<lparr>bs_phase := ''active'', bs_expires_at := bs_lease_expires (entries ! index)\<rparr>]))"

definition drop_slot :: "string \<Rightarrow> budgetSlot list \<Rightarrow> nat \<Rightarrow> coord_error + budgetSlot list" where
  "drop_slot phase entries index =
     (if bs_phase (entries ! index) \<noteq> phase then Inl CConflict
      else Inr (take index entries @ drop (index + 1) entries))"

definition replace_slot ::
  "budget_codec \<Rightarrow> CapabilityTokenID \<Rightarrow> time \<Rightarrow> budgetSlot list \<Rightarrow> nat \<Rightarrow> coord_error + budgetSlot list" where
  "replace_slot c next expires entries index =
     (if bs_phase (entries ! index) \<noteq> ''active'' \<or> findSlot entries (tokenText next) \<noteq> None then Inl CConflict
      else Inr (entries[index := \<lparr>bs_token = tokenText next, bs_expires_at = formatTime c expires,
        bs_lease_expires = formatTime c expires, bs_phase = ''active''\<rparr>]))"

definition kb_Commit where
  "kb_Commit b env k now prin token epoch = kb_change b env k now prin token epoch commit_slot"

definition kb_Cancel where
  "kb_Cancel b env k now prin token epoch = kb_change b env k now prin token epoch (drop_slot ''pending'')"

definition kb_Replace where
  "kb_Replace b env k now1 now2 prin old next expires epoch =
     (case kb_validate b now1 prin expires epoch of
        Some e \<Rightarrow> (k, Some e)
      | None \<Rightarrow> kb_change b env k now2 prin old epoch (replace_slot (kb_codec b) next expires))"

definition kb_Retire where
  "kb_Retire b env k now prin token epoch = kb_change b env k now prin token epoch (drop_slot ''active'')"

section \<open>Laws\<close>

lemma findSlot_Some: "findSlot es token = Some i \<Longrightarrow> i < length es \<and> bs_token (es ! i) = token"
  by (induction es token arbitrary: i rule: findSlot.induct) (auto split: if_splits)

text \<open>A write that reports success has stored its bytes, also when only the read-back showed it.\<close>

lemma kb_write_stored:
  assumes kv: "kv_linear (kb_kv b) cur" and step: "kb_write b env k prin missing revision raw = (k', None)"
  shows "\<exists>rvn. cur k' prin = Some (rvn, raw)"
proof -
  define r where "r = (if missing then kv_Create (kb_kv b) (env 1 k) prin raw else kv_Update (kb_kv b) (env 1 k) prin raw revision)"
  obtain k2 res where res: "r = (k2, res)" by (cases r)
  show ?thesis
  proof (cases res)
    case (Inr rvn)
    with step res have "k' = k2" by (simp add: kb_write_def r_def [symmetric])
    then show ?thesis using res Inr kv_create_ok_Inr(2) [OF kv_linear_ok(2) [OF kv]] kv_update_ok_Inr(3) [OF kv_linear_ok(3) [OF kv]]
      by (auto simp: r_def split: if_splits)
  next
    case (Inl e)
    obtain k3 g where g: "kv_Get (kb_kv b) (env 2 k2) prin = (k3, g)" by (cases "kv_Get (kb_kv b) (env 2 k2) prin")
    with step res Inl obtain rvn where "g = Inr (rvn, raw)" "k' = k3"
      by (auto simp: kb_write_def r_def [symmetric] split: sum.splits if_splits)
    with kv_fresh_Get [OF kv_linear_ok(1) [OF kv] g] show ?thesis by auto
  qed
qed

lemma kb_mutate_stored:
  assumes kv: "kv_linear (kb_kv b) cur" and step: "kb_mutate b env k prin change = (k', None)"
  obtains stored v v' raw rvn where "kb_current b stored = Inr v" "change v = Inr v'"
    "bc_marshal (kb_codec b) (sort_entries v') = Some raw" "length raw \<le> maxBudgetValueBytes" "cur k' prin = Some (rvn, raw)"
proof -
  obtain k1 entry where "kv_Get (kb_kv b) (env 0 k) prin = (k1, entry)" by (cases "kv_Get (kb_kv b) (env 0 k) prin")
  with step obtain stored v v' raw missing revision where "kb_current b stored = Inr v" "change v = Inr v'"
      "bc_marshal (kb_codec b) (sort_entries v') = Some raw" "length raw \<le> maxBudgetValueBytes"
      "kb_write b env k1 prin missing revision raw = (k', None)"
    by (auto simp: kb_mutate_def Let_def split: if_split_asm sum.split_asm option.split_asm prod.split_asm)
  with kb_write_stored [OF kv] that show ?thesis by metis
qed

lemma kb_mutate_corrupt:
  assumes kv: "kv_linear (kb_kv b) cur" and quiet: "\<And>n k. env n k = k"
    and stored: "cur k prin = Some (rvn, raw)" and corrupt: "decodeBudget (kb_codec b) raw (kb_fresh b) = None"
  shows "\<exists>k' e. kb_mutate b env k prin change = (k', Some e) \<and> e \<in> {CInvariant, CUnavailable} \<and> cur k' = cur k"
proof -
  obtain k1 g where g: "kv_Get (kb_kv b) k prin = (k1, g)" by (cases "kv_Get (kb_kv b) k prin")
  have k1: "cur k1 = cur k" using kv_fresh_Get(1) [OF kv_linear_ok(1) [OF kv] g] .
  have found: "g \<noteq> Inl KVKeyNotFound" "g \<noteq> Inl KVKeyDeleted"
    using kv [unfolded kv_linear_def kv_fresh_def, THEN conjunct1, THEN spec [where x = k], THEN spec [where x = prin]] g stored
    by auto
  show ?thesis
  proof (cases g)
    case (Inl e)
    then show ?thesis using g found k1 by (simp add: kb_mutate_def quiet)
  next
    case (Inr e)
    then have "e = (rvn, raw)" using kv_fresh_Get(2) [OF kv_linear_ok(1) [OF kv] g, of e] stored by simp
    then show ?thesis using g Inr k1 corrupt by (simp add: kb_mutate_def quiet kb_current_def)
  qed
qed

section \<open>Properties\<close>

text \<open>
  A reservation keeps the budget. When reads are up to date, whatever other clients do in between, a successful reserve
  ends with the bucket holding a value for the principal that has at most \<open>limit\<close> entries, among
  them the reserved token as a pending one.
\<close>

theorem kb_reserve_within_limit:
  assumes kv: "kv_linear (kb_kv b) cur"
    and step: "kb_Reserve b env k now1 now2 now3 prin token expires epoch = (k', None)"
  shows "\<exists>rvn raw value. cur k' prin = Some (rvn, raw) \<and> bc_marshal (kb_codec b) value = Some raw \<and>
    bv_epoch value = kb_epoch b \<and> int (length (bv_entries value)) \<le> kb_limit b \<and>
    (\<exists>slot \<in> set (bv_entries value). bs_token slot = tokenText token \<and> bs_phase slot = ''pending'')"
proof -
  have "kb_mutate b env k prin (reserve_slot b now2 now3 token expires) = (k', None)"
    using step by (simp add: kb_Reserve_def split: option.splits)
  then obtain stored v v' raw rvn where w: "kb_current b stored = Inr v"
      "reserve_slot b now2 now3 token expires v = Inr v'" "bc_marshal (kb_codec b) (sort_entries v') = Some raw"
      "cur k' prin = Some (rvn, raw)"
    by (rule kb_mutate_stored [OF kv])
  have epoch: "bv_epoch v = kb_epoch b"
    using w(1) by (auto simp: kb_current_def kb_fresh_def split: option.splits if_splits)
  have "bv_epoch (sort_entries v') = bv_epoch v" "int (length (bv_entries (sort_entries v'))) \<le> kb_limit b"
      "\<exists>slot \<in> set (bv_entries (sort_entries v')). bs_token slot = tokenText token \<and> bs_phase slot = ''pending''"
    using w(2) by (auto simp: reserve_slot_def kb_prune_def sort_entries_def Let_def split: if_split_asm)
  with w epoch show ?thesis by metis
qed

text \<open>
  C30: a reservation can lock its principal out. \<^verbatim>\<open>Reserve\<close> writes the pending expiry with the nanoseconds of the
  clock, while \<^verbatim>\<open>decodeBudget\<close> accepts whole milliseconds only: when the pending expiry is not a whole
  millisecond and is earlier than the lease's, the stored value is refused from then on, so that the commit
  that has to follow fails, and the bucket is left as it is. Reads are up to date, and the codec reads back what it wrote.
\<close>

theorem kb_reserve_blocks_commit:
  assumes kv: "kv_linear (kb_kv b) cur" and quiet: "\<And>n k. env n k = k"
    and json: "\<And>v raw initial. bc_marshal (kb_codec b) v = Some raw \<Longrightarrow> bc_unmarshal (kb_codec b) raw initial = Some v"
    and times: "\<And>t. bc_parse (kb_codec b) (bc_format (kb_codec b) (time_UTC t)) = Some (time_UTC t)"
    and step: "kb_Reserve b env k now1 now2 now3 prin token expires epoch = (k', None)"
    and early: "\<not> time_Before expires (time_Add (time_UTC now3) (kb_pendingTTL b))"
    and fraction: "(t_nanos now3 + kb_pendingTTL b) mod Millisecond \<noteq> 0"
  shows "\<exists>k'' e. kb_Commit b env k' now4 prin token epoch = (k'', Some e) \<and> e \<in> {CInvariant, CUnavailable} \<and> cur k'' = cur k'"
proof -
  have ok: "digestPattern prin" "epoch = kb_epoch b" using step by (auto simp: kb_Reserve_def kb_validate_def split: if_splits)
  have "kb_mutate b env k prin (reserve_slot b now2 now3 token expires) = (k', None)"
    using step by (simp add: kb_Reserve_def split: option.splits)
  then obtain stored v v' raw rvn where w: "reserve_slot b now2 now3 token expires v = Inr v'"
      "bc_marshal (kb_codec b) (sort_entries v') = Some raw" "cur k' prin = Some (rvn, raw)"
    by (rule kb_mutate_stored [OF kv])
  define slot where "slot = \<lparr>bs_token = tokenText token, bs_expires_at = formatTime (kb_codec b) (time_Add (time_UTC now3) (kb_pendingTTL b)),
    bs_lease_expires = formatTime (kb_codec b) expires, bs_phase = ''pending''\<rparr>"
  have slot: "slot \<in> set (bv_entries (sort_entries v'))"
    using w(1) early by (auto simp: reserve_slot_def sort_entries_def slot_def Let_def split: if_split_asm)
  have "bc_parse (kb_codec b) (bs_expires_at slot) = Some (time_Add (time_UTC now3) (kb_pendingTTL b))"
    using times [of "time_Add (time_UTC now3) (kb_pendingTTL b)"] by (simp add: slot_def formatTime_def time_Add_def time_UTC_def)
  then have "\<not> slot_valid (kb_codec b) slot"
    using fraction by (auto simp: slot_valid_def time_Equal_def time_Truncate_def time_Add_def Millisecond_def split: option.splits)
  with slot have "\<not> list_all (slot_valid (kb_codec b)) (bv_entries (sort_entries v'))" by (auto simp: list_all_iff)
  then have "decodeBudget (kb_codec b) raw (kb_fresh b) = None"
    using json [OF w(2)] by (simp add: decodeBudget_def)
  from kb_mutate_corrupt [OF kv quiet w(3) this] show ?thesis
    using ok by (simp add: kb_Commit_def kb_change_def)
qed


text \<open>A codec with the two laws: one value has a text, and a time's text is its sign and its distance from zero.\<close>

definition ex_format :: "time \<Rightarrow> string" where
  "ex_format t = (if t_nanos t < 0 then ''-'' else ''+'') @ replicate (nat \<bar>t_nanos t\<bar>) (CHR ''n'')"

definition ex_parse :: "string \<Rightarrow> time option" where
  "ex_parse s = Some (ex_time (if take 1 s = ''-'' then - int (length s - 1) else int (length s - 1)))"

definition ex_budget_value :: budgetValue where
  "ex_budget_value = \<lparr>bv_schema = 1, bv_epoch = 1, bv_entries = [\<lparr>bs_token = tokenText (replicate 16 1),
     bs_expires_at = ex_format (ex_time 1), bs_lease_expires = ex_format (ex_time 1000000), bs_phase = ''pending''\<rparr>]\<rparr>"

definition ex_kv_budget :: "(string \<Rightarrow> (u64 \<times> bytes) option) KVBudget" where
  "ex_kv_budget = \<lparr>kb_kv = ex_kv, kb_limit = 4, kb_pendingTTL = 1, kb_epoch = 1, kb_codec =
     \<lparr>bc_marshal = (\<lambda>v. if v = ex_budget_value then Some [1] else None), bc_unmarshal = (\<lambda>raw initial. Some ex_budget_value),
      bc_format = ex_format, bc_parse = ex_parse\<rparr>\<rparr>"

lemma ex_parse_format: "ex_parse (ex_format (time_UTC t)) = Some (time_UTC t)"
  by (auto simp: ex_parse_def ex_format_def ex_time_def time_UTC_def)

lemma ex_reserved:
  "kb_Reserve ex_kv_budget (\<lambda>_ k. k) (\<lambda>_. None) (ex_time 0) (ex_time 0) (ex_time 0) ex_digest (replicate 16 1) (ex_time 1000000) 1 =
    ((\<lambda>_. None)(ex_digest \<mapsto> (1, [1])), None)"
  by (simp add: kb_Reserve_def kb_validate_def kb_mutate_def kb_current_def kb_fresh_def reserve_slot_def kb_prune_def
      kb_write_def sort_entries_def ex_kv_budget_def ex_kv_def ex_budget_value_def ex_time_def time_Equal_def time_Truncate_def
      time_After_def time_Before_def time_Add_def time_UTC_def Millisecond_def formatTime_def maxBudgetValueBytes_def)

theorem kb_reserve_blocks_commit_witness:
  "\<exists>k e. kb_Commit ex_kv_budget (\<lambda>_ k. k) ((\<lambda>_. None)(ex_digest \<mapsto> (1, [1]))) (ex_time 0) ex_digest (replicate 16 1) 1 = (k, Some e) \<and>
     e \<in> {CInvariant, CUnavailable} \<and> k = (\<lambda>_. None)(ex_digest \<mapsto> (1, [1]))"
proof (rule kb_reserve_blocks_commit [OF _ _ _ _ ex_reserved, where cur = "\<lambda>k. k"])
  show "kv_linear (kb_kv ex_kv_budget) (\<lambda>k. k)" using ex_kv_linear by (simp add: ex_kv_budget_def)
  show "bc_unmarshal (kb_codec ex_kv_budget) raw initial = Some v" if "bc_marshal (kb_codec ex_kv_budget) v = Some raw" for v raw initial
    using that by (simp add: ex_kv_budget_def split: if_splits)
  show "bc_parse (kb_codec ex_kv_budget) (bc_format (kb_codec ex_kv_budget) (time_UTC t)) = Some (time_UTC t)" for t
    using ex_parse_format by (simp add: ex_kv_budget_def)
qed (simp_all add: ex_kv_budget_def ex_time_def time_Before_def time_After_def time_Add_def Millisecond_def)

end
