(* ===== verification/Merkle.thy ===== *)
theory Merkle
  imports Sha256
begin

unbundle bit_operations_syntax

text \<open>
  RFC 9162 Merkle trees, \<^verbatim>\<open>internal/relay/audit/merkle.go\<close>: the tree hash, the recursive construction of inclusion and
  consistency proofs and their iterative verification. A \<^verbatim>\<open>Hash\<close> is a list of 32 bytes. Sizes and indices are
  natural numbers: every \<^verbatim>\<open>uint64\<close> of the file is compared with \<^verbatim>\<open>MaxJSONSafeSequence\<close> before it is used, is only halved or
  decremented from a positive value after that, and so never wraps. An error is \<open>None\<close> (the only one is
  \<^verbatim>\<open>ErrUnavailable\<close>).
\<close>

section \<open>Definitions\<close>

type_synonym Hash = bytes

definition MaxJSONSafeSequence :: nat where
  "MaxJSONSafeSequence = 9007199254740991"

definition MaxProofNodes :: nat where
  "MaxProofNodes = 54"

record TreeHead =
  th_Size :: nat
  th_Root :: Hash

record InclusionProof =
  ip_LeafIndex :: nat
  ip_TreeSize :: nat
  ip_Path :: "Hash list"

record ConsistencyProof =
  cp_FirstSize :: nat
  cp_SecondSize :: nat
  cp_Path :: "Hash list"

definition EmptyMerkleRoot :: Hash where
  "EmptyMerkleRoot = sha256 []"

definition newline :: string where
  "newline = [char_of (10 :: nat)]"

definition MerkleLeafHash :: "nat \<Rightarrow> bytes \<Rightarrow> Hash option" where
  "MerkleLeafHash sequence chainDigest =
     (if sequence = 0 \<or> sequence > MaxJSONSafeSequence then None
      else Some (sha256 ([0] @ str_bytes (''yukh-coordination:audit-merkle-leaf:v1'' @ newline) @
        put_be64 (of_nat sequence) @ chainDigest)))"

definition MerkleNodeHash :: "Hash \<Rightarrow> Hash \<Rightarrow> Hash" where
  "MerkleNodeHash left right = sha256 ([1] @ left @ right)"

text \<open>\<^verbatim>\<open>bits.Len64\<close>.\<close>

fun Len64 :: "nat \<Rightarrow> nat" where
  "Len64 n = (if n = 0 then 0 else Suc (Len64 (n div 2)))"

declare Len64.simps [simp del]

definition largestPowerLessThan :: "nat \<Rightarrow> nat" where
  "largestPowerLessThan value = push_bit (Len64 (value - 1) - 1) 1"

lemma Len64_bounds: "0 < n \<Longrightarrow> 2 ^ (Len64 n - 1) \<le> n \<and> n < 2 ^ Len64 n \<and> 0 < Len64 n"
proof (induction n rule: Len64.induct)
  case (1 n)
  show ?case
  proof (cases "n = 1")
    case True
    then show ?thesis by (simp add: Len64.simps)
  next
    case False
    then have "0 < n div 2" using 1(2) by simp
    then have ih: "2 ^ (Len64 (n div 2) - 1) \<le> n div 2" "n div 2 < 2 ^ Len64 (n div 2)" "0 < Len64 (n div 2)" using 1 by auto
    have "Len64 n = Suc (Len64 (n div 2))" using 1(2) by (subst Len64.simps) simp
    moreover obtain d where "Len64 (n div 2) = Suc d" using ih(3) by (cases "Len64 (n div 2)") auto
    ultimately show ?thesis using ih by auto
  qed
qed

text \<open>The split point: a power of two with \<open>k < n \<le> 2 k\<close>.\<close>

lemma split_point:
  assumes "1 < n"
  obtains j where "largestPowerLessThan n = 2 ^ j" "2 ^ j < n" "n \<le> 2 * 2 ^ j"
proof -
  obtain d where d: "Len64 (n - 1) = Suc d" using Len64_bounds [of "n - 1"] assms by (cases "Len64 (n - 1)") auto
  have "2 ^ d \<le> n - 1" "n - 1 < 2 * 2 ^ d" using Len64_bounds [of "n - 1"] assms d by auto
  then have "2 ^ d < n" "n \<le> 2 * 2 ^ d" using assms by linarith+
  moreover have "largestPowerLessThan n = 2 ^ d" unfolding largestPowerLessThan_def d by (simp add: push_bit_eq_mult)
  ultimately show ?thesis using that by blast
qed

lemma split_point_unique:
  assumes "(2 :: nat) ^ j < n" "n \<le> 2 * 2 ^ j"
  shows "largestPowerLessThan n = 2 ^ j"
proof -
  have "1 < n" using assms(1) by (meson leD le_less_linear less_le_trans one_le_power one_le_numeral order.strict_trans1)
  then obtain i where i: "largestPowerLessThan n = 2 ^ i" "2 ^ i < n" "n \<le> 2 * 2 ^ i" by (rule split_point)
  have "(2 :: nat) ^ i < 2 ^ Suc j" "(2 :: nat) ^ j < 2 ^ Suc i" using i assms by auto
  then have "i < Suc j" "j < Suc i" by (simp_all only: power_strict_increasing_iff)
  then have "i = j" by simp
  with i show ?thesis by simp
qed

lemma split_less: "1 < n \<Longrightarrow> largestPowerLessThan n < n" "1 < n \<Longrightarrow> 0 < largestPowerLessThan n"
  by (metis split_point, metis split_point zero_less_numeral zero_less_power)

lemma split_shorter:
  assumes "length xs \<noteq> 0" "length xs \<noteq> 1"
  shows "length (take (largestPowerLessThan (length xs)) xs) < length xs"
    "length (drop (largestPowerLessThan (length xs)) xs) < length xs"
proof -
  have "1 < length xs" using assms by linarith
  from split_less [OF this] show "length (take (largestPowerLessThan (length xs)) xs) < length xs"
    "length (drop (largestPowerLessThan (length xs)) xs) < length xs" by simp_all
qed

function MerkleRoot :: "Hash list \<Rightarrow> Hash" where
  "MerkleRoot leaves =
     (if length leaves = 0 then EmptyMerkleRoot
      else if length leaves = 1 then leaves ! 0
      else
        let k = largestPowerLessThan (length leaves)
        in MerkleNodeHash (MerkleRoot (take k leaves)) (MerkleRoot (drop k leaves)))"
  by pat_completeness auto
termination by (relation "measure length") (simp_all only: in_measure split_shorter wf_measure not_False_eq_True)

declare MerkleRoot.simps [simp del]

text \<open>The two path builders append to the slice they are given. They are called with at least one leaf.\<close>

function buildInclusionPath :: "Hash list \<Rightarrow> nat \<Rightarrow> Hash list \<Rightarrow> Hash list" where
  "buildInclusionPath leaves index path =
     (if length leaves \<le> 1 then path
      else
        let k = largestPowerLessThan (length leaves) in
        if index < k then buildInclusionPath (take k leaves) index path @ [MerkleRoot (drop k leaves)]
        else buildInclusionPath (drop k leaves) (index - k) path @ [MerkleRoot (take k leaves)])"
  by pat_completeness auto
termination
  by (relation "measure (\<lambda>(leaves, _, _). length leaves)") (auto intro!: split_shorter simp del: length_take length_drop)

declare buildInclusionPath.simps [simp del]

function buildConsistencyPath :: "Hash list \<Rightarrow> nat \<Rightarrow> bool \<Rightarrow> Hash list \<Rightarrow> Hash list" where
  "buildConsistencyPath leaves firstSize complete path =
     (if firstSize = length leaves then (if \<not> complete then path @ [MerkleRoot leaves] else path)
      else if length leaves \<le> 1 then path
      else
        let k = largestPowerLessThan (length leaves) in
        if firstSize \<le> k then buildConsistencyPath (take k leaves) firstSize complete path @ [MerkleRoot (drop k leaves)]
        else buildConsistencyPath (drop k leaves) (firstSize - k) False path @ [MerkleRoot (take k leaves)])"
  by pat_completeness auto
termination
  by (relation "measure (\<lambda>(leaves, _, _, _). length leaves)") (auto intro!: split_shorter simp del: length_take length_drop)

declare buildConsistencyPath.simps [simp del]

definition BuildInclusionProof :: "Hash list \<Rightarrow> nat \<Rightarrow> InclusionProof option" where
  "BuildInclusionProof leaves leafIndex =
     (if length leaves = 0 \<or> length leaves > MaxJSONSafeSequence \<or> leafIndex \<ge> length leaves then None
      else Some \<lparr>ip_LeafIndex = leafIndex, ip_TreeSize = length leaves, ip_Path = buildInclusionPath leaves leafIndex []\<rparr>)"

definition BuildConsistencyProof :: "Hash list \<Rightarrow> nat \<Rightarrow> ConsistencyProof option" where
  "BuildConsistencyProof leaves firstSize =
     (let secondSize = length leaves in
      if secondSize > MaxJSONSafeSequence \<or> firstSize > secondSize then None
      else if firstSize = 0 \<or> firstSize = secondSize
      then Some \<lparr>cp_FirstSize = firstSize, cp_SecondSize = secondSize, cp_Path = []\<rparr>
      else Some \<lparr>cp_FirstSize = firstSize, cp_SecondSize = secondSize,
        cp_Path = buildConsistencyPath leaves firstSize True []\<rparr>)"

text \<open>The loop over a proof: \<open>shift_even\<close> is the inner loop, \<open>advance\<close> the movement of the two positions in one round.\<close>

fun shift_even :: "nat \<Rightarrow> nat \<Rightarrow> nat \<times> nat" where
  "shift_even fn sn = (if fn \<noteq> 0 \<and> even fn then shift_even (fn div 2) (sn div 2) else (fn, sn))"

function shift_odd :: "nat \<Rightarrow> nat \<Rightarrow> nat \<times> nat" where
  "shift_odd fn sn = (if odd fn then shift_odd (fn div 2) (sn div 2) else (fn, sn))"
  by pat_completeness auto
termination by (relation "measure fst") (auto elim: oddE)

declare shift_even.simps [simp del] shift_odd.simps [simp del]

definition advance :: "nat \<Rightarrow> nat \<Rightarrow> nat \<times> nat" where
  "advance fn sn =
     (let (fn, sn) = (if (odd fn \<or> fn = sn) \<and> even fn then shift_even fn sn else (fn, sn))
      in (fn div 2, sn div 2))"

fun inclusion_loop :: "nat \<Rightarrow> nat \<Rightarrow> Hash \<Rightarrow> Hash list \<Rightarrow> (nat \<times> Hash) option" where
  "inclusion_loop fn sn result [] = Some (sn, result)"
| "inclusion_loop fn sn result (sibling # path) =
     (if sn = 0 then None
      else
        let result' = (if odd fn \<or> fn = sn then MerkleNodeHash sibling result else MerkleNodeHash result sibling);
            (fn', sn') = advance fn sn
        in inclusion_loop fn' sn' result' path)"

definition VerifyInclusion :: "Hash \<Rightarrow> Hash \<Rightarrow> InclusionProof \<Rightarrow> bool" where
  "VerifyInclusion leaf root proof \<longleftrightarrow>
     \<not> (ip_TreeSize proof = 0 \<or> ip_TreeSize proof > MaxJSONSafeSequence \<or> ip_LeafIndex proof \<ge> ip_TreeSize proof \<or>
        length (ip_Path proof) > MaxProofNodes) \<and>
     (case inclusion_loop (ip_LeafIndex proof) (ip_TreeSize proof - 1) leaf (ip_Path proof) of
        None \<Rightarrow> False
      | Some (sn, result) \<Rightarrow> sn = 0 \<and> result = root)"

fun consistency_loop :: "nat \<Rightarrow> nat \<Rightarrow> Hash \<Rightarrow> Hash \<Rightarrow> Hash list \<Rightarrow> (nat \<times> Hash \<times> Hash) option" where
  "consistency_loop fn sn first second [] = Some (sn, first, second)"
| "consistency_loop fn sn first second (node # path) =
     (if sn = 0 then None
      else
        let (first', second') = (if odd fn \<or> fn = sn then (MerkleNodeHash node first, MerkleNodeHash node second)
              else (first, MerkleNodeHash second node));
            (fn', sn') = advance fn sn
        in consistency_loop fn' sn' first' second' path)"

definition VerifyConsistency :: "Hash \<Rightarrow> Hash \<Rightarrow> ConsistencyProof \<Rightarrow> bool" where
  "VerifyConsistency firstRoot secondRoot proof \<longleftrightarrow>
     (if cp_FirstSize proof > cp_SecondSize proof \<or> cp_SecondSize proof > MaxJSONSafeSequence \<or>
         length (cp_Path proof) > MaxProofNodes
      then False
      else if cp_FirstSize proof = 0 then length (cp_Path proof) = 0 \<and> firstRoot = EmptyMerkleRoot
      else if cp_FirstSize proof = cp_SecondSize proof then length (cp_Path proof) = 0 \<and> firstRoot = secondRoot
      else if length (cp_Path proof) = 0 then False
      else
        let path = (if cp_FirstSize proof AND (cp_FirstSize proof - 1) = 0 then firstRoot # cp_Path proof else cp_Path proof);
            (fn, sn) = shift_odd (cp_FirstSize proof - 1) (cp_SecondSize proof - 1)
        in case consistency_loop fn sn (hd path) (hd path) (tl path) of
             None \<Rightarrow> False
           | Some (sn', first, second) \<Rightarrow> sn' = 0 \<and> first = firstRoot \<and> second = secondRoot)"

section \<open>The positions of a proof's nodes\<close>

text \<open>
  The rounds of both verification loops move the positions in the same way. \<open>moves fn sn n\<close> is what \<open>n\<close> rounds
  do: for each whether the node is hashed on the left, and the positions they end in.
\<close>

fun moves :: "nat \<Rightarrow> nat \<Rightarrow> nat \<Rightarrow> (bool list \<times> nat \<times> nat) option" where
  "moves fn sn 0 = Some ([], fn, sn)"
| "moves fn sn (Suc n) =
     (if sn = 0 then None
      else case moves (fst (advance fn sn)) (snd (advance fn sn)) n of
        None \<Rightarrow> None
      | Some (bs, p) \<Rightarrow> Some ((odd fn \<or> fn = sn) # bs, p))"

lemma moves_length: "moves fn sn n = Some (bs, p) \<Longrightarrow> length bs = n"
  by (induction n arbitrary: fn sn bs) (auto split: if_splits option.splits)

lemma moves_append:
  "moves fn sn m = Some (bs, f, s) \<Longrightarrow> moves f s n = Some (cs, p) \<Longrightarrow> moves fn sn (m + n) = Some (bs @ cs, p)"
  by (induction m arbitrary: fn sn bs) (auto split: if_splits option.splits)

definition join_incl :: "bool list \<Rightarrow> Hash list \<Rightarrow> Hash \<Rightarrow> Hash" where
  "join_incl bs path r = foldl (\<lambda>r (b, h). if b then MerkleNodeHash h r else MerkleNodeHash r h) r (zip bs path)"

definition join_first :: "bool list \<Rightarrow> Hash list \<Rightarrow> Hash \<Rightarrow> Hash" where
  "join_first bs path r = foldl (\<lambda>r (b, h). if b then MerkleNodeHash h r else r) r (zip bs path)"

lemma inclusion_loop_moves:
  "inclusion_loop fn sn r path = map_option (\<lambda>(bs, f, s). (s, join_incl bs path r)) (moves fn sn (length path))"
  by (induction path arbitrary: fn sn r) (auto simp: join_incl_def Let_def split: prod.splits option.splits)

lemma consistency_loop_moves:
  "consistency_loop fn sn a b path =
    map_option (\<lambda>(bs, f, s). (s, join_first bs path a, join_incl bs path b)) (moves fn sn (length path))"
  by (induction path arbitrary: fn sn a b) (auto simp: join_incl_def join_first_def Let_def split: prod.splits option.splits)

lemma advance_half: "odd fn \<or> fn \<noteq> sn \<Longrightarrow> advance fn sn = (fn div 2, sn div 2)"
  by (auto simp: advance_def)

text \<open>Inside a full left subtree of \<open>2 ^ j\<close> leaves the positions move as in that tree alone.\<close>

lemma moves_left:
  "i < 2 ^ j \<Longrightarrow> moves i (2 ^ j - 1) n = Some (bs, f, 0) \<Longrightarrow> 2 ^ j \<le> s \<Longrightarrow> moves i s n = Some (bs, 0, s div 2 ^ j)"
proof (induction n arbitrary: i j s bs)
  case 0
  then have "(2 :: nat) ^ j \<le> 1" by simp
  then have "j = 0" using one_less_power [of "2 :: nat" j] by (meson gr0I le_less_trans less_irrefl one_less_numeral_iff semiring_norm(76))
  with 0 show ?case by simp
next
  case (Suc n)
  obtain d where d: "j = Suc d" using Suc.prems(2) by (cases j) auto
  have ne: "i \<noteq> s" "0 < s" using Suc.prems by auto
  have full: "odd (2 ^ j - 1 :: nat)" "(2 ^ j - 1) div 2 = (2 ^ d - 1 :: nat)" using d by (auto simp: algebra_simps)
  have flag: "(odd i \<or> i = 2 ^ j - 1) \<longleftrightarrow> odd i" using full(1) by auto
  have "advance i (2 ^ j - 1) = (i div 2, 2 ^ d - 1)" using full advance_half by (metis flag)
  with Suc.prems(2) flag obtain cs where cs: "moves (i div 2) (2 ^ d - 1) n = Some (cs, f, 0)" "bs = odd i # cs"
    by (auto split: if_splits option.splits)
  have "i div 2 < 2 ^ d" "2 ^ d \<le> s div 2" using Suc.prems(1,3) d by auto
  from Suc.IH [OF this(1) cs(1) this(2)] have "moves (i div 2) (s div 2) n = Some (cs, 0, s div 2 ^ j)"
    using d by (simp add: div_mult2_eq)
  with cs(2) ne show ?case using advance_half [of i s] by simp
qed

text \<open>Inside a right subtree the positions move as in that tree alone, with the bit of the split above them.\<close>

lemma shift_even_right:
  "0 < i \<Longrightarrow> i < 2 ^ j \<Longrightarrow> \<exists>t < j. shift_even i i = (i div 2 ^ t, i div 2 ^ t) \<and> odd (i div 2 ^ t) \<and>
     shift_even (2 ^ j + i) (2 ^ j + i) = (2 ^ (j - t) + i div 2 ^ t, 2 ^ (j - t) + i div 2 ^ t)"
proof (induction i arbitrary: j rule: less_induct)
  case (less i)
  obtain d where d: "j = Suc d" using less.prems by (cases j) auto
  show ?case
  proof (cases "odd i")
    case True
    then show ?thesis using less.prems d by (intro exI [of _ 0]) (simp add: shift_even.simps)
  next
    case False
    then have "i div 2 < i" "0 < i div 2" "i div 2 < 2 ^ d" using less.prems d by auto
    from less.IH [OF this] obtain t where t: "t < d" "shift_even (i div 2) (i div 2) = (i div 2 div 2 ^ t, i div 2 div 2 ^ t)"
        "odd (i div 2 div 2 ^ t)" "shift_even (2 ^ d + i div 2) (2 ^ d + i div 2) = (2 ^ (d - t) + i div 2 div 2 ^ t, 2 ^ (d - t) + i div 2 div 2 ^ t)"
      by blast
    have "shift_even i i = shift_even (i div 2) (i div 2)" using False less.prems by (subst shift_even.simps) simp
    moreover have "shift_even (2 ^ j + i) (2 ^ j + i) = shift_even (2 ^ d + i div 2) (2 ^ d + i div 2)"
      using False less.prems d by (subst shift_even.simps) simp
    ultimately show ?thesis using t d by (intro exI [of _ "Suc t"]) (simp add: div_mult2_eq)
  qed
qed

lemma moves_right:
  "i \<le> s \<Longrightarrow> s < 2 ^ j \<Longrightarrow> moves i s n = Some (bs, f, 0) \<Longrightarrow> \<exists>t. moves (2 ^ j + i) (2 ^ j + s) n = Some (bs, 2 ^ t, 2 ^ t)"
proof (induction n arbitrary: i s j bs)
  case 0
  then show ?case by auto
next
  case (Suc n)
  then have s: "0 < s" by (auto split: if_splits)
  with Suc.prems(2) obtain d where d: "j = Suc d" by (cases j) auto
  obtain cs where cs: "moves (fst (advance i s)) (snd (advance i s)) n = Some (cs, f, 0)" "bs = (odd i \<or> i = s) # cs"
    using Suc.prems(3) by (auto split: if_splits option.splits)
  have flag: "(odd (2 ^ j + i) \<or> 2 ^ j + i = 2 ^ j + s) \<longleftrightarrow> (odd i \<or> i = s)" using d by simp
  have "\<exists>t a b. a \<le> b \<and> b < 2 ^ t \<and> advance i s = (a, b) \<and> advance (2 ^ j + i) (2 ^ j + s) = (2 ^ t + a, 2 ^ t + b)"
  proof (cases "odd i \<or> i \<noteq> s")
    case True
    then have "advance i s = (i div 2, s div 2)" "advance (2 ^ j + i) (2 ^ j + s) = (2 ^ d + i div 2, 2 ^ d + s div 2)"
      using advance_half [of i s] advance_half [of "2 ^ j + i" "2 ^ j + s"] d by auto
    moreover have "i div 2 \<le> s div 2" "s div 2 < 2 ^ d" using Suc.prems(1,2) d by (auto intro: div_le_mono)
    ultimately show ?thesis by blast
  next
    case False
    then have e: "even i" "i = s" by auto
    obtain t where t: "t < j" "shift_even s s = (s div 2 ^ t, s div 2 ^ t)"
        "shift_even (2 ^ j + s) (2 ^ j + s) = (2 ^ (j - t) + s div 2 ^ t, 2 ^ (j - t) + s div 2 ^ t)"
      using shift_even_right [OF s Suc.prems(2)] by blast
    obtain c where c: "j - t = Suc c" using t(1) by (metis Suc_diff_Suc)
    have "s div 2 ^ t < 2 ^ (j - t)" using Suc.prems(2) t(1)
      by (metis less_mult_imp_div_less mult.commute less_imp_le_nat power_add le_add_diff_inverse)
    then have "s div 2 ^ t div 2 < 2 ^ c" using c by simp
    moreover have "advance i s = (s div 2 ^ t div 2, s div 2 ^ t div 2)"
      "advance (2 ^ j + i) (2 ^ j + s) = (2 ^ c + s div 2 ^ t div 2, 2 ^ c + s div 2 ^ t div 2)"
      using e t c d by (simp_all add: advance_def)
    ultimately show ?thesis by blast
  qed
  then obtain t a b where ab: "a \<le> b" "b < 2 ^ t" "advance i s = (a, b)" "advance (2 ^ j + i) (2 ^ j + s) = (2 ^ t + a, 2 ^ t + b)"
    by blast
  from Suc.IH [OF ab(1,2)] cs(1) ab(3) obtain u where "moves (2 ^ t + a) (2 ^ t + b) n = Some (cs, 2 ^ u, 2 ^ u)" by auto
  then show ?case using ab(4) flag cs(2) by simp
qed

lemma shift_even_power: "shift_even (2 ^ t) (2 ^ t) = (1, 1)"
proof (induction t)
  case (Suc t)
  then show ?case by (subst shift_even.simps) simp
qed (simp add: shift_even.simps)

lemma moves_top_right: "moves (2 ^ t) (2 ^ t) 1 = Some ([True], 0, 0)"
  by (cases t) (simp_all add: advance_def shift_even_power [of "Suc _", simplified])

lemma moves_top_left: "moves 0 1 1 = Some ([False], 0, 0)"
  by (simp add: advance_def)


section \<open>Trees\<close>

lemma MerkleRoot_single [simp]: "MerkleRoot [x] = x"
  by (subst MerkleRoot.simps) simp

lemma split_append:
  assumes "length l = 2 ^ j" "r \<noteq> []" "length r \<le> 2 ^ j"
  shows "largestPowerLessThan (length (l @ r)) = length l" "1 < length (l @ r)"
proof -
  have "0 < length r" "1 \<le> length l" using assms by simp_all
  then show "1 < length (l @ r)" unfolding length_append by linarith
  show "largestPowerLessThan (length (l @ r)) = length l"
    using split_point_unique [of j "length (l @ r)"] assms \<open>0 < length r\<close> by simp
qed

lemma MerkleRoot_append:
  assumes "length l = 2 ^ j" "r \<noteq> []" "length r \<le> 2 ^ j"
  shows "MerkleRoot (l @ r) = MerkleNodeHash (MerkleRoot l) (MerkleRoot r)"
  using split_append [OF assms] assms(2) by (subst MerkleRoot.simps) simp

text \<open>Every tree is a leaf or a full left subtree with a right one that is not larger.\<close>

lemma tree_induct [consumes 1, case_names Leaf Node]:
  assumes "leaves \<noteq> []" and leaf: "\<And>x. P [x]"
    and node: "\<And>l r j. length l = 2 ^ j \<Longrightarrow> r \<noteq> [] \<Longrightarrow> length r \<le> 2 ^ j \<Longrightarrow> P l \<Longrightarrow> P r \<Longrightarrow> P (l @ r)"
  shows "P leaves"
  using assms(1)
proof (induction "length leaves" arbitrary: leaves rule: less_induct)
  case less
  show ?case
  proof (cases "length leaves \<le> 1")
    case True
    then obtain x where "leaves = [x]" using less.prems by (cases leaves) auto
    with leaf show ?thesis by simp
  next
    case False
    then obtain j where j: "2 ^ j < length leaves" "length leaves \<le> 2 * 2 ^ j" using split_point [of "length leaves"] by auto
    then have "take (2 ^ j) leaves \<noteq> []" "drop (2 ^ j) leaves \<noteq> []" by auto
    with less.hyps [of "take (2 ^ j) leaves"] less.hyps [of "drop (2 ^ j) leaves"] j node [of "take (2 ^ j) leaves" j "drop (2 ^ j) leaves"]
    show ?thesis by simp
  qed
qed

section \<open>Inclusion\<close>

lemma inclusion_path_leaf [simp]: "buildInclusionPath [x] i path = path"
  by (subst buildInclusionPath.simps) simp

lemma inclusion_path_append:
  assumes "length l = 2 ^ j" "r \<noteq> []" "length r \<le> 2 ^ j"
  shows "buildInclusionPath (l @ r) i path = (if i < length l then buildInclusionPath l i path @ [MerkleRoot r]
    else buildInclusionPath r (i - length l) path @ [MerkleRoot l])"
  using split_append [OF assms] by (subst buildInclusionPath.simps) (simp add: Let_def)

lemma join_incl_snoc: "length bs = length path \<Longrightarrow> join_incl (bs @ [b]) (path @ [h]) r =
    (if b then MerkleNodeHash h (join_incl bs path r) else MerkleNodeHash (join_incl bs path r) h)"
  by (simp add: join_incl_def)

lemma split_position: "2 ^ j \<le> s \<Longrightarrow> s < 2 * 2 ^ j \<Longrightarrow> s div 2 ^ j = (1 :: nat)"
  by (auto simp: div_nat_eqI)

lemma inclusion_moves:
  "leaves \<noteq> [] \<Longrightarrow> i < length leaves \<Longrightarrow> \<exists>bs. moves i (length leaves - 1) (length (buildInclusionPath leaves i [])) = Some (bs, 0, 0) \<and>
     join_incl bs (buildInclusionPath leaves i []) (leaves ! i) = MerkleRoot leaves"
proof (induction leaves arbitrary: i rule: tree_induct)
  case (Leaf x)
  then show ?case by (simp add: join_incl_def)
next
  case (Node l r j)
  note split = inclusion_path_append [OF Node.hyps] MerkleRoot_append [OF Node.hyps]
  define s where "s = length (l @ r) - 1"
  have r: "0 < length r" using Node.hyps by simp
  have s: "2 ^ j \<le> s" "s < 2 * 2 ^ j" "s = 2 ^ j + (length r - 1)" using Node.hyps(1,3) r unfolding s_def length_append by linarith+
  show ?case
  proof (cases "i < length l")
    case True
    with Node.IH(1) obtain bs where bs: "moves i (2 ^ j - 1) (length (buildInclusionPath l i [])) = Some (bs, 0, 0)"
        "join_incl bs (buildInclusionPath l i []) (l ! i) = MerkleRoot l" by (auto simp: Node.hyps(1))
    have "moves i s (length (buildInclusionPath l i [])) = Some (bs, 0, 1)"
      using moves_left [OF _ bs(1) s(1)] True Node.hyps(1) split_position [OF s(1,2)] by simp
    from moves_append [OF this moves_top_left] show ?thesis
      unfolding split s_def [symmetric] using True bs moves_length [OF bs(1)]
      by (intro exI [of _ "bs @ [False]"]) (simp add: join_incl_snoc nth_append del: moves.simps)
  next
    case False
    define i' where "i' = i - length l"
    have i: "i = 2 ^ j + i'" "i' < length r" using False Node.prems Node.hyps(1) by (auto simp: i'_def)
    with Node.IH(2) obtain bs where bs: "moves i' (length r - 1) (length (buildInclusionPath r i' [])) = Some (bs, 0, 0)"
        "join_incl bs (buildInclusionPath r i' []) (r ! i') = MerkleRoot r" by auto
    have "i' \<le> length r - 1" "length r - 1 < 2 ^ j" using i r Node.hyps(3) by auto
    from moves_right [OF this bs(1)] obtain t where "moves i s (length (buildInclusionPath r i' [])) = Some (bs, 2 ^ t, 2 ^ t)"
      using i s(3) by auto
    from moves_append [OF this moves_top_right] show ?thesis
      unfolding split s_def [symmetric] using False bs moves_length [OF bs(1)]
      by (intro exI [of _ "bs @ [True]"]) (simp add: join_incl_snoc nth_append i'_def [symmetric] del: moves.simps)
  qed
qed

lemma inclusion_path_length:
  "leaves \<noteq> [] \<Longrightarrow> i < length leaves \<Longrightarrow> length leaves \<le> 2 ^ d \<Longrightarrow> length (buildInclusionPath leaves i []) \<le> d"
proof (induction leaves arbitrary: i d rule: tree_induct)
  case (Node l r j)
  have "0 < length r" using Node.hyps by simp
  then have "(2 :: nat) ^ j < 2 ^ d" using Node.hyps(1) Node.prems(2) unfolding length_append by linarith
  then have "j < d" by simp
  moreover have "i - length l < length r" if "\<not> i < length l" using that Node.prems(1) unfolding length_append by linarith
  ultimately show ?case using Node.IH(1) [of i j] Node.IH(2) [of "i - length l" j] Node.hyps
    by (auto simp: inclusion_path_append [OF Node.hyps])
qed simp

lemma build_verifies:
  assumes "i < length leaves" "length leaves \<le> MaxJSONSafeSequence"
  shows "inclusion_loop i (length leaves - 1) (leaves ! i) (buildInclusionPath leaves i []) = Some (0, MerkleRoot leaves)"
    "length (buildInclusionPath leaves i []) \<le> MaxProofNodes"
proof -
  have ne: "leaves \<noteq> []" using assms by auto
  show "inclusion_loop i (length leaves - 1) (leaves ! i) (buildInclusionPath leaves i []) = Some (0, MerkleRoot leaves)"
    using inclusion_moves [OF ne assms(1)] by (auto simp: inclusion_loop_moves)
  have "length leaves \<le> 2 ^ 53" using assms(2) by (simp add: MaxJSONSafeSequence_def)
  from inclusion_path_length [OF ne assms(1) this] show "length (buildInclusionPath leaves i []) \<le> MaxProofNodes"
    by (simp add: MaxProofNodes_def)
qed

text \<open>
  C31: every built inclusion proof verifies: for every leaf of a tree of allowed size a proof is built, and the
  iterative verification accepts it for that leaf and the recursively computed root, within the bound on proof nodes.
\<close>

theorem inclusion_complete:
  assumes "i < length leaves" "length leaves \<le> MaxJSONSafeSequence"
  shows "\<exists>proof. BuildInclusionProof leaves i = Some proof \<and> VerifyInclusion (leaves ! i) (MerkleRoot leaves) proof"
proof -
  have "leaves \<noteq> []" using assms by auto
  then show ?thesis using assms build_verifies [OF assms] by (auto simp: BuildInclusionProof_def VerifyInclusion_def)
qed

theorem inclusion_complete_witness:
  "\<exists>proof. BuildInclusionProof [[1], [2], [3]] 2 = Some proof \<and> VerifyInclusion [3] (MerkleRoot [[1], [2], [3]]) proof"
  using inclusion_complete [of 2 "[[1], [2], [3]]"] by (simp add: MaxJSONSafeSequence_def)

text \<open>The pairs of hashes a verification feeds to the node hash.\<close>

fun inclusion_inputs :: "nat \<Rightarrow> nat \<Rightarrow> Hash \<Rightarrow> Hash list \<Rightarrow> (Hash \<times> Hash) list" where
  "inclusion_inputs fn sn result [] = []"
| "inclusion_inputs fn sn result (sibling # path) =
     (let (l, r) = (if odd fn \<or> fn = sn then (sibling, result) else (result, sibling)); (fn', sn') = advance fn sn
      in (l, r) # inclusion_inputs fn' sn' (MerkleNodeHash l r) path)"

lemma inclusion_loop_injective:
  "inclusion_loop fn sn r p = Some (0, x) \<Longrightarrow> inclusion_loop fn sn r' p' = Some (0, x) \<Longrightarrow>
   inj_on (\<lambda>(l, r). MerkleNodeHash l r) (set (inclusion_inputs fn sn r p) \<union> set (inclusion_inputs fn sn r' p')) \<Longrightarrow> r = r'"
proof (induction p arbitrary: fn sn r r' p')
  case Nil
  then show ?case by (cases p') (auto split: if_splits)
next
  case (Cons h p)
  then obtain h' q where p': "p' = h' # q" by (cases p') (auto split: if_splits)
  obtain f s where fs: "advance fn sn = (f, s)" by (cases "advance fn sn")
  define a where "a = (if odd fn \<or> fn = sn then (h, r) else (r, h))"
  define b where "b = (if odd fn \<or> fn = sn then (h', r') else (r', h'))"
  let ?H = "\<lambda>(l, r). MerkleNodeHash l r"
  have in_a: "inclusion_inputs fn sn r (h # p) = a # inclusion_inputs f s (?H a) p"
    and in_b: "inclusion_inputs fn sn r' (h' # q) = b # inclusion_inputs f s (?H b) q"
    by (auto simp: fs a_def b_def)
  have "inclusion_loop f s (?H a) p = Some (0, x)" "inclusion_loop f s (?H b) q = Some (0, x)"
    using Cons.prems(1,2) p' by (auto simp: fs a_def b_def Let_def split: if_splits)
  moreover have "inj_on ?H (set (inclusion_inputs f s (?H a) p) \<union> set (inclusion_inputs f s (?H b) q))"
    using Cons.prems(3) unfolding p' in_a in_b by (rule inj_on_subset) auto
  ultimately have "?H a = ?H b" by (rule Cons.IH)
  with Cons.prems(3) [unfolded p' in_a in_b] have "a = b" by (rule inj_onD) simp_all
  then show ?case by (auto simp: a_def b_def split: if_splits)
qed

text \<open>
  C32: a verified inclusion proof names the leaf. When a proof for a tree of this size verifies against the root
  of \<open>leaves\<close>, the leaf it was checked for is the one at that index, unless the node hash collides on two different pairs
  that this verification and the one of the honestly built proof compute.
\<close>

theorem inclusion_sound:
  assumes verified: "VerifyInclusion leaf (MerkleRoot leaves) proof" and size: "ip_TreeSize proof = length leaves"
    and collision_free: "inj_on (\<lambda>(l, r). MerkleNodeHash l r)
      (set (inclusion_inputs (ip_LeafIndex proof) (length leaves - 1) leaf (ip_Path proof)) \<union>
       set (inclusion_inputs (ip_LeafIndex proof) (length leaves - 1) (leaves ! ip_LeafIndex proof)
         (buildInclusionPath leaves (ip_LeafIndex proof) [])))"
  shows "leaf = leaves ! ip_LeafIndex proof"
proof -
  have "inclusion_loop (ip_LeafIndex proof) (length leaves - 1) leaf (ip_Path proof) = Some (0, MerkleRoot leaves)"
      "ip_LeafIndex proof < length leaves" "length leaves \<le> MaxJSONSafeSequence"
    using verified size by (auto simp: VerifyInclusion_def split: option.splits prod.splits)
  with inclusion_loop_injective [OF _ build_verifies(1) collision_free] show ?thesis by blast
qed

theorem inclusion_sound_witness:
  "VerifyInclusion [7] (MerkleRoot [[7], [8]]) \<lparr>ip_LeafIndex = 0, ip_TreeSize = 2, ip_Path = [[8]]\<rparr> \<and> [7] = [[7 :: byte], [8]] ! 0"
proof -
  have lp: "largestPowerLessThan 2 = 1" by (simp add: largestPowerLessThan_def Len64.simps)
  have root: "MerkleRoot [[7], [8]] = MerkleNodeHash [7] [8]" by (subst MerkleRoot.simps) (simp add: lp numeral_2_eq_2 [symmetric])
  have v: "VerifyInclusion [7] (MerkleRoot [[7], [8]]) \<lparr>ip_LeafIndex = 0, ip_TreeSize = 2, ip_Path = [[8]]\<rparr>"
    by (simp add: VerifyInclusion_def root advance_def MaxJSONSafeSequence_def MaxProofNodes_def)
  have p: "buildInclusionPath [[7], [8]] 0 [] = [[8]]" by (subst buildInclusionPath.simps) (simp add: lp numeral_2_eq_2 [symmetric])
  show ?thesis using inclusion_sound [OF v] v by (simp add: p)
qed


section \<open>Consistency\<close>

lemma power_of_two_test: "0 < m \<Longrightarrow> m AND (m - 1) = 0 \<longleftrightarrow> (\<exists>j. m = (2 :: nat) ^ j)"
proof (induction m rule: less_induct)
  case (less m)
  show ?case
  proof (cases "even m")
    case True
    then obtain a where a: "m = 2 * a" by blast
    with less.prems have "0 < a" "a < m" by auto
    have "(2 * a - 1) div 2 = a - 1" using \<open>0 < a\<close> by (cases a) auto
    then have "m AND (m - 1) = 2 * (a AND (a - 1))" using a by (subst and_rec) simp
    also have "\<dots> = 0 \<longleftrightarrow> (\<exists>j. a = 2 ^ j)" using less.IH [OF \<open>a < m\<close> \<open>0 < a\<close>] by simp
    also have "\<dots> \<longleftrightarrow> (\<exists>j. m = 2 ^ j)"
    proof
      assume "\<exists>j. m = 2 ^ j"
      then obtain j where "m = 2 ^ j" by blast
      with a show "\<exists>j. a = 2 ^ j" by (cases j) auto
    qed (use a in \<open>auto intro: exI [of _ "Suc _"]\<close>)
    finally show ?thesis .
  next
    case False
    then obtain a where a: "m = 2 * a + 1" by (blast elim: oddE)
    then have "m AND (m - 1) = 2 * a" by (subst and_rec) simp
    moreover have "(\<exists>j. m = 2 ^ j) \<longleftrightarrow> a = 0"
    proof
      assume "\<exists>j. m = 2 ^ j"
      then obtain j where "m = 2 ^ j" by blast
      with False have "j = 0" by (cases j) auto
      with \<open>m = 2 ^ j\<close> a show "a = 0" by simp
    qed (use a in \<open>auto intro: exI [of _ 0]\<close>)
    ultimately show ?thesis by simp
  qed
qed

lemma power_between: "(2 :: nat) ^ j < m \<Longrightarrow> m < 2 * 2 ^ j \<Longrightarrow> m \<noteq> 2 ^ i"
proof
  assume "(2 :: nat) ^ j < m" "m < 2 * 2 ^ j" "m = 2 ^ i"
  then have "(2 :: nat) ^ j < 2 ^ i" "(2 :: nat) ^ i < 2 ^ Suc j" by simp_all
  then have "j < i" "i < Suc j" by (simp_all only: power_strict_increasing_iff one_less_numeral_iff semiring_norm)
  then show False by simp
qed

lemma consistency_path_leaf: "buildConsistencyPath [x] 1 c path = (if c then path else path @ [x])"
  by (subst buildConsistencyPath.simps) simp

lemma consistency_path_full: "m = length leaves \<Longrightarrow> buildConsistencyPath leaves m c path = (if c then path else path @ [MerkleRoot leaves])"
  by (subst buildConsistencyPath.simps) simp

lemma consistency_path_append:
  assumes "length l = 2 ^ j" "r \<noteq> []" "length r \<le> 2 ^ j" "m \<noteq> length (l @ r)"
  shows "buildConsistencyPath (l @ r) m c path = (if m \<le> length l then buildConsistencyPath l m c path @ [MerkleRoot r]
    else buildConsistencyPath r (m - length l) False path @ [MerkleRoot l])"
  using split_append [OF assms(1-3)] assms(4) by (subst buildConsistencyPath.simps) (simp add: Let_def)

text \<open>
  The path without the subtree the verifier knows is, with the first root in front where the first size is a power
  of two, the path that includes it.
\<close>

lemma consistency_path_complete:
  "leaves \<noteq> [] \<Longrightarrow> 0 < m \<Longrightarrow> m \<le> length leaves \<Longrightarrow> m < length leaves \<or> (\<exists>j. length leaves = 2 ^ j) \<Longrightarrow>
   buildConsistencyPath leaves m False [] = (if \<exists>j. m = 2 ^ j then MerkleRoot (take m leaves) # buildConsistencyPath leaves m True []
     else buildConsistencyPath leaves m True [])"
proof (induction leaves arbitrary: m rule: tree_induct)
  case (Leaf x)
  then have "m = 1" "m = 2 ^ 0" by simp_all
  then show ?case using consistency_path_leaf by (metis append_Nil take_all_iff length_Cons list.size(3) One_nat_def order_refl MerkleRoot_single)
next
  case (Node l r j)
  show ?case
  proof (cases "m = length (l @ r)")
    case True
    then have "\<exists>j. m = 2 ^ j" using Node.prems(3) by auto
    then show ?thesis using True by (simp add: consistency_path_full)
  next
    case False
    note split = consistency_path_append [OF Node.hyps False]
    show ?thesis
    proof (cases "m \<le> length l")
      case True
      then show ?thesis using Node.IH(1) [OF Node.prems(1) True] Node.hyps(1) by (auto simp: split)
    next
      case right: False
      then have "2 ^ j < m" "m < 2 * 2 ^ j" using False Node.prems(2) Node.hyps by auto
      then have "\<nexists>i. m = 2 ^ i" using power_between by blast
      then show ?thesis using right by (simp add: split)
    qed
  qed
qed

lemma shift_odd_left:
  "a < 2 ^ j \<Longrightarrow> 2 ^ j \<le> n \<Longrightarrow> \<exists>i f s. shift_odd a (2 ^ j - 1) = (f, 2 ^ i - 1) \<and> shift_odd a n = (f, s) \<and> f < 2 ^ i \<and> 2 ^ i \<le> s \<and> s div 2 ^ i = n div 2 ^ j"
proof (induction a arbitrary: j n rule: less_induct)
  case (less a)
  show ?case
  proof (cases "odd a")
    case False
    then have "shift_odd a (2 ^ j - 1) = (a, 2 ^ j - 1)" "shift_odd a n = (a, n)" by (simp_all add: shift_odd.simps)
    with less.prems show ?thesis by blast
  next
    case True
    then obtain d where d: "j = Suc d" using less.prems(1) by (cases j) auto
    have "a div 2 < a" "a div 2 < 2 ^ d" "2 ^ d \<le> n div 2" using True less.prems d by (auto elim: oddE)
    from less.IH [OF this] obtain i f s where "shift_odd (a div 2) (2 ^ d - 1) = (f, 2 ^ i - 1)" "shift_odd (a div 2) (n div 2) = (f, s)"
        "f < 2 ^ i" "2 ^ i \<le> s" "s div 2 ^ i = n div 2 div 2 ^ d" by blast
    moreover have "(2 ^ j - 1) div 2 = (2 ^ d - 1 :: nat)" using d by (auto simp: algebra_simps)
    ultimately have "shift_odd a (2 ^ j - 1) = (f, 2 ^ i - 1) \<and> shift_odd a n = (f, s) \<and> f < 2 ^ i \<and> 2 ^ i \<le> s \<and> s div 2 ^ i = n div 2 ^ j"
      using True d by (simp add: shift_odd.simps [of a] div_mult2_eq)
    then show ?thesis by blast
  qed
qed

lemma shift_odd_right:
  "a < s \<Longrightarrow> s < 2 ^ j \<Longrightarrow> \<exists>t f u. shift_odd a s = (f, u) \<and> shift_odd (2 ^ j + a) (2 ^ j + s) = (2 ^ t + f, 2 ^ t + u) \<and> f \<le> u \<and> u < 2 ^ t"
proof (induction a arbitrary: j s rule: less_induct)
  case (less a)
  obtain d where d: "j = Suc d" using less.prems by (cases j) auto
  show ?case
  proof (cases "odd a")
    case False
    then have "shift_odd a s = (a, s)" "shift_odd (2 ^ j + a) (2 ^ j + s) = (2 ^ j + a, 2 ^ j + s)" using d by (simp_all add: shift_odd.simps)
    with less.prems show ?thesis by (meson less_imp_le_nat)
  next
    case True
    have "a div 2 < a" "a div 2 < s div 2" "s div 2 < 2 ^ d" using True less.prems d by (auto elim: oddE)
    from less.IH [OF this] obtain t f u where "shift_odd (a div 2) (s div 2) = (f, u)"
        "shift_odd (2 ^ d + a div 2) (2 ^ d + s div 2) = (2 ^ t + f, 2 ^ t + u)" "f \<le> u" "u < 2 ^ t" by blast
    moreover have "shift_odd (2 ^ j + a) (2 ^ j + s) = shift_odd (2 ^ d + a div 2) (2 ^ d + s div 2)"
      using True d by (subst shift_odd.simps) simp
    ultimately have "shift_odd a s = (f, u) \<and> shift_odd (2 ^ j + a) (2 ^ j + s) = (2 ^ t + f, 2 ^ t + u) \<and> f \<le> u \<and> u < 2 ^ t"
      using True by (simp add: shift_odd.simps [of a])
    then show ?thesis by blast
  qed
qed

lemma shift_odd_full: "shift_odd (2 ^ j - 1) (2 ^ j - 1) = (0, 0)"
proof (induction j)
  case (Suc j)
  have "odd (2 ^ Suc j - 1 :: nat)" "(2 ^ Suc j - 1) div 2 = (2 ^ j - 1 :: nat)" by (auto simp: algebra_simps)
  with Suc show ?case by (subst shift_odd.simps) simp
qed (simp add: shift_odd.simps)

lemma join_first_snoc: "length bs = length path \<Longrightarrow> join_first (bs @ [b]) (path @ [h]) r =
    (if b then MerkleNodeHash h (join_first bs path r) else join_first bs path r)"
  by (simp add: join_first_def)


lemma consistency_moves:
  "leaves \<noteq> [] \<Longrightarrow> 0 < m \<Longrightarrow> m \<le> length leaves \<Longrightarrow> m < length leaves \<or> (\<exists>j. length leaves = 2 ^ j) \<Longrightarrow>
   \<exists>c rest bs f s. buildConsistencyPath leaves m False [] = c # rest \<and> shift_odd (m - 1) (length leaves - 1) = (f, s) \<and>
     moves f s (length rest) = Some (bs, 0, 0) \<and> join_first bs rest c = MerkleRoot (take m leaves) \<and> join_incl bs rest c = MerkleRoot leaves"
proof (induction leaves arbitrary: m rule: tree_induct)
  case (Leaf x)
  then have "m = 1" by simp
  then show ?case using consistency_path_leaf [of x False "[]"]
    by (simp add: shift_odd.simps join_first_def join_incl_def)
next
  case (Node l r j)
  define n where "n = length (l @ r) - 1"
  have r: "0 < length r" using Node.hyps by simp
  have n: "2 ^ j \<le> n" "n < 2 * 2 ^ j" "n = 2 ^ j + (length r - 1)" using Node.hyps(1,3) r unfolding n_def length_append by linarith+
  show ?case
  proof (cases "m = length (l @ r)")
    case True
    then obtain i where "length (l @ r) = 2 ^ i" using Node.prems(3) by auto
    then show ?thesis using shift_odd_full [of i] True
      by (simp add: consistency_path_full join_first_def join_incl_def)
  next
    case False
    note split = consistency_path_append [OF Node.hyps False] MerkleRoot_append [OF Node.hyps]
    show ?thesis
    proof (cases "m \<le> length l")
      case True
      with Node.IH(1) [OF Node.prems(1) True] Node.hyps(1) obtain c rest bs f s where
        l: "buildConsistencyPath l m False [] = c # rest" "shift_odd (m - 1) (2 ^ j - 1) = (f, s)"
          "moves f s (length rest) = Some (bs, 0, 0)" "join_first bs rest c = MerkleRoot (take m l)" "join_incl bs rest c = MerkleRoot l" by auto
      have "m - 1 < 2 ^ j" using True Node.prems(1) Node.hyps(1) by simp
      from shift_odd_left [OF this n(1)] l(2) obtain i u where i: "s = 2 ^ i - 1" "shift_odd (m - 1) n = (f, u)" "f < 2 ^ i" "2 ^ i \<le> u"
          "u div 2 ^ i = n div 2 ^ j" by auto
      have "moves f u (length rest) = Some (bs, 0, 1)"
        using moves_left [OF i(3) _ i(4)] l(3) i(1,5) split_position [OF n(1,2)] by simp
      from moves_append [OF this moves_top_left] have
        "buildConsistencyPath (l @ r) m False [] = c # rest @ [MerkleRoot r] \<and> shift_odd (m - 1) n = (f, u) \<and>
         moves f u (length (rest @ [MerkleRoot r])) = Some (bs @ [False], 0, 0) \<and>
         join_first (bs @ [False]) (rest @ [MerkleRoot r]) c = MerkleRoot (take m (l @ r)) \<and>
         join_incl (bs @ [False]) (rest @ [MerkleRoot r]) c = MerkleRoot (l @ r)"
        unfolding split using True l i(2) moves_length [OF l(3)] by (simp add: join_first_snoc join_incl_snoc del: moves.simps)
      then show ?thesis unfolding n_def by blast
    next
      case right: False
      define m' where "m' = m - length l"
      have m: "m = 2 ^ j + m'" "0 < m'" "m' < length r" using right False Node.prems(2) Node.hyps(1) by (auto simp: m'_def)
      with Node.IH(2) [of m'] obtain c rest bs f s where
        t: "buildConsistencyPath r m' False [] = c # rest" "shift_odd (m' - 1) (length r - 1) = (f, s)"
          "moves f s (length rest) = Some (bs, 0, 0)" "join_first bs rest c = MerkleRoot (take m' r)" "join_incl bs rest c = MerkleRoot r" by auto
      have "m' - 1 < length r - 1" "length r - 1 < 2 ^ j" using m Node.hyps(3) by linarith+
      from shift_odd_right [OF this] t(2) m(1,2) n(3) obtain i where i: "shift_odd (m - 1) n = (2 ^ i + f, 2 ^ i + s)" "f \<le> s" "s < 2 ^ i" by auto
      from moves_right [OF i(2,3) t(3)] obtain u where "moves (2 ^ i + f) (2 ^ i + s) (length rest) = Some (bs, 2 ^ u, 2 ^ u)" by blast
      note run = moves_append [OF this moves_top_right]
      have "take m (l @ r) = l @ take m' r" using m Node.hyps(1) by simp
      moreover have "MerkleRoot (l @ take m' r) = MerkleNodeHash (MerkleRoot l) (MerkleRoot (take m' r))"
        using MerkleRoot_append [OF Node.hyps(1), of "take m' r"] m Node.hyps by auto
      ultimately have
        "buildConsistencyPath (l @ r) m False [] = c # rest @ [MerkleRoot l] \<and> shift_odd (m - 1) n = (2 ^ i + f, 2 ^ i + s) \<and>
         moves (2 ^ i + f) (2 ^ i + s) (length (rest @ [MerkleRoot l])) = Some (bs @ [True], 0, 0) \<and>
         join_first (bs @ [True]) (rest @ [MerkleRoot l]) c = MerkleRoot (take m (l @ r)) \<and>
         join_incl (bs @ [True]) (rest @ [MerkleRoot l]) c = MerkleRoot (l @ r)"
        unfolding split using run right t i(1) moves_length [OF t(3)]
        by (simp add: join_first_snoc join_incl_snoc m'_def [symmetric] del: moves.simps)
      then show ?thesis unfolding n_def by blast
    qed
  qed
qed

lemma consistency_path_length:
  "leaves \<noteq> [] \<Longrightarrow> m \<le> length leaves \<Longrightarrow> length leaves \<le> 2 ^ d \<Longrightarrow> length (buildConsistencyPath leaves m c []) \<le> Suc d"
proof (induction leaves arbitrary: m d c rule: tree_induct)
  case (Leaf x)
  then show ?case by (subst buildConsistencyPath.simps) simp
next
  case (Node l r j)
  have "0 < length r" using Node.hyps by simp
  then have "(2 :: nat) ^ j < 2 ^ d" using Node.hyps(1) Node.prems(2) unfolding length_append by linarith
  then have "j < d" by simp
  moreover have "m - length l \<le> length r" using Node.prems(1) unfolding length_append by linarith
  ultimately show ?case using Node.IH(1) [of m j c] Node.IH(2) [of "m - length l" j False] Node.hyps
    by (cases "m = length (l @ r)") (auto simp: consistency_path_full consistency_path_append [OF Node.hyps])
qed

lemma consistency_verifies:
  assumes "m \<le> length leaves" "length leaves \<le> MaxJSONSafeSequence"
  shows "\<exists>proof. BuildConsistencyProof leaves m = Some proof \<and> VerifyConsistency (MerkleRoot (take m leaves)) (MerkleRoot leaves) proof"
proof (cases "m = 0 \<or> m = length leaves")
  case True
  then show ?thesis using assms
    by (auto simp: BuildConsistencyProof_def VerifyConsistency_def Let_def MerkleRoot.simps)
next
  case False
  then have m: "leaves \<noteq> []" "0 < m" "m < length leaves" using assms by auto
  define path where "path = buildConsistencyPath leaves m True []"
  define whole where "whole = buildConsistencyPath leaves m False []"
  obtain c rest bs f s where w: "whole = c # rest" "shift_odd (m - 1) (length leaves - 1) = (f, s)" "moves f s (length rest) = Some (bs, 0, 0)"
      "join_first bs rest c = MerkleRoot (take m leaves)" "join_incl bs rest c = MerkleRoot leaves"
    using consistency_moves [of leaves m] m unfolding whole_def by auto
  have whole: "whole = (if m AND (m - 1) = 0 then MerkleRoot (take m leaves) # path else path)"
    using consistency_path_complete [of leaves m] m power_of_two_test [OF m(2)] by (simp add: whole_def path_def)
  have "path \<noteq> []" using m unfolding path_def
    by (subst buildConsistencyPath.simps) (auto simp: Let_def)
  moreover have "length path \<le> MaxProofNodes"
  proof -
    have "length leaves \<le> 2 ^ 53" using assms(2) by (simp add: MaxJSONSafeSequence_def)
    from consistency_path_length [OF m(1) _ this, of m True] show ?thesis using m by (simp add: path_def MaxProofNodes_def)
  qed
  ultimately have "VerifyConsistency (MerkleRoot (take m leaves)) (MerkleRoot leaves) \<lparr>cp_FirstSize = m, cp_SecondSize = length leaves, cp_Path = path\<rparr>"
    using m assms(2) w whole by (auto simp: VerifyConsistency_def consistency_loop_moves Let_def split: if_splits)
  then show ?thesis using m assms(2) by (auto simp: BuildConsistencyProof_def path_def Let_def)
qed

text \<open>
  C33: every built consistency proof verifies: for every prefix of a tree of allowed size a proof is built, and the
  iterative verification accepts it for the roots of the prefix and of the tree.
\<close>

theorem consistency_complete:
  assumes "m \<le> length leaves" "length leaves \<le> MaxJSONSafeSequence"
  shows "\<exists>proof. BuildConsistencyProof leaves m = Some proof \<and> VerifyConsistency (MerkleRoot (take m leaves)) (MerkleRoot leaves) proof"
  using assms by (rule consistency_verifies)

theorem consistency_complete_witness:
  "\<exists>proof. BuildConsistencyProof [[1], [2], [3]] 2 = Some proof \<and>
     VerifyConsistency (MerkleRoot [[1], [2]]) (MerkleRoot [[1], [2], [3]]) proof"
  using consistency_complete [of 2 "[[1], [2], [3]]"] by (simp add: MaxJSONSafeSequence_def)

end
