(* ===== verification/Base64.thy ===== *)
theory Base64
  imports Prelude
begin

text \<open>
  The part of Go's \<^verbatim>\<open>encoding/base64\<close> the program uses: \<^verbatim>\<open>RawURLEncoding\<close> (the URL alphabet, no padding), encoding and
  decoding. Decoding skips carriage returns and line feeds; \<^verbatim>\<open>Strict()\<close> decoding refuses trailing bits that are not zero and plain
  decoding drops them.
\<close>

definition b64_alphabet :: string where
  "b64_alphabet = ''ABCDEFGHIJKLMNOPQRSTUVWXYZabcdefghijklmnopqrstuvwxyz0123456789-_''"

definition b64_char :: "nat \<Rightarrow> char" where
  "b64_char n = b64_alphabet ! n"

fun index_of :: "char \<Rightarrow> string \<Rightarrow> nat option" where
  "index_of c [] = None"
| "index_of c (d # ds) = (if c = d then Some 0 else map_option Suc (index_of c ds))"

definition b64_value :: "char \<Rightarrow> nat option" where
  "b64_value c = index_of c b64_alphabet"

fun b64_sextets :: "bytes \<Rightarrow> nat list" where
  "b64_sextets [] = []"
| "b64_sextets [a] = [unat a div 4, unat a mod 4 * 16]"
| "b64_sextets [a, b] = [unat a div 4, unat a mod 4 * 16 + unat b div 16, unat b mod 16 * 4]"
| "b64_sextets (a # b # c # rest) =
     [unat a div 4, unat a mod 4 * 16 + unat b div 16, unat b mod 16 * 4 + unat c div 64, unat c mod 64] @ b64_sextets rest"

definition base64_encode :: "bytes \<Rightarrow> string" where
  "base64_encode bs = map b64_char (b64_sextets bs)"

fun b64_bytes :: "nat list \<Rightarrow> bytes option" where
  "b64_bytes [] = Some []"
| "b64_bytes [p] = None"
| "b64_bytes [p, q] = (if q mod 16 \<noteq> 0 then None else Some [of_nat (p * 4 + q div 16)])"
| "b64_bytes [p, q, r] =
     (if r mod 4 \<noteq> 0 then None else Some [of_nat (p * 4 + q div 16), of_nat (q mod 16 * 16 + r div 4)])"
| "b64_bytes (p # q # r # s # rest) =
     map_option (\<lambda>bs. of_nat (p * 4 + q div 16) # of_nat (q mod 16 * 16 + r div 4) # of_nat (r mod 4 * 64 + s) # bs)
       (b64_bytes rest)"

definition base64_decode :: "string \<Rightarrow> bytes option" where
  "base64_decode s =
     (let vs = map b64_value (filter (\<lambda>c. c \<notin> {CHR 0x0A, CHR 0x0D}) s) in
      if None \<in> set vs then None else b64_bytes (map the vs))"

fun b64_clear :: "nat list \<Rightarrow> nat list" where
  "b64_clear [p, q] = [p, q - q mod 16]"
| "b64_clear [p, q, r] = [p, q, r - r mod 4]"
| "b64_clear (p # q # r # s # rest) = p # q # r # s # b64_clear rest"
| "b64_clear short = short"

definition base64_decode_plain :: "string \<Rightarrow> bytes option" where
  "base64_decode_plain s =
     (let vs = map b64_value (filter (\<lambda>c. c \<notin> {CHR 0x0A, CHR 0x0D}) s) in
      if None \<in> set vs then None else b64_bytes (b64_clear (map the vs)))"

section \<open>Laws\<close>

lemma b64_alphabet_length: "length b64_alphabet = 64"
  by (simp add: b64_alphabet_def)

lemma b64_alphabet_distinct: "distinct b64_alphabet"
  by (simp add: b64_alphabet_def)

lemma index_of_nth: "distinct ds \<Longrightarrow> n < length ds \<Longrightarrow> index_of (ds ! n) ds = Some n"
  by (induction ds arbitrary: n) (auto simp: nth_Cons split: nat.splits)

lemma b64_value_char [simp]: "n < 64 \<Longrightarrow> b64_value (b64_char n) = Some n"
  using index_of_nth [OF b64_alphabet_distinct] by (simp add: b64_value_def b64_char_def b64_alphabet_length)

lemma b64_char_alphabet: "n < 64 \<Longrightarrow> b64_char n \<in> set b64_alphabet"
  by (simp add: b64_char_def b64_alphabet_length)

lemma unat_byte_less [simp]: "unat (b :: byte) < 256"
proof -
  have "unat b < 2 ^ LENGTH(8)" by (rule unsigned_less)
  then show ?thesis by simp
qed

lemma b64_sextets_less: "n \<in> set (b64_sextets bs) \<Longrightarrow> n < 64"
proof (induction bs rule: b64_sextets.induct)
  case (2 a)
  have "unat a div 4 < 64" "unat a mod 4 * 16 < 64" using unat_byte_less [of a] by linarith+
  with 2 show ?case by auto
next
  case (3 a b)
  have "unat a div 4 < 64" "unat a mod 4 * 16 + unat b div 16 < 64" "unat b mod 16 * 4 < 64"
    using unat_byte_less [of a] unat_byte_less [of b] by linarith+
  with 3 show ?case by auto
next
  case (4 a b c rest)
  have "unat a div 4 < 64" "unat a mod 4 * 16 + unat b div 16 < 64" "unat b mod 16 * 4 + unat c div 64 < 64" "unat c mod 64 < 64"
    using unat_byte_less [of a] unat_byte_less [of b] unat_byte_less [of c] by linarith+
  with 4 show ?case by auto
qed simp

lemma digit_pack: "y < k \<Longrightarrow> (x * k + y) div k = (x :: nat) \<and> (x * k + y) mod k = y"
  by auto

lemma high_nibble: "unat (b :: byte) div 16 < 16"
  using unat_byte_less [of b] by linarith

lemma high_pair: "unat (b :: byte) div 64 < 4"
  using unat_byte_less [of b] by linarith

lemma b64_bytes_sextets [simp]: "b64_bytes (b64_sextets bs) = Some bs"
proof (induction bs rule: b64_sextets.induct)
  case (3 a b)
  have "(unat a mod 4 * 16 + unat b div 16) div 16 = unat a mod 4" "(unat a mod 4 * 16 + unat b div 16) mod 16 = unat b div 16"
    using digit_pack [OF high_nibble] by blast+
  then show ?case by simp
next
  case (4 a b c rest)
  have "(unat a mod 4 * 16 + unat b div 16) div 16 = unat a mod 4" "(unat a mod 4 * 16 + unat b div 16) mod 16 = unat b div 16"
    "(unat b mod 16 * 4 + unat c div 64) div 4 = unat b mod 16" "(unat b mod 16 * 4 + unat c div 64) mod 4 = unat c div 64"
    using digit_pack [OF high_nibble] digit_pack [OF high_pair] by blast+
  then show ?case using 4 by simp
qed simp_all

lemma b64_clear_sextets [simp]: "b64_clear (b64_sextets bs) = b64_sextets bs"
  by (induction bs rule: b64_sextets.induct) auto

text \<open>Decoding inverts encoding.\<close>

lemma base64_decode_encode [simp]:
  "base64_decode (base64_encode bs) = Some bs" "base64_decode_plain (base64_encode bs) = Some bs"
proof -
  have plain: "c \<notin> {CHR 0x0A, CHR 0x0D}" if "c \<in> set (base64_encode bs)" for c
  proof -
    have "c \<in> set b64_alphabet" using that b64_char_alphabet b64_sextets_less by (auto simp: base64_encode_def)
    then show ?thesis by (auto simp: b64_alphabet_def)
  qed
  have "filter (\<lambda>c. c \<notin> {CHR 0x0A, CHR 0x0D}) (base64_encode bs) = base64_encode bs"
    using plain by (intro filter_True) blast
  moreover have "map b64_value (base64_encode bs) = map Some (b64_sextets bs)"
    using b64_sextets_less [of _ bs] by (simp add: base64_encode_def)
  ultimately show "base64_decode (base64_encode bs) = Some bs" "base64_decode_plain (base64_encode bs) = Some bs"
    unfolding base64_decode_def base64_decode_plain_def Let_def by (simp_all add: comp_def image_iff)
qed

lemma length_b64_sextets: "length (b64_sextets bs) = (4 * length bs + 2) div 3"
  by (induction bs rule: b64_sextets.induct) auto

lemma length_base64_encode [simp]: "length (base64_encode bs) = (4 * length bs + 2) div 3"
  by (simp add: base64_encode_def length_b64_sextets)

lemma base64_encode_inject [simp]: "base64_encode a = base64_encode b \<longleftrightarrow> a = b"
  by (metis base64_decode_encode(1) option.inject)

lemma base64_encode_chars: "c \<in> set (base64_encode bs) \<Longrightarrow> c \<in> set b64_alphabet"
  using b64_char_alphabet b64_sextets_less by (auto simp: base64_encode_def)

end
