(* ===== verification/Audit_Record.thy ===== *)
theory Audit_Record
  imports Merkle Base64
begin

text \<open>
  Security-audit records, \<^verbatim>\<open>internal/relay/audit/record.go\<close> with the record type of \<^verbatim>\<open>internal/relay/identity/audit.go\<close>:
  which records are valid, their canonical form and its validation, the digests that chain them and the receipts.
  The code outside the repository is an \<open>audit_env\<close>: parsing and printing of UUIDs, JSON text
  (marshalling of the two structs, strict decoding, the canonicalising transform) and the text of a time.
\<close>

section \<open>Types\<close>

datatype audit_error = AInvalidRecord | AConflict | AUnavailable

record AuditRecord =
  ar_ProfileVersion :: int
  ar_OperationID :: string
  ar_Operation :: string
  ar_Outcome :: string
  ar_Reason :: string
  ar_DecisionTime :: time
  ar_TenantID :: string
  ar_PrincipalID :: string
  ar_ParticipantInstanceID :: string
  ar_SessionEpoch :: u64
  ar_DPoPThumbprint :: bytes
  ar_HasDPoPThumbprint :: bool
  ar_AuthorityReference :: string
  ar_JWKSSetDigest :: bytes
  ar_HasJWKSSetDigest :: bool
  ar_CheckpointReference :: string
  ar_SigningKeyReference :: string
  ar_RecoveryReference :: string
  ar_ServiceProfile :: string
  ar_Action :: string
  ar_IdentityReference :: string

record canonicalRecord =
  cr_Profile :: string
  cr_OperationID :: string
  cr_OperationKind :: string
  cr_Outcome :: string
  cr_Reason :: string
  cr_DecisionTime :: string
  cr_TenantID :: string
  cr_PrincipalID :: string
  cr_ParticipantInstanceID :: string
  cr_SessionEpoch :: u64
  cr_DPoPThumbprintDigest :: string
  cr_AuthorityReference :: string
  cr_JWKSSetDigest :: string
  cr_CheckpointReference :: string
  cr_SigningKeyReference :: string
  cr_RecoveryReference :: string
  cr_ServiceProfile :: string
  cr_Action :: string
  cr_IdentityReference :: string

record Receipt =
  re_Profile :: string
  re_LedgerID :: string
  re_Sequence :: nat
  re_OperationID :: string
  re_RecordDigest :: string
  re_PreviousChainDigest :: string
  re_ChainDigest :: string

record audit_env =
  ae_uuid_Parse :: "string \<Rightarrow> bytes option"
  ae_uuid_String :: "bytes \<Rightarrow> string"
  ae_marshalRecord :: "canonicalRecord \<Rightarrow> bytes option"
  ae_decodeRecord :: "bytes \<Rightarrow> canonicalRecord option"
  ae_marshalReceipt :: "Receipt \<Rightarrow> bytes option"
  ae_Transform :: "bytes \<Rightarrow> bytes option"
  ae_Format :: "time \<Rightarrow> string"
  ae_ParseTime :: "string \<Rightarrow> time option"

definition MaxCanonicalBytes :: nat where
  "MaxCanonicalBytes = 4096"

definition audit_Profile :: string where
  "audit_Profile = ''yukh-security-audit/v1''"

definition ReceiptProfile :: string where
  "ReceiptProfile = ''yukh-security-audit-receipt/v1''"

section \<open>Text\<close>

definition lower_digit :: "char \<Rightarrow> bool" where
  "lower_digit c \<longleftrightarrow> char_between (CHR ''a'') c (CHR ''z'') \<or> char_between (CHR ''0'') c (CHR ''9'')"

definition alpha_digit :: "char \<Rightarrow> bool" where
  "alpha_digit c \<longleftrightarrow> lower_digit c \<or> char_between (CHR ''A'') c (CHR ''Z'')"

definition tenantPattern :: "string \<Rightarrow> bool" where
  "tenantPattern s = (case s of
       [] \<Rightarrow> False
     | c # cs \<Rightarrow> lower_digit c \<and> length cs \<le> 255 \<and> list_all (\<lambda>c. lower_digit c \<or> c \<in> set ''._:-'') cs)"

definition referencePattern :: "string \<Rightarrow> bool" where
  "referencePattern s = (case s of
       [] \<Rightarrow> False
     | c # cs \<Rightarrow> alpha_digit c \<and> list_all (\<lambda>c. alpha_digit c \<or> c \<in> set ''._:/-'') cs)"

definition validReference :: "string \<Rightarrow> bool" where
  "validReference value \<longleftrightarrow> length value \<ge> 1 \<and> length value \<le> 256 \<and> referencePattern value"

definition validDigestText :: "string \<Rightarrow> bool" where
  "validDigestText value \<longleftrightarrow> (case base64_decode value of
       None \<Rightarrow> False
     | Some decoded \<Rightarrow> length value = 43 \<and> length decoded = 32)"

definition encodeDigest :: "bytes \<Rightarrow> string" where
  "encodeDigest value = base64_encode value"

definition audit_canonicalV7 :: "audit_env \<Rightarrow> string \<Rightarrow> bytes option" where
  "audit_canonicalV7 env value = (case ae_uuid_Parse env value of
       None \<Rightarrow> None
     | Some identity \<Rightarrow>
         if unat (drop_bit 4 (identity ! 6)) \<noteq> 7 \<or> ae_uuid_String env identity \<noteq> value then None else Some identity)"

definition validRecoveryReference :: "string \<Rightarrow> bool" where
  "validRecoveryReference value \<longleftrightarrow> length value = 58 \<and> length value > length ''audit-recovery:'' \<and>
     take (length ''audit-recovery:'') value = ''audit-recovery:'' \<and>
     validDigestText (drop (length ''audit-recovery:'') value)"

definition validCheckpointReference :: "string \<Rightarrow> bool" where
  "validCheckpointReference value \<longleftrightarrow>
     (let prefix = ''audit-checkpoint:'' in
      if length value \<le> length prefix \<or> take (length prefix) value \<noteq> prefix then False
      else validDigestText (drop (length prefix) value))"

section \<open>Valid records\<close>

definition validIdentity :: "audit_env \<Rightarrow> AuditRecord \<Rightarrow> bool \<Rightarrow> bool" where
  "validIdentity env record required \<longleftrightarrow>
     (let hasTenant = (ar_TenantID record \<noteq> [] \<or> ar_PrincipalID record \<noteq> []);
          hasSession = (ar_ParticipantInstanceID record \<noteq> [] \<or> ar_SessionEpoch record \<noteq> 0) in
      if hasTenant \<and> (\<not> tenantPattern (ar_TenantID record) \<or> \<not> validDigestText (ar_PrincipalID record)) then False
      else if hasSession \<and> (audit_canonicalV7 env (ar_ParticipantInstanceID record) = None \<or> ar_SessionEpoch record = 0 \<or>
              unat (ar_SessionEpoch record) > MaxJSONSafeSequence \<or> \<not> hasTenant)
      then False
      else \<not> required \<or> hasTenant \<and> hasSession)"

definition validRevocationIdentity :: "audit_env \<Rightarrow> AuditRecord \<Rightarrow> bool" where
  "validRevocationIdentity env record \<longleftrightarrow>
     (if \<not> tenantPattern (ar_TenantID record) \<or> ar_PrincipalID record \<noteq> [] \<or> ar_SessionEpoch record = 0 \<or>
         unat (ar_SessionEpoch record) > MaxJSONSafeSequence
      then False
      else audit_canonicalV7 env (ar_ParticipantInstanceID record) \<noteq> None)"

definition identityFields :: "AuditRecord \<Rightarrow> bool" where
  "identityFields record \<longleftrightarrow> ar_TenantID record \<noteq> [] \<or> ar_PrincipalID record \<noteq> [] \<or> ar_ParticipantInstanceID record \<noteq> [] \<or>
     ar_SessionEpoch record \<noteq> 0 \<or> ar_HasDPoPThumbprint record"

definition stagingFields :: "AuditRecord \<Rightarrow> bool" where
  "stagingFields record \<longleftrightarrow> ar_ServiceProfile record \<noteq> [] \<or> ar_Action record \<noteq> [] \<or> ar_IdentityReference record \<noteq> []"

definition validStagingShape :: "AuditRecord \<Rightarrow> bool \<Rightarrow> bool" where
  "validStagingShape record shape \<longleftrightarrow> shape \<and>
     \<not> (ar_TenantID record \<noteq> [] \<or> ar_PrincipalID record \<noteq> [] \<or> ar_ParticipantInstanceID record \<noteq> [] \<or>
        ar_SessionEpoch record \<noteq> 0 \<or> ar_HasDPoPThumbprint record) \<and>
     ar_ServiceProfile record = ''yukh-coordination/private-primitives-staging-v1'' \<and>
     (ar_IdentityReference record = [] \<or> validReference (ar_IdentityReference record)) \<and>
     (ar_Action record = [] \<or> validReference (ar_Action record)) \<and> ar_AuthorityReference record = [] \<and>
     \<not> ar_HasJWKSSetDigest record \<and> ar_CheckpointReference record = [] \<and> ar_SigningKeyReference record = [] \<and>
     ar_RecoveryReference record = []"

definition validOperationShape :: "audit_env \<Rightarrow> AuditRecord \<Rightarrow> bool" where
  "validOperationShape env record \<longleftrightarrow>
     (let operation = ar_Operation record in
      if operation \<in> {''bootstrap'', ''session_authentication''} then
        \<not> stagingFields record \<and> ar_AuthorityReference record = [] \<and> \<not> ar_HasJWKSSetDigest record \<and>
        ar_CheckpointReference record = [] \<and> ar_SigningKeyReference record = [] \<and> ar_RecoveryReference record = []
      else if operation = ''revocation'' then
        \<not> stagingFields record \<and> validRevocationIdentity env record \<and> \<not> ar_HasDPoPThumbprint record \<and>
        ar_AuthorityReference record \<noteq> [] \<and> validReference (ar_AuthorityReference record) \<and> \<not> ar_HasJWKSSetDigest record \<and>
        ar_CheckpointReference record = [] \<and> ar_SigningKeyReference record = [] \<and> ar_RecoveryReference record = []
      else if operation = ''jwks_refresh'' then
        let digestShape = (ar_Outcome record = ''allow'' \<and> ar_HasJWKSSetDigest record \<or>
              ar_Outcome record = ''unavailable'' \<and> \<not> ar_HasJWKSSetDigest record) in
        \<not> stagingFields record \<and> \<not> identityFields record \<and> ar_AuthorityReference record \<noteq> [] \<and>
        validReference (ar_AuthorityReference record) \<and> digestShape \<and> ar_CheckpointReference record = [] \<and>
        ar_SigningKeyReference record = [] \<and> ar_RecoveryReference record = []
      else if operation = ''restore_fence'' then
        \<not> stagingFields record \<and> \<not> identityFields record \<and> ar_AuthorityReference record = [] \<and> \<not> ar_HasJWKSSetDigest record \<and>
        validCheckpointReference (ar_CheckpointReference record) \<and> ar_SigningKeyReference record = [] \<and>
        validRecoveryReference (ar_RecoveryReference record)
      else if operation = ''audit_checkpoint'' then
        \<not> stagingFields record \<and> \<not> identityFields record \<and> ar_AuthorityReference record = [] \<and> \<not> ar_HasJWKSSetDigest record \<and>
        ar_CheckpointReference record = [] \<and> validReference (ar_SigningKeyReference record) \<and> ar_RecoveryReference record = []
      else if operation = ''audit_key_lifecycle'' then
        \<not> stagingFields record \<and> \<not> identityFields record \<and> validReference (ar_AuthorityReference record) \<and>
        \<not> ar_HasJWKSSetDigest record \<and> ar_CheckpointReference record = [] \<and> validReference (ar_SigningKeyReference record) \<and>
        ar_RecoveryReference record = []
      else if operation = ''staging_authentication'' then
        let identityShape = (ar_Outcome record = ''allow'' \<and> ar_IdentityReference record \<noteq> [] \<or>
              ar_Outcome record \<noteq> ''allow'' \<and> ar_IdentityReference record = []) in
        validStagingShape record (ar_Action record = [] \<and> identityShape)
      else if operation = ''staging_authorization'' then
        validStagingShape record (ar_Action record \<noteq> [] \<and> ar_IdentityReference record \<noteq> [])
      else if operation = ''staging_lifecycle'' then
        validStagingShape record (ar_Action record = [] \<and> ar_IdentityReference record = [])
      else False)"

definition validAllowReason :: "audit_env \<Rightarrow> AuditRecord \<Rightarrow> bool" where
  "validAllowReason env record \<longleftrightarrow>
     (let operation = ar_Operation record; reason = ar_Reason record in
      if operation \<in> {''bootstrap'', ''session_authentication''} then
        reason = ''allowed'' \<and> validIdentity env record True \<and> ar_HasDPoPThumbprint record
      else if operation = ''revocation'' then reason = ''revoked''
      else if operation = ''jwks_refresh'' then reason = ''refreshed''
      else if operation = ''restore_fence'' then reason = ''restore_verified''
      else if operation = ''audit_checkpoint'' then reason = ''checkpoint_committed''
      else if operation = ''audit_key_lifecycle'' then reason = ''key_lifecycle_committed''
      else if operation \<in> {''staging_authentication'', ''staging_authorization''} then reason = ''allowed''
      else if operation = ''staging_lifecycle'' then
        reason \<in> {''registration_loaded'', ''tls_ready'', ''started'', ''stopped'', ''capability_key_loaded'',
          ''capability_key_zeroed'', ''storage_epoch_validated''}
      else False)"

definition validDenyReason :: "AuditRecord \<Rightarrow> bool" where
  "validDenyReason record \<longleftrightarrow>
     (let legacy = (ar_Operation record \<in> {''bootstrap'', ''session_authentication''} \<and>
            ar_Reason record \<in> {''invalid_credential'', ''proof_replay'', ''inactive_session''});
          staging = (ar_Operation record = ''staging_authentication'' \<and>
              ar_Reason record \<in> {''invalid_credential'', ''credential_expired''} \<or>
            ar_Operation record = ''staging_authorization'' \<and> ar_Reason record = ''access_denied'')
      in legacy \<or> staging)"

definition validUnavailableReason :: "AuditRecord \<Rightarrow> bool" where
  "validUnavailableReason record \<longleftrightarrow>
     (let legacy = (ar_Reason record \<in> {''verification_unavailable'', ''registry_unavailable'', ''material_collision'',
            ''operation_unavailable''});
          staging = (ar_Reason record = ''dependency_unavailable'' \<and>
            ar_Operation record \<in> {''staging_authentication'', ''staging_authorization'', ''staging_lifecycle''})
      in legacy \<or> staging)"

definition validRecord :: "audit_env \<Rightarrow> AuditRecord \<Rightarrow> bool" where
  "validRecord env record \<longleftrightarrow>
     (if ar_ProfileVersion record \<noteq> 1 \<or> t_loc (ar_DecisionTime record) \<noteq> UTC \<or>
         \<not> time_Equal (ar_DecisionTime record) (time_Truncate (ar_DecisionTime record) Millisecond)
      then False
      else if audit_canonicalV7 env (ar_OperationID record) = None then False
      else if \<not> validOperationShape env record then False
      else
        (if ar_Outcome record = ''allow'' then validAllowReason env record
         else if ar_Outcome record = ''deny'' then validDenyReason record \<and> validIdentity env record False
         else if ar_Outcome record = ''unavailable'' then validUnavailableReason record \<and> validIdentity env record False
         else False) \<and>
        (ar_HasDPoPThumbprint record \<or> ar_DPoPThumbprint record = replicate 32 0) \<and>
        (ar_HasJWKSSetDigest record \<or> ar_JWKSSetDigest record = replicate 32 0))"

section \<open>Canonical records\<close>

definition canonical_value :: "audit_env \<Rightarrow> AuditRecord \<Rightarrow> canonicalRecord" where
  "canonical_value env record =
     \<lparr>cr_Profile = audit_Profile, cr_OperationID = ar_OperationID record, cr_OperationKind = ar_Operation record,
      cr_Outcome = ar_Outcome record, cr_Reason = ar_Reason record, cr_DecisionTime = ae_Format env (ar_DecisionTime record),
      cr_TenantID = ar_TenantID record, cr_PrincipalID = ar_PrincipalID record,
      cr_ParticipantInstanceID = ar_ParticipantInstanceID record, cr_SessionEpoch = ar_SessionEpoch record,
      cr_DPoPThumbprintDigest = (if ar_HasDPoPThumbprint record then encodeDigest (ar_DPoPThumbprint record) else []),
      cr_AuthorityReference = ar_AuthorityReference record,
      cr_JWKSSetDigest = (if ar_HasJWKSSetDigest record then encodeDigest (ar_JWKSSetDigest record) else []),
      cr_CheckpointReference = ar_CheckpointReference record, cr_SigningKeyReference = ar_SigningKeyReference record,
      cr_RecoveryReference = ar_RecoveryReference record, cr_ServiceProfile = ar_ServiceProfile record,
      cr_Action = ar_Action record, cr_IdentityReference = ar_IdentityReference record\<rparr>"

definition CanonicalRecord :: "audit_env \<Rightarrow> AuditRecord \<Rightarrow> audit_error + bytes" where
  "CanonicalRecord env record =
     (if \<not> validRecord env record then Inl AInvalidRecord
      else case ae_marshalRecord env (canonical_value env record) of
        None \<Rightarrow> Inl AInvalidRecord
      | Some raw \<Rightarrow>
          (case ae_Transform env raw of
             None \<Rightarrow> Inl AInvalidRecord
           | Some canonical \<Rightarrow> if length canonical > MaxCanonicalBytes then Inl AInvalidRecord else Inr canonical))"

text \<open>An optional digest of a decoded record: the bytes and whether it was present, or an error.\<close>

definition decodeDigestField :: "string \<Rightarrow> (bytes \<times> bool) option" where
  "decodeDigestField text =
     (if text = [] then Some (replicate 32 0, False)
      else case base64_decode text of
        None \<Rightarrow> None
      | Some decoded \<Rightarrow> if length decoded \<noteq> 32 then None else Some (decoded, True))"

definition record_of_value :: "canonicalRecord \<Rightarrow> time \<Rightarrow> bytes \<times> bool \<Rightarrow> bytes \<times> bool \<Rightarrow> AuditRecord" where
  "record_of_value value decisionTime dpop jwks =
     \<lparr>ar_ProfileVersion = 1, ar_OperationID = cr_OperationID value, ar_Operation = cr_OperationKind value,
      ar_Outcome = cr_Outcome value, ar_Reason = cr_Reason value, ar_DecisionTime = decisionTime,
      ar_TenantID = cr_TenantID value, ar_PrincipalID = cr_PrincipalID value,
      ar_ParticipantInstanceID = cr_ParticipantInstanceID value, ar_SessionEpoch = cr_SessionEpoch value,
      ar_DPoPThumbprint = fst dpop, ar_HasDPoPThumbprint = snd dpop,
      ar_AuthorityReference = cr_AuthorityReference value,
      ar_JWKSSetDigest = fst jwks, ar_HasJWKSSetDigest = snd jwks,
      ar_CheckpointReference = cr_CheckpointReference value, ar_SigningKeyReference = cr_SigningKeyReference value,
      ar_RecoveryReference = cr_RecoveryReference value, ar_ServiceProfile = cr_ServiceProfile value,
      ar_Action = cr_Action value, ar_IdentityReference = cr_IdentityReference value\<rparr>"

definition ValidateCanonicalRecord :: "audit_env \<Rightarrow> bytes \<Rightarrow> audit_error option" where
  "ValidateCanonicalRecord env canonical =
     (if length canonical = 0 \<or> length canonical > MaxCanonicalBytes then Some AInvalidRecord
      else if ae_Transform env canonical \<noteq> Some canonical then Some AInvalidRecord
      else case ae_decodeRecord env canonical of
        None \<Rightarrow> Some AInvalidRecord
      | Some value \<Rightarrow>
          if cr_Profile value \<noteq> audit_Profile then Some AInvalidRecord
          else case ae_ParseTime env (cr_DecisionTime value) of
            None \<Rightarrow> Some AInvalidRecord
          | Some decisionTime \<Rightarrow>
              if ae_Format env decisionTime \<noteq> cr_DecisionTime value then Some AInvalidRecord
              else case (decodeDigestField (cr_DPoPThumbprintDigest value), decodeDigestField (cr_JWKSSetDigest value)) of
                (Some dpop, Some jwks) \<Rightarrow>
                  (let record = record_of_value value decisionTime dpop jwks in
                   if \<not> validRecord env record then Some AInvalidRecord
                   else if CanonicalRecord env record \<noteq> Inr canonical then Some AInvalidRecord
                   else None)
              | _ \<Rightarrow> Some AInvalidRecord)"

section \<open>Digests and receipts\<close>

definition RecordDigest :: "bytes \<Rightarrow> bytes" where
  "RecordDigest canonical = sha256 (str_bytes (''yukh-coordination:audit-record:v1'' @ newline) @ canonical)"

definition GenesisDigest :: "audit_env \<Rightarrow> string \<Rightarrow> bytes option" where
  "GenesisDigest env ledgerID = (case audit_canonicalV7 env ledgerID of
       None \<Rightarrow> None
     | Some identity \<Rightarrow> Some (sha256 (str_bytes (''yukh-coordination:audit-chain-genesis:v1'' @ newline) @ identity)))"

definition ChainDigest :: "nat \<Rightarrow> bytes \<Rightarrow> bytes \<Rightarrow> bytes option" where
  "ChainDigest sequence previous record =
     (if sequence = 0 \<or> sequence > MaxJSONSafeSequence then None
      else Some (sha256 (str_bytes (''yukh-coordination:audit-chain:v1'' @ newline) @ put_be64 (of_nat sequence) @ previous @ record)))"

definition NewReceipt :: "audit_env \<Rightarrow> string \<Rightarrow> nat \<Rightarrow> string \<Rightarrow> bytes \<Rightarrow> bytes \<Rightarrow> bytes \<Rightarrow> Receipt option" where
  "NewReceipt env ledgerID sequence operationID record previous chain =
     (if audit_canonicalV7 env ledgerID = None then None
      else if audit_canonicalV7 env operationID = None \<or> sequence = 0 \<or> sequence > MaxJSONSafeSequence then None
      else Some \<lparr>re_Profile = ReceiptProfile, re_LedgerID = ledgerID, re_Sequence = sequence, re_OperationID = operationID,
        re_RecordDigest = encodeDigest record, re_PreviousChainDigest = encodeDigest previous,
        re_ChainDigest = encodeDigest chain\<rparr>)"

definition validReceipt :: "audit_env \<Rightarrow> Receipt \<Rightarrow> bool" where
  "validReceipt env receipt \<longleftrightarrow>
     (if re_Profile receipt \<noteq> ReceiptProfile \<or> re_Sequence receipt = 0 \<or> re_Sequence receipt > MaxJSONSafeSequence then False
      else if audit_canonicalV7 env (re_LedgerID receipt) = None then False
      else if audit_canonicalV7 env (re_OperationID receipt) = None then False
      else validDigestText (re_RecordDigest receipt) \<and> validDigestText (re_PreviousChainDigest receipt) \<and>
        validDigestText (re_ChainDigest receipt))"

definition CanonicalReceipt :: "audit_env \<Rightarrow> Receipt \<Rightarrow> bytes option" where
  "CanonicalReceipt env receipt =
     (if \<not> validReceipt env receipt then None
      else case ae_marshalReceipt env receipt of
        None \<Rightarrow> None
      | Some raw \<Rightarrow> ae_Transform env raw)"

section \<open>Laws\<close>

lemma validDigestText_encode: "length bs = 32 \<Longrightarrow> validDigestText (encodeDigest bs)"
  by (simp add: validDigestText_def encodeDigest_def)

lemma decodeDigestField_encode: "length bs = 32 \<Longrightarrow> decodeDigestField (encodeDigest bs) = Some (bs, True)"
proof -
  assume len: "length bs = 32"
  then have "length (encodeDigest bs) = 43" by (simp add: encodeDigest_def)
  then have "encodeDigest bs \<noteq> []" by auto
  with len show ?thesis by (simp add: decodeDigestField_def encodeDigest_def)
qed

text \<open>Validity and the canonical value do not look at the location's name or the monotonic reading of the decision time.\<close>

lemma decision_time_irrelevant:
  "stagingFields (record\<lparr>ar_DecisionTime := t\<rparr>) = stagingFields record"
  "identityFields (record\<lparr>ar_DecisionTime := t\<rparr>) = identityFields record"
  "validStagingShape (record\<lparr>ar_DecisionTime := t\<rparr>) = validStagingShape record"
  "validIdentity env (record\<lparr>ar_DecisionTime := t\<rparr>) = validIdentity env record"
  "validRevocationIdentity env (record\<lparr>ar_DecisionTime := t\<rparr>) = validRevocationIdentity env record"
  "validDenyReason (record\<lparr>ar_DecisionTime := t\<rparr>) = validDenyReason record"
  "validUnavailableReason (record\<lparr>ar_DecisionTime := t\<rparr>) = validUnavailableReason record"
  by (simp_all add: stagingFields_def identityFields_def validStagingShape_def validIdentity_def validRevocationIdentity_def
      validDenyReason_def validUnavailableReason_def fun_eq_iff del: insert_iff)

lemma decision_time_irrelevant_shape:
  "validOperationShape env (record\<lparr>ar_DecisionTime := t\<rparr>) = validOperationShape env record"
  "validAllowReason env (record\<lparr>ar_DecisionTime := t\<rparr>) = validAllowReason env record"
  unfolding validOperationShape_def validAllowReason_def decision_time_irrelevant by (simp_all del: insert_iff)

lemma validRecord_time_UTC:
  "validRecord env record \<Longrightarrow> validRecord env (record\<lparr>ar_DecisionTime := time_UTC (ar_DecisionTime record)\<rparr>)"
  unfolding validRecord_def decision_time_irrelevant decision_time_irrelevant_shape by (auto split: if_split_asm)

lemma new_receipt_valid:
  assumes "NewReceipt env ledgerID sequence operationID record previous chain = Some receipt"
    and "length record = 32" "length previous = 32" "length chain = 32"
  shows "validReceipt env receipt"
  using assms by (auto simp: NewReceipt_def validReceipt_def validDigestText_encode split: if_splits)

text \<open>What is relied on of the environment for one record: its time and its JSON text are read back as written, and the
  canonicalising transform leaves canonical text alone.\<close>

definition reads_back :: "audit_env \<Rightarrow> AuditRecord \<Rightarrow> bool" where
  "reads_back env record \<longleftrightarrow>
     ae_ParseTime env (ae_Format env (ar_DecisionTime record)) = Some (time_UTC (ar_DecisionTime record)) \<and>
     ae_Format env (time_UTC (ar_DecisionTime record)) = ae_Format env (ar_DecisionTime record) \<and>
     (\<forall>raw canonical. ae_marshalRecord env (canonical_value env record) = Some raw \<longrightarrow> ae_Transform env raw = Some canonical \<longrightarrow>
        canonical \<noteq> [] \<and> ae_Transform env canonical = Some canonical \<and>
        ae_decodeRecord env canonical = Some (canonical_value env record))"

lemma record_of_canonical_value:
  assumes "validRecord env record" "length (ar_DPoPThumbprint record) = 32" "length (ar_JWKSSetDigest record) = 32"
  obtains dpop jwks where
    "decodeDigestField (cr_DPoPThumbprintDigest (canonical_value env record)) = Some dpop"
    "decodeDigestField (cr_JWKSSetDigest (canonical_value env record)) = Some jwks"
    "record_of_value (canonical_value env record) t dpop jwks = record\<lparr>ar_DecisionTime := t\<rparr>"
proof -
  have v: "ar_ProfileVersion record = 1" "ar_HasDPoPThumbprint record \<or> ar_DPoPThumbprint record = replicate 32 0"
      "ar_HasJWKSSetDigest record \<or> ar_JWKSSetDigest record = replicate 32 0"
    using assms(1) by (auto simp: validRecord_def split: if_splits)
  have dpop: "decodeDigestField (cr_DPoPThumbprintDigest (canonical_value env record)) = Some (ar_DPoPThumbprint record, ar_HasDPoPThumbprint record)"
    using v(2) decodeDigestField_encode [OF assms(2)] by (auto simp: canonical_value_def decodeDigestField_def)
  have jwks: "decodeDigestField (cr_JWKSSetDigest (canonical_value env record)) = Some (ar_JWKSSetDigest record, ar_HasJWKSSetDigest record)"
    using v(3) decodeDigestField_encode [OF assms(3)] by (auto simp: canonical_value_def decodeDigestField_def)
  show ?thesis using that [OF dpop jwks] v(1) by (simp add: record_of_value_def canonical_value_def)
qed

lemma canonical_record_validates:
  assumes canonical: "CanonicalRecord env record = Inr canonical" and readback: "reads_back env record"
    and lengths: "length (ar_DPoPThumbprint record) = 32" "length (ar_JWKSSetDigest record) = 32"
  shows "ValidateCanonicalRecord env canonical = None"
proof -
  obtain raw where r: "validRecord env record" "ae_marshalRecord env (canonical_value env record) = Some raw"
      "ae_Transform env raw = Some canonical" "length canonical \<le> MaxCanonicalBytes"
    using canonical by (auto simp: CanonicalRecord_def split: if_splits option.splits)
  define record' where "record' = record\<lparr>ar_DecisionTime := time_UTC (ar_DecisionTime record)\<rparr>"
  have t: "ae_ParseTime env (ae_Format env (ar_DecisionTime record)) = Some (time_UTC (ar_DecisionTime record))"
      "ae_Format env (time_UTC (ar_DecisionTime record)) = ae_Format env (ar_DecisionTime record)"
    and c: "canonical \<noteq> []" "ae_Transform env canonical = Some canonical" "ae_decodeRecord env canonical = Some (canonical_value env record)"
    using readback r(2,3) by (auto simp: reads_back_def)
  have same: "canonical_value env record' = canonical_value env record" using t(2) by (simp add: record'_def canonical_value_def)
  have valid: "validRecord env record'" using validRecord_time_UTC [OF r(1)] by (simp add: record'_def)
  have again: "CanonicalRecord env record' = Inr canonical" using valid same r by (simp add: CanonicalRecord_def)
  obtain dpop jwks where d: "decodeDigestField (cr_DPoPThumbprintDigest (canonical_value env record)) = Some dpop"
      "decodeDigestField (cr_JWKSSetDigest (canonical_value env record)) = Some jwks"
      "record_of_value (canonical_value env record) (time_UTC (ar_DecisionTime record)) dpop jwks = record'"
    using record_of_canonical_value [OF r(1) lengths] record'_def by metis
  have fields: "cr_Profile (canonical_value env record) = audit_Profile" "cr_DecisionTime (canonical_value env record) = ae_Format env (ar_DecisionTime record)"
    by (simp_all add: canonical_value_def)
  show ?thesis unfolding ValidateCanonicalRecord_def using r(4) t c d again valid by (simp add: fields)
qed

section \<open>Properties\<close>

text \<open>
  What is written is accepted when it is read. Every audit record the code brings into canonical form
  passes the validation of stored records, which decodes it, checks it and demands the very same bytes again. The environment
  has to read back its own text of this record.
\<close>

theorem canonical_record_roundtrip:
  assumes "CanonicalRecord env record = Inr canonical" "reads_back env record"
    "length (ar_DPoPThumbprint record) = 32" "length (ar_JWKSSetDigest record) = 32"
  shows "ValidateCanonicalRecord env canonical = None"
  using assms by (rule canonical_record_validates)

text \<open>An environment that reads back, and a record of each shape that matters: a lifecycle event and an authentication.\<close>

definition ex_record :: AuditRecord where
  "ex_record = \<lparr>ar_ProfileVersion = 1, ar_OperationID = ''u'', ar_Operation = ''staging_lifecycle'', ar_Outcome = ''allow'',
     ar_Reason = ''started'', ar_DecisionTime = unixMilli_UTC 0, ar_TenantID = [], ar_PrincipalID = [],
     ar_ParticipantInstanceID = [], ar_SessionEpoch = 0, ar_DPoPThumbprint = replicate 32 0, ar_HasDPoPThumbprint = False,
     ar_AuthorityReference = [], ar_JWKSSetDigest = replicate 32 0, ar_HasJWKSSetDigest = False, ar_CheckpointReference = [],
     ar_SigningKeyReference = [], ar_RecoveryReference = [],
     ar_ServiceProfile = ''yukh-coordination/private-primitives-staging-v1'', ar_Action = [], ar_IdentityReference = []\<rparr>"

definition ex_audit_value :: canonicalRecord where
  "ex_audit_value = \<lparr>cr_Profile = audit_Profile, cr_OperationID = ''u'', cr_OperationKind = ''staging_lifecycle'', cr_Outcome = ''allow'',
     cr_Reason = ''started'', cr_DecisionTime = ''t'', cr_TenantID = [], cr_PrincipalID = [], cr_ParticipantInstanceID = [],
     cr_SessionEpoch = 0, cr_DPoPThumbprintDigest = [], cr_AuthorityReference = [], cr_JWKSSetDigest = [],
     cr_CheckpointReference = [], cr_SigningKeyReference = [], cr_RecoveryReference = [],
     cr_ServiceProfile = ''yukh-coordination/private-primitives-staging-v1'', cr_Action = [], cr_IdentityReference = []\<rparr>"

definition ex_audit_env :: audit_env where
  "ex_audit_env = \<lparr>ae_uuid_Parse = (\<lambda>s. if s = ''u'' then Some (replicate 16 0x70) else None), ae_uuid_String = (\<lambda>_. ''u''),
     ae_marshalRecord = (\<lambda>_. Some [1]), ae_decodeRecord = (\<lambda>_. Some ex_audit_value),
     ae_marshalReceipt = (\<lambda>r. Some [2]), ae_Transform = Some, ae_Format = (\<lambda>_. ''t''), ae_ParseTime = (\<lambda>_. Some (unixMilli_UTC 0))\<rparr>"

lemma ex_canonical: "CanonicalRecord ex_audit_env ex_record = Inr [1]"
  by code_simp

end
