(* ===== verification/Merkle_Cache.thy ===== *)
theory Merkle_Cache
  imports Merkle
begin

unbundle bit_operations_syntax

text \<open>
  The Merkle node cache of the audit ledger, \<^verbatim>\<open>internal/relay/audit/sqlite/merkle.go\<close>. The table \<^verbatim>\<open>merkle_nodes\<close> and the Go map
  of expected nodes are association lists from coordinates (level, index) to hashes. An insert fails where a
  constraint of the table's schema does: a coordinate or a hash that is present, a hash that is not 32 bytes.
  Failures are \<open>None\<close> (\<^verbatim>\<open>ErrUnavailable\<close>).
\<close>

section \<open>Nodes\<close>

type_synonym nodeCoordinate = "nat \<times> nat"
type_synonym nodes = "(nodeCoordinate, Hash) gomap"

text \<open>\<^verbatim>\<open>bits.TrailingZeros64\<close>.\<close>

fun TrailingZeros :: "nat \<Rightarrow> nat" where
  "TrailingZeros n = (if n = 0 then 64 else if odd n then 0 else Suc (TrailingZeros (n div 2)))"

declare TrailingZeros.simps [simp del]

definition insertNode :: "nodes \<Rightarrow> nat \<Rightarrow> nat \<Rightarrow> Hash \<Rightarrow> nodes option" where
  "insertNode table level index hash =
     (if level > 52 \<or> index > MaxJSONSafeSequence then None
      else if (level, index) \<in> fst ` set table \<or> hash \<in> snd ` set table \<or> length hash \<noteq> 32 then None
      else Some (((level, index), hash) # table))"

definition readNode :: "nodes \<Rightarrow> nat \<Rightarrow> nat \<Rightarrow> Hash option" where
  "readNode table level index = (case map_of table (level, index) of
       None \<Rightarrow> None
     | Some raw \<Rightarrow> if length raw \<noteq> 32 then None else Some raw)"

text \<open>The loop that completes the parents of a new leaf.\<close>

function insert_parents :: "nodes \<Rightarrow> nat \<Rightarrow> nat \<Rightarrow> Hash \<Rightarrow> nodes option" where
  "insert_parents table level index current =
     (if odd index then
        case readNode table level (index - 1) of
          None \<Rightarrow> None
        | Some left \<Rightarrow>
            let parent = MerkleNodeHash left current in
            (case insertNode table (level + 1) (index div 2) parent of
               None \<Rightarrow> None
             | Some table' \<Rightarrow> insert_parents table' (level + 1) (index div 2) parent)
      else Some table)"
  by pat_completeness auto
termination by (relation "measure (\<lambda>(_, _, index, _). index)") (auto elim: oddE)

declare insert_parents.simps [simp del]

definition insertMerkleLeaf :: "nodes \<Rightarrow> nat \<Rightarrow> Hash \<Rightarrow> nodes option" where
  "insertMerkleLeaf table leafIndex leaf = (case insertNode table 0 leafIndex leaf of
       None \<Rightarrow> None
     | Some table' \<Rightarrow> insert_parents table' 0 leafIndex leaf)"

function subtreeHash :: "nodes \<Rightarrow> nat \<Rightarrow> nat \<Rightarrow> Hash option" where
  "subtreeHash table start sz =
     (if sz = 0 then Some EmptyMerkleRoot
      else if start > MaxJSONSafeSequence \<or> sz > MaxJSONSafeSequence \<or> start > MaxJSONSafeSequence - sz then None
      else if sz AND (sz - 1) = 0 \<and> start mod sz = 0 then readNode table (TrailingZeros sz) (start div sz)
      else if sz = 1 then None
      else
        let k = largestPowerLessThan sz in
        case subtreeHash table start k of
          None \<Rightarrow> None
        | Some left \<Rightarrow>
            (case subtreeHash table (start + k) (sz - k) of
               None \<Rightarrow> None
             | Some right \<Rightarrow> Some (MerkleNodeHash left right)))"
  by pat_completeness auto
termination by (relation "measure (\<lambda>(_, _, sz). sz)") (auto intro!: split_less diff_less)

declare subtreeHash.simps [simp del]

text \<open>The two path builders append to the slice they are given; a size of at most one has an empty path.\<close>

function inclusionPath :: "nodes \<Rightarrow> nat \<Rightarrow> nat \<Rightarrow> nat \<Rightarrow> Hash list \<Rightarrow> Hash list option" where
  "inclusionPath table start sz index path =
     (if sz \<le> 1 then Some path
      else
        let k = largestPowerLessThan sz in
        if index < k then
          case inclusionPath table start k index path of
            None \<Rightarrow> None
          | Some path' \<Rightarrow> map_option (\<lambda>sibling. path' @ [sibling]) (subtreeHash table (start + k) (sz - k))
        else
          case inclusionPath table (start + k) (sz - k) (index - k) path of
            None \<Rightarrow> None
          | Some path' \<Rightarrow> map_option (\<lambda>sibling. path' @ [sibling]) (subtreeHash table start k))"
  by pat_completeness auto
termination by (relation "measure (\<lambda>(_, _, sz, _, _). sz)") (auto intro!: split_less diff_less)

declare inclusionPath.simps [simp del]

function consistencyPath :: "nodes \<Rightarrow> nat \<Rightarrow> nat \<Rightarrow> nat \<Rightarrow> bool \<Rightarrow> Hash list \<Rightarrow> Hash list option" where
  "consistencyPath table start sz firstSize complete path =
     (if firstSize = sz then
        (if \<not> complete then map_option (\<lambda>hash. path @ [hash]) (subtreeHash table start sz) else Some path)
      else if sz \<le> 1 then Some path
      else
        let k = largestPowerLessThan sz in
        if firstSize \<le> k then
          case consistencyPath table start k firstSize complete path of
            None \<Rightarrow> None
          | Some path' \<Rightarrow> map_option (\<lambda>hash. path' @ [hash]) (subtreeHash table (start + k) (sz - k))
        else
          case consistencyPath table (start + k) (sz - k) (firstSize - k) False path of
            None \<Rightarrow> None
          | Some path' \<Rightarrow> map_option (\<lambda>hash. path' @ [hash]) (subtreeHash table start k))"
  by pat_completeness auto
termination by (relation "measure (\<lambda>(_, _, sz, _, _, _). sz)") (auto intro!: split_less diff_less)

declare consistencyPath.simps [simp del]

section \<open>Expected nodes\<close>

definition zeroHash :: Hash where
  "zeroHash = replicate 32 0"

definition expectedNode :: "nodes \<Rightarrow> nodeCoordinate \<Rightarrow> Hash" where
  "expectedNode table coordinate = (case map_of table coordinate of Some h \<Rightarrow> h | None \<Rightarrow> zeroHash)"

function add_parents :: "nodes \<Rightarrow> nat \<Rightarrow> nat \<Rightarrow> Hash \<Rightarrow> nodes" where
  "add_parents table level index current =
     (if odd index then
        let parent = MerkleNodeHash (expectedNode table (level, index - 1)) current
        in add_parents (AList.update (level + 1, index div 2) parent table) (level + 1) (index div 2) parent
      else table)"
  by pat_completeness auto
termination by (relation "measure (\<lambda>(_, _, index, _). index)") (auto elim: oddE)

declare add_parents.simps [simp del]

definition addExpectedLeaf :: "nodes \<Rightarrow> nat \<Rightarrow> Hash \<Rightarrow> nodes" where
  "addExpectedLeaf table leafIndex leaf = add_parents (AList.update (0, leafIndex) leaf table) 0 leafIndex leaf"

function expectedSubtree :: "nodes \<Rightarrow> nat \<Rightarrow> nat \<Rightarrow> Hash" where
  "expectedSubtree table start sz =
     (if sz \<le> 1 \<or> sz AND (sz - 1) = 0 \<and> start mod sz = 0
      then expectedNode table (TrailingZeros sz, start div sz)
      else
        let k = largestPowerLessThan sz
        in MerkleNodeHash (expectedSubtree table start k) (expectedSubtree table (start + k) (sz - k)))"
  by pat_completeness auto
termination by (relation "measure (\<lambda>(_, _, sz). sz)") (auto intro!: split_less diff_less)

declare expectedSubtree.simps [simp del]

definition rootFromExpected :: "nodes \<Rightarrow> nat \<Rightarrow> Hash" where
  "rootFromExpected table sz = (if sz = 0 then EmptyMerkleRoot else expectedSubtree table 0 sz)"

text \<open>Every stored row is expected and there are as many rows as expected ones.\<close>

definition verifyStoredNodes :: "nodes \<Rightarrow> nodes \<Rightarrow> bool" where
  "verifyStoredNodes table expected \<longleftrightarrow>
     list_all (\<lambda>(coordinate, raw). length raw = 32 \<and> map_of expected coordinate = Some raw) table \<and>
     length table = length expected"

section \<open>The cache holds the tree\<close>

text \<open>The root of the full subtree at a coordinate, and a cache that holds exactly the complete subtrees of \<open>leaves\<close>.\<close>

definition node_root :: "Hash list \<Rightarrow> nat \<Rightarrow> nat \<Rightarrow> Hash" where
  "node_root leaves l i = MerkleRoot (take (2 ^ l) (drop (i * 2 ^ l) leaves))"

definition cached :: "Hash list \<Rightarrow> nodes \<Rightarrow> bool" where
  "cached leaves table \<longleftrightarrow> (\<forall>l i. map_of table (l, i) =
     (if (i + 1) * 2 ^ l \<le> length leaves then Some (node_root leaves l i) else None))"

lemma cachedD: "cached leaves table \<Longrightarrow> (i + 1) * 2 ^ l \<le> length leaves \<Longrightarrow> map_of table (l, i) = Some (node_root leaves l i)"
  by (simp add: cached_def)

lemma node_root_snoc: "(i + 1) * 2 ^ l \<le> length leaves \<Longrightarrow> node_root (leaves @ [x]) l i = node_root leaves l i"
  by (simp add: node_root_def add_mult_distrib)

lemma node_root_parent:
  assumes "(i + 1) * 2 ^ Suc l \<le> length leaves"
  shows "node_root leaves (Suc l) i = MerkleNodeHash (node_root leaves l (2 * i)) (node_root leaves l (2 * i + 1))"
proof -
  define xs where "xs = drop (i * 2 ^ Suc l) leaves"
  have len: "2 * 2 ^ l \<le> length xs" using assms by (simp add: xs_def add_mult_distrib)
  have more: "2 ^ l < length xs" using len zero_less_power [of "2 :: nat" l] by linarith
  have "take (2 ^ Suc l) xs = take (2 ^ l) xs @ take (2 ^ l) (drop (2 ^ l) xs)" by (simp add: take_add [symmetric] mult_2)
  moreover have "MerkleRoot (take (2 ^ l) xs @ take (2 ^ l) (drop (2 ^ l) xs)) = MerkleNodeHash (MerkleRoot (take (2 ^ l) xs)) (MerkleRoot (take (2 ^ l) (drop (2 ^ l) xs)))"
    by (rule MerkleRoot_append [where j = l]) (use len more in auto)
  moreover have "drop (2 ^ l) xs = drop ((2 * i + 1) * 2 ^ l) leaves" "xs = drop (2 * i * 2 ^ l) leaves"
    by (simp_all add: xs_def algebra_simps)
  ultimately show ?thesis by (simp add: node_root_def xs_def)
qed

text \<open>While the parents of a new leaf are added, the cache of the old leaves has the new subtrees up to the current level.\<close>

definition partly_cached :: "Hash list \<Rightarrow> Hash \<Rightarrow> nat \<Rightarrow> nodes \<Rightarrow> bool" where
  "partly_cached leaves x l table \<longleftrightarrow> (\<forall>l' i'. map_of table (l', i') =
     (if (i' + 1) * 2 ^ l' \<le> length leaves \<or> (i' + 1) * 2 ^ l' = length leaves + 1 \<and> l' \<le> l
      then Some (node_root (leaves @ [x]) l' i') else None))"

lemma add_parents_cached:
  "partly_cached leaves x l table \<Longrightarrow> (i + 1) * 2 ^ l = length leaves + 1 \<Longrightarrow> current = node_root (leaves @ [x]) l i \<Longrightarrow>
   cached (leaves @ [x]) (add_parents table l i current)"
proof (induction table l i current rule: add_parents.induct)
  case (1 table l i current)
  show ?case
  proof (cases "odd i")
    case True
    then obtain a where a: "i = 2 * a + 1" by (blast elim: oddE)
    define parent where "parent = MerkleNodeHash (expectedNode table (l, i - 1)) current"
    have "2 * a * 2 ^ l + 2 ^ l + 2 ^ l = length leaves + 1" using 1(3) a by (simp add: algebra_simps)
    moreover have "(1 :: nat) \<le> 2 ^ l" by simp
    ultimately have "(2 * a + 1) * 2 ^ l \<le> length leaves" unfolding add_mult_distrib by linarith
    then have "map_of table (l, 2 * a) = Some (node_root (leaves @ [x]) l (2 * a))" using 1(2) by (simp add: partly_cached_def)
    moreover have up: "(a + 1) * 2 ^ Suc l = length leaves + 1" using 1(3) a by simp
    ultimately have p: "parent = node_root (leaves @ [x]) (Suc l) a"
      using node_root_parent [of a l "leaves @ [x]"] 1(4) a by (simp add: parent_def expectedNode_def)
    have only: "i' = a" if "(i' + 1) * 2 ^ Suc l = length leaves + 1" for i'
      using that up by (metis Suc_eq_plus1 mult_right_cancel nat.inject power_not_zero zero_neq_numeral)
    have "partly_cached leaves x (Suc l) (AList.update (Suc l, a) parent table)"
      unfolding partly_cached_def
    proof (intro allI)
      fix l' i'
      define due where "due = ((i' + 1) * 2 ^ l' = length leaves + 1)"
      have old: "map_of table (l', i') = (if (i' + 1) * 2 ^ l' \<le> length leaves \<or> due \<and> l' \<le> l then Some (node_root (leaves @ [x]) l' i') else None)"
        using 1(2) unfolding partly_cached_def due_def by blast
      show "map_of (AList.update (Suc l, a) parent table) (l', i') = (if (i' + 1) * 2 ^ l' \<le> length leaves \<or>
          (i' + 1) * 2 ^ l' = length leaves + 1 \<and> l' \<le> Suc l then Some (node_root (leaves @ [x]) l' i') else None)"
      proof (cases "(l', i') = (Suc l, a)")
        case True
        then show ?thesis using p up by simp
      next
        case False
        then have range: "(due \<and> l' \<le> Suc l) = (due \<and> l' \<le> l)" using only unfolding due_def le_Suc_eq by blast
        have "map_of (AList.update (Suc l, a) parent table) (l', i') = map_of table (l', i')" using False by auto
        then show ?thesis unfolding due_def [symmetric] range old .
      qed
    qed
    moreover have half: "i div 2 = a" using a by simp
    ultimately have "cached (leaves @ [x]) (add_parents (AList.update (l + 1, i div 2) parent table) (l + 1) (i div 2) parent)"
      using up p by (intro 1(1) [OF True parent_def]) (simp_all only: half Suc_eq_plus1)
    then show ?thesis using True by (subst add_parents.simps) (simp add: parent_def Let_def)
  next
    case False
    have "\<not> (l < l' \<and> (i' + 1) * 2 ^ l' = length leaves + 1)" for l' i'
    proof
      assume h: "l < l' \<and> (i' + 1) * 2 ^ l' = length leaves + 1"
      then obtain d where d: "l' = Suc (l + d)" using less_imp_Suc_add by blast
      have "(2 :: nat) ^ l' = 2 ^ Suc d * 2 ^ l" unfolding d by (simp add: power_add)
      then have "(i + 1) * 2 ^ l = ((i' + 1) * 2 ^ Suc d) * 2 ^ l" using h 1(3) by (metis mult.assoc)
      then have "i + 1 = (i' + 1) * 2 ^ Suc d" unfolding mult_cancel2 by simp
      then have "even (i + 1)" by simp
      with False show False by simp
    qed
    then have "cached (leaves @ [x]) table" using 1(2) by (auto simp: cached_def partly_cached_def not_le [symmetric] le_Suc_eq node_root_snoc)
    then show ?thesis using False by (subst add_parents.simps) simp
  qed
qed

lemma addExpectedLeaf_cached:
  assumes "cached leaves table"
  shows "cached (leaves @ [x]) (addExpectedLeaf table (length leaves) x)"
proof -
  have root: "x = node_root (leaves @ [x]) 0 (length leaves)" by (simp add: node_root_def)
  have "partly_cached leaves x 0 (AList.update (0, length leaves) x table)"
    unfolding partly_cached_def
  proof (intro allI)
    fix l i
    have old: "map_of table (l, i) = (if (i + 1) * 2 ^ l \<le> length leaves then Some (node_root leaves l i) else None)"
      using assms by (simp add: cached_def)
    show "map_of (AList.update (0, length leaves) x table) (l, i) =
      (if (i + 1) * 2 ^ l \<le> length leaves \<or> (i + 1) * 2 ^ l = length leaves + 1 \<and> l \<le> 0 then Some (node_root (leaves @ [x]) l i) else None)"
      using old root by (cases "(l, i) = (0, length leaves)") (auto simp: node_root_snoc)
  qed
  then show ?thesis using root unfolding addExpectedLeaf_def by (intro add_parents_cached) simp_all
qed


section \<open>Stored nodes follow the expected ones\<close>

definition table_ok :: "nodes \<Rightarrow> bool" where
  "table_ok table \<longleftrightarrow> distinct (map fst table) \<and> (\<forall>h \<in> snd ` set table. length h = 32)"

lemma insertNode_Some:
  assumes "insertNode table level index hash = Some table'" "table_ok table"
  shows "table_ok table'" "map_of table' = (map_of table)((level, index) \<mapsto> hash)" "map_of table (level, index) = None" "length table' = length table + 1"
proof -
  have t: "table' = ((level, index), hash) # table" "(level, index) \<notin> fst ` set table" "length hash = 32"
    using assms(1) by (auto simp: insertNode_def split: if_splits)
  show "table_ok table'" using assms(2) t by (auto simp: table_ok_def)
  show "map_of table' = (map_of table)((level, index) \<mapsto> hash)" using t(1) by (simp add: fun_eq_iff)
  show "map_of table (level, index) = None" using t(2) by (simp add: map_of_eq_None_iff)
  show "length table' = length table + 1" using t(1) by simp
qed

text \<open>A table and the expected map that agree: the same coordinates with the same hashes, and as many rows.\<close>

definition agrees :: "nodes \<Rightarrow> nodes \<Rightarrow> bool" where
  "agrees table expected \<longleftrightarrow> table_ok table \<and> distinct (map fst expected) \<and> map_of table = map_of expected"

lemma agrees_insert:
  assumes "agrees table expected" "insertNode table level index hash = Some table'"
  shows "agrees table' (AList.update (level, index) hash expected)"
  using assms insertNode_Some(1,2) [OF assms(2)] by (auto simp: agrees_def distinct_update)

lemma insert_parents_agrees:
  "agrees table expected \<Longrightarrow> insert_parents table level index current = Some table' \<Longrightarrow> agrees table' (add_parents expected level index current)"
proof (induction table level index current arbitrary: expected table' rule: insert_parents.induct)
  case (1 table level index current)
  show ?case
  proof (cases "odd index")
    case True
    with 1(3) obtain left t where l: "readNode table level (index - 1) = Some left"
        "insertNode table (level + 1) (index div 2) (MerkleNodeHash left current) = Some t"
        "insert_parents t (level + 1) (index div 2) (MerkleNodeHash left current) = Some table'"
      by (subst (asm) insert_parents.simps) (auto simp: Let_def split: option.splits)
    have "map_of expected (level, index - 1) = Some left"
      using l(1) 1(2) by (auto simp: readNode_def agrees_def split: option.splits if_splits)
    then have e: "expectedNode expected (level, index - 1) = left" by (simp add: expectedNode_def)
    have "agrees table' (add_parents (AList.update (level + 1, index div 2) (MerkleNodeHash left current) expected) (level + 1) (index div 2) (MerkleNodeHash left current))"
      using 1(1) [OF True l(1) refl l(2) agrees_insert [OF 1(2) l(2)] l(3)] .
    then show ?thesis using True e by (subst add_parents.simps) (simp add: Let_def)
  next
    case False
    then show ?thesis using 1(2,3) by (subst add_parents.simps) (simp add: insert_parents.simps)
  qed
qed

lemma insertMerkleLeaf_agrees:
  assumes "agrees table expected" "insertMerkleLeaf table i leaf = Some table'"
  shows "agrees table' (addExpectedLeaf expected i leaf)"
proof -
  obtain t where t: "insertNode table 0 i leaf = Some t" "insert_parents t 0 i leaf = Some table'"
    using assms(2) by (auto simp: insertMerkleLeaf_def split: option.splits)
  show ?thesis using insert_parents_agrees [OF agrees_insert [OF assms(1) t(1)] t(2)] by (simp add: addExpectedLeaf_def)
qed

lemma verifyStoredNodes_iff:
  assumes "distinct (map fst expected)" "distinct (map fst table)"
  shows "verifyStoredNodes table expected \<longleftrightarrow> agrees table expected"
proof
  assume v: "verifyStoredNodes table expected"
  have rows: "map_of expected c = Some h \<and> length h = 32" if "(c, h) \<in> set table" for c h
    using v that by (auto simp: verifyStoredNodes_def list_all_iff)
  then have sub: "fst ` set table \<subseteq> fst ` set expected" by (force dest: map_of_SomeD)
  have "card (fst ` set table) = length table" "card (fst ` set expected) = length expected"
    using assms by (metis distinct_card length_map list.set_map)+
  then have "fst ` set table = fst ` set expected"
    using v sub by (intro card_subset_eq) (auto simp: verifyStoredNodes_def)
  then have "map_of table c = map_of expected c" for c
  proof (cases "map_of table c")
    case None
    then show ?thesis using \<open>fst ` set table = fst ` set expected\<close> by (metis map_of_eq_None_iff)
  next
    case (Some h)
    then show ?thesis using rows [OF map_of_SomeD [OF Some]] by simp
  qed
  then show "agrees table expected" using assms rows by (auto simp: agrees_def table_ok_def fun_eq_iff)
next
  assume a: "agrees table expected"
  then have eq: "map_of table = map_of expected" by (simp add: agrees_def)
  then have "dom (map_of table) = dom (map_of expected)" by simp
  then have "fst ` set table = fst ` set expected" by (simp add: dom_map_of_conv_image_fst)
  then have "length table = length expected" using assms by (metis distinct_card length_map list.set_map)
  moreover have "map_of expected c = Some h \<and> length h = 32" if "(c, h) \<in> set table" for c h
    using that assms(2) eq a by (force simp: agrees_def table_ok_def simp flip: eq)
  ultimately show "verifyStoredNodes table expected" by (auto simp: verifyStoredNodes_def list_all_iff)
qed

section \<open>Reading the tree from the cache\<close>

lemma length_MerkleRoot: "\<forall>h \<in> set leaves. length h = 32 \<Longrightarrow> length (MerkleRoot leaves) = 32"
proof (induction leaves rule: MerkleRoot.induct)
  case (1 leaves)
  then show ?case by (subst MerkleRoot.simps) (auto simp: EmptyMerkleRoot_def MerkleNodeHash_def Let_def)
qed

lemma TrailingZeros_power: "TrailingZeros (2 ^ j) = j"
proof (induction j)
  case (Suc j)
  then show ?case by (subst TrailingZeros.simps) simp
qed (simp add: TrailingZeros.simps)

text \<open>A slice of the leaves and its split.\<close>

definition leaf_range :: "Hash list \<Rightarrow> nat \<Rightarrow> nat \<Rightarrow> Hash list" where
  "leaf_range leaves start sz = take sz (drop start leaves)"

lemma length_leaf_range [simp]: "start + sz \<le> length leaves \<Longrightarrow> length (leaf_range leaves start sz) = sz"
  by (simp add: leaf_range_def)

lemma leaf_range_split:
  assumes "1 < sz" "start + sz \<le> length leaves"
  defines "k \<equiv> largestPowerLessThan sz"
  shows "take k (leaf_range leaves start sz) = leaf_range leaves start k" "drop k (leaf_range leaves start sz) = leaf_range leaves (start + k) (sz - k)"
    "start + k \<le> length leaves" "start + k + (sz - k) \<le> length leaves" "k < sz" "0 < k"
    "MerkleRoot (leaf_range leaves start sz) = MerkleNodeHash (MerkleRoot (leaf_range leaves start k)) (MerkleRoot (leaf_range leaves (start + k) (sz - k)))"
proof -
  show k: "k < sz" "0 < k" using split_less [OF assms(1)] by (simp_all add: k_def)
  show "take k (leaf_range leaves start sz) = leaf_range leaves start k" "drop k (leaf_range leaves start sz) = leaf_range leaves (start + k) (sz - k)"
    using k by (simp_all add: leaf_range_def drop_take add.commute)
  moreover have "MerkleRoot (leaf_range leaves start sz) = MerkleNodeHash (MerkleRoot (take k (leaf_range leaves start sz))) (MerkleRoot (drop k (leaf_range leaves start sz)))"
    using assms(1,2) by (subst MerkleRoot.simps) (auto simp: Let_def k_def [symmetric] leaf_range_def)
  ultimately show "MerkleRoot (leaf_range leaves start sz) = MerkleNodeHash (MerkleRoot (leaf_range leaves start k)) (MerkleRoot (leaf_range leaves (start + k) (sz - k)))" by simp
  show "start + k \<le> length leaves" "start + k + (sz - k) \<le> length leaves" using k assms(2) by simp_all
qed

lemma aligned_range:
  assumes "cached leaves table" "0 < sz" "sz AND (sz - 1) = 0" "start mod sz = 0" "start + sz \<le> length leaves"
  shows "map_of table (TrailingZeros sz, start div sz) = Some (MerkleRoot (leaf_range leaves start sz))"
proof -
  obtain j where j: "sz = 2 ^ j" using power_of_two_test [OF assms(2)] assms(3) by blast
  have start: "start div sz * sz = start" using assms(4) by (metis add.right_neutral div_mult_mod_eq)
  then have "(start div sz + 1) * 2 ^ j \<le> length leaves" using assms(5) j by simp
  from cachedD [OF assms(1) this] show ?thesis using j start by (simp add: TrailingZeros_power node_root_def leaf_range_def)
qed


text \<open>Leaves a ledger can have: hashes, at most as many as sequence numbers.\<close>

definition leaves_ok :: "Hash list \<Rightarrow> bool" where
  "leaves_ok leaves \<longleftrightarrow> length leaves \<le> MaxJSONSafeSequence \<and> (\<forall>h \<in> set leaves. length h = 32)"

lemma leaves_ok_range: "leaves_ok leaves \<Longrightarrow> length (MerkleRoot (leaf_range leaves start sz)) = 32"
  by (intro length_MerkleRoot) (auto simp: leaves_ok_def leaf_range_def dest: in_set_takeD in_set_dropD)

lemma subtreeHash_cached:
  assumes "cached leaves table" "leaves_ok leaves"
  shows "start + sz \<le> length leaves \<Longrightarrow> subtreeHash table start sz = Some (MerkleRoot (leaf_range leaves start sz))"
proof (induction sz arbitrary: start rule: less_induct)
  case (less sz)
  have bound: "\<not> (start > MaxJSONSafeSequence \<or> sz > MaxJSONSafeSequence \<or> start > MaxJSONSafeSequence - sz)"
    using less.prems assms(2) by (auto simp: leaves_ok_def)
  consider (Empty) "sz = 0" | (Aligned) "0 < sz" "sz AND (sz - 1) = 0 \<and> start mod sz = 0" | (Split) "1 < sz" "\<not> (sz AND (sz - 1) = 0 \<and> start mod sz = 0)"
    using power_of_two_test [of sz] by (metis One_nat_def gr0I less_one linorder_neqE_nat mod_by_1 power_0 zero_less_one One_nat_def)
  then show ?case
  proof cases
    case Empty
    then show ?thesis by (subst subtreeHash.simps) (simp add: leaf_range_def MerkleRoot.simps)
  next
    case Aligned
    have "map_of table (TrailingZeros sz, start div sz) = Some (MerkleRoot (leaf_range leaves start sz))"
      by (rule aligned_range [OF assms(1)]) (use Aligned less.prems in simp_all)
    then show ?thesis using Aligned bound leaves_ok_range [OF assms(2)] by (subst subtreeHash.simps) (simp add: readNode_def)
  next
    case Split
    note s = leaf_range_split [OF Split(1) less.prems]
    have "subtreeHash table start (largestPowerLessThan sz) = Some (MerkleRoot (leaf_range leaves start (largestPowerLessThan sz)))"
      by (rule less.IH) (use s in auto)
    moreover have "subtreeHash table (start + largestPowerLessThan sz) (sz - largestPowerLessThan sz) =
        Some (MerkleRoot (leaf_range leaves (start + largestPowerLessThan sz) (sz - largestPowerLessThan sz)))"
      by (rule less.IH) (use s in auto)
    ultimately show ?thesis using Split bound s(7) by (subst subtreeHash.simps) (auto simp: Let_def)
  qed
qed

lemma expectedSubtree_cached:
  assumes "cached leaves table"
  shows "0 < sz \<Longrightarrow> start + sz \<le> length leaves \<Longrightarrow> expectedSubtree table start sz = MerkleRoot (leaf_range leaves start sz)"
proof (induction sz arbitrary: start rule: less_induct)
  case (less sz)
  consider (Aligned) "sz AND (sz - 1) = 0 \<and> start mod sz = 0" | (Split) "1 < sz" "\<not> (sz AND (sz - 1) = 0 \<and> start mod sz = 0)"
    using power_of_two_test [of sz] less.prems(1) by (metis One_nat_def less_one linorder_neqE_nat mod_by_1 power_0 not_gr_zero)
  then show ?case
  proof cases
    case Aligned
    have "map_of table (TrailingZeros sz, start div sz) = Some (MerkleRoot (leaf_range leaves start sz))"
      by (rule aligned_range [OF assms]) (use Aligned less.prems in simp_all)
    with Aligned show ?thesis by (subst expectedSubtree.simps) (simp add: expectedNode_def)
  next
    case Split
    note s = leaf_range_split [OF Split(1) less.prems(2)]
    have "expectedSubtree table start (largestPowerLessThan sz) = MerkleRoot (leaf_range leaves start (largestPowerLessThan sz))"
      by (rule less.IH) (use s in auto)
    moreover have "expectedSubtree table (start + largestPowerLessThan sz) (sz - largestPowerLessThan sz) =
        MerkleRoot (leaf_range leaves (start + largestPowerLessThan sz) (sz - largestPowerLessThan sz))"
      by (rule less.IH) (use s in auto)
    ultimately show ?thesis using Split s(7) by (subst expectedSubtree.simps) (auto simp: Let_def)
  qed
qed

lemma rootFromExpected_cached:
  assumes "cached leaves table"
  shows "rootFromExpected table (length leaves) = MerkleRoot leaves"
  using expectedSubtree_cached [OF assms, of "length leaves" 0]
  by (cases leaves) (simp_all add: rootFromExpected_def leaf_range_def MerkleRoot.simps [of "[]"])

lemma inclusionPath_cached:
  assumes "cached leaves table" "leaves_ok leaves"
  shows "index < sz \<Longrightarrow> start + sz \<le> length leaves \<Longrightarrow>
    inclusionPath table start sz index path = Some (buildInclusionPath (leaf_range leaves start sz) index path)"
proof (induction sz arbitrary: start index path rule: less_induct)
  case (less sz)
  show ?case
  proof (cases "1 < sz")
    case False
    then show ?thesis using less.prems(2) by (subst inclusionPath.simps, subst buildInclusionPath.simps) simp
  next
    case True
    note s = leaf_range_split [OF True less.prems(2)]
    define k where "k = largestPowerLessThan sz"
    have left: "inclusionPath table start k index path = Some (buildInclusionPath (leaf_range leaves start k) index path)" if "index < k"
      by (rule less.IH) (use s that in \<open>auto simp: k_def\<close>)
    have right: "inclusionPath table (start + k) (sz - k) (index - k) path = Some (buildInclusionPath (leaf_range leaves (start + k) (sz - k)) (index - k) path)" if "\<not> index < k"
      by (rule less.IH) (use s that less.prems(1) in \<open>auto simp: k_def\<close>)
    have hashes: "subtreeHash table (start + k) (sz - k) = Some (MerkleRoot (leaf_range leaves (start + k) (sz - k)))"
        "subtreeHash table start k = Some (MerkleRoot (leaf_range leaves start k))"
      using subtreeHash_cached [OF assms] s by (simp_all add: k_def)
    have b: "buildInclusionPath (leaf_range leaves start sz) index path = (if index < k
        then buildInclusionPath (leaf_range leaves start k) index path @ [MerkleRoot (leaf_range leaves (start + k) (sz - k))]
        else buildInclusionPath (leaf_range leaves (start + k) (sz - k)) (index - k) path @ [MerkleRoot (leaf_range leaves start k)])"
      using True s(1,2) less.prems(2) by (subst buildInclusionPath.simps) (simp add: Let_def k_def)
    show ?thesis unfolding b using True left right hashes by (subst inclusionPath.simps) (simp add: Let_def k_def [symmetric])
  qed
qed

lemma consistencyPath_cached:
  assumes "cached leaves table" "leaves_ok leaves"
  shows "m \<le> sz \<Longrightarrow> start + sz \<le> length leaves \<Longrightarrow>
    consistencyPath table start sz m complete path = Some (buildConsistencyPath (leaf_range leaves start sz) m complete path)"
proof (induction sz arbitrary: start m complete path rule: less_induct)
  case (less sz)
  consider (Full) "m = sz" | (Small) "m \<noteq> sz" "sz \<le> 1" | (Split) "m \<noteq> sz" "1 < sz" by linarith
  then show ?case
  proof cases
    case Full
    then show ?thesis using less.prems subtreeHash_cached [OF assms less.prems(2)]
      by (subst consistencyPath.simps, subst buildConsistencyPath.simps) simp
  next
    case Small
    then show ?thesis using less.prems by (subst consistencyPath.simps, subst buildConsistencyPath.simps) simp
  next
    case Split
    note s = leaf_range_split [OF Split(2) less.prems(2)]
    define k where "k = largestPowerLessThan sz"
    have left: "consistencyPath table start k m complete path = Some (buildConsistencyPath (leaf_range leaves start k) m complete path)" if "m \<le> k"
      by (rule less.IH) (use s that in \<open>auto simp: k_def\<close>)
    have right: "consistencyPath table (start + k) (sz - k) (m - k) False path = Some (buildConsistencyPath (leaf_range leaves (start + k) (sz - k)) (m - k) False path)" if "\<not> m \<le> k"
      by (rule less.IH) (use s that less.prems(1) in \<open>auto simp: k_def\<close>)
    have hashes: "subtreeHash table (start + k) (sz - k) = Some (MerkleRoot (leaf_range leaves (start + k) (sz - k)))"
        "subtreeHash table start k = Some (MerkleRoot (leaf_range leaves start k))"
      using subtreeHash_cached [OF assms] s by (simp_all add: k_def)
    have b: "buildConsistencyPath (leaf_range leaves start sz) m complete path = (if m \<le> k
        then buildConsistencyPath (leaf_range leaves start k) m complete path @ [MerkleRoot (leaf_range leaves (start + k) (sz - k))]
        else buildConsistencyPath (leaf_range leaves (start + k) (sz - k)) (m - k) False path @ [MerkleRoot (leaf_range leaves start k)])"
      using Split s(1,2) less.prems(2) by (subst buildConsistencyPath.simps) (simp add: Let_def k_def)
    show ?thesis unfolding b using Split left right hashes by (subst consistencyPath.simps) (simp add: Let_def k_def [symmetric])
  qed
qed

end
