(* ===== verification/Ledger.thy ===== *)
theory Ledger
  imports Audit_Record Merkle_Cache "HOL-Library.Product_Lexorder"
begin

text \<open>
  The local security-audit ledger, \<^verbatim>\<open>internal/relay/audit/sqlite/ledger.go\<close> with the operations of
  \<^verbatim>\<open>sqlite/merkle.go\<close> that read and rebuild its tree. The database is the record \<open>LedgerDB\<close>: the row of \<^verbatim>\<open>audit_metadata\<close>, the rows of
  \<^verbatim>\<open>audit_entries\<close> in the order of their sequence numbers, the table \<^verbatim>\<open>merkle_nodes\<close> and the fence state. A statement
  fails where a constraint or trigger of the schema (the migrations of the same file) does. Each method runs in one immediate transaction: it
  commits its changes or leaves the database as it was; a \<open>ledger_io\<close> tells how the database serves it.
\<close>

section \<open>Database\<close>

record ledger_entry =
  en_sequence :: nat
  en_operation_id :: string
  en_canonical_record :: bytes
  en_record_digest :: bytes
  en_previous_chain_digest :: bytes
  en_chain_digest :: bytes
  en_canonical_receipt :: bytes

record LedgerDB =
  db_ledger_id :: string
  db_last_sequence :: nat
  db_chain_head :: bytes
  db_merkle_size :: nat
  db_merkle_root :: bytes
  db_entries :: "ledger_entry list"
  db_nodes :: nodes
  db_fence :: string

text \<open>The column check \<^verbatim>\<open>GLOB '????????-????-7???-[89ab]???-????????????' AND NOT GLOB '*[^0-9a-f-]*'\<close>.\<close>

definition glob_v7 :: "string \<Rightarrow> bool" where
  "glob_v7 s \<longleftrightarrow> length s = 36 \<and> s ! 8 = CHR ''-'' \<and> s ! 13 = CHR ''-'' \<and> s ! 14 = CHR ''7'' \<and> s ! 18 = CHR ''-'' \<and>
     s ! 19 \<in> set ''89ab'' \<and> s ! 23 = CHR ''-'' \<and> list_all (\<lambda>c. c \<in> set ''0123456789abcdef-'') s"

text \<open>\<^verbatim>\<open>INSERT INTO audit_entries\<close> under the constraints of the table.\<close>

definition insert_entry :: "LedgerDB \<Rightarrow> ledger_entry \<Rightarrow> LedgerDB option" where
  "insert_entry db e =
     (if en_sequence e = 0 \<or> en_sequence e > MaxJSONSafeSequence \<or> en_sequence e \<in> set (map en_sequence (db_entries db)) \<or>
         \<not> glob_v7 (en_operation_id e) \<or> en_operation_id e \<in> set (map en_operation_id (db_entries db)) \<or>
         length (en_canonical_record e) < 1 \<or> length (en_canonical_record e) > 4096 \<or>
         length (en_record_digest e) \<noteq> 32 \<or> en_record_digest e \<in> set (map en_record_digest (db_entries db)) \<or>
         length (en_previous_chain_digest e) \<noteq> 32 \<or>
         length (en_chain_digest e) \<noteq> 32 \<or> en_chain_digest e \<in> set (map en_chain_digest (db_entries db)) \<or>
         length (en_canonical_receipt e) < 1 \<or> length (en_canonical_receipt e) > 2048
      then None
      else Some (db\<lparr>db_entries := db_entries db @ [e]\<rparr>))"

text \<open>\<^verbatim>\<open>UPDATE audit_metadata\<close> with its \<^verbatim>\<open>WHERE\<close> clause and the trigger \<^verbatim>\<open>audit_metadata_append_only\<close>.\<close>

definition update_metadata ::
  "LedgerDB \<Rightarrow> nat \<Rightarrow> bytes \<Rightarrow> nat \<Rightarrow> bytes \<Rightarrow> nat \<Rightarrow> bytes \<Rightarrow> nat \<Rightarrow> bytes \<Rightarrow> LedgerDB option" where
  "update_metadata db sequence chainDigest sz root lastSequence previous merkleSize merkleRoot =
     (if db_last_sequence db \<noteq> lastSequence \<or> db_chain_head db \<noteq> previous \<or> db_merkle_size db \<noteq> merkleSize \<or>
         db_merkle_root db \<noteq> merkleRoot
      then None
      else if sequence \<noteq> db_last_sequence db + 1 \<or> chainDigest = db_chain_head db \<or> sz \<noteq> db_merkle_size db + 1 \<or>
         sz \<noteq> sequence \<or> root = db_merkle_root db
      then None
      else Some (db\<lparr>db_last_sequence := sequence, db_chain_head := chainDigest, db_merkle_size := sz, db_merkle_root := root\<rparr>))"

text \<open>A transaction can fail at its start, and its commit can report an error after it has taken effect.\<close>

datatype ledger_io = Unserved | CommitLost | Served

section \<open>Appending\<close>

definition lookupOperation ::
  "audit_env \<Rightarrow> LedgerDB \<Rightarrow> string \<Rightarrow> audit_error + (bytes \<times> Receipt) option" where
  "lookupOperation env db operationID =
     (case List.find (\<lambda>e. en_operation_id e = operationID) (db_entries db) of
        None \<Rightarrow> Inr None
      | Some e \<Rightarrow>
          if length (en_record_digest e) \<noteq> 32 \<or> length (en_previous_chain_digest e) \<noteq> 32 \<or> length (en_chain_digest e) \<noteq> 32
          then Inl AUnavailable
          else case NewReceipt env (db_ledger_id db) (en_sequence e) operationID (en_record_digest e)
                 (en_previous_chain_digest e) (en_chain_digest e) of
            None \<Rightarrow> Inl AUnavailable
          | Some receipt \<Rightarrow> Inr (Some (en_canonical_record e, receipt)))"

definition verifyHead :: "audit_env \<Rightarrow> LedgerDB \<Rightarrow> string \<Rightarrow> nat \<Rightarrow> bytes \<Rightarrow> bool" where
  "verifyHead env db ledgerID sequence head \<longleftrightarrow>
     (if sequence = 0 then GenesisDigest env ledgerID = Some head
      else db_entries db \<noteq> [] \<and> en_sequence (last (db_entries db)) = sequence \<and> en_chain_digest (last (db_entries db)) = head)"

definition requireAdmitted :: "LedgerDB \<Rightarrow> bool" where
  "requireAdmitted db \<longleftrightarrow> db_fence db = ''admitted''"

text \<open>The new row, its receipt and the Merkle leaf.\<close>

definition new_entry :: "audit_env \<Rightarrow> LedgerDB \<Rightarrow> string \<Rightarrow> bytes \<Rightarrow> (ledger_entry \<times> Receipt) option" where
  "new_entry env db operationID canonical =
     (let sequence = db_last_sequence db + 1; previous = db_chain_head db; recordDigest = RecordDigest canonical in
      case ChainDigest sequence previous recordDigest of
        None \<Rightarrow> None
      | Some chainDigest \<Rightarrow>
          (case NewReceipt env (db_ledger_id db) sequence operationID recordDigest previous chainDigest of
             None \<Rightarrow> None
           | Some receipt \<Rightarrow>
               (case CanonicalReceipt env receipt of
                  None \<Rightarrow> None
                | Some canonicalReceipt \<Rightarrow>
                    Some (\<lparr>en_sequence = sequence, en_operation_id = operationID, en_canonical_record = canonical,
                      en_record_digest = recordDigest, en_previous_chain_digest = previous, en_chain_digest = chainDigest,
                      en_canonical_receipt = canonicalReceipt\<rparr>, receipt))))"

definition store_entry :: "LedgerDB \<Rightarrow> ledger_entry \<Rightarrow> LedgerDB option" where
  "store_entry db e =
     (case insert_entry db e of
        None \<Rightarrow> None
      | Some db1 \<Rightarrow>
          (case MerkleLeafHash (en_sequence e) (en_chain_digest e) of
             None \<Rightarrow> None
           | Some leaf \<Rightarrow>
               (case insertMerkleLeaf (db_nodes db1) (en_sequence e - 1) leaf of
                  None \<Rightarrow> None
                | Some table \<Rightarrow>
                    (case subtreeHash table 0 (en_sequence e) of
                       None \<Rightarrow> None
                     | Some root \<Rightarrow>
                         update_metadata (db1\<lparr>db_nodes := table\<rparr>) (en_sequence e) (en_chain_digest e) (en_sequence e) root
                           (db_last_sequence db) (db_chain_head db) (db_merkle_size db) (db_merkle_root db)))))"

definition appendRecord ::
  "audit_env \<Rightarrow> LedgerDB \<Rightarrow> AuditRecord \<Rightarrow> bytes \<Rightarrow> audit_error + (LedgerDB \<times> Receipt)" where
  "appendRecord env db record canonical =
     (case lookupOperation env db (ar_OperationID record) of
        Inl e \<Rightarrow> Inl AUnavailable
      | Inr (Some (stored, receipt)) \<Rightarrow> if stored \<noteq> canonical then Inl AConflict else Inr (db, receipt)
      | Inr None \<Rightarrow>
          if length (db_chain_head db) \<noteq> 32 \<or> length (db_merkle_root db) \<noteq> 32 \<or>
             db_last_sequence db \<ge> MaxJSONSafeSequence \<or> db_merkle_size db \<noteq> db_last_sequence db
          then Inl AUnavailable
          else if \<not> verifyHead env db (db_ledger_id db) (db_last_sequence db) (db_chain_head db) then Inl AUnavailable
          else if subtreeHash (db_nodes db) 0 (db_merkle_size db) \<noteq> Some (db_merkle_root db) then Inl AUnavailable
          else case new_entry env db (ar_OperationID record) canonical of
            None \<Rightarrow> Inl AUnavailable
          | Some (e, receipt) \<Rightarrow>
              (case store_entry db e of
                 None \<Rightarrow> Inl AUnavailable
               | Some db' \<Rightarrow> Inr (db', receipt)))"

definition Ledger_Append ::
  "audit_env \<Rightarrow> ledger_io \<Rightarrow> LedgerDB \<Rightarrow> AuditRecord \<Rightarrow> LedgerDB \<times> (audit_error + Receipt)" where
  "Ledger_Append env io db record =
     (case CanonicalRecord env record of
        Inl e \<Rightarrow> (db, Inl e)
      | Inr canonical \<Rightarrow>
          if io = Unserved then (db, Inl AUnavailable)
          else if \<not> requireAdmitted db then (db, Inl AUnavailable)
          else case appendRecord env db record canonical of
            Inl e \<Rightarrow> (db, Inl e)
          | Inr (db', receipt) \<Rightarrow> (db', if io = CommitLost then Inl AUnavailable else Inr receipt))"

section \<open>Verification\<close>

record chain_state =
  cs_count :: nat
  cs_previous :: bytes
  cs_expected :: nodes

definition check_row :: "audit_env \<Rightarrow> string \<Rightarrow> chain_state \<Rightarrow> ledger_entry \<Rightarrow> chain_state option" where
  "check_row env ledgerID st e =
     (let count = cs_count st + 1 in
      if en_sequence e \<noteq> count \<or> length (en_record_digest e) \<noteq> 32 \<or> length (en_previous_chain_digest e) \<noteq> 32 \<or>
         length (en_chain_digest e) \<noteq> 32
      then None
      else if ValidateCanonicalRecord env (en_canonical_record e) \<noteq> None then None
      else
        let recordDigest = RecordDigest (en_canonical_record e) in
        if en_record_digest e \<noteq> recordDigest \<or> en_previous_chain_digest e \<noteq> cs_previous st then None
        else if ChainDigest (en_sequence e) (cs_previous st) recordDigest \<noteq> Some (en_chain_digest e) then None
        else case NewReceipt env ledgerID (en_sequence e) (en_operation_id e) recordDigest (cs_previous st) (en_chain_digest e) of
          None \<Rightarrow> None
        | Some receipt \<Rightarrow>
            if CanonicalReceipt env receipt \<noteq> Some (en_canonical_receipt e) then None
            else case MerkleLeafHash (en_sequence e) (en_chain_digest e) of
              None \<Rightarrow> None
            | Some leaf \<Rightarrow>
                Some \<lparr>cs_count = count, cs_previous = en_chain_digest e,
                  cs_expected = addExpectedLeaf (cs_expected st) (en_sequence e - 1) leaf\<rparr>)"

fun check_rows :: "audit_env \<Rightarrow> string \<Rightarrow> chain_state \<Rightarrow> ledger_entry list \<Rightarrow> chain_state option" where
  "check_rows env ledgerID st [] = Some st"
| "check_rows env ledgerID st (e # es) =
     (case check_row env ledgerID st e of None \<Rightarrow> None | Some st' \<Rightarrow> check_rows env ledgerID st' es)"

definition verifiedChainState :: "audit_env \<Rightarrow> LedgerDB \<Rightarrow> (nat \<times> nodes) option" where
  "verifiedChainState env db =
     (if length (db_chain_head db) \<noteq> 32 then None
      else case GenesisDigest env (db_ledger_id db) of
        None \<Rightarrow> None
      | Some genesis \<Rightarrow>
          (case check_rows env (db_ledger_id db) \<lparr>cs_count = 0, cs_previous = genesis, cs_expected = []\<rparr> (db_entries db) of
             None \<Rightarrow> None
           | Some st \<Rightarrow>
               if cs_count st \<noteq> db_last_sequence db \<or> db_chain_head db \<noteq> cs_previous st then None
               else Some (cs_count st, cs_expected st)))"

text \<open>\<^verbatim>\<open>Verify\<close> up to the checks of the checkpoint and recovery tables, which are other components.\<close>

definition verify_ledger :: "audit_env \<Rightarrow> LedgerDB \<Rightarrow> bool" where
  "verify_ledger env db \<longleftrightarrow>
     (case verifiedChainState env db of
        None \<Rightarrow> False
      | Some (lastSequence, expected) \<Rightarrow>
          length (db_merkle_root db) = 32 \<and> db_merkle_size db = lastSequence \<and>
          db_merkle_root db = rootFromExpected expected lastSequence \<and> verifyStoredNodes (db_nodes db) expected)"

section \<open>Reading and rebuilding the tree\<close>

definition MerkleTreeHead :: "LedgerDB \<Rightarrow> nat \<Rightarrow> TreeHead option" where
  "MerkleTreeHead db treeSize =
     (if treeSize > MaxJSONSafeSequence \<or> treeSize > db_merkle_size db then None
      else map_option (\<lambda>root. \<lparr>th_Size = treeSize, th_Root = root\<rparr>) (subtreeHash (db_nodes db) 0 treeSize))"

definition MerkleInclusionProof :: "LedgerDB \<Rightarrow> nat \<Rightarrow> nat \<Rightarrow> InclusionProof option" where
  "MerkleInclusionProof db leafIndex treeSize =
     (if treeSize = 0 \<or> treeSize > MaxJSONSafeSequence \<or> leafIndex \<ge> treeSize then None
      else if treeSize > db_merkle_size db then None
      else case inclusionPath (db_nodes db) 0 treeSize leafIndex [] of
        None \<Rightarrow> None
      | Some path \<Rightarrow>
          if length path > MaxProofNodes then None
          else Some \<lparr>ip_LeafIndex = leafIndex, ip_TreeSize = treeSize, ip_Path = path\<rparr>)"

definition MerkleConsistencyProof :: "LedgerDB \<Rightarrow> nat \<Rightarrow> nat \<Rightarrow> ConsistencyProof option" where
  "MerkleConsistencyProof db firstSize secondSize =
     (if firstSize > secondSize \<or> secondSize > MaxJSONSafeSequence then None
      else if secondSize > db_merkle_size db then None
      else if firstSize = 0 \<or> firstSize = secondSize
      then Some \<lparr>cp_FirstSize = firstSize, cp_SecondSize = secondSize, cp_Path = []\<rparr>
      else case consistencyPath (db_nodes db) 0 secondSize firstSize True [] of
        None \<Rightarrow> None
      | Some path \<Rightarrow>
          if length path > MaxProofNodes then None
          else Some \<lparr>cp_FirstSize = firstSize, cp_SecondSize = secondSize, cp_Path = path\<rparr>)"

definition MerkleLeaf :: "LedgerDB \<Rightarrow> nat \<Rightarrow> Hash option" where
  "MerkleLeaf db leafIndex =
     (if leafIndex \<ge> MaxJSONSafeSequence then None
      else case List.find (\<lambda>e. en_sequence e = leafIndex + 1) (db_entries db) of
        None \<Rightarrow> None
      | Some e \<Rightarrow> if length (en_chain_digest e) \<noteq> 32 then None else MerkleLeafHash (leafIndex + 1) (en_chain_digest e))"

fun insert_nodes :: "nodes \<Rightarrow> nodes \<Rightarrow> nodeCoordinate list \<Rightarrow> nodes option" where
  "insert_nodes expected table [] = Some table"
| "insert_nodes expected table (c # cs) =
     (case insertNode table (fst c) (snd c) (expectedNode expected c) of
        None \<Rightarrow> None
      | Some table' \<Rightarrow> insert_nodes expected table' cs)"

text \<open>The transaction of \<^verbatim>\<open>RebuildMerkle\<close>: the nodes are replaced by the expected ones, in the order of
  level and index, and the root by theirs, while the triggers that protect them are dropped.\<close>

definition rebuild_nodes :: "audit_env \<Rightarrow> ledger_io \<Rightarrow> LedgerDB \<Rightarrow> LedgerDB \<times> audit_error option" where
  "rebuild_nodes env io db =
     (if io = Unserved then (db, Some AUnavailable)
      else case verifiedChainState env db of
        None \<Rightarrow> (db, Some AUnavailable)
      | Some (sz, expected) \<Rightarrow>
          (case insert_nodes expected [] (sort (map fst expected)) of
             None \<Rightarrow> (db, Some AUnavailable)
           | Some table \<Rightarrow>
               (db\<lparr>db_nodes := table, db_merkle_size := sz, db_merkle_root := rootFromExpected expected sz\<rparr>,
                if io = CommitLost then Some AUnavailable else None)))"

text \<open>A new ledger, as the migrations create it.\<close>

definition new_ledger :: "audit_env \<Rightarrow> string \<Rightarrow> LedgerDB option" where
  "new_ledger env ledgerID = (case GenesisDigest env ledgerID of
       None \<Rightarrow> None
     | Some genesis \<Rightarrow>
         if \<not> glob_v7 ledgerID then None
         else Some \<lparr>db_ledger_id = ledgerID, db_last_sequence = 0, db_chain_head = genesis, db_merkle_size = 0,
           db_merkle_root = EmptyMerkleRoot, db_entries = [], db_nodes = [], db_fence = ''admitted''\<rparr>)"

section \<open>Verified chains\<close>

definition leaf_of :: "ledger_entry \<Rightarrow> Hash" where
  "leaf_of e = sha256 ([0] @ str_bytes (''yukh-coordination:audit-merkle-leaf:v1'' @ newline) @ put_be64 (of_nat (en_sequence e)) @ en_chain_digest e)"

definition leaf_hashes :: "LedgerDB \<Rightarrow> Hash list" where
  "leaf_hashes db = map leaf_of (db_entries db)"

lemma MerkleLeafHash_leaf_of:
  "MerkleLeafHash (en_sequence e) (en_chain_digest e) = Some leaf \<Longrightarrow> leaf = leaf_of e \<and> en_sequence e \<le> MaxJSONSafeSequence"
  by (auto simp: MerkleLeafHash_def leaf_of_def split: if_splits)

lemma check_rows_append:
  "check_rows env i st (xs @ ys) = (case check_rows env i st xs of None \<Rightarrow> None | Some st' \<Rightarrow> check_rows env i st' ys)"
  by (induction xs arbitrary: st) (auto split: option.splits)

lemma check_row_Some:
  assumes "check_row env i st e = Some st'"
  shows "en_sequence e = cs_count st + 1" "cs_count st' = cs_count st + 1" "cs_previous st' = en_chain_digest e"
    "en_previous_chain_digest e = cs_previous st" "en_record_digest e = RecordDigest (en_canonical_record e)"
    "ChainDigest (en_sequence e) (cs_previous st) (en_record_digest e) = Some (en_chain_digest e)"
    "cs_expected st' = addExpectedLeaf (cs_expected st) (cs_count st) (leaf_of e)" "cs_count st' \<le> MaxJSONSafeSequence"
    "length (en_previous_chain_digest e) = 32" "length (en_chain_digest e) = 32"
  using assms by (auto simp: check_row_def Let_def MerkleLeafHash_def leaf_of_def split: if_splits option.splits)

lemma distinct_add_parents: "distinct (map fst table) \<Longrightarrow> distinct (map fst (add_parents table l i c))"
proof (induction table l i c rule: add_parents.induct)
  case (1 table l i c)
  then show ?case by (subst add_parents.simps) (simp add: Let_def distinct_update)
qed

lemma distinct_addExpectedLeaf: "distinct (map fst table) \<Longrightarrow> distinct (map fst (addExpectedLeaf table i x))"
  by (simp add: addExpectedLeaf_def distinct_add_parents distinct_update)

text \<open>The expected nodes of a chain are the cache of its leaves.\<close>

lemma check_rows_cached:
  "check_rows env i st rows = Some st' \<Longrightarrow> cached L (cs_expected st) \<Longrightarrow> cs_count st = length L \<Longrightarrow> distinct (map fst (cs_expected st)) \<Longrightarrow>
   cached (L @ map leaf_of rows) (cs_expected st') \<and> cs_count st' = length L + length rows \<and> distinct (map fst (cs_expected st')) \<and>
   (rows \<noteq> [] \<longrightarrow> cs_count st' \<le> MaxJSONSafeSequence)"
proof (induction rows arbitrary: st L)
  case (Cons e rows)
  then obtain st1 where s: "check_row env i st e = Some st1" "check_rows env i st1 rows = Some st'" by (auto split: option.splits)
  note r = check_row_Some [OF s(1)]
  have "cached (L @ [leaf_of e]) (cs_expected st1)" using addExpectedLeaf_cached [OF Cons.prems(2)] r(7) Cons.prems(3) by simp
  moreover have "cs_count st1 = length (L @ [leaf_of e])" "distinct (map fst (cs_expected st1))"
    using r(2,7) Cons.prems(3,4) by (simp_all add: distinct_addExpectedLeaf)
  ultimately show ?case using Cons.IH [OF s(2), of "L @ [leaf_of e]"] r(8) s(2) by (cases rows) auto
qed simp

lemma cached_empty: "cached [] []"
  by (simp add: cached_def)

lemma length_leaf_of [simp]: "length (leaf_of e) = 32"
  by (simp add: leaf_of_def)

lemma verified_chain:
  assumes "verifiedChainState env db = Some (n, expected)"
  shows "n = length (db_entries db)" "n = db_last_sequence db" "cached (leaf_hashes db) expected" "distinct (map fst expected)" "leaves_ok (leaf_hashes db)"
proof -
  obtain genesis st where st: "check_rows env (db_ledger_id db) \<lparr>cs_count = 0, cs_previous = genesis, cs_expected = []\<rparr> (db_entries db) = Some st"
      "n = cs_count st" "expected = cs_expected st" "cs_count st = db_last_sequence db"
    using assms by (auto simp: verifiedChainState_def split: if_splits option.splits)
  have c: "cached (map leaf_of (db_entries db)) (cs_expected st) \<and> cs_count st = length (db_entries db) \<and> distinct (map fst (cs_expected st)) \<and>
      (db_entries db \<noteq> [] \<longrightarrow> cs_count st \<le> MaxJSONSafeSequence)"
    using check_rows_cached [OF st(1), of "[]"] cached_empty by auto
  then show "n = length (db_entries db)" "n = db_last_sequence db" "cached (leaf_hashes db) expected" "distinct (map fst expected)"
    using st by (simp_all add: leaf_hashes_def)
  show "leaves_ok (leaf_hashes db)" using c by (cases "db_entries db") (auto simp: leaves_ok_def leaf_hashes_def)
qed

text \<open>The primary key of \<^verbatim>\<open>merkle_nodes\<close>.\<close>

definition nodes_keyed :: "LedgerDB \<Rightarrow> bool" where
  "nodes_keyed db \<longleftrightarrow> distinct (map fst (db_nodes db))"

lemma verified_ledger:
  assumes "verify_ledger env db" "nodes_keyed db"
  obtains expected where "verifiedChainState env db = Some (db_last_sequence db, expected)" "agrees (db_nodes db) expected"
    "cached (leaf_hashes db) (db_nodes db)" "leaves_ok (leaf_hashes db)" "db_last_sequence db = length (db_entries db)"
    "db_merkle_size db = db_last_sequence db" "db_merkle_root db = MerkleRoot (leaf_hashes db)"
proof -
  obtain n expected where v: "verifiedChainState env db = Some (n, expected)" "db_merkle_size db = n"
      "db_merkle_root db = rootFromExpected expected n" "verifyStoredNodes (db_nodes db) expected"
    using assms(1) by (auto simp: verify_ledger_def split: option.splits)
  note c = verified_chain [OF v(1)]
  have a: "agrees (db_nodes db) expected" using v(4) verifyStoredNodes_iff [OF c(4)] assms(2) by (simp add: nodes_keyed_def)
  have "cached (leaf_hashes db) (db_nodes db)" using c(3) a by (simp add: cached_def agrees_def)
  moreover have "db_merkle_root db = MerkleRoot (leaf_hashes db)"
    using rootFromExpected_cached [OF c(3)] v(3) c(1) by (simp add: leaf_hashes_def)
  ultimately show ?thesis using that [of expected] v c a by simp
qed

section \<open>Appending keeps the ledger verified\<close>

lemma new_entry_Some:
  assumes "new_entry env db op canonical = Some (e, receipt)"
  shows "en_sequence e = db_last_sequence db + 1" "en_operation_id e = op" "en_canonical_record e = canonical"
    "en_record_digest e = RecordDigest canonical" "en_previous_chain_digest e = db_chain_head db"
    "ChainDigest (db_last_sequence db + 1) (db_chain_head db) (RecordDigest canonical) = Some (en_chain_digest e)"
    "NewReceipt env (db_ledger_id db) (db_last_sequence db + 1) op (RecordDigest canonical) (db_chain_head db) (en_chain_digest e) = Some receipt"
    "CanonicalReceipt env receipt = Some (en_canonical_receipt e)"
  using assms by (auto simp: new_entry_def Let_def split: option.splits)

lemma insert_entry_Some: "insert_entry db e = Some db' \<Longrightarrow> db' = db\<lparr>db_entries := db_entries db @ [e]\<rparr>"
  unfolding insert_entry_def by (metis option.distinct(1) option.inject)

lemma update_metadata_Some: "update_metadata db s c z r ls p ms mr = Some db' \<Longrightarrow>
    db' = db\<lparr>db_last_sequence := s, db_chain_head := c, db_merkle_size := z, db_merkle_root := r\<rparr>"
  unfolding update_metadata_def by (metis option.distinct(1) option.inject)

lemma store_entry_Some:
  assumes "store_entry db e = Some db'"
  obtains leaf table root where "MerkleLeafHash (en_sequence e) (en_chain_digest e) = Some leaf"
    "insertMerkleLeaf (db_nodes db) (en_sequence e - 1) leaf = Some table" "subtreeHash table 0 (en_sequence e) = Some root"
    "db' = db\<lparr>db_entries := db_entries db @ [e], db_nodes := table, db_last_sequence := en_sequence e, db_chain_head := en_chain_digest e,
       db_merkle_size := en_sequence e, db_merkle_root := root\<rparr>"
  using assms by (auto simp: store_entry_def split: option.splits dest!: insert_entry_Some update_metadata_Some)

lemma length_ChainDigest: "ChainDigest n p r = Some c \<Longrightarrow> length c = 32"
  by (auto simp: ChainDigest_def split: if_splits)

lemma store_new_entry_verified:
  assumes verified: "verify_ledger env db" "nodes_keyed db" and head: "length (db_chain_head db) = 32"
    and new: "new_entry env db op canonical = Some (e, receipt)" and stored: "store_entry db e = Some db'"
    and canonical: "ValidateCanonicalRecord env canonical = None"
  shows "verify_ledger env db' \<and> nodes_keyed db'"
proof -
  obtain expected where v: "verifiedChainState env db = Some (db_last_sequence db, expected)" "agrees (db_nodes db) expected"
    by (rule verified_ledger [OF verified])
  note n = new_entry_Some [OF new] and c = verified_chain [OF v(1)]
  obtain leaf table root where s: "MerkleLeafHash (en_sequence e) (en_chain_digest e) = Some leaf"
      "insertMerkleLeaf (db_nodes db) (en_sequence e - 1) leaf = Some table" "subtreeHash table 0 (en_sequence e) = Some root"
      "db' = db\<lparr>db_entries := db_entries db @ [e], db_nodes := table, db_last_sequence := en_sequence e, db_chain_head := en_chain_digest e,
         db_merkle_size := en_sequence e, db_merkle_root := root\<rparr>"
    by (rule store_entry_Some [OF stored])
  obtain genesis st where g: "GenesisDigest env (db_ledger_id db) = Some genesis"
      "check_rows env (db_ledger_id db) \<lparr>cs_count = 0, cs_previous = genesis, cs_expected = []\<rparr> (db_entries db) = Some st"
      "cs_count st = db_last_sequence db" "cs_previous st = db_chain_head db" "cs_expected st = expected"
    using v(1) by (auto simp: verifiedChainState_def split: if_splits option.splits)
  have len: "length (en_chain_digest e) = 32" using length_ChainDigest [OF n(6)] .
  have row: "check_row env (db_ledger_id db) st e = Some \<lparr>cs_count = db_last_sequence db + 1, cs_previous = en_chain_digest e,
      cs_expected = addExpectedLeaf expected (db_last_sequence db) leaf\<rparr>"
    unfolding check_row_def using n g head len canonical s(1) by (simp add: RecordDigest_def)
  define expected' where "expected' = addExpectedLeaf expected (db_last_sequence db) leaf"
  have chain: "verifiedChainState env db' = Some (db_last_sequence db + 1, expected')"
    unfolding verifiedChainState_def s(4) using g row len n(1) by (simp add: check_rows_append expected'_def)
  have "agrees table expected'" using insertMerkleLeaf_agrees [OF v(2) s(2)] n(1) by (simp add: expected'_def)
  then have nodes: "verifyStoredNodes table expected'" "distinct (map fst table)"
    using verifyStoredNodes_iff by (auto simp: agrees_def table_ok_def)
  note c' = verified_chain [OF chain]
  have "cached (leaf_hashes db') table" using c'(3) \<open>agrees table expected'\<close> by (simp add: cached_def agrees_def)
  from subtreeHash_cached [OF this c'(5), of 0 "en_sequence e"] s(3) c'(1) n(1) have "root = MerkleRoot (leaf_hashes db')"
    by (simp add: leaf_hashes_def leaf_range_def)
  moreover have "rootFromExpected expected' (db_last_sequence db + 1) = MerkleRoot (leaf_hashes db')"
    using rootFromExpected_cached [OF c'(3)] c'(1) by (simp add: leaf_hashes_def)
  moreover have "length (MerkleRoot (leaf_hashes db')) = 32" using c'(5) by (intro length_MerkleRoot) (simp add: leaves_ok_def)
  ultimately show ?thesis using chain nodes n(1) unfolding verify_ledger_def nodes_keyed_def by (simp add: s(4))
qed

lemma appended:
  assumes "Ledger_Append env io db record = (db', Inr receipt)"
  obtains (Known) canonical where "CanonicalRecord env record = Inr canonical" "db' = db"
      "lookupOperation env db (ar_OperationID record) = Inr (Some (canonical, receipt))" "requireAdmitted db"
  | (New) canonical e where "CanonicalRecord env record = Inr canonical" "lookupOperation env db (ar_OperationID record) = Inr None"
      "length (db_chain_head db) = 32" "new_entry env db (ar_OperationID record) canonical = Some (e, receipt)" "store_entry db e = Some db'" "requireAdmitted db"
  using assms by (auto simp: Ledger_Append_def appendRecord_def split: sum.splits if_splits option.splits)

text \<open>A call that reports an error leaves the ledger as it was or has stored the row all the same.\<close>

lemma append_changes:
  assumes "Ledger_Append env io db record = (db', x)"
  obtains (Same) "db' = db"
  | (New) canonical e receipt where "CanonicalRecord env record = Inr canonical" "length (db_chain_head db) = 32"
      "new_entry env db (ar_OperationID record) canonical = Some (e, receipt)" "store_entry db e = Some db'"
  using assms by (auto simp: Ledger_Append_def appendRecord_def split: sum.splits if_splits option.splits)

section \<open>Properties\<close>

text \<open>
  C34: appending keeps the ledger verifiable. When the ledger passes verification, it still does after an
  append, also after one that reports an error: the new row continues the hash chain, its stored text is the one
  verification demands, and the incrementally updated Merkle nodes and root are those of the longer chain.
\<close>

theorem ledger_append_verified:
  assumes "verify_ledger env db" "nodes_keyed db" "Ledger_Append env io db record = (db', x)"
    and "reads_back env record" "length (ar_DPoPThumbprint record) = 32" "length (ar_JWKSSetDigest record) = 32"
  shows "verify_ledger env db' \<and> nodes_keyed db'"
  using assms(3)
proof (cases rule: append_changes)
  case Same
  then show ?thesis using assms by simp
next
  case (New canonical e receipt)
  from canonical_record_validates [OF New(1) assms(4-6)] show ?thesis
    by (rule store_new_entry_verified [OF assms(1,2) New(2-4)])
qed

text \<open>A ledger with one entry, all digests as the code computes them.\<close>

definition ex_id :: string where
  "ex_id = ''00000000-0000-7000-8000-000000000000''"

definition ex_ledger_env :: audit_env where
  "ex_ledger_env = ex_audit_env\<lparr>ae_uuid_Parse := (\<lambda>s. Some (replicate 16 0x70)),
     ae_uuid_String := (\<lambda>_. ex_id), ae_decodeRecord := (\<lambda>_. Some (ex_audit_value\<lparr>cr_OperationID := ex_id\<rparr>))\<rparr>"

definition ex_ledger_record :: AuditRecord where
  "ex_ledger_record = ex_record\<lparr>ar_OperationID := ex_id\<rparr>"

definition ex_genesis :: bytes where
  "ex_genesis = sha256 (str_bytes (''yukh-coordination:audit-chain-genesis:v1'' @ newline) @ replicate 16 0x70)"

definition ex_entry :: ledger_entry where
  "ex_entry = \<lparr>en_sequence = 1, en_operation_id = ex_id, en_canonical_record = [1], en_record_digest = RecordDigest [1],
     en_previous_chain_digest = ex_genesis, en_chain_digest = the (ChainDigest 1 ex_genesis (RecordDigest [1])), en_canonical_receipt = [2]\<rparr>"

definition ex_ledger :: LedgerDB where
  "ex_ledger = \<lparr>db_ledger_id = ex_id, db_last_sequence = 1, db_chain_head = en_chain_digest ex_entry, db_merkle_size = 1,
     db_merkle_root = leaf_of ex_entry, db_entries = [ex_entry], db_nodes = [((0, 0), leaf_of ex_entry)], db_fence = ''admitted''\<rparr>"

lemma ex_uuid: "audit_canonicalV7 ex_ledger_env ex_id = Some (replicate 16 0x70)"
proof -
  have "unat (drop_bit 4 (0x70 :: byte)) = 7" by code_simp
  then show ?thesis by (simp add: audit_canonicalV7_def ex_ledger_env_def)
qed

lemma ex_ledger_canonical: "CanonicalRecord ex_ledger_env ex_ledger_record = Inr [1]"
  by code_simp

lemma ex_ledger_reads_back: "reads_back ex_ledger_env ex_ledger_record"
proof -
  have "canonical_value ex_ledger_env ex_ledger_record = ex_audit_value\<lparr>cr_OperationID := ex_id\<rparr>" by code_simp
  then show ?thesis
    by (simp add: reads_back_def ex_ledger_env_def ex_audit_env_def ex_ledger_record_def ex_record_def unixMilli_UTC_def time_UTC_def)
qed

lemma ex_ledger_lengths: "length (ar_DPoPThumbprint ex_ledger_record) = 32" "length (ar_JWKSSetDigest ex_ledger_record) = 32"
  by (simp_all add: ex_ledger_record_def ex_record_def)

lemma ex_chain: "ChainDigest 1 ex_genesis (RecordDigest [1]) = Some (en_chain_digest ex_entry)"
  by (simp add: ex_entry_def ChainDigest_def MaxJSONSafeSequence_def)

lemma ex_digest_lengths [simp]: "length ex_genesis = 32" "length (RecordDigest x) = 32" "length (en_chain_digest ex_entry) = 32"
  using length_ChainDigest [OF ex_chain] by (simp_all add: ex_genesis_def RecordDigest_def)

lemma ex_receipt:
  obtains receipt where "NewReceipt ex_ledger_env ex_id 1 ex_id (RecordDigest [1]) ex_genesis (en_chain_digest ex_entry) = Some receipt"
    "CanonicalReceipt ex_ledger_env receipt = Some [2]"
proof -
  obtain receipt where r: "NewReceipt ex_ledger_env ex_id 1 ex_id (RecordDigest [1]) ex_genesis (en_chain_digest ex_entry) = Some receipt"
    by (simp add: NewReceipt_def ex_uuid MaxJSONSafeSequence_def)
  with new_receipt_valid [OF r] have "CanonicalReceipt ex_ledger_env receipt = Some [2]"
    by (simp add: CanonicalReceipt_def ex_ledger_env_def ex_audit_env_def)
  with r that show ?thesis by blast
qed

lemma ex_ledger_verified: "verify_ledger ex_ledger_env ex_ledger" "nodes_keyed ex_ledger"
proof -
  obtain receipt where r: "NewReceipt ex_ledger_env ex_id 1 ex_id (RecordDigest [1]) ex_genesis (en_chain_digest ex_entry) = Some receipt"
    "CanonicalReceipt ex_ledger_env receipt = Some [2]" by (rule ex_receipt)
  have valid: "ValidateCanonicalRecord ex_ledger_env [1] = None"
    by (rule canonical_record_validates [OF ex_ledger_canonical ex_ledger_reads_back ex_ledger_lengths])
  have leaf: "MerkleLeafHash 1 (en_chain_digest ex_entry) = Some (leaf_of ex_entry)"
    by (simp add: MerkleLeafHash_def leaf_of_def ex_entry_def MaxJSONSafeSequence_def)
  have sel: "en_sequence ex_entry = 1" "en_operation_id ex_entry = ex_id" "en_canonical_record ex_entry = [1]" "en_record_digest ex_entry = RecordDigest [1]"
      "en_previous_chain_digest ex_entry = ex_genesis" "en_canonical_receipt ex_entry = [2]" by (simp_all add: ex_entry_def)
  have "check_row ex_ledger_env ex_id \<lparr>cs_count = 0, cs_previous = ex_genesis, cs_expected = []\<rparr> ex_entry =
      Some \<lparr>cs_count = 1, cs_previous = en_chain_digest ex_entry, cs_expected = [((0, 0), leaf_of ex_entry)]\<rparr>"
    using r valid leaf ex_chain by (simp add: check_row_def sel addExpectedLeaf_def add_parents.simps)
  moreover have "GenesisDigest ex_ledger_env ex_id = Some ex_genesis" by (simp add: GenesisDigest_def ex_uuid ex_genesis_def)
  ultimately have "verifiedChainState ex_ledger_env ex_ledger = Some (1, [((0, 0), leaf_of ex_entry)])"
    by (simp add: verifiedChainState_def ex_ledger_def)
  then show "verify_ledger ex_ledger_env ex_ledger"
    by (simp add: verify_ledger_def ex_ledger_def rootFromExpected_def expectedSubtree.simps expectedNode_def TrailingZeros.simps verifyStoredNodes_def)
  show "nodes_keyed ex_ledger" by (simp add: nodes_keyed_def ex_ledger_def)
qed

lemma ex_ledger_append:
  obtains receipt where "Ledger_Append ex_ledger_env Served ex_ledger ex_ledger_record = (ex_ledger, Inr receipt)"
proof -
  obtain receipt where r: "NewReceipt ex_ledger_env ex_id 1 ex_id (RecordDigest [1]) ex_genesis (en_chain_digest ex_entry) = Some receipt" by (rule ex_receipt)
  have "lookupOperation ex_ledger_env ex_ledger ex_id = Inr (Some ([1], receipt))"
    using r by (simp add: lookupOperation_def ex_ledger_def ex_entry_def ex_digest_lengths(3) [unfolded ex_entry_def, simplified])
  then have "Ledger_Append ex_ledger_env Served ex_ledger ex_ledger_record = (ex_ledger, Inr receipt)"
    using ex_ledger_canonical by (simp add: Ledger_Append_def appendRecord_def requireAdmitted_def ex_ledger_record_def ex_ledger_def)
  with that show ?thesis by blast
qed

theorem ledger_append_verified_witness: "verify_ledger ex_ledger_env ex_ledger \<and> nodes_keyed ex_ledger"
proof -
  obtain receipt where "Ledger_Append ex_ledger_env Served ex_ledger ex_ledger_record = (ex_ledger, Inr receipt)" by (rule ex_ledger_append)
  from ledger_append_verified [OF ex_ledger_verified this ex_ledger_reads_back ex_ledger_lengths] show ?thesis .
qed


lemma find_snoc: "List.find P xs = None \<Longrightarrow> P x \<Longrightarrow> List.find P (xs @ [x]) = Some x"
  by (induction xs) (auto split: if_splits)

text \<open>
  Appending is idempotent. A record that was appended is answered with the same receipt when it is appended
  again, and the ledger is not changed.
\<close>

theorem ledger_append_idempotent:
  assumes "Ledger_Append env io db record = (db', Inr receipt)"
  shows "Ledger_Append env Served db' record = (db', Inr receipt)"
  using assms
proof (cases rule: appended)
  case (Known canonical)
  then show ?thesis by (simp add: Ledger_Append_def appendRecord_def)
next
  case (New canonical e)
  note n = new_entry_Some [OF New(4)]
  obtain table root where "db' = db\<lparr>db_entries := db_entries db @ [e], db_nodes := table, db_last_sequence := en_sequence e,
      db_chain_head := en_chain_digest e, db_merkle_size := en_sequence e, db_merkle_root := root\<rparr>"
    by (rule store_entry_Some [OF New(5)])
  then have db': "db_entries db' = db_entries db @ [e]" "db_ledger_id db' = db_ledger_id db" "db_fence db' = db_fence db" by simp_all
  have "List.find (\<lambda>e. en_operation_id e = ar_OperationID record) (db_entries db) = None"
    using New(2) by (auto simp: lookupOperation_def split: option.splits if_splits)
  then have "List.find (\<lambda>e. en_operation_id e = ar_OperationID record) (db_entries db') = Some e"
    unfolding db' by (rule find_snoc) (simp add: n(2))
  then have "lookupOperation env db' (ar_OperationID record) = Inr (Some (canonical, receipt))"
    using n New(3) length_ChainDigest [OF n(6)] by (simp add: lookupOperation_def db' RecordDigest_def)
  then show ?thesis using New(1,6) by (simp add: Ledger_Append_def appendRecord_def requireAdmitted_def db')
qed

lemma check_rows_sequence:
  "check_rows env i st rows = Some st' \<Longrightarrow> j < length rows \<Longrightarrow> en_sequence (rows ! j) = cs_count st + j + 1 \<and> length (en_chain_digest (rows ! j)) = 32"
proof (induction rows arbitrary: st j)
  case (Cons e rows)
  then obtain st1 where s: "check_row env i st e = Some st1" "check_rows env i st1 rows = Some st'" by (auto split: option.splits)
  then show ?case using Cons.IH [OF s(2)] Cons.prems(2) check_row_Some [OF s(1)] by (cases j) auto
qed simp

lemma find_sequence:
  "\<forall>j < length es. en_sequence (es ! j) = j + 1 \<Longrightarrow> i < length es \<Longrightarrow> List.find (\<lambda>e. en_sequence e = i + 1) es = Some (es ! i)"
  by (auto simp: find_Some_iff)

text \<open>
  C35: a verified ledger serves proofs that verify. For every tree size it has reached, every entry below that size and every
  smaller size it gives a tree head, the entry's leaf, an inclusion proof and a consistency proof, and the
  verification of both accepts them, although the ledger computes them from its cached nodes only.
\<close>

theorem ledger_serves_proofs:
  assumes verified: "verify_ledger env db" "nodes_keyed db" and sizes: "i < n" "m \<le> n" "n \<le> db_last_sequence db"
  shows "\<exists>head older leaf incl cons. MerkleTreeHead db n = Some head \<and> MerkleTreeHead db m = Some older \<and> MerkleLeaf db i = Some leaf \<and>
    MerkleInclusionProof db i n = Some incl \<and> VerifyInclusion leaf (th_Root head) incl \<and>
    MerkleConsistencyProof db m n = Some cons \<and> VerifyConsistency (th_Root older) (th_Root head) cons"
proof -
  obtain expected where v: "verifiedChainState env db = Some (db_last_sequence db, expected)" "cached (leaf_hashes db) (db_nodes db)"
      "leaves_ok (leaf_hashes db)" "db_last_sequence db = length (db_entries db)" "db_merkle_size db = db_last_sequence db"
    by (rule verified_ledger [OF verified])
  define leaves where "leaves = take n (leaf_hashes db)"
  have len: "n \<le> length (leaf_hashes db)" "length leaves = n" "n \<le> MaxJSONSafeSequence"
    using sizes v(3,4) by (auto simp: leaves_def leaf_hashes_def leaves_ok_def)
  have hashes: "subtreeHash (db_nodes db) 0 n = Some (MerkleRoot leaves)" "subtreeHash (db_nodes db) 0 m = Some (MerkleRoot (take m leaves))"
    using subtreeHash_cached [OF v(2,3)] len(1) sizes(2) by (simp_all add: leaves_def leaf_range_def min_absorb1)
  have head: "MerkleTreeHead db n = Some \<lparr>th_Size = n, th_Root = MerkleRoot leaves\<rparr>" "MerkleTreeHead db m = Some \<lparr>th_Size = m, th_Root = MerkleRoot (take m leaves)\<rparr>"
    using hashes len sizes v(5) by (simp_all add: MerkleTreeHead_def)
  have rows: "\<forall>j < length (db_entries db). en_sequence (db_entries db ! j) = j + 1" "\<forall>j < length (db_entries db). length (en_chain_digest (db_entries db ! j)) = 32"
    using v(1) check_rows_sequence by (fastforce simp: verifiedChainState_def split: if_splits option.splits)+
  have i: "i < length (db_entries db)" using sizes v(4) by simp
  have "MerkleLeaf db i = Some (leaf_of (db_entries db ! i))"
    using find_sequence [OF rows(1) i] rows i len(3) sizes(1) by (simp add: MerkleLeaf_def MerkleLeafHash_def leaf_of_def)
  then have leaf: "MerkleLeaf db i = Some (leaves ! i)" using i sizes by (simp add: leaves_def leaf_hashes_def)
  note built = build_verifies [of i leaves]
  have incl: "MerkleInclusionProof db i n = Some \<lparr>ip_LeafIndex = i, ip_TreeSize = n, ip_Path = buildInclusionPath leaves i []\<rparr>"
    using inclusionPath_cached [OF v(2,3), of i n 0 "[]"] built len sizes v(5) by (simp add: MerkleInclusionProof_def leaves_def leaf_range_def)
  have vi: "VerifyInclusion (leaves ! i) (MerkleRoot leaves) \<lparr>ip_LeafIndex = i, ip_TreeSize = n, ip_Path = buildInclusionPath leaves i []\<rparr>"
    using built len sizes by (auto simp: VerifyInclusion_def)
  obtain cons where cons: "BuildConsistencyProof leaves m = Some cons" "VerifyConsistency (MerkleRoot (take m leaves)) (MerkleRoot leaves) cons"
    using consistency_verifies [of m leaves] len sizes by auto
  have "MerkleConsistencyProof db m n = Some cons"
    using cons consistencyPath_cached [OF v(2,3), of m n 0 True "[]"] len sizes v(5)
    by (auto simp: MerkleConsistencyProof_def BuildConsistencyProof_def VerifyConsistency_def Let_def leaves_def leaf_range_def split: if_splits)
  with head leaf incl vi cons show ?thesis by auto
qed

theorem ledger_serves_proofs_witness:
  "\<exists>head older leaf incl cons. MerkleTreeHead ex_ledger 1 = Some head \<and> MerkleTreeHead ex_ledger 0 = Some older \<and> MerkleLeaf ex_ledger 0 = Some leaf \<and>
    MerkleInclusionProof ex_ledger 0 1 = Some incl \<and> VerifyInclusion leaf (th_Root head) incl \<and>
    MerkleConsistencyProof ex_ledger 0 1 = Some cons \<and> VerifyConsistency (th_Root older) (th_Root head) cons"
  by (rule ledger_serves_proofs [OF ex_ledger_verified]) (simp_all add: ex_ledger_def)

text \<open>The texts that a chain of rows feeds to SHA-256: those of the records and those of the chain digests.\<close>

definition record_text :: "ledger_entry \<Rightarrow> bytes" where
  "record_text e = str_bytes (''yukh-coordination:audit-record:v1'' @ newline) @ en_canonical_record e"

definition chain_text :: "ledger_entry \<Rightarrow> bytes" where
  "chain_text e = str_bytes (''yukh-coordination:audit-chain:v1'' @ newline) @ put_be64 (of_nat (en_sequence e)) @
     en_previous_chain_digest e @ en_record_digest e"

lemma check_rows_determined:
  "check_rows env i st xs = Some s \<Longrightarrow> check_rows env' i' st' ys = Some s' \<Longrightarrow> length xs = length ys \<Longrightarrow> cs_previous s = cs_previous s' \<Longrightarrow>
   inj_on sha256 (chain_text ` (set xs \<union> set ys)) \<Longrightarrow> inj_on sha256 (record_text ` (set xs \<union> set ys)) \<Longrightarrow>
   map en_canonical_record xs = map en_canonical_record ys"
proof (induction xs arbitrary: ys s s' rule: rev_induct)
  case (snoc x xs)
  obtain y zs where y: "ys = zs @ [y]" using snoc.prems(3) by (cases ys rule: rev_cases) auto
  obtain a where a: "check_rows env i st xs = Some a" "check_row env i a x = Some s" using snoc.prems(1) by (auto simp: check_rows_append split: option.splits)
  obtain b where b: "check_rows env' i' st' zs = Some b" "check_row env' i' b y = Some s'" using snoc.prems(2) y by (auto simp: check_rows_append split: option.splits)
  note ra = check_row_Some [OF a(2)] and rb = check_row_Some [OF b(2)]
  have "sha256 (chain_text x) = sha256 (chain_text y)"
    using ra(3,4,6) rb(3,4,6) snoc.prems(4) by (simp add: ChainDigest_def chain_text_def split: if_splits)
  with snoc.prems(5) have "chain_text x = chain_text y" by (rule inj_onD) (simp_all add: y)
  then have eq: "en_previous_chain_digest x = en_previous_chain_digest y" "en_record_digest x = en_record_digest y"
    using ra(9) rb(9) by (simp_all add: chain_text_def)
  have "sha256 (record_text x) = sha256 (record_text y)" using eq(2) ra(5) rb(5) by (simp add: RecordDigest_def record_text_def)
  with snoc.prems(6) have "record_text x = record_text y" by (rule inj_onD) (simp_all add: y)
  moreover have "map en_canonical_record xs = map en_canonical_record zs"
  proof (rule snoc.IH [OF a(1) b(1)])
    show "inj_on sha256 (chain_text ` (set xs \<union> set zs))" "inj_on sha256 (record_text ` (set xs \<union> set zs))"
      using snoc.prems(5,6) by (auto simp: y intro: inj_on_subset)
  qed (use snoc.prems(3) eq(1) ra(4) rb(4) y in simp_all)
  ultimately show ?case by (simp add: y record_text_def)
qed simp

text \<open>
  C36: the chain head commits to the history. Two verified ledgers of the same length and with the same chain head hold the same
  records in the same order, unless SHA-256 collides on two record texts or on two chain texts that the two ledgers hash themselves.
\<close>

theorem ledger_head_commits:
  assumes "verify_ledger env a" "verify_ledger env b" "db_last_sequence a = db_last_sequence b" "db_chain_head a = db_chain_head b"
    and collision_free: "inj_on sha256 (chain_text ` (set (db_entries a) \<union> set (db_entries b)))"
      "inj_on sha256 (record_text ` (set (db_entries a) \<union> set (db_entries b)))"
  shows "map en_canonical_record (db_entries a) = map en_canonical_record (db_entries b)"
proof -
  obtain ea eb where c: "verifiedChainState env a = Some (db_last_sequence a, ea)" "verifiedChainState env b = Some (db_last_sequence b, eb)"
    using assms(1,2) verified_chain(2) by (fastforce simp: verify_ledger_def split: option.splits)
  have len: "length (db_entries a) = length (db_entries b)" using verified_chain(1) [OF c(1)] verified_chain(1) [OF c(2)] assms(3) by simp
  obtain ga sa where sa: "check_rows env (db_ledger_id a) \<lparr>cs_count = 0, cs_previous = ga, cs_expected = []\<rparr> (db_entries a) = Some sa"
      "cs_previous sa = db_chain_head a" using c(1) by (auto simp: verifiedChainState_def split: if_splits option.splits)
  obtain gb sb where sb: "check_rows env (db_ledger_id b) \<lparr>cs_count = 0, cs_previous = gb, cs_expected = []\<rparr> (db_entries b) = Some sb"
      "cs_previous sb = db_chain_head b" using c(2) by (auto simp: verifiedChainState_def split: if_splits option.splits)
  from check_rows_determined [OF sa(1) sb(1) len _ collision_free] sa(2) sb(2) assms(4) show ?thesis by simp
qed

lemma verify_fence: "verify_ledger env (db\<lparr>db_fence := f\<rparr>) = verify_ledger env db"
proof -
  have "verifiedChainState env (db\<lparr>db_fence := f\<rparr>) = verifiedChainState env db"
    by (simp add: verifiedChainState_def cong: option.case_cong if_cong)
  then show ?thesis by (simp add: verify_ledger_def split: option.split)
qed

theorem ledger_head_commits_witness:
  "map en_canonical_record (db_entries ex_ledger) = map en_canonical_record (db_entries (ex_ledger\<lparr>db_fence := ''restore_fenced''\<rparr>))"
proof (rule ledger_head_commits [OF ex_ledger_verified(1)])
  show "verify_ledger ex_ledger_env (ex_ledger\<lparr>db_fence := ''restore_fenced''\<rparr>)"
    using ex_ledger_verified(1) by (simp add: verify_fence)
qed (simp_all add: ex_ledger_def)

end
