(* ===== verification/Capability.thy ===== *)
theory Capability
  imports Budget Base64 Sha256
begin

text \<open>
  Sealed capabilities, \<^verbatim>\<open>internal/primitives/capability.go\<close> with the identities and capability states of \<^verbatim>\<open>service.go\<close>. A
  capability is the state of a lease, encoded in 168 bytes and sealed with AES-GCM. The cipher is a parameter, an \<open>aead\<close>
  (seal and open with key, nonce and additional data); the key provider's answer and the random bytes of one call are
  arguments.
\<close>

section \<open>Identities and states\<close>

datatype prim_error = PInvalidArgument | PConflict | PUnavailable | PInvariant

record Identity =
  id_tenant :: string
  id_principal :: string

definition identifier_char :: "char \<Rightarrow> bool" where
  "identifier_char c \<longleftrightarrow> char_between (CHR ''a'') c (CHR ''z'') \<or> char_between (CHR ''A'') c (CHR ''Z'') \<or>
     char_between (CHR ''0'') c (CHR ''9'') \<or> c = CHR ''.'' \<or> c = CHR ''_'' \<or> c = CHR '':'' \<or> c = CHR ''-''"

definition validIdentifier :: "string \<Rightarrow> bool" where
  "validIdentifier s \<longleftrightarrow> s \<noteq> [] \<and> length s \<le> 256 \<and> list_all identifier_char s"

definition NewIdentity :: "string \<Rightarrow> string \<Rightarrow> prim_error + Identity" where
  "NewIdentity tenant prin =
     (if \<not> validIdentifier tenant \<or> \<not> validIdentifier prin then Inl PInvalidArgument
      else Inr \<lparr>id_tenant = tenant, id_principal = prin\<rparr>)"

definition prim_validDigest :: "string \<Rightarrow> bool" where
  "prim_validDigest s \<longleftrightarrow> length s = 64 \<and>
     list_all (\<lambda>c. char_between (CHR ''0'') c (CHR ''9'') \<or> char_between (CHR ''a'') c (CHR ''f'')) s"

unbundle bit_operations_syntax

definition zeroTokenID :: "bytes \<Rightarrow> bool" where
  "zeroTokenID token \<longleftrightarrow> foldl (\<lambda>seen item. seen OR item) 0 token = 0"

record CapabilityState =
  ca_key :: Digest
  ca_holder :: Digest
  ca_expiresAt :: time
  ca_epoch :: u64
  ca_fencingToken :: u64
  ca_tokenID :: bytes

definition NewCapabilityState :: "Digest \<Rightarrow> Digest \<Rightarrow> time \<Rightarrow> u64 \<Rightarrow> u64 \<Rightarrow> bytes \<Rightarrow> prim_error + CapabilityState" where
  "NewCapabilityState key holder expiresAt epoch fencingToken tokenID =
     (case NewLeaseResumeValue holder expiresAt epoch fencingToken of
        Inl _ \<Rightarrow> Inl PInvalidArgument
      | Inr resume \<Rightarrow>
          if \<not> prim_validDigest key \<or> zeroTokenID tokenID then Inl PInvalidArgument
          else Inr \<lparr>ca_key = key, ca_holder = rv_holder resume, ca_expiresAt = rv_expires resume, ca_epoch = rv_epoch resume,
            ca_fencingToken = rv_token resume, ca_tokenID = tokenID\<rparr>)"

section \<open>Sealing\<close>

record SealingKey =
  sk_id :: string
  sk_bytes :: bytes

definition NewSealingKey :: "string \<Rightarrow> bytes \<Rightarrow> prim_error + SealingKey" where
  "NewSealingKey identity raw =
     (if \<not> validIdentifier identity \<or> length raw \<noteq> 32 then Inl PInvalidArgument
      else Inr \<lparr>sk_id = identity, sk_bytes = raw\<rparr>)"

record aead =
  ad_Seal :: "bytes \<Rightarrow> bytes \<Rightarrow> bytes \<Rightarrow> bytes \<Rightarrow> bytes"
  ad_Open :: "bytes \<Rightarrow> bytes \<Rightarrow> bytes \<Rightarrow> bytes \<Rightarrow> bytes option"

text \<open>\<^verbatim>\<open>NonceSize()\<close> and \<^verbatim>\<open>Overhead()\<close> of \<^verbatim>\<open>cipher.NewGCM\<close>.\<close>

definition NonceSize :: nat where "NonceSize = 12"
definition Overhead :: nat where "Overhead = 16"

definition capabilityPlaintextBytes :: nat where
  "capabilityPlaintextBytes = 168"

definition line_feed :: string where
  "line_feed = [CHR 0x0A]"

definition capabilityAAD :: "Identity \<Rightarrow> string \<Rightarrow> bytes" where
  "capabilityAAD identity keyID = str_bytes (''yukh:coordination-primitives:capability:v1'' @ line_feed @ keyID @ line_feed @
     id_tenant identity @ line_feed @ id_principal identity)"

definition bytes_str :: "bytes \<Rightarrow> string" where
  "bytes_str bs = map (\<lambda>b. char_of (unat b)) bs"

definition get_be64 :: "bytes \<Rightarrow> u64" where
  "get_be64 bs = of_nat (foldl (\<lambda>n b. n * 256 + unat b) 0 bs)"

definition encodeState :: "CapabilityState \<Rightarrow> prim_error + bytes" where
  "encodeState state =
     (case NewCapabilityState (ca_key state) (ca_holder state) (ca_expiresAt state) (ca_epoch state) (ca_fencingToken state) (ca_tokenID state) of
        Inl e \<Rightarrow> Inl e
      | Inr validated \<Rightarrow>
          Inr (str_bytes (ca_key validated) @ str_bytes (ca_holder validated) @
            put_be64 (of_int (time_UnixMilli (ca_expiresAt validated))) @ put_be64 (ca_epoch validated) @
            put_be64 (ca_fencingToken validated) @ ca_tokenID validated))"

definition part :: "nat \<Rightarrow> nat \<Rightarrow> bytes \<Rightarrow> bytes" where
  "part first end_at raw = take (end_at - first) (drop first raw)"

definition decodeState :: "bytes \<Rightarrow> prim_error + CapabilityState" where
  "decodeState raw =
     (if length raw \<noteq> capabilityPlaintextBytes then Inl PConflict
      else
        let expiresMillis = get_be64 (part 128 136 raw) in
        if expiresMillis > maxSafeInteger then Inl PConflict
        else case NewCapabilityState (bytes_str (part 0 64 raw)) (bytes_str (part 64 128 raw)) (unixMilli_UTC (uint expiresMillis))
               (get_be64 (part 136 144 raw)) (get_be64 (part 144 152 raw)) (part 152 168 raw) of
          Inl _ \<Rightarrow> Inl PConflict
        | Inr state \<Rightarrow> Inr state)"

definition AEADSealer_Seal ::
  "aead \<Rightarrow> SealingKey option \<Rightarrow> bytes option \<Rightarrow> Identity \<Rightarrow> CapabilityState \<Rightarrow> prim_error + string" where
  "AEADSealer_Seal c active random identity state =
     (case active of
        None \<Rightarrow> Inl PUnavailable
      | Some key \<Rightarrow>
          if \<not> validIdentifier (sk_id key) then Inl PUnavailable
          else case random of
            None \<Rightarrow> Inl PUnavailable
          | Some nonce \<Rightarrow>
              (case encodeState state of
                 Inl _ \<Rightarrow> Inl PInvariant
               | Inr plaintext \<Rightarrow>
                   Inr (''v1.'' @ sk_id key @ ''.'' @ base64_encode nonce @ ''.'' @
                     base64_encode (ad_Seal c (sk_bytes key) nonce plaintext (capabilityAAD identity (sk_id key))))))"

text \<open>\<^verbatim>\<open>strings.Split(capability, ".")\<close>.\<close>

fun split_dots :: "string \<Rightarrow> string list" where
  "split_dots [] = [[]]"
| "split_dots (c # cs) =
     (if c = CHR ''.'' then [] # split_dots cs
      else case split_dots cs of [] \<Rightarrow> [[c]] | p # ps \<Rightarrow> (c # p) # ps)"

definition AEADSealer_Open ::
  "aead \<Rightarrow> (string \<Rightarrow> SealingKey option) \<Rightarrow> Identity \<Rightarrow> string \<Rightarrow> prim_error + CapabilityState" where
  "AEADSealer_Open c keys identity capability =
     (let parts = split_dots capability in
      if length parts \<noteq> 4 \<or> parts ! 0 \<noteq> ''v1'' \<or> \<not> validIdentifier (parts ! 1) then Inl PConflict
      else case keys (parts ! 1) of
        None \<Rightarrow> Inl PUnavailable
      | Some key \<Rightarrow>
          if sk_id key \<noteq> parts ! 1 then Inl PUnavailable
          else case (base64_decode (parts ! 2), base64_decode (parts ! 3)) of
            (Some nonce, Some ciphertext) \<Rightarrow>
              if length nonce \<noteq> NonceSize \<or> length ciphertext \<noteq> capabilityPlaintextBytes + Overhead then Inl PConflict
              else
                (case ad_Open c (sk_bytes key) nonce ciphertext (capabilityAAD identity (sk_id key)) of
                   None \<Rightarrow> Inl PConflict
                 | Some plaintext \<Rightarrow> decodeState plaintext)
          | _ \<Rightarrow> Inl PConflict)"

section \<open>Laws\<close>

lemma bytes_str_bytes [simp]: "bytes_str (str_bytes s) = s"
  by (simp add: bytes_str_def str_bytes_def comp_def)

lemma unat_be_byte: "unat (ucast (drop_bit n (x :: u64)) :: byte) = unat x div 2 ^ n mod 256"
proof -
  have "unat (ucast (drop_bit n x) :: byte) = take_bit 8 (drop_bit n (unat x))" by (simp only: unsigned_ucast_eq unat_drop_bit_eq) simp
  then show ?thesis by (simp add: take_bit_eq_mod drop_bit_eq_div)
qed

lemma be_digit: "(m :: nat) div 2 ^ (k + 8) * 256 + m div 2 ^ k mod 256 = m div 2 ^ k"
proof -
  have "m div 2 ^ (k + 8) = m div 2 ^ k div 256" by (simp add: power_add div_mult2_eq)
  then show ?thesis by simp
qed

lemma get_put_be64 [simp]: "get_be64 (put_be64 x) = x"
proof -
  have "unat x < 2 ^ 64" using unsigned_less [of x] by simp
  then have top: "unat x div 2 ^ 56 mod 256 = unat x div 2 ^ 56" by (simp add: div_less_iff_less_mult)
  have low: "unat (ucast x :: byte) = unat x mod 256" using unat_be_byte [of 0 x] by simp
  have "foldl (\<lambda>n b. n * 256 + unat b) 0 (put_be64 x) = unat x"
    using top be_digit [of "unat x" 48] be_digit [of "unat x" 40] be_digit [of "unat x" 32] be_digit [of "unat x" 24]
      be_digit [of "unat x" 16] be_digit [of "unat x" 8]
    by (simp add: put_be64_def unat_be_byte low)
  then show ?thesis by (simp add: get_be64_def)
qed

lemma split_dots_plain: "CHR ''.'' \<notin> set s \<Longrightarrow> split_dots (s @ CHR ''.'' # t) = s # split_dots t"
  by (induction s) auto

lemma split_dots_last: "CHR ''.'' \<notin> set s \<Longrightarrow> split_dots s = [s]"
  by (induction s) auto

lemma length_split_dots: "length (split_dots s) = Suc (length (filter (\<lambda>c. c = CHR ''.'') s))"
  by (induction s) (auto split: list.splits)

text \<open>Sealed states that a capability can carry: the ones \<^verbatim>\<open>NewCapabilityState\<close> accepts, with a 16-byte token and a time
  that fits the encoding.\<close>

definition sealable :: "CapabilityState \<Rightarrow> bool" where
  "sealable state \<longleftrightarrow>
     NewCapabilityState (ca_key state) (ca_holder state) (ca_expiresAt state) (ca_epoch state) (ca_fencingToken state) (ca_tokenID state) = Inr state \<and>
     length (ca_tokenID state) = 16 \<and> 0 \<le> time_UnixMilli (ca_expiresAt state) \<and>
     time_UnixMilli (ca_expiresAt state) \<le> uint maxSafeInteger \<and> t_mono (ca_expiresAt state) = None"

lemma sealable_expiry:
  assumes "sealable state"
  shows "unixMilli_UTC (time_UnixMilli (ca_expiresAt state)) = ca_expiresAt state"
proof -
  have "t_loc (ca_expiresAt state) = UTC" "t_nanos (ca_expiresAt state) mod Millisecond = 0" "t_mono (ca_expiresAt state) = None"
    using assms by (auto simp: sealable_def NewCapabilityState_def NewLeaseResumeValue_def split: if_splits sum.splits)
  moreover from this have "t_nanos (ca_expiresAt state) div Millisecond * Millisecond = t_nanos (ca_expiresAt state)"
    by (metis add.right_neutral div_mult_mod_eq)
  ultimately show ?thesis by (simp add: unixMilli_UTC_def time_UnixMilli_def)
qed

lemma sealable_lengths:
  assumes "sealable state"
  shows "length (ca_key state) = 64" "length (ca_holder state) = 64" "length (ca_tokenID state) = 16"
  using assms by (auto simp: sealable_def NewCapabilityState_def NewLeaseResumeValue_def prim_validDigest_def digestPattern_def split: if_splits sum.splits)

lemma decode_encode_state:
  assumes ok: "sealable state" and enc: "encodeState state = Inr raw"
  shows "length raw = capabilityPlaintextBytes" "decodeState raw = Inr state"
proof -
  define ms where "ms = time_UnixMilli (ca_expiresAt state)"
  have ms: "0 \<le> ms" "ms \<le> uint maxSafeInteger" using ok by (simp_all add: sealable_def ms_def)
  have new: "NewCapabilityState (ca_key state) (ca_holder state) (ca_expiresAt state) (ca_epoch state) (ca_fencingToken state) (ca_tokenID state) = Inr state"
    using ok by (simp add: sealable_def)
  have raw: "raw = str_bytes (ca_key state) @ str_bytes (ca_holder state) @ put_be64 (of_int ms) @ put_be64 (ca_epoch state) @ put_be64 (ca_fencingToken state) @ ca_tokenID state"
    using enc by (simp add: encodeState_def new ms_def)
  note len = sealable_lengths [OF ok]
  show total: "length raw = capabilityPlaintextBytes" using len by (simp add: raw capabilityPlaintextBytes_def)
  have parts: "part 0 64 raw = str_bytes (ca_key state)" "part 64 128 raw = str_bytes (ca_holder state)" "part 128 136 raw = put_be64 (of_int ms)"
      "part 136 144 raw = put_be64 (ca_epoch state)" "part 144 152 raw = put_be64 (ca_fencingToken state)" "part 152 168 raw = ca_tokenID state"
    using len by (simp_all add: part_def raw)
  have "ms < 2 ^ 64" using ms(2) by (simp add: maxSafeInteger_def)
  then have u: "uint (of_int ms :: u64) = ms" using ms(1) by (simp add: uint_word_of_int_eq take_bit_int_eq_self_iff)
  then have "\<not> maxSafeInteger < (of_int ms :: u64)" using ms(2) by (simp add: word_less_def)
  then show "decodeState raw = Inr state"
    using total new sealable_expiry [OF ok] by (simp add: decodeState_def parts u ms_def [symmetric])
qed

text \<open>What is relied on of the cipher: opening inverts sealing under the same key, nonce and additional data, and the
  overhead is \<^verbatim>\<open>Overhead()\<close>.\<close>

definition aead_correct :: "aead \<Rightarrow> bool" where
  "aead_correct c \<longleftrightarrow> (\<forall>k n p a. length k = 32 \<longrightarrow> length n = NonceSize \<longrightarrow>
     ad_Open c k n (ad_Seal c k n p a) a = Some p \<and> length (ad_Seal c k n p a) = length p + Overhead)"

lemma base64_no_dot: "CHR ''.'' \<notin> set (base64_encode bs)"
proof
  assume "CHR ''.'' \<in> set (base64_encode bs)"
  then have "CHR ''.'' \<in> set b64_alphabet" by (rule base64_encode_chars)
  then show False by (simp add: b64_alphabet_def)
qed

lemma sealed_shape:
  assumes "AEADSealer_Seal c active random identity state = Inr capability"
  obtains key nonce plaintext where "active = Some key" "random = Some nonce" "validIdentifier (sk_id key)" "encodeState state = Inr plaintext"
    "capability = ''v1.'' @ sk_id key @ ''.'' @ base64_encode nonce @ ''.'' @
       base64_encode (ad_Seal c (sk_bytes key) nonce plaintext (capabilityAAD identity (sk_id key)))"
  using assms by (auto simp: AEADSealer_Seal_def split: option.splits if_splits sum.splits)

lemma split_sealed:
  assumes "CHR ''.'' \<notin> set i"
  shows "split_dots (''v1.'' @ i @ ''.'' @ base64_encode a @ ''.'' @ base64_encode b) = [''v1'', i, base64_encode a, base64_encode b]"
  using assms by (simp add: split_dots_plain split_dots_last base64_no_dot)

lemma open_sealed:
  assumes aead: "aead_correct c" and ok: "sealable state"
    and sealed: "AEADSealer_Seal c (Some key) (Some nonce) identity state = Inr capability"
    and nonce: "length nonce = NonceSize" "length (sk_bytes key) = 32" and nodot: "CHR ''.'' \<notin> set (sk_id key)" and keys: "keys (sk_id key) = Some key"
  shows "AEADSealer_Open c keys identity capability = Inr state"
proof -
  obtain plaintext where p: "validIdentifier (sk_id key)" "encodeState state = Inr plaintext"
    "capability = ''v1.'' @ sk_id key @ ''.'' @ base64_encode nonce @ ''.'' @
       base64_encode (ad_Seal c (sk_bytes key) nonce plaintext (capabilityAAD identity (sk_id key)))"
    using sealed by (auto elim: sealed_shape)
  note d = decode_encode_state [OF ok p(2)]
  show ?thesis unfolding AEADSealer_Open_def p(3) split_sealed [OF nodot]
    using p(1) keys nonce d aead by (simp add: aead_correct_def)
qed

section \<open>Properties\<close>

text \<open>
  C39: a sealed capability opens to the state it was sealed for. The state is one that can be sealed (digests, whole
  milliseconds, numbers in range), the cipher decrypts what it encrypted, the key has 32 bytes and an identifier without a dot, the
  provider still has it, and the identity is the same.
\<close>

theorem capability_roundtrip:
  assumes "aead_correct c" "sealable state" "AEADSealer_Seal c (Some key) (Some nonce) identity state = Inr capability"
    "length nonce = NonceSize" "length (sk_bytes key) = 32" "CHR ''.'' \<notin> set (sk_id key)" "keys (sk_id key) = Some key"
  shows "AEADSealer_Open c keys identity capability = Inr state"
  using assms by (rule open_sealed)

definition ex_aead :: aead where
  "ex_aead = \<lparr>ad_Seal = (\<lambda>k n p a. p @ replicate 16 (of_nat (length a))),
     ad_Open = (\<lambda>k n ct a. if drop (length ct - 16) ct = replicate 16 (of_nat (length a)) then Some (take (length ct - 16) ct) else None)\<rparr>"

definition ex_state :: CapabilityState where
  "ex_state = \<lparr>ca_key = ex_digest, ca_holder = ex_digest, ca_expiresAt = unixMilli_UTC 5, ca_epoch = 1, ca_fencingToken = 1,
     ca_tokenID = replicate 16 1\<rparr>"

definition ex_identity :: Identity where
  "ex_identity = \<lparr>id_tenant = ''t'', id_principal = ''p''\<rparr>"

lemma ex_aead_correct: "aead_correct ex_aead"
  by (simp add: aead_correct_def ex_aead_def Overhead_def)

lemma ex_state_sealable: "sealable ex_state"
  by code_simp

lemma ex_sealed: "\<exists>capability. AEADSealer_Seal ex_aead (Some \<lparr>sk_id = i, sk_bytes = replicate 32 7\<rparr>) (Some (replicate 12 0)) ex_identity ex_state = Inr capability"
  if "validIdentifier i"
proof -
  have "\<exists>raw. encodeState ex_state = Inr raw" using ex_state_sealable by (simp add: encodeState_def sealable_def)
  then show ?thesis using that by (auto simp: AEADSealer_Seal_def)
qed

theorem capability_roundtrip_witness:
  "\<exists>capability. AEADSealer_Seal ex_aead (Some \<lparr>sk_id = ''k'', sk_bytes = replicate 32 7\<rparr>) (Some (replicate 12 0)) ex_identity ex_state = Inr capability \<and>
     AEADSealer_Open ex_aead (\<lambda>i. Some \<lparr>sk_id = ''k'', sk_bytes = replicate 32 7\<rparr>) ex_identity capability = Inr ex_state"
proof -
  have "validIdentifier ''k''" by code_simp
  then obtain capability where s: "AEADSealer_Seal ex_aead (Some \<lparr>sk_id = ''k'', sk_bytes = replicate 32 7\<rparr>) (Some (replicate 12 0)) ex_identity ex_state = Inr capability"
    using ex_sealed by blast
  have "AEADSealer_Open ex_aead (\<lambda>i. Some \<lparr>sk_id = ''k'', sk_bytes = replicate 32 7\<rparr>) ex_identity capability = Inr ex_state"
    by (rule capability_roundtrip [OF ex_aead_correct ex_state_sealable s]) (simp_all add: NonceSize_def)
  with s show ?thesis by blast
qed

text \<open>
  C40: a key whose identifier has a dot seals capabilities that never open. \<^verbatim>\<open>validIdentifier\<close> admits dots, and so does the
  key ring, but the sealed text is split at its dots and has to have four parts: whatever the keys and the identity, opening
  gives \<^verbatim>\<open>ErrConflict\<close>.
\<close>

theorem dotted_key_unopenable:
  assumes "AEADSealer_Seal c (Some key) random identity state = Inr capability" "CHR ''.'' \<in> set (sk_id key)"
  shows "AEADSealer_Open c keys anyone capability = Inl PConflict"
proof -
  obtain nonce plaintext where shape: "capability = ''v1.'' @ sk_id key @ ''.'' @ base64_encode nonce @ ''.'' @
       base64_encode (ad_Seal c (sk_bytes key) nonce plaintext (capabilityAAD identity (sk_id key)))"
    using assms(1) by (auto elim: sealed_shape)
  have "filter (\<lambda>c. c = CHR ''.'') (sk_id key) \<noteq> []" using assms(2) by (auto simp: filter_empty_conv)
  then have "length (split_dots capability) \<noteq> 4" by (simp add: shape length_split_dots)
  then show ?thesis by (simp add: AEADSealer_Open_def)
qed

theorem dotted_key_unopenable_witness:
  "\<exists>capability. AEADSealer_Seal ex_aead (Some \<lparr>sk_id = ''k.1'', sk_bytes = replicate 32 7\<rparr>) (Some (replicate 12 0)) ex_identity ex_state = Inr capability \<and>
     AEADSealer_Open ex_aead (\<lambda>i. Some \<lparr>sk_id = i, sk_bytes = replicate 32 7\<rparr>) ex_identity capability = Inl PConflict"
proof -
  have "validIdentifier ''k.1''" by code_simp
  then obtain capability where s: "AEADSealer_Seal ex_aead (Some \<lparr>sk_id = ''k.1'', sk_bytes = replicate 32 7\<rparr>) (Some (replicate 12 0)) ex_identity ex_state = Inr capability"
    using ex_sealed by blast
  with dotted_key_unopenable [OF s] show ?thesis by auto
qed

end
