(* ===== verification/Primitives.thy ===== *)
theory Primitives
  imports Capability
begin

text \<open>
  The application boundary of the coordination primitives, \<^verbatim>\<open>internal/primitives/service.go\<close>. The service calls a nonce store, a lease
  store with its lease handles, a capability budget, a sealer, a source of token identifiers and a clock: the record
  \<open>prim_service\<close> has their operations over a common state \<open>'w\<close>, with lease handles of type \<open>'h\<close>. A method runs them one after
  the other. \<open>mem_service\<close> is the service over the in-memory adapters.
\<close>

section \<open>The service\<close>

record ('w, 'h) prim_service =
  ps_epoch :: u64
  ps_maxTTL :: duration
  ps_now :: "'w \<Rightarrow> 'w \<times> time"
  ps_Consume :: "'w \<Rightarrow> Digest \<Rightarrow> NonceValue \<Rightarrow> 'w \<times> (coord_error + NonceOutcome)"
  ps_Acquire :: "'w \<Rightarrow> Digest \<Rightarrow> LeaseValue \<Rightarrow> 'w \<times> (coord_error + 'h)"
  ps_Resume :: "'w \<Rightarrow> Digest \<Rightarrow> LeaseResumeValue \<Rightarrow> 'w \<times> (coord_error + 'h)"
  ps_Inspect :: "'w \<Rightarrow> Digest \<Rightarrow> LeaseResumeValue \<Rightarrow> 'w \<times> (coord_error + LeaseStatus)"
  ps_FencingToken :: "'h \<Rightarrow> u64"
  ps_Renew :: "'w \<Rightarrow> 'h \<Rightarrow> time \<Rightarrow> 'w \<times> 'h \<times> coord_error option"
  ps_Release :: "'w \<Rightarrow> 'h \<Rightarrow> 'w \<times> 'h \<times> coord_error option"
  ps_Reserve :: "'w \<Rightarrow> Digest \<Rightarrow> CapabilityTokenID \<Rightarrow> time \<Rightarrow> u64 \<Rightarrow> 'w \<times> coord_error option"
  ps_Commit :: "'w \<Rightarrow> Digest \<Rightarrow> CapabilityTokenID \<Rightarrow> u64 \<Rightarrow> 'w \<times> coord_error option"
  ps_Cancel :: "'w \<Rightarrow> Digest \<Rightarrow> CapabilityTokenID \<Rightarrow> u64 \<Rightarrow> 'w \<times> coord_error option"
  ps_Replace :: "'w \<Rightarrow> Digest \<Rightarrow> CapabilityTokenID \<Rightarrow> CapabilityTokenID \<Rightarrow> time \<Rightarrow> u64 \<Rightarrow> 'w \<times> coord_error option"
  ps_Retire :: "'w \<Rightarrow> Digest \<Rightarrow> CapabilityTokenID \<Rightarrow> u64 \<Rightarrow> 'w \<times> coord_error option"
  ps_Seal :: "'w \<Rightarrow> Identity \<Rightarrow> CapabilityState \<Rightarrow> 'w \<times> (prim_error + string)"
  ps_Open :: "'w \<Rightarrow> Identity \<Rightarrow> string \<Rightarrow> 'w \<times> (prim_error + CapabilityState)"
  ps_NewTokenID :: "'w \<Rightarrow> 'w \<times> bytes option"

definition prim_NewService ::
  "bool \<Rightarrow> u64 \<Rightarrow> u64 \<Rightarrow> u64 \<Rightarrow> ('w, 'h) prim_service \<Rightarrow> prim_error + ('w, 'h) prim_service" where
  "prim_NewService allGiven noncesEpoch leasesEpoch budgetEpoch svc =
     (if \<not> allGiven \<or> ps_epoch svc = 0 \<or> ps_epoch svc > maxSafeInteger \<or> noncesEpoch \<noteq> ps_epoch svc \<or> leasesEpoch \<noteq> ps_epoch svc \<or>
         budgetEpoch \<noteq> ps_epoch svc \<or> ps_maxTTL svc \<le> 0
      then Inl PInvalidArgument else Inr svc)"

record LeaseResult =
  lr_Capability :: string
  lr_FencingToken :: u64
  lr_ExpiresAt :: time

definition maxCapabilitySize :: nat where
  "maxCapabilitySize = 3800"

definition mapStoreError :: "coord_error \<Rightarrow> prim_error" where
  "mapStoreError e = (case e of CInvalidArgument \<Rightarrow> PInvalidArgument | CConflict \<Rightarrow> PConflict | _ \<Rightarrow> PUnavailable)"

definition mapBudgetError :: "coord_error \<Rightarrow> prim_error" where
  "mapBudgetError e = (case e of CUnavailable \<Rightarrow> PUnavailable | CConflict \<Rightarrow> PUnavailable | CInvariant \<Rightarrow> PInvariant | _ \<Rightarrow> PInvariant)"

definition derivePrincipal :: "Identity \<Rightarrow> prim_error + Digest" where
  "derivePrincipal identity =
     (if \<not> validIdentifier (id_tenant identity) \<or> \<not> validIdentifier (id_principal identity) then Inl PInvalidArgument
      else Inr (hex_encode (sha256 (str_bytes (''yukh:coordination-capability-budget:v1'' @ line_feed @ id_tenant identity @ line_feed @
        id_principal identity)))))"

definition deriveKey :: "Identity \<Rightarrow> string \<Rightarrow> Digest \<Rightarrow> prim_error + Digest" where
  "deriveKey identity family scope =
     (if \<not> validIdentifier (id_tenant identity) \<or> \<not> validIdentifier (id_principal identity) \<or> \<not> prim_validDigest scope \<or>
         family \<noteq> ''nonce'' \<and> family \<noteq> ''lease''
      then Inl PInvalidArgument
      else Inr (hex_encode (sha256 (str_bytes (''yukh:coordination-primitives:v1'' @ line_feed @ id_tenant identity @ line_feed @
        family @ line_feed @ scope)))))"

definition prim_validExpiry :: "('w, 'h) prim_service \<Rightarrow> 'w \<Rightarrow> time \<Rightarrow> 'w \<times> bool" where
  "prim_validExpiry svc w expiresAt =
     (let (w', Now) = ps_now svc w; now = time_UTC Now in
      (w', t_loc expiresAt = UTC \<and> time_Equal expiresAt (time_Truncate expiresAt Millisecond) \<and> time_After expiresAt now \<and>
        \<not> time_After expiresAt (time_Add now (ps_maxTTL svc))))"

text \<open>A guard that validates an expiry only when the conditions before it hold, as \<^verbatim>\<open>||\<close> does.\<close>

definition guard_expiry :: "('w, 'h) prim_service \<Rightarrow> 'w \<Rightarrow> bool \<Rightarrow> time \<Rightarrow> 'w \<times> bool" where
  "guard_expiry svc w earlier expiresAt = (if \<not> earlier then (w, False) else prim_validExpiry svc w expiresAt)"

definition prim_ConsumeNonce ::
  "('w, 'h) prim_service \<Rightarrow> 'w \<Rightarrow> Identity \<Rightarrow> Digest \<Rightarrow> Digest \<Rightarrow> time \<Rightarrow> 'w \<times> (prim_error + NonceOutcome)" where
  "prim_ConsumeNonce svc w identity scope value expiresAt =
     (case deriveKey identity ''nonce'' scope of
        Inl _ \<Rightarrow> (w, Inl PInvalidArgument)
      | Inr key \<Rightarrow>
          (case guard_expiry svc w (prim_validDigest value) expiresAt of
             (w1, False) \<Rightarrow> (w1, Inl PInvalidArgument)
           | (w1, True) \<Rightarrow>
               (case ps_Consume svc w1 key \<lparr>nv_digest = value, nv_expires = expiresAt, nv_epoch = ps_epoch svc\<rparr> of
                  (w2, Inl e) \<Rightarrow> (w2, Inl (mapStoreError e))
                | (w2, Inr outcome) \<Rightarrow> (w2, Inr outcome))))"

definition OpenCapability ::
  "('w, 'h) prim_service \<Rightarrow> 'w \<Rightarrow> Identity \<Rightarrow> string \<Rightarrow> 'w \<times> (prim_error + CapabilityState)" where
  "OpenCapability svc w identity capability =
     (if capability = [] \<or> length capability > maxCapabilitySize then (w, Inl PInvalidArgument)
      else case ps_Open svc w identity capability of
        (w', Inl e) \<Rightarrow> (w', Inl (if e = PUnavailable then PUnavailable else PConflict))
      | (w', Inr state) \<Rightarrow> (w', if ca_epoch state \<noteq> ps_epoch svc then Inl PConflict else Inr state))"

definition newBudgetToken ::
  "('w, 'h) prim_service \<Rightarrow> 'w \<Rightarrow> Identity \<Rightarrow> 'w \<times> (prim_error + (bytes \<times> CapabilityTokenID \<times> Digest))" where
  "newBudgetToken svc w identity =
     (case ps_NewTokenID svc w of
        (w', None) \<Rightarrow> (w', Inl PUnavailable)
      | (w', Some raw) \<Rightarrow>
          (w', case NewCapabilityTokenID raw of
             Inl _ \<Rightarrow> Inl PInvariant
           | Inr token \<Rightarrow>
               (case derivePrincipal identity of
                  Inl _ \<Rightarrow> Inl PInvalidArgument
                | Inr prin \<Rightarrow> Inr (raw, token, prin))))"

definition sealLease ::
  "('w, 'h) prim_service \<Rightarrow> 'w \<Rightarrow> Identity \<Rightarrow> Digest \<Rightarrow> Digest \<Rightarrow> time \<Rightarrow> u64 \<Rightarrow> bytes \<Rightarrow> 'w \<times> (prim_error + LeaseResult)" where
  "sealLease svc w identity key holder expiresAt fence tokenID =
     (case NewCapabilityState key holder expiresAt (ps_epoch svc) fence tokenID of
        Inl _ \<Rightarrow> (w, Inl PInvariant)
      | Inr state \<Rightarrow>
          (case ps_Seal svc w identity state of
             (w', Inl _) \<Rightarrow> (w', Inl PUnavailable)
           | (w', Inr capability) \<Rightarrow>
               (w', if capability = [] \<or> length capability > maxCapabilitySize then Inl PInvariant
                  else Inr \<lparr>lr_Capability = capability, lr_FencingToken = fence, lr_ExpiresAt = expiresAt\<rparr>)))"

text \<open>The reservation is cancelled before the error is returned; when that fails too the service is unavailable.\<close>

definition cancel_with ::
  "('w, 'h) prim_service \<Rightarrow> 'w \<Rightarrow> Digest \<Rightarrow> CapabilityTokenID \<Rightarrow> prim_error \<Rightarrow> 'w \<times> (prim_error + LeaseResult)" where
  "cancel_with svc w prin token e =
     (case ps_Cancel svc w prin token (ps_epoch svc) of
        (w', Some _) \<Rightarrow> (w', Inl PUnavailable)
      | (w', None) \<Rightarrow> (w', Inl e))"

definition prim_Acquire ::
  "('w, 'h) prim_service \<Rightarrow> 'w \<Rightarrow> Identity \<Rightarrow> Digest \<Rightarrow> Digest \<Rightarrow> time \<Rightarrow> 'w \<times> (prim_error + LeaseResult)" where
  "prim_Acquire svc w identity scope holder expiresAt =
     (case deriveKey identity ''lease'' scope of
        Inl _ \<Rightarrow> (w, Inl PInvalidArgument)
      | Inr key \<Rightarrow>
        (case guard_expiry svc w (prim_validDigest holder) expiresAt of
           (w1, False) \<Rightarrow> (w1, Inl PInvalidArgument)
         | (w1, True) \<Rightarrow>
           (case newBudgetToken svc w1 identity of
              (w2, Inl e) \<Rightarrow> (w2, Inl e)
            | (w2, Inr (raw, token, prin)) \<Rightarrow>
              (case ps_Reserve svc w2 prin token expiresAt (ps_epoch svc) of
                 (w3, Some e) \<Rightarrow> (w3, Inl (mapBudgetError e))
               | (w3, None) \<Rightarrow>
                 (case ps_Acquire svc w3 key \<lparr>lv_holder = holder, lv_expires = expiresAt, lv_epoch = ps_epoch svc\<rparr> of
                    (w4, Inl e) \<Rightarrow> cancel_with svc w4 prin token (mapStoreError e)
                  | (w4, Inr held) \<Rightarrow>
                    (case sealLease svc w4 identity key holder expiresAt (ps_FencingToken svc held) raw of
                       (w5, Inl e) \<Rightarrow> cancel_with svc w5 prin token e
                     | (w5, Inr result) \<Rightarrow>
                       (case ps_Commit svc w5 prin token (ps_epoch svc) of
                          (w6, Some e) \<Rightarrow> (w6, Inl (mapBudgetError e))
                        | (w6, None) \<Rightarrow> (w6, Inr result))))))))"

definition resume_value :: "CapabilityState \<Rightarrow> coord_error + LeaseResumeValue" where
  "resume_value state = NewLeaseResumeValue (ca_holder state) (ca_expiresAt state) (ca_epoch state) (ca_fencingToken state)"

definition InspectOpened ::
  "('w, 'h) prim_service \<Rightarrow> 'w \<Rightarrow> CapabilityState \<Rightarrow> 'w \<times> (prim_error + LeaseStatus)" where
  "InspectOpened svc w state =
     (case resume_value state of
        Inl _ \<Rightarrow> (w, Inl PInvariant)
      | Inr value \<Rightarrow>
          (case ps_Inspect svc w (ca_key state) value of
             (w', Inl e) \<Rightarrow> (w', Inl (mapStoreError e))
           | (w', Inr status) \<Rightarrow> (w', Inr status)))"

definition prim_Inspect ::
  "('w, 'h) prim_service \<Rightarrow> 'w \<Rightarrow> Identity \<Rightarrow> string \<Rightarrow> 'w \<times> (prim_error + LeaseStatus)" where
  "prim_Inspect svc w identity capability =
     (case OpenCapability svc w identity capability of
        (w', Inl e) \<Rightarrow> (w', Inl e)
      | (w', Inr opened) \<Rightarrow> InspectOpened svc w' opened)"

definition resumeOpened :: "('w, 'h) prim_service \<Rightarrow> 'w \<Rightarrow> CapabilityState \<Rightarrow> 'w \<times> (prim_error + 'h)" where
  "resumeOpened svc w state =
     (case resume_value state of
        Inl _ \<Rightarrow> (w, Inl PInvariant)
      | Inr value \<Rightarrow>
          (case ps_Resume svc w (ca_key state) value of
             (w', Inl e) \<Rightarrow> (w', Inl (mapStoreError e))
           | (w', Inr held) \<Rightarrow> (w', Inr held)))"

text \<open>\<^verbatim>\<open>old, _ := NewCapabilityTokenID(...)\<close>: the zero token when the identifier is refused.\<close>

definition token_or_zero :: "bytes \<Rightarrow> CapabilityTokenID" where
  "token_or_zero raw = (case NewCapabilityTokenID raw of Inr token \<Rightarrow> token | Inl _ \<Rightarrow> replicate 16 0)"

definition RenewOpened ::
  "('w, 'h) prim_service \<Rightarrow> 'w \<Rightarrow> Identity \<Rightarrow> CapabilityState \<Rightarrow> time \<Rightarrow> 'w \<times> (prim_error + LeaseResult)" where
  "RenewOpened svc w identity opened expiresAt =
     (case prim_validExpiry svc w expiresAt of
        (w1, False) \<Rightarrow> (w1, Inl PInvalidArgument)
      | (w1, True) \<Rightarrow>
        (case resumeOpened svc w1 opened of
           (w2, Inl e) \<Rightarrow> (w2, Inl e)
         | (w2, Inr held) \<Rightarrow>
           (case ps_Renew svc w2 held expiresAt of
              (w3, _, Some e) \<Rightarrow> (w3, Inl (mapStoreError e))
            | (w3, held', None) \<Rightarrow>
              (case newBudgetToken svc w3 identity of
                 (w4, Inl e) \<Rightarrow> (w4, Inl e)
               | (w4, Inr (raw, nextToken, prin)) \<Rightarrow>
                 (case sealLease svc w4 identity (ca_key opened) (ca_holder opened) expiresAt (ps_FencingToken svc held') raw of
                    (w5, Inl e) \<Rightarrow> (w5, Inl e)
                  | (w5, Inr result) \<Rightarrow>
                    (case ps_Replace svc w5 prin (token_or_zero (ca_tokenID opened)) nextToken expiresAt (ps_epoch svc) of
                       (w6, Some e) \<Rightarrow> (w6, Inl (mapBudgetError e))
                     | (w6, None) \<Rightarrow> (w6, Inr result)))))))"

definition prim_Renew ::
  "('w, 'h) prim_service \<Rightarrow> 'w \<Rightarrow> Identity \<Rightarrow> string \<Rightarrow> time \<Rightarrow> 'w \<times> (prim_error + LeaseResult)" where
  "prim_Renew svc w identity capability expiresAt =
     (case OpenCapability svc w identity capability of
        (w', Inl e) \<Rightarrow> (w', Inl e)
      | (w', Inr opened) \<Rightarrow> RenewOpened svc w' identity opened expiresAt)"

definition ReleaseOpened ::
  "('w, 'h) prim_service \<Rightarrow> 'w \<Rightarrow> Identity \<Rightarrow> CapabilityState \<Rightarrow> 'w \<times> prim_error option" where
  "ReleaseOpened svc w identity opened =
     (case resumeOpened svc w opened of
        (w1, Inl e) \<Rightarrow> (w1, Some e)
      | (w1, Inr held) \<Rightarrow>
        (case ps_Release svc w1 held of
           (w2, _, Some e) \<Rightarrow> (w2, Some (mapStoreError e))
         | (w2, _, None) \<Rightarrow>
           (case derivePrincipal identity of
              Inl _ \<Rightarrow> (w2, Some PInvariant)
            | Inr prin \<Rightarrow>
              (case ps_Retire svc w2 prin (token_or_zero (ca_tokenID opened)) (ps_epoch svc) of
                 (w3, e) \<Rightarrow> (w3, map_option mapBudgetError e)))))"

definition prim_Release ::
  "('w, 'h) prim_service \<Rightarrow> 'w \<Rightarrow> Identity \<Rightarrow> string \<Rightarrow> 'w \<times> prim_error option" where
  "prim_Release svc w identity capability =
     (case OpenCapability svc w identity capability of
        (w', Inl e) \<Rightarrow> (w', Some e)
      | (w', Inr opened) \<Rightarrow> ReleaseOpened svc w' identity opened)"

section \<open>The service over the in-memory adapters\<close>

text \<open>The state: the two adapters, the reading of the clock, and the token identifiers and nonces still to be drawn.\<close>

record mem_world =
  mw_store :: CoordStore
  mw_budget :: CapabilityBudget
  mw_clock :: time
  mw_tokens :: "bytes list"
  mw_nonces :: "bytes list"

definition with_store :: "mem_world \<Rightarrow> CoordStore \<times> 'r \<Rightarrow> mem_world \<times> 'r" where
  "with_store w sr = (w\<lparr>mw_store := fst sr\<rparr>, snd sr)"

definition with_budget :: "mem_world \<Rightarrow> CapabilityBudget \<times> 'r \<Rightarrow> mem_world \<times> 'r" where
  "with_budget w br = (w\<lparr>mw_budget := fst br\<rparr>, snd br)"

definition mem_service ::
  "u64 \<Rightarrow> duration \<Rightarrow> aead \<Rightarrow> SealingKey \<Rightarrow> (mem_world, lease) prim_service" where
  "mem_service epoch maxTTL c key =
     \<lparr>ps_epoch = epoch, ps_maxTTL = maxTTL, ps_now = (\<lambda>w. (w, mw_clock w)),
      ps_Consume = (\<lambda>w k v. with_store w (co_Consume (mw_store w) (mw_clock w) k v)),
      ps_Acquire = (\<lambda>w k v. with_store w (co_Acquire (mw_store w) (mw_clock w) (mw_clock w) k v)),
      ps_Resume = (\<lambda>w k v. (w, co_Resume (mw_store w) (mw_clock w) k v)),
      ps_Inspect = (\<lambda>w k v. (w, co_Inspect (mw_store w) (mw_clock w) k v)),
      ps_FencingToken = le_revision,
      ps_Renew = (\<lambda>w h t. with_store w (lease_Renew (mw_store w) h (mw_clock w) t)),
      ps_Release = (\<lambda>w h. with_store w (lease_Release (mw_store w) h)),
      ps_Reserve = (\<lambda>w p t e n. with_budget w (cb_Reserve (mw_budget w) (mw_clock w) (mw_clock w) (mw_clock w) p t e n)),
      ps_Commit = (\<lambda>w p t n. with_budget w (cb_Commit (mw_budget w) (mw_clock w) p t n)),
      ps_Cancel = (\<lambda>w p t n. with_budget w (cb_Cancel (mw_budget w) (mw_clock w) p t n)),
      ps_Replace = (\<lambda>w p a b e n. with_budget w (cb_Replace (mw_budget w) (mw_clock w) (mw_clock w) p a b e n)),
      ps_Retire = (\<lambda>w p t n. with_budget w (cb_Retire (mw_budget w) (mw_clock w) p t n)),
      ps_Seal = (\<lambda>w i s. case mw_nonces w of
          [] \<Rightarrow> (w, AEADSealer_Seal c (Some key) None i s)
        | n # ns \<Rightarrow> (w\<lparr>mw_nonces := ns\<rparr>, AEADSealer_Seal c (Some key) (Some n) i s)),
      ps_Open = (\<lambda>w i s. (w, AEADSealer_Open c (\<lambda>k. if k = sk_id key then Some key else None) i s)),
      ps_NewTokenID = (\<lambda>w. case mw_tokens w of [] \<Rightarrow> (w, None) | t # ts \<Rightarrow> (w\<lparr>mw_tokens := ts\<rparr>, Some t))\<rparr>"

section \<open>Successful calls\<close>

lemma prim_Acquire_Inr:
  assumes "prim_Acquire svc w identity scope holder expiresAt = (w', Inr result)"
  obtains key w1 w2 raw token prin w3 w4 held w5 where "deriveKey identity ''lease'' scope = Inr key"
    "guard_expiry svc w (prim_validDigest holder) expiresAt = (w1, True)" "newBudgetToken svc w1 identity = (w2, Inr (raw, token, prin))"
    "ps_Reserve svc w2 prin token expiresAt (ps_epoch svc) = (w3, None)"
    "ps_Acquire svc w3 key \<lparr>lv_holder = holder, lv_expires = expiresAt, lv_epoch = ps_epoch svc\<rparr> = (w4, Inr held)"
    "sealLease svc w4 identity key holder expiresAt (ps_FencingToken svc held) raw = (w5, Inr result)"
    "ps_Commit svc w5 prin token (ps_epoch svc) = (w', None)"
  using assms unfolding prim_Acquire_def cancel_with_def
  by (auto split: sum.split_asm prod.split_asm bool.split_asm option.split_asm)

lemma RenewOpened_Inr:
  assumes "RenewOpened svc w identity opened expiresAt = (w', Inr result)"
  obtains w1 w2 held w3 held' w4 raw nextToken prin w5 where "prim_validExpiry svc w expiresAt = (w1, True)"
    "resumeOpened svc w1 opened = (w2, Inr held)" "ps_Renew svc w2 held expiresAt = (w3, held', None)"
    "newBudgetToken svc w3 identity = (w4, Inr (raw, nextToken, prin))"
    "sealLease svc w4 identity (ca_key opened) (ca_holder opened) expiresAt (ps_FencingToken svc held') raw = (w5, Inr result)"
    "ps_Replace svc w5 prin (token_or_zero (ca_tokenID opened)) nextToken expiresAt (ps_epoch svc) = (w', None)"
  using assms unfolding RenewOpened_def
  by (auto split: sum.split_asm prod.split_asm bool.split_asm option.split_asm)

lemma sealLease_Inr:
  assumes "sealLease svc w identity key holder expiresAt fence tokenID = (w', Inr result)"
  obtains state where "NewCapabilityState key holder expiresAt (ps_epoch svc) fence tokenID = Inr state"
    "ps_Seal svc w identity state = (w', Inr (lr_Capability result))" "lr_Capability result \<noteq> []"
    "length (lr_Capability result) \<le> maxCapabilitySize" "lr_FencingToken result = fence"
  using assms unfolding sealLease_def
  by (auto split: sum.split_asm prod.split_asm if_split_asm)

lemma newBudgetToken_mem:
  assumes "newBudgetToken (mem_service epoch maxTTL c key) w identity = (w', Inr (raw, token, prin))"
  shows "raw \<in> set (mw_tokens w)" "set (mw_tokens w') \<subseteq> set (mw_tokens w)" "mw_store w' = mw_store w" "mw_nonces w' = mw_nonces w"
  using assms by (auto simp: newBudgetToken_def mem_service_def split: list.split_asm prod.split_asm sum.split_asm option.split_asm)

text \<open>
  What a configured service has: a correct cipher with a 32-byte key whose identifier has no dot, nonces and token identifiers of
  the sizes the source draws, and stores of the service's epoch. An expiry as the API parses it is a time with no monotonic
  reading in the range of the encoding.
\<close>

definition mem_ready :: "u64 \<Rightarrow> aead \<Rightarrow> SealingKey \<Rightarrow> mem_world \<Rightarrow> bool" where
  "mem_ready epoch c key w \<longleftrightarrow> aead_correct c \<and> length (sk_bytes key) = 32 \<and> CHR ''.'' \<notin> set (sk_id key) \<and>
     (\<forall>n \<in> set (mw_nonces w). length n = NonceSize) \<and> (\<forall>t \<in> set (mw_tokens w). length t = 16) \<and> co_Epoch (mw_store w) = epoch"

definition parsed_expiry :: "time \<Rightarrow> bool" where
  "parsed_expiry t \<longleftrightarrow> t_mono t = None \<and> 0 \<le> time_UnixMilli t \<and> time_UnixMilli t \<le> uint maxSafeInteger"

lemma NewCapabilityState_Inr:
  assumes "NewCapabilityState k holder expiresAt epoch fence tokenID = Inr state"
  shows "state = \<lparr>ca_key = k, ca_holder = holder, ca_expiresAt = expiresAt, ca_epoch = epoch, ca_fencingToken = fence, ca_tokenID = tokenID\<rparr>"
    "NewLeaseResumeValue holder expiresAt epoch fence = Inr \<lparr>rv_holder = holder, rv_expires = expiresAt, rv_epoch = epoch, rv_token = fence\<rparr>"
  using assms by (auto simp: NewCapabilityState_def NewLeaseResumeValue_def split: if_splits sum.splits)

lemma sealed_opens:
  assumes ready: "mem_ready epoch c key w" and expiry: "parsed_expiry expiresAt" and raw: "length raw = 16"
    and sealed: "sealLease (mem_service epoch maxTTL c key) w identity k holder expiresAt fence raw = (w', Inr result)"
  shows "mw_store w' = mw_store w" "mw_clock w' = mw_clock w" "set (mw_tokens w') \<subseteq> set (mw_tokens w)" "set (mw_nonces w') \<subseteq> set (mw_nonces w)"
    "NewLeaseResumeValue holder expiresAt epoch fence = Inr \<lparr>rv_holder = holder, rv_expires = expiresAt, rv_epoch = epoch, rv_token = fence\<rparr>"
    "OpenCapability (mem_service epoch maxTTL c key) v identity (lr_Capability result) =
       (v, Inr \<lparr>ca_key = k, ca_holder = holder, ca_expiresAt = expiresAt, ca_epoch = epoch, ca_fencingToken = fence, ca_tokenID = raw\<rparr>)"
proof -
  let ?svc = "mem_service epoch maxTTL c key"
  obtain state where new: "NewCapabilityState k holder expiresAt epoch fence raw = Inr state"
    and seal: "ps_Seal ?svc w identity state = (w', Inr (lr_Capability result))"
    and size_ok: "lr_Capability result \<noteq> []" "length (lr_Capability result) \<le> maxCapabilitySize"
    using sealLease_Inr [OF sealed] by (auto simp: mem_service_def)
  note st = NewCapabilityState_Inr [OF new]
  show "NewLeaseResumeValue holder expiresAt epoch fence = Inr \<lparr>rv_holder = holder, rv_expires = expiresAt, rv_epoch = epoch, rv_token = fence\<rparr>"
    by (rule st(2))
  have "mw_nonces w \<noteq> []" using seal by (auto simp: mem_service_def AEADSealer_Seal_def split: if_splits)
  then obtain n ns where nonces: "mw_nonces w = n # ns" by (cases "mw_nonces w") auto
  then have aead: "AEADSealer_Seal c (Some key) (Some n) identity state = Inr (lr_Capability result)" and w': "w' = w\<lparr>mw_nonces := ns\<rparr>"
    using seal by (simp_all add: mem_service_def)
  then show "mw_store w' = mw_store w" "mw_clock w' = mw_clock w" "set (mw_tokens w') \<subseteq> set (mw_tokens w)" "set (mw_nonces w') \<subseteq> set (mw_nonces w)"
    using nonces by auto
  have "sealable state" using new expiry raw st(1) by (simp add: sealable_def parsed_expiry_def)
  then have "AEADSealer_Open c (\<lambda>i. if i = sk_id key then Some key else None) identity (lr_Capability result) = Inr state"
    using ready nonces aead by (intro open_sealed) (auto simp: mem_ready_def)
  then show "OpenCapability ?svc v identity (lr_Capability result) =
       (v, Inr \<lparr>ca_key = k, ca_holder = holder, ca_expiresAt = expiresAt, ca_epoch = epoch, ca_fencingToken = fence, ca_tokenID = raw\<rparr>)"
    using size_ok st(1) by (simp add: OpenCapability_def mem_service_def)
qed

text \<open>A lease the store granted is valid until its expiry as long as nothing touches it.\<close>

lemma co_Inspect_record:
  assumes "digestPattern k" "co_Epoch s = epoch"
    "map_of (co_leases s) k = Some \<lparr>lr_holder = holder, lr_expires = e, lr_epoch = epoch, lr_revision = r, lr_released = False\<rparr>"
  shows "co_Inspect s now k \<lparr>rv_holder = holder, rv_expires = e, rv_epoch = epoch, rv_token = r\<rparr> =
    Inr (if time_After e (time_UTC now) then LeaseValid else LeaseExpired)"
  using assms by (simp add: co_Inspect_def)

lemma resumed_record:
  assumes "resumeOpened (mem_service epoch maxTTL c key) w \<lparr>ca_key = k, ca_holder = holder, ca_expiresAt = e, ca_epoch = epoch, ca_fencingToken = r, ca_tokenID = raw\<rparr> = (w', Inr held)"
  shows "w' = w" "digestPattern k" "co_Epoch (mw_store w) = epoch"
    "map_of (co_leases (mw_store w)) k = Some \<lparr>lr_holder = holder, lr_expires = e, lr_epoch = epoch, lr_revision = r, lr_released = False\<rparr>"
    "held = \<lparr>le_key = k, le_holder = holder, le_expires = e, le_revision = r, le_released = False\<rparr>"
proof -
  obtain v where v: "NewLeaseResumeValue holder e epoch r = Inr v" and
    resume: "w' = w" "co_Resume (mw_store w) (mw_clock w) k v = Inr held"
    using assms by (auto simp: resumeOpened_def resume_value_def mem_service_def split: sum.split_asm)
  have v: "v = \<lparr>rv_holder = holder, rv_expires = e, rv_epoch = epoch, rv_token = r\<rparr>"
    using v by (simp add: NewLeaseResumeValue_def split: if_split_asm)
  show "w' = w" by (rule resume(1))
  show "digestPattern k" "co_Epoch (mw_store w) = epoch"
    "map_of (co_leases (mw_store w)) k = Some \<lparr>lr_holder = holder, lr_expires = e, lr_epoch = epoch, lr_revision = r, lr_released = False\<rparr>"
    "held = \<lparr>le_key = k, le_holder = holder, le_expires = e, le_revision = r, le_released = False\<rparr>"
    using resume(2) by (auto simp: v co_Resume_def split: if_split_asm option.split_asm)
qed

lemma guard_expiry_mem: "guard_expiry (mem_service epoch maxTTL c key) w g e = (w', True) \<Longrightarrow> w' = w"
  by (simp add: guard_expiry_def prim_validExpiry_def mem_service_def Let_def split: if_split_asm)

lemma inspect_opened:
  assumes "OpenCapability (mem_service epoch maxTTL c key) w identity capability =
      (w, Inr \<lparr>ca_key = k, ca_holder = holder, ca_expiresAt = e, ca_epoch = epoch, ca_fencingToken = r, ca_tokenID = raw\<rparr>)"
    "NewLeaseResumeValue holder e epoch r = Inr v" "co_Inspect (mw_store w) (mw_clock w) k v = Inr status"
  shows "prim_Inspect (mem_service epoch maxTTL c key) w identity capability = (w, Inr status)"
  using assms(2,3) by (simp add: prim_Inspect_def assms(1) InspectOpened_def resume_value_def) (simp add: mem_service_def)

lemma acquired_record:
  assumes ready: "mem_ready epoch c key w" and expiry: "parsed_expiry e"
    and acquired: "prim_Acquire (mem_service epoch maxTTL c key) w identity scope holder e = (w', Inr result)"
  obtains k r raw where "digestPattern k" "mem_ready epoch c key w'" "lr_FencingToken result = r"
    "map_of (co_leases (mw_store w')) k = Some \<lparr>lr_holder = holder, lr_expires = e, lr_epoch = epoch, lr_revision = r, lr_released = False\<rparr>"
    "NewLeaseResumeValue holder e epoch r = Inr \<lparr>rv_holder = holder, rv_expires = e, rv_epoch = epoch, rv_token = r\<rparr>"
    "\<And>v. OpenCapability (mem_service epoch maxTTL c key) v identity (lr_Capability result) =
      (v, Inr \<lparr>ca_key = k, ca_holder = holder, ca_expiresAt = e, ca_epoch = epoch, ca_fencingToken = r, ca_tokenID = raw\<rparr>)"
proof -
  let ?svc = "mem_service epoch maxTTL c key"
  have fence: "ps_FencingToken ?svc = le_revision" "ps_epoch ?svc = epoch" by (simp_all add: mem_service_def)
  obtain k w1 w2 raw token prin w3 w4 held w5 where
    w1: "guard_expiry ?svc w (prim_validDigest holder) e = (w1, True)" and token: "newBudgetToken ?svc w1 identity = (w2, Inr (raw, token, prin))"
    and reserve: "ps_Reserve ?svc w2 prin token e epoch = (w3, None)"
    and acquire: "ps_Acquire ?svc w3 k \<lparr>lv_holder = holder, lv_expires = e, lv_epoch = epoch\<rparr> = (w4, Inr held)"
    and sealed: "sealLease ?svc w4 identity k holder e (le_revision held) raw = (w5, Inr result)"
    and commit: "ps_Commit ?svc w5 prin token epoch = (w', None)"
    using prim_Acquire_Inr [OF acquired] unfolding fence by metis
  note t = newBudgetToken_mem [OF token]
  have raw: "length raw = 16" using t(1) ready guard_expiry_mem [OF w1] by (simp add: mem_ready_def)
  have w3: "mw_store w3 = mw_store w" "mw_nonces w3 = mw_nonces w" "set (mw_tokens w3) \<subseteq> set (mw_tokens w)"
    using reserve t guard_expiry_mem [OF w1] by (auto simp: mem_service_def with_budget_def)
  have granted: "mw_nonces w4 = mw_nonces w3 \<and> mw_tokens w4 = mw_tokens w3" "digestPattern k" "co_Epoch (mw_store w4) = epoch"
    "map_of (co_leases (mw_store w4)) k = Some \<lparr>lr_holder = holder, lr_expires = e, lr_epoch = epoch, lr_revision = le_revision held, lr_released = False\<rparr>"
    using acquire w3(1) ready
    by (auto simp: mem_service_def with_store_def co_Acquire_def co_valid_def Let_def mem_ready_def split: if_split_asm)
  then have nonces: "mw_nonces w4 = mw_nonces w" "set (mw_tokens w4) \<subseteq> set (mw_tokens w)"
    using w3 by simp_all
  then have ready4: "mem_ready epoch c key w4" using ready granted(3) by (auto simp: mem_ready_def)
  note opens = sealed_opens [OF ready4 expiry raw sealed]
  have w': "mw_store w' = mw_store w4" "mw_nonces w' = mw_nonces w5" "mw_tokens w' = mw_tokens w5"
    using commit opens(1) by (auto simp: mem_service_def with_budget_def)
  then have "mem_ready epoch c key w'" using ready4 opens(3,4) by (auto simp: mem_ready_def)
  moreover have "lr_FencingToken result = le_revision held" using sealLease_Inr [OF sealed] by blast
  ultimately show ?thesis using that granted(2,4) w'(1) opens(5,6) by metis
qed

lemma renewed_record:
  assumes ready: "mem_ready epoch c key w" and expiry: "parsed_expiry e'"
    and opened: "OpenCapability (mem_service epoch maxTTL c key) w identity capability =
      (w, Inr \<lparr>ca_key = k, ca_holder = holder, ca_expiresAt = e, ca_epoch = epoch, ca_fencingToken = r, ca_tokenID = raw\<rparr>)"
    and renewed: "prim_Renew (mem_service epoch maxTTL c key) w identity capability e' = (w', Inr result)"
  obtains r' raw' where "digestPattern k" "co_Epoch (mw_store w') = epoch" "r' = co_revision (mw_store w) + 1"
    "map_of (co_leases (mw_store w')) k = Some \<lparr>lr_holder = holder, lr_expires = e', lr_epoch = epoch, lr_revision = r', lr_released = False\<rparr>"
    "NewLeaseResumeValue holder e' epoch r' = Inr \<lparr>rv_holder = holder, rv_expires = e', rv_epoch = epoch, rv_token = r'\<rparr>"
    "\<And>v. OpenCapability (mem_service epoch maxTTL c key) v identity (lr_Capability result) =
      (v, Inr \<lparr>ca_key = k, ca_holder = holder, ca_expiresAt = e', ca_epoch = epoch, ca_fencingToken = r', ca_tokenID = raw'\<rparr>)"
proof -
  let ?svc = "mem_service epoch maxTTL c key"
  let ?state = "\<lparr>ca_key = k, ca_holder = holder, ca_expiresAt = e, ca_epoch = epoch, ca_fencingToken = r, ca_tokenID = raw\<rparr>"
  have fence: "ps_FencingToken ?svc = le_revision" "ps_epoch ?svc = epoch" by (simp_all add: mem_service_def)
  have "RenewOpened ?svc w identity ?state e' = (w', Inr result)" using renewed opened by (simp add: prim_Renew_def)
  then obtain w1 w2 held w3 held' w4 raw' nextToken prin w5 where w1: "prim_validExpiry ?svc w e' = (w1, True)"
    and resumed: "resumeOpened ?svc w1 ?state = (w2, Inr held)" and renew: "ps_Renew ?svc w2 held e' = (w3, held', None)"
    and token: "newBudgetToken ?svc w3 identity = (w4, Inr (raw', nextToken, prin))"
    and sealed: "sealLease ?svc w4 identity k holder e' (le_revision held') raw' = (w5, Inr result)"
    and replace: "ps_Replace ?svc w5 prin (token_or_zero raw) nextToken e' epoch = (w', None)"
    using RenewOpened_Inr [of ?svc w identity ?state e' w' result] unfolding fence CapabilityState.simps by blast
  have [simp]: "w1 = w" using w1 by (simp add: prim_validExpiry_def mem_service_def Let_def)
  note rec = resumed_record [OF resumed, simplified]
  have kept: "mw_nonces w3 = mw_nonces w \<and> mw_tokens w3 = mw_tokens w" "co_Epoch (mw_store w3) = epoch" "le_revision held' = co_revision (mw_store w) + 1"
    "map_of (co_leases (mw_store w3)) k = Some \<lparr>lr_holder = holder, lr_expires = e', lr_epoch = epoch, lr_revision = co_revision (mw_store w) + 1, lr_released = False\<rparr>"
    using renew lease_Renew_None [of "mw_store w" held "mw_clock w" e' "mw_store w3" held'] rec
    by (auto simp: mem_service_def with_store_def prod_eq_iff)
  note t = newBudgetToken_mem [OF token]
  have raw': "length raw' = 16" using t(1) kept(1) ready by (auto simp: mem_ready_def)
  have ready4: "mem_ready epoch c key w4" using ready t kept by (auto simp: mem_ready_def)
  note opens = sealed_opens [OF ready4 expiry raw' sealed]
  have "mw_store w' = mw_store w3" using replace opens(1) t(3) by (auto simp: mem_service_def with_budget_def)
  then show ?thesis using that [of "co_revision (mw_store w) + 1"] rec(2) kept opens(5,6) by metis
qed

section \<open>Properties\<close>

text \<open>
  C37: a lease session through the service over the in-memory adapters, with a sealing key whose identifier has no dot. The capability of a successful Acquire inspects as valid
  until the lease expires. When it is renewed, in whatever later state, the capability the renewal returns inspects as valid until
  the new expiry, and the old one is stale.
\<close>

theorem lease_session:
  assumes "mem_ready epoch c key w" "parsed_expiry e" "prim_Acquire (mem_service epoch maxTTL c key) w identity scope holder e = (w1, Inr r1)"
    and "mem_ready epoch c key w2" "parsed_expiry e2" "lr_FencingToken r1 \<le> co_revision (mw_store w2)"
      "prim_Renew (mem_service epoch maxTTL c key) w2 identity (lr_Capability r1) e2 = (w3, Inr r2)"
  shows "snd (prim_Inspect (mem_service epoch maxTTL c key) (w1\<lparr>mw_clock := t\<rparr>) identity (lr_Capability r1)) =
      Inr (if time_After e (time_UTC t) then LeaseValid else LeaseExpired) \<and>
    snd (prim_Inspect (mem_service epoch maxTTL c key) (w3\<lparr>mw_clock := t\<rparr>) identity (lr_Capability r2)) =
      Inr (if time_After e2 (time_UTC t) then LeaseValid else LeaseExpired) \<and>
    snd (prim_Inspect (mem_service epoch maxTTL c key) (w3\<lparr>mw_clock := t\<rparr>) identity (lr_Capability r1)) = Inr LeaseStale"
proof -
  let ?svc = "mem_service epoch maxTTL c key"
  obtain k r raw where k: "digestPattern k" "mem_ready epoch c key w1" "lr_FencingToken r1 = r"
    and rec1: "map_of (co_leases (mw_store w1)) k = Some \<lparr>lr_holder = holder, lr_expires = e, lr_epoch = epoch, lr_revision = r, lr_released = False\<rparr>"
    and v1: "NewLeaseResumeValue holder e epoch r = Inr \<lparr>rv_holder = holder, rv_expires = e, rv_epoch = epoch, rv_token = r\<rparr>"
    and open1: "\<And>v. OpenCapability ?svc v identity (lr_Capability r1) =
      (v, Inr \<lparr>ca_key = k, ca_holder = holder, ca_expiresAt = e, ca_epoch = epoch, ca_fencingToken = r, ca_tokenID = raw\<rparr>)"
    by (rule acquired_record [OF assms(1-3)]) blast
  obtain r' raw' where epoch3: "co_Epoch (mw_store w3) = epoch" and r': "r' = co_revision (mw_store w2) + 1"
    and rec3: "map_of (co_leases (mw_store w3)) k = Some \<lparr>lr_holder = holder, lr_expires = e2, lr_epoch = epoch, lr_revision = r', lr_released = False\<rparr>"
    and v3: "NewLeaseResumeValue holder e2 epoch r' = Inr \<lparr>rv_holder = holder, rv_expires = e2, rv_epoch = epoch, rv_token = r'\<rparr>"
    and open3: "\<And>v. OpenCapability ?svc v identity (lr_Capability r2) =
      (v, Inr \<lparr>ca_key = k, ca_holder = holder, ca_expiresAt = e2, ca_epoch = epoch, ca_fencingToken = r', ca_tokenID = raw'\<rparr>)"
    by (rule renewed_record [OF assms(4,5) open1 assms(7)]) blast
  have "r' \<noteq> 0" using v3 by (simp add: NewLeaseResumeValue_def split: if_split_asm)
  then have "co_revision (mw_store w2) \<noteq> - 1" unfolding r' by auto
  then have "r' \<noteq> r" using assms(6) k(3) less_Suc_word [of r "co_revision (mw_store w2)"] unfolding r' by auto
  then have "co_Inspect (mw_store w3) t k \<lparr>rv_holder = holder, rv_expires = e, rv_epoch = epoch, rv_token = r\<rparr> = Inr LeaseStale"
    using k(1) epoch3 rec3 by (simp add: co_Inspect_def)
  then show ?thesis
    using inspect_opened [OF open1 v1, of "w1\<lparr>mw_clock := t\<rparr>"] inspect_opened [OF open3 v3, of "w3\<lparr>mw_clock := t\<rparr>"]
      inspect_opened [OF open1 v1, of "w3\<lparr>mw_clock := t\<rparr>"]
      co_Inspect_record [OF k(1) _ rec1] co_Inspect_record [OF k(1) epoch3 rec3] k(2) by (simp add: mem_ready_def)
qed

definition ex_sealing_key :: SealingKey where
  "ex_sealing_key = \<lparr>sk_id = ''k'', sk_bytes = replicate 32 7\<rparr>"

definition ex_world :: mem_world where
  "ex_world = \<lparr>mw_store = \<lparr>co_MaxLifetime = 2 * Second, co_Epoch = 1, co_nonces = [], co_leases = [], co_revision = 0\<rparr>,
     mw_budget = ex_budget, mw_clock = ex_time 0, mw_tokens = [replicate 16 1, replicate 16 2], mw_nonces = [replicate 12 0, replicate 12 1]\<rparr>"

definition ex_service :: "(mem_world, lease) prim_service" where
  "ex_service = mem_service 1 (2 * Second) ex_aead ex_sealing_key"

lemma ex_prim_ready: "mem_ready 1 ex_aead ex_sealing_key ex_world"
  by (simp add: mem_ready_def ex_aead_correct ex_sealing_key_def ex_world_def NonceSize_def)

lemma ex_derived:
  obtains K P where "deriveKey ex_identity ''lease'' ex_digest = Inr K" "derivePrincipal ex_identity = Inr P" "digestPattern K" "digestPattern P"
proof -
  have "validIdentifier (id_tenant ex_identity)" "validIdentifier (id_principal ex_identity)" "prim_validDigest ex_digest" by code_simp+
  then show ?thesis using that digestPattern_hex_encode [OF sha256_length] by (simp add: deriveKey_def derivePrincipal_def)
qed

lemma ex_seals:
  assumes "NewCapabilityState k holder e 1 fence raw = Inr state" "length raw = 16" "mw_nonces w = n # ns" "length n = NonceSize"
  shows "\<exists>cap. sealLease ex_service w ex_identity k holder e fence raw =
    (w\<lparr>mw_nonces := ns\<rparr>, Inr \<lparr>lr_Capability = cap, lr_FencingToken = fence, lr_ExpiresAt = e\<rparr>)"
proof -
  note st = NewCapabilityState_Inr(1) [OF assms(1)]
  have enc: "encodeState state = Inr (str_bytes k @ str_bytes holder @ put_be64 (of_int (time_UnixMilli e)) @ put_be64 1 @ put_be64 fence @ raw)"
    using assms(1) by (simp add: encodeState_def st)
  have len: "length k = 64" "length holder = 64"
    using assms(1) by (auto simp: NewCapabilityState_def NewLeaseResumeValue_def prim_validDigest_def digestPattern_def split: if_splits sum.splits)
  have "validIdentifier ''k''" by code_simp
  then show ?thesis using assms enc len
    by (simp add: sealLease_def ex_service_def mem_service_def ex_sealing_key_def AEADSealer_Seal_def ex_aead_def maxCapabilitySize_def NonceSize_def)
qed

lemma digestPattern_valid:
  assumes "digestPattern s"
  shows "prim_validDigest s"
proof -
  have "list_all (\<lambda>c. char_between (CHR ''0'') c (CHR ''9'') \<or> char_between (CHR ''a'') c (CHR ''f'')) ''abcdef0123456789''" by code_simp
  then show ?thesis using assms unfolding digestPattern_def prim_validDigest_def list_all_iff by blast
qed

lemma unixMilli_facts:
  "t_loc (unixMilli_UTC n) = UTC" "t_nanos (unixMilli_UTC n) = n * Millisecond" "t_nanos (ex_time n) = n" "0 < Millisecond" "\<not> Millisecond < 0"
  "Second = 1000 * Millisecond"
  by (simp_all add: unixMilli_UTC_def ex_time_def Second_def Millisecond_def)

lemma ex_expiry: "parsed_expiry (unixMilli_UTC 5)" "parsed_expiry (unixMilli_UTC 6)"
  by code_simp+

definition ex_world1 :: "Digest \<Rightarrow> Digest \<Rightarrow> mem_world" where
  "ex_world1 K P = ex_world
     \<lparr>mw_store := \<lparr>co_MaxLifetime = 2 * Second, co_Epoch = 1, co_nonces = [], co_leases = [(K, \<lparr>lr_holder = ex_digest,
         lr_expires = unixMilli_UTC 5, lr_epoch = 1, lr_revision = 1, lr_released = False\<rparr>)], co_revision = 1\<rparr>,
      mw_budget := ex_budget\<lparr>cb_entries := [(P, [\<lparr>be_token = replicate 16 1, be_expires = unixMilli_UTC 5, be_leaseExpires = unixMilli_UTC 5,
         be_active = True\<rparr>])]\<rparr>,
      mw_tokens := [replicate 16 2], mw_nonces := [replicate 12 1]\<rparr>"

lemma ex_acquire:
  assumes "deriveKey ex_identity ''lease'' ex_digest = Inr K" "derivePrincipal ex_identity = Inr P" "digestPattern K" "digestPattern P"
  shows "\<exists>cap. prim_Acquire ex_service ex_world ex_identity ex_digest ex_digest (unixMilli_UTC 5) =
    (ex_world1 K P, Inr \<lparr>lr_Capability = cap, lr_FencingToken = 1, lr_ExpiresAt = unixMilli_UTC 5\<rparr>) \<and>
    (\<forall>w. OpenCapability ex_service w ex_identity cap = (w, Inr \<lparr>ca_key = K, ca_holder = ex_digest, ca_expiresAt = unixMilli_UTC 5,
      ca_epoch = 1, ca_fencingToken = 1, ca_tokenID = replicate 16 1\<rparr>))"
proof -
  have d: "prim_validDigest ex_digest" "digestPattern ex_digest" by code_simp+
  have guard: "guard_expiry ex_service ex_world True (unixMilli_UTC 5) = (ex_world, True)"
    by (simp add: guard_expiry_def prim_validExpiry_def ex_service_def mem_service_def ex_world_def unixMilli_facts)
  have id1: "NewCapabilityTokenID (replicate 16 1) = Inr (replicate 16 1)" by code_simp
  have token: "newBudgetToken ex_service ex_world ex_identity = (ex_world\<lparr>mw_tokens := [replicate 16 2]\<rparr>, Inr (replicate 16 1, replicate 16 1, P))"
    using assms(2) id1 by (simp add: newBudgetToken_def ex_service_def mem_service_def ex_world_def)
  have reserve: "ps_Reserve ex_service (ex_world\<lparr>mw_tokens := [replicate 16 2]\<rparr>) P (replicate 16 1) (unixMilli_UTC 5) 1 =
      (ex_world\<lparr>mw_tokens := [replicate 16 2], mw_budget := ex_budget\<lparr>cb_entries := [(P, [\<lparr>be_token = replicate 16 1,
        be_expires = unixMilli_UTC 5, be_leaseExpires = unixMilli_UTC 5, be_active = False\<rparr>])]\<rparr>\<rparr>, None)"
    using assms(4) by (simp add: ex_service_def mem_service_def with_budget_def cb_Reserve_def cb_prune_def cb_of_def cb_set_def ex_world_def
      ex_budget_def unixMilli_facts)
  have state: "NewCapabilityState K ex_digest (unixMilli_UTC 5) 1 1 (replicate 16 1) = Inr \<lparr>ca_key = K, ca_holder = ex_digest,
      ca_expiresAt = unixMilli_UTC 5, ca_epoch = 1, ca_fencingToken = 1, ca_tokenID = replicate 16 1\<rparr>"
    using digestPattern_valid [OF assms(3)] d by (simp add: NewCapabilityState_def NewLeaseResumeValue_def unixMilli_facts maxSafeInteger_def) code_simp
  let ?w3 = "ex_world\<lparr>mw_tokens := [replicate 16 2], mw_budget := ex_budget\<lparr>cb_entries := [(P, [\<lparr>be_token = replicate 16 1,
        be_expires = unixMilli_UTC 5, be_leaseExpires = unixMilli_UTC 5, be_active = False\<rparr>])]\<rparr>\<rparr>"
  let ?w4 = "?w3\<lparr>mw_store := mw_store (ex_world1 K P)\<rparr>"
  have acquire: "ps_Acquire ex_service ?w3 K \<lparr>lv_holder = ex_digest, lv_expires = unixMilli_UTC 5, lv_epoch = 1\<rparr> =
      (?w4, Inr \<lparr>le_key = K, le_holder = ex_digest, le_expires = unixMilli_UTC 5, le_revision = 1, le_released = False\<rparr>)"
    using assms(3) d by (simp add: ex_service_def mem_service_def with_store_def co_Acquire_def co_valid_def ex_world_def ex_world1_def unixMilli_facts)
  obtain cap where sealed: "sealLease ex_service ?w4 ex_identity K ex_digest (unixMilli_UTC 5) 1 (replicate 16 1) =
      (?w4\<lparr>mw_nonces := [replicate 12 1]\<rparr>, Inr \<lparr>lr_Capability = cap, lr_FencingToken = 1, lr_ExpiresAt = unixMilli_UTC 5\<rparr>)"
    using ex_seals [OF state, of ?w4] by (auto simp: ex_world_def NonceSize_def)
  have "mem_ready 1 ex_aead ex_sealing_key ?w4" using ex_prim_ready by (simp add: mem_ready_def ex_world1_def ex_world_def)
  then have "OpenCapability ex_service w ex_identity cap = (w, Inr \<lparr>ca_key = K, ca_holder = ex_digest, ca_expiresAt = unixMilli_UTC 5,
      ca_epoch = 1, ca_fencingToken = 1, ca_tokenID = replicate 16 1\<rparr>)" for w
    using sealed_opens(6) [OF _ ex_expiry(1) _ sealed [unfolded ex_service_def], of w] by (simp add: ex_service_def)
  moreover have "ps_Commit ex_service (?w4\<lparr>mw_nonces := [replicate 12 1]\<rparr>) P (replicate 16 1) 1 = (ex_world1 K P, None)"
    using assms(4) by (simp add: ex_service_def mem_service_def with_budget_def cb_Commit_def cb_find_def cb_prune_def cb_of_def cb_set_def ex_world_def
      ex_budget_def ex_world1_def unixMilli_facts Let_def)
  moreover have "ps_epoch ex_service = 1" "ps_FencingToken ex_service = le_revision" by (simp_all add: ex_service_def mem_service_def)
  ultimately show ?thesis using assms(1) d guard token reserve acquire sealed by (simp add: prim_Acquire_def)
qed

lemma ex_renew:
  assumes "deriveKey ex_identity ''lease'' ex_digest = Inr K" "derivePrincipal ex_identity = Inr P" "digestPattern K" "digestPattern P"
    and opened: "\<And>w. OpenCapability ex_service w ex_identity cap = (w, Inr \<lparr>ca_key = K, ca_holder = ex_digest,
      ca_expiresAt = unixMilli_UTC 5, ca_epoch = 1, ca_fencingToken = 1, ca_tokenID = replicate 16 1\<rparr>)"
  shows "\<exists>w r. prim_Renew ex_service (ex_world1 K P) ex_identity cap (unixMilli_UTC 6) = (w, Inr r)"
proof -
  let ?w = "ex_world1 K P"
  let ?e = "unixMilli_UTC 6"
  have d: "prim_validDigest ex_digest" "digestPattern ex_digest" by code_simp+
  have guard: "prim_validExpiry ex_service ?w ?e = (?w, True)"
    by (simp add: prim_validExpiry_def ex_service_def mem_service_def ex_world_def ex_world1_def unixMilli_facts)
  have resume: "resumeOpened ex_service ?w \<lparr>ca_key = K, ca_holder = ex_digest, ca_expiresAt = unixMilli_UTC 5, ca_epoch = 1,
      ca_fencingToken = 1, ca_tokenID = replicate 16 1\<rparr> =
      (?w, Inr \<lparr>le_key = K, le_holder = ex_digest, le_expires = unixMilli_UTC 5, le_revision = 1, le_released = False\<rparr>)"
    using assms(3) d by (simp add: resumeOpened_def resume_value_def NewLeaseResumeValue_def ex_service_def mem_service_def co_Resume_def
      ex_world_def ex_world1_def unixMilli_facts maxSafeInteger_def)
  let ?w2 = "?w\<lparr>mw_store := \<lparr>co_MaxLifetime = 2 * Second, co_Epoch = 1, co_nonces = [], co_leases = [(K, \<lparr>lr_holder = ex_digest,
         lr_expires = ?e, lr_epoch = 1, lr_revision = 2, lr_released = False\<rparr>)], co_revision = 2\<rparr>\<rparr>"
  have renew: "ps_Renew ex_service ?w \<lparr>le_key = K, le_holder = ex_digest, le_expires = unixMilli_UTC 5, le_revision = 1, le_released = False\<rparr> ?e =
      (?w2, \<lparr>le_key = K, le_holder = ex_digest, le_expires = ?e, le_revision = 2, le_released = False\<rparr>, None)"
    using assms(3) d by (simp add: ex_service_def mem_service_def with_store_def lease_Renew_def co_valid_def ex_world_def ex_world1_def unixMilli_facts)
  have id2: "NewCapabilityTokenID (replicate 16 2) = Inr (replicate 16 2)" "token_or_zero (replicate 16 1) = replicate 16 1" by code_simp+
  have token: "newBudgetToken ex_service ?w2 ex_identity = (?w2\<lparr>mw_tokens := []\<rparr>, Inr (replicate 16 2, replicate 16 2, P))"
    using assms(2) id2 by (simp add: newBudgetToken_def ex_service_def mem_service_def ex_world_def ex_world1_def)
  have state: "NewCapabilityState K ex_digest ?e 1 2 (replicate 16 2) = Inr \<lparr>ca_key = K, ca_holder = ex_digest,
      ca_expiresAt = ?e, ca_epoch = 1, ca_fencingToken = 2, ca_tokenID = replicate 16 2\<rparr>"
    using digestPattern_valid [OF assms(3)] d by (simp add: NewCapabilityState_def NewLeaseResumeValue_def unixMilli_facts maxSafeInteger_def) code_simp
  obtain cap' where "sealLease ex_service (?w2\<lparr>mw_tokens := []\<rparr>) ex_identity K ex_digest ?e 2 (replicate 16 2) =
      (?w2\<lparr>mw_tokens := [], mw_nonces := []\<rparr>, Inr \<lparr>lr_Capability = cap', lr_FencingToken = 2, lr_ExpiresAt = ?e\<rparr>)"
    using ex_seals [OF state, of "?w2\<lparr>mw_tokens := []\<rparr>"] by (auto simp: ex_world_def ex_world1_def NonceSize_def)
  moreover have "\<exists>w'. ps_Replace ex_service (?w2\<lparr>mw_tokens := [], mw_nonces := []\<rparr>) P (replicate 16 1) (replicate 16 2) ?e 1 = (w', None)"
    using assms(4) by (simp add: ex_service_def mem_service_def with_budget_def cb_Replace_def cb_find_def cb_prune_def cb_of_def cb_set_def ex_world_def
      ex_budget_def ex_world1_def unixMilli_facts Let_def)
  moreover have "ps_epoch ex_service = 1" "ps_FencingToken ex_service = le_revision" by (simp_all add: ex_service_def mem_service_def)
  ultimately show ?thesis using opened guard resume renew token id2 by (auto simp: prim_Renew_def RenewOpened_def)
qed

theorem lease_session_witness:
  "\<exists>w1 r1 w3 r2. prim_Acquire ex_service ex_world ex_identity ex_digest ex_digest (unixMilli_UTC 5) = (w1, Inr r1) \<and>
     prim_Renew ex_service w1 ex_identity (lr_Capability r1) (unixMilli_UTC 6) = (w3, Inr r2) \<and>
     snd (prim_Inspect ex_service (w1\<lparr>mw_clock := ex_time 0\<rparr>) ex_identity (lr_Capability r1)) = Inr LeaseValid \<and>
     snd (prim_Inspect ex_service (w3\<lparr>mw_clock := ex_time 0\<rparr>) ex_identity (lr_Capability r2)) = Inr LeaseValid \<and>
     snd (prim_Inspect ex_service (w3\<lparr>mw_clock := ex_time 0\<rparr>) ex_identity (lr_Capability r1)) = Inr LeaseStale"
proof -
  obtain K P where kp: "deriveKey ex_identity ''lease'' ex_digest = Inr K" "derivePrincipal ex_identity = Inr P" "digestPattern K" "digestPattern P"
    by (rule ex_derived)
  obtain cap where acquired: "prim_Acquire ex_service ex_world ex_identity ex_digest ex_digest (unixMilli_UTC 5) =
      (ex_world1 K P, Inr \<lparr>lr_Capability = cap, lr_FencingToken = 1, lr_ExpiresAt = unixMilli_UTC 5\<rparr>)"
    and opens: "\<And>w. OpenCapability ex_service w ex_identity cap = (w, Inr \<lparr>ca_key = K, ca_holder = ex_digest, ca_expiresAt = unixMilli_UTC 5,
      ca_epoch = 1, ca_fencingToken = 1, ca_tokenID = replicate 16 1\<rparr>)"
    using ex_acquire [OF kp] by blast
  obtain w3 r2 where renewed: "prim_Renew ex_service (ex_world1 K P) ex_identity cap (unixMilli_UTC 6) = (w3, Inr r2)"
    using ex_renew [OF kp opens] by blast
  have ready: "mem_ready 1 ex_aead ex_sealing_key (ex_world1 K P)" using ex_prim_ready by (simp add: mem_ready_def ex_world1_def ex_world_def)
  have token: "lr_FencingToken \<lparr>lr_Capability = cap, lr_FencingToken = 1, lr_ExpiresAt = unixMilli_UTC 5\<rparr> \<le> co_revision (mw_store (ex_world1 K P))"
    by (simp add: ex_world1_def)
  have "time_After (unixMilli_UTC 5) (time_UTC (ex_time 0))" "time_After (unixMilli_UTC 6) (time_UTC (ex_time 0))" by code_simp+
  then show ?thesis
    using acquired renewed lease_session [OF ex_prim_ready ex_expiry(1) acquired [unfolded ex_service_def] ready ex_expiry(2) token, of w3 r2 "ex_time 0"]
    by (auto simp: ex_service_def)
qed

end
