(* ===== verification/Relay_JetStream.thy ===== *)
theory Relay_JetStream
  imports Relay_Memory Base64 "HOL-Library.Sublist"
begin

text \<open>
  The distributed relay store, \<^verbatim>\<open>internal/relay/jetstream\<close>. A tenant's transcripts are the reduction of a log of commands in a
  JetStream stream: every operation reads the log from its beginning (\<^verbatim>\<open>load\<close>), decides on the reduced state, and publishes
  a command on the condition that the log has not moved, up to 64 times. The stream, the JSON codec and the UUID source are
  parameters; \<open>js_contract\<close> and \<open>codec_ok\<close> of theory \<open>JetStream_Laws\<close> are what is relied on of them. That theory proves that a log written by the
  adapter always reduces, to a state the in-memory store reaches as well, and that an append that succeeded is in the log for good.

  Texts of wrapped errors carry no numbers.
\<close>

section \<open>Commands\<close>

record command =
  cm_id :: string
  cm_type :: string
  cm_version :: string
  cm_payload :: bytes
  cm_tenant :: string

record channelPayload =
  cp_metadata :: string
  cp_channel :: string
  cp_lifecycle :: string
  cp_digest :: string
  cp_epoch :: string
  cp_uri :: string

record recordPayload =
  rp_authn :: string
  rp_authz :: string
  rp_event :: string
  rp_channel :: string
  rp_digest :: string
  rp_event_id :: string
  rp_receipt_id :: string
  rp_sequence :: u64
  rp_algorithm :: string
  rp_key_id :: string
  rp_epoch :: string
  rp_preimage :: string

record signaturePayload =
  sp_channel :: string
  sp_digest :: string
  sp_receipt_id :: string
  sp_signature :: string
  sp_epoch :: string

datatype payload = ChannelCreated channelPayload | RecordAppended recordPayload | SignatureAttached signaturePayload

text \<open>\<^verbatim>\<open>json.Marshal\<close> of the payloads and of the command, \<^verbatim>\<open>jsoncanonicalizer.Transform\<close>, \<^verbatim>\<open>decodeClosed\<close> into each of the
  types, and \<^verbatim>\<open>uuid.Parse\<close> with version 7.\<close>

record cmd_codec =
  cc_marshal_payload :: "payload \<Rightarrow> bytes"
  cc_marshal_command :: "command \<Rightarrow> bytes"
  cc_Transform :: "bytes \<Rightarrow> bytes option"
  cc_decode_command :: "bytes \<Rightarrow> command option"
  cc_decode_channel :: "bytes \<Rightarrow> channelPayload option"
  cc_decode_record :: "bytes \<Rightarrow> recordPayload option"
  cc_decode_signature :: "bytes \<Rightarrow> signaturePayload option"
  cc_uuid_v7 :: "string \<Rightarrow> bool"

definition commandVersion :: string where "commandVersion = ''1''"
definition commandChannelCreated :: string where "commandChannelCreated = ''channel_created''"
definition commandRecordAppended :: string where "commandRecordAppended = ''record_appended''"
definition commandSignatureAttached :: string where "commandSignatureAttached = ''signature_attached''"
definition MaxCommandBytes :: nat where "MaxCommandBytes = 131072"
definition maxJSONSafeInteger :: u64 where "maxJSONSafeInteger = 9007199254740991"
definition maxMutationAttempts :: nat where "maxMutationAttempts = 64"

definition newCommand :: "cmd_codec \<Rightarrow> string option \<Rightarrow> string \<Rightarrow> string \<Rightarrow> payload \<Rightarrow> relay_error + bytes" where
  "newCommand cc uuid tenantID kind body =
     (case uuid of
        None \<Rightarrow> Inl (ErrText ''generate command ID'')
      | Some ident \<Rightarrow>
          (case cc_Transform cc (cc_marshal_command cc \<lparr>cm_id = ident, cm_type = kind, cm_version = commandVersion,
                 cm_payload = cc_marshal_payload cc body, cm_tenant = tenantID\<rparr>) of
             None \<Rightarrow> Inl (ErrText ''canonicalize command'')
           | Some canonical \<Rightarrow> if length canonical > MaxCommandBytes then Inl ErrResourceLimit else Inr canonical))"

definition decodeCommand :: "cmd_codec \<Rightarrow> bytes \<Rightarrow> relay_error + command" where
  "decodeCommand cc raw =
     (if length raw = 0 \<or> length raw > MaxCommandBytes then Inl (ErrText ''invalid command size'')
      else if cc_Transform cc raw \<noteq> Some raw then Inl (ErrText ''command is not canonical JSON'')
      else case cc_decode_command cc raw of
        None \<Rightarrow> Inl (ErrText ''decode closed command'')
      | Some value \<Rightarrow>
          if \<not> cc_uuid_v7 cc (cm_id value) \<or> cm_version value \<noteq> commandVersion \<or> cm_tenant value = ''''
          then Inl (ErrText ''invalid command envelope'')
          else if cm_type value \<noteq> commandChannelCreated \<and> cm_type value \<noteq> commandRecordAppended \<and> cm_type value \<noteq> commandSignatureAttached
          then Inl (ErrText ''unknown command type'')
          else Inr value)"

definition encodeBytes :: "bytes \<Rightarrow> string" where
  "encodeBytes value = base64_encode value"

definition decodeBytes :: "string \<Rightarrow> bytes option" where
  "decodeBytes value =
     (case base64_decode_plain value of
        None \<Rightarrow> None
      | Some decoded \<Rightarrow> if base64_encode decoded \<noteq> value then None else Some decoded)"

definition preimageDigest :: "bytes \<Rightarrow> string" where
  "preimageDigest value = ''sha-256:'' @ hex_sha256 value"

section \<open>Subjects\<close>

text \<open>\<^verbatim>\<open>base32.StdEncoding\<close> without padding: the bits of the bytes in groups of five, the last one filled with zeros.\<close>

fun b32_groups :: "bool list \<Rightarrow> bool list list" where
  "b32_groups [] = []"
| "b32_groups (b # bs) = take 5 ((b # bs) @ replicate 4 False) # b32_groups (drop 4 bs)"

definition b32_alphabet :: string where
  "b32_alphabet = ''ABCDEFGHIJKLMNOPQRSTUVWXYZ234567''"

definition base32_encode :: "bytes \<Rightarrow> string" where
  "base32_encode bs =
     map (\<lambda>g. b32_alphabet ! foldl (\<lambda>n b. 2 * n + (if b then 1 else 0)) 0 g)
       (b32_groups (concat (map (\<lambda>b. map (bit b) [7, 6, 5, 4, 3, 2, 1, 0]) bs)))"

definition ascii_lower :: "char \<Rightarrow> char" where
  "ascii_lower c = (if char_between (CHR ''A'') c (CHR ''Z'') then char_of (of_char c + 32 :: nat) else c)"

definition TenantToken :: "string \<Rightarrow> relay_error + string" where
  "TenantToken tenantID =
     (if tenantID = '''' then Inl ErrInvalidArgument
      else Inr (map ascii_lower (base32_encode (sha256 (str_bytes tenantID)))))"

definition TenantSubject :: "string \<Rightarrow> relay_error + string" where
  "TenantSubject tenantID =
     (case TenantToken tenantID of
        Inl e \<Rightarrow> Inl e
      | Inr token \<Rightarrow> Inr (''yukh.coordination.v1.tenant.'' @ token @ ''.log''))"

section \<open>The reducer\<close>

record tenantState =
  tn_tenant :: string
  tn_revision :: u64
  tn_transcripts :: "(ChannelKey, transcript) gomap"
  tn_channelURIs :: "(channelIdentity, string) gomap"
  tn_events :: "(channelIdentity, (string, AcceptedRecord) gomap) gomap"
  tn_receipts :: "(string, AcceptedRecord) gomap"

definition newTenantState :: "string \<Rightarrow> tenantState" where
  "newTenantState tenantID = \<lparr>tn_tenant = tenantID, tn_revision = 0, tn_transcripts = [], tn_channelURIs = [], tn_events = [],
     tn_receipts = []\<rparr>"

definition tn_event :: "tenantState \<Rightarrow> channelIdentity \<Rightarrow> string \<Rightarrow> AcceptedRecord option" where
  "tn_event s identity eventID =
     (case map_of (tn_events s) identity of None \<Rightarrow> None | Some m \<Rightarrow> map_of m eventID)"

text \<open>The two tests on the URI of a new channel: another URI for the same channel, or the same URI on another channel.\<close>

definition uri_changed :: "tenantState \<Rightarrow> Channel \<Rightarrow> bool" where
  "uri_changed s channel =
     (case map_of (tn_channelURIs s) (identityOf (ch_key channel)) of Some uri \<Rightarrow> uri \<noteq> ch_uri channel | None \<Rightarrow> False)"

definition uri_taken :: "tenantState \<Rightarrow> Channel \<Rightarrow> bool" where
  "uri_taken s channel =
     list_ex (\<lambda>(key, t). ch_uri (tr_channel t) = ch_uri channel \<and> ck_channel key \<noteq> ck_channel (ch_key channel)) (tn_transcripts s)"

definition applyChannel :: "cmd_codec \<Rightarrow> tenantState \<Rightarrow> bytes \<Rightarrow> relay_error + tenantState" where
  "applyChannel cc s raw =
     (case cc_decode_channel cc raw of None \<Rightarrow> Inl (ErrText ''decode closed command'') | Some p \<Rightarrow>
      case decodeBytes (cp_metadata p) of None \<Rightarrow> Inl (ErrText ''invalid base64url'') | Some metadata \<Rightarrow>
      let channel = \<lparr>ch_key = \<lparr>ck_tenant = tn_tenant s, ck_channel = cp_channel p, ck_epoch = cp_epoch p\<rparr>, ch_uri = cp_uri p,
            ch_metadata = metadata, ch_metadata_digest = cp_digest p, ch_lifecycle = cp_lifecycle p\<rparr> in
      case ValidateChannel channel of Some e \<Rightarrow> Inl e | None \<Rightarrow>
      let identity = identityOf (ch_key channel) in
      if map_of (tn_transcripts s) (ch_key channel) \<noteq> None then Inl (ErrText ''duplicate channel command'')
      else if uri_changed s channel then Inl ErrChannelConflict
      else if list_ex (\<lambda>(key, t). ck_tenant key = tn_tenant s \<and> ch_uri (tr_channel t) = ch_uri channel \<and>
             ck_channel key \<noteq> ck_channel (ch_key channel)) (tn_transcripts s)
      then Inl ErrChannelConflict
      else Inr (s\<lparr>tn_channelURIs := AList.update identity (ch_uri channel) (tn_channelURIs s),
             tn_events := (if map_of (tn_events s) identity = None then AList.update identity [] (tn_events s) else tn_events s),
             tn_transcripts := AList.update (ch_key channel) \<lparr>tr_channel = CloneChannel channel, tr_records = []\<rparr> (tn_transcripts s)\<rparr>))"

definition applyRecord :: "cmd_codec \<Rightarrow> tenantState \<Rightarrow> bytes \<Rightarrow> relay_error + tenantState" where
  "applyRecord cc s raw =
     (case cc_decode_record cc raw of None \<Rightarrow> Inl (ErrText ''decode closed command'') | Some p \<Rightarrow>
      if rp_sequence p = 0 \<or> rp_sequence p > maxJSONSafeInteger
      then Inl (ErrText ''record sequence is outside the JSON safe-integer range'') else
      case decodeBytes (rp_event p) of None \<Rightarrow> Inl (ErrText ''invalid base64url'') | Some event \<Rightarrow>
      case decodeBytes (rp_authn p) of None \<Rightarrow> Inl (ErrText ''invalid base64url'') | Some authn \<Rightarrow>
      case decodeBytes (rp_authz p) of None \<Rightarrow> Inl (ErrText ''invalid base64url'') | Some authz \<Rightarrow>
      case decodeBytes (rp_preimage p) of None \<Rightarrow> Inl (ErrText ''invalid base64url'') | Some preimage \<Rightarrow>
      let key = \<lparr>ck_tenant = tn_tenant s, ck_channel = rp_channel p, ck_epoch = rp_epoch p\<rparr> in
      case map_of (tn_transcripts s) key of None \<Rightarrow> Inl ErrChannelNotFound | Some t \<Rightarrow>
      let r = \<lparr>ar_channel = key, ar_sequence = rp_sequence p, ar_event_id = rp_event_id p, ar_canonical = event,
            ar_digest = rp_digest p, ar_authn = authn, ar_authz = authz, ar_receipt_id = rp_receipt_id p, ar_key_id = rp_key_id p,
            ar_algorithm = rp_algorithm p, ar_preimage = preimage, ar_signature = []\<rparr>;
          intent = \<lparr>in_channel = key, in_event_id = ar_event_id r, in_canonical = ar_canonical r\<rparr> in
      case ValidatePreparedRecord intent (of_nat (length (tr_records t) + 1)) (EventDigest event) r of Some e \<Rightarrow> Inl e | None \<Rightarrow>
      let identity = identityOf key in
      if tn_event s identity (ar_event_id r) \<noteq> None then Inl ErrEventIDCollision
      else if map_of (tn_receipts s) (ar_receipt_id r) \<noteq> None then Inl (ErrText ''duplicate receipt identity'')
      else case map_of (tn_events s) identity of
        None \<Rightarrow> Inl Panicked
      | Some m \<Rightarrow>
          Inr (s\<lparr>tn_transcripts := AList.update key (t\<lparr>tr_records := tr_records t @ [CloneRecord r]\<rparr>) (tn_transcripts s),
             tn_events := AList.update identity (AList.update (ar_event_id r) (CloneRecord r) m) (tn_events s),
             tn_receipts := AList.update (ar_receipt_id r) (CloneRecord r) (tn_receipts s)\<rparr>))"

definition applySignature :: "cmd_codec \<Rightarrow> tenantState \<Rightarrow> bytes \<Rightarrow> relay_error + tenantState" where
  "applySignature cc s raw =
     (case cc_decode_signature cc raw of None \<Rightarrow> Inl (ErrText ''decode closed command'') | Some p \<Rightarrow>
      case decodeBytes (sp_signature p) of None \<Rightarrow> Inl (ErrText ''invalid signature'') | Some signature \<Rightarrow>
      if length signature = 0 then Inl (ErrText ''invalid signature'') else
      let key = \<lparr>ck_tenant = tn_tenant s, ck_channel = sp_channel p, ck_epoch = sp_epoch p\<rparr> in
      case map_of (tn_receipts s) (sp_receipt_id p) of None \<Rightarrow> Inl ErrReceiptNotFound | Some found \<Rightarrow>
      if ar_channel found \<noteq> key then Inl ErrReceiptNotFound
      else if preimageDigest (ar_preimage found) \<noteq> sp_digest p \<or> length (ar_signature found) \<noteq> 0 then Inl ErrSignatureCollision
      else
        let r = found\<lparr>ar_signature := signature\<rparr>; index = unat (ar_sequence r - 1) in
        case (map_of (tn_transcripts s) key, map_of (tn_events s) (identityOf key)) of
          (Some t, Some m) \<Rightarrow>
            if \<not> index < length (tr_records t) then Inl Panicked
            else Inr (s\<lparr>tn_transcripts := AList.update key (t\<lparr>tr_records := (tr_records t)[index := CloneRecord r]\<rparr>) (tn_transcripts s),
               tn_events := AList.update (identityOf key) (AList.update (ar_event_id r) (CloneRecord r) m) (tn_events s),
               tn_receipts := AList.update (ar_receipt_id r) (CloneRecord r) (tn_receipts s)\<rparr>)
        | _ \<Rightarrow> Inl Panicked)"

definition js_apply :: "cmd_codec \<Rightarrow> tenantState \<Rightarrow> string \<Rightarrow> u64 \<Rightarrow> bytes \<Rightarrow> relay_error + tenantState" where
  "js_apply cc s subject revision raw =
     (case decodeCommand cc raw of
        Inl e \<Rightarrow> Inl (Errorf ''reduce tenant command'' e)
      | Inr cmd \<Rightarrow>
          let expected = (case TenantSubject (cm_tenant cmd) of Inr x \<Rightarrow> x | Inl _ \<Rightarrow> '''') in
          if cm_tenant cmd \<noteq> tn_tenant s \<or> expected \<noteq> subject \<or> revision \<le> tn_revision s
          then Inl (ErrText ''tenant command binding or order violation'')
          else
            (case (if cm_type cmd = commandChannelCreated then applyChannel cc s (cm_payload cmd)
                   else if cm_type cmd = commandRecordAppended then applyRecord cc s (cm_payload cmd)
                   else if cm_type cmd = commandSignatureAttached then applySignature cc s (cm_payload cmd)
                   else Inr s) of
               Inl e \<Rightarrow> Inl (Errorf (''reduce '' @ cm_type cmd) e)
             | Inr s' \<Rightarrow> Inr (s'\<lparr>tn_revision := revision\<rparr>)))"

definition sameStoredEvent :: "AcceptedRecord \<Rightarrow> AppendIntent \<Rightarrow> bool" where
  "sameStoredEvent r intent \<longleftrightarrow> ar_channel r = in_channel intent \<and> ar_event_id r = in_event_id intent \<and>
     ar_canonical r = in_canonical intent"

section \<open>Loading\<close>

text \<open>
  The stream as the adapter sees it, over a state \<open>'w\<close> that other clients change as well: the sequence of the last message of a
  subject, whether a consumer could be created, what the next fetch of a consumer that has delivered the given messages returns
  (a batch and the error the batch ends with), and publishing on the condition that the last sequence of the subject is the given one.
\<close>

record message =
  jm_sequence :: "u64 option"
  jm_subject :: string
  jm_data :: bytes

record 'w jetstream =
  jt_last :: "'w \<Rightarrow> string \<Rightarrow> relay_error + u64 option"
  jt_consumer :: "'w \<Rightarrow> string \<Rightarrow> relay_error option"
  jt_fetch :: "'w \<Rightarrow> string \<Rightarrow> message list \<Rightarrow> nat \<Rightarrow> relay_error + message list \<times> relay_error option"
  jt_publish :: "'w \<Rightarrow> string \<Rightarrow> u64 \<Rightarrow> bytes \<Rightarrow> 'w \<times> relay_error option"
  jt_uuid :: "'w \<Rightarrow> string option"

fun batch_loop ::
  "cmd_codec \<Rightarrow> string \<Rightarrow> u64 \<Rightarrow> tenantState \<Rightarrow> bool \<Rightarrow> message list \<Rightarrow> relay_error + tenantState \<times> bool" where
  "batch_loop cc subject last_sequence s progress [] = Inr (s, progress)"
| "batch_loop cc subject last_sequence s progress (m # ms) =
     (case jm_sequence m of
        None \<Rightarrow> Inl (ErrText ''inspect tenant command'')
      | Some n \<Rightarrow>
          if n > last_sequence then Inr (s, progress)
          else if jm_subject m \<noteq> subject then Inl (ErrText ''tenant replay subject mismatch'')
          else case js_apply cc s subject n (jm_data m) of
            Inl e \<Rightarrow> Inl e
          | Inr s' \<Rightarrow> batch_loop cc subject last_sequence s' True ms)"

lemma js_apply_revision:
  assumes "js_apply cc s subject n raw = Inr s'"
  shows "tn_revision s < n" "tn_revision s' = n"
  using assms by (auto simp: js_apply_def Let_def split: sum.split_asm if_split_asm)

lemma batch_loop_revision:
  "batch_loop cc subject n s progress ms = Inr (s', progress') \<Longrightarrow>
     tn_revision s \<le> tn_revision s' \<and> (progress' \<longrightarrow> progress \<or> tn_revision s < tn_revision s')"
proof (induction ms arbitrary: s progress)
  case (Cons m ms)
  show ?case
  proof (cases "s' = s \<and> progress' = progress")
    case True
    then show ?thesis by simp
  next
    case False
    with Cons.prems obtain k t where "js_apply cc s subject k (jm_data m) = Inr t" "batch_loop cc subject n t True ms = Inr (s', progress')"
      by (auto split: option.split_asm if_split_asm sum.split_asm)
    with Cons.IH have "tn_revision s < tn_revision t" "tn_revision t \<le> tn_revision s'" using js_apply_revision by blast+
    then show ?thesis by auto
  qed
qed simp

function load_loop ::
  "cmd_codec \<Rightarrow> 'w jetstream \<Rightarrow> 'w \<Rightarrow> string \<Rightarrow> u64 \<Rightarrow> tenantState \<Rightarrow> message list \<Rightarrow> relay_error + tenantState" where
  "load_loop cc js w subject last_sequence s delivered =
     (if \<not> tn_revision s < last_sequence then Inr s
      else case jt_fetch js w subject delivered 256 of
        Inl e \<Rightarrow> Inl (Errorf ''fetch tenant log'' e)
      | Inr (ms, batchError) \<Rightarrow>
          (case batch_loop cc subject last_sequence s False ms of
             Inl e \<Rightarrow> Inl e
           | Inr (s', progress) \<Rightarrow>
               (case batchError of
                  Some e \<Rightarrow> Inl (Errorf ''replay tenant log'' e)
                | None \<Rightarrow>
                    if \<not> progress then Inl (ErrText ''tenant log ended before revision'')
                    else load_loop cc js w subject last_sequence s' (delivered @ ms))))"
  by pat_completeness auto
termination
proof (relation "measure (\<lambda>(_, _, _, _, n, s, _). unat n - unat (tn_revision s))", goal_cases)
  case (2 cc js w subject n s delivered x ms batchError y s' progress)
  then have "tn_revision s < tn_revision s'" "tn_revision s < n" using batch_loop_revision by fastforce+
  then show ?case by (simp add: word_less_nat_alt)
qed simp

declare load_loop.simps [simp del]

definition js_load :: "cmd_codec \<Rightarrow> 'w jetstream \<Rightarrow> 'w \<Rightarrow> string \<Rightarrow> relay_error + tenantState \<times> string" where
  "js_load cc js w tenantID =
     (case TenantSubject tenantID of Inl e \<Rightarrow> Inl e | Inr subject \<Rightarrow>
      let state = newTenantState tenantID in
      case jt_last js w subject of
        Inl e \<Rightarrow> Inl (Errorf ''read tenant log head'' e)
      | Inr None \<Rightarrow> Inr (state, subject)
      | Inr (Some last_sequence) \<Rightarrow>
          (case jt_consumer js w subject of
             Some e \<Rightarrow> Inl (Errorf ''create tenant replay consumer'' e)
           | None \<Rightarrow>
               (case load_loop cc js w subject last_sequence state [] of
                  Inl e \<Rightarrow> Inl e
                | Inr s \<Rightarrow> Inr (s, subject))))"

section \<open>Operations\<close>

text \<open>
  Between loading and publishing a mutation decides on the reduced state: it is finished, or it has a command to publish and the
  result to return once that is done. \<open>js_mutate\<close> is the loop around the decision; \<open>ctx i\<close> is what \<^verbatim>\<open>ctx.Err()\<close> returns
  on entry (\<open>i = 0\<close>) and after the \<open>i\<close>-th attempt.
\<close>

datatype 'a plan = Finish "relay_error + 'a" | Publish bytes 'a

primrec js_mutate ::
  "nat \<Rightarrow> cmd_codec \<Rightarrow> 'w jetstream \<Rightarrow> (nat \<Rightarrow> ctx) \<Rightarrow> string \<Rightarrow> (string option \<Rightarrow> tenantState \<Rightarrow> 'a plan) \<Rightarrow> 'w
     \<Rightarrow> 'w \<times> (relay_error + 'a)" where
  "js_mutate 0 cc js ctx tenantID decide w = (w, Inl ErrCommitIndeterminate)"
| "js_mutate (Suc n) cc js ctx tenantID decide w =
     (case js_load cc js w tenantID of
        Inl e \<Rightarrow> (w, Inl e)
      | Inr (state, subject) \<Rightarrow>
          (case decide (jt_uuid js w) state of
             Finish r \<Rightarrow> (w, r)
           | Publish data r \<Rightarrow>
               (case jt_publish js w subject (tn_revision state) data of
                  (w', None) \<Rightarrow> (w', Inr r)
                | (w', Some _) \<Rightarrow>
                    (case ctx (maxMutationAttempts - n) of
                       Some e \<Rightarrow> (w', Inl e)
                     | None \<Rightarrow> js_mutate n cc js ctx tenantID decide w'))))"

definition create_plan :: "cmd_codec \<Rightarrow> Channel \<Rightarrow> string option \<Rightarrow> tenantState \<Rightarrow> unit plan" where
  "create_plan cc channel uuid state =
     (case map_of (tn_transcripts state) (ch_key channel) of
        Some existing \<Rightarrow> Finish (if SameChannel (tr_channel existing) channel then Inr () else Inl ErrChannelConflict)
      | None \<Rightarrow>
          if uri_changed state channel then Finish (Inl ErrChannelConflict)
          else if uri_taken state channel then Finish (Inl ErrChannelConflict)
          else case newCommand cc uuid (ck_tenant (ch_key channel)) commandChannelCreated
                 (ChannelCreated \<lparr>cp_metadata = encodeBytes (ch_metadata channel), cp_channel = ck_channel (ch_key channel),
                    cp_lifecycle = ch_lifecycle channel, cp_digest = ch_metadata_digest channel, cp_epoch = ck_epoch (ch_key channel),
                    cp_uri = ch_uri channel\<rparr>) of
            Inl e \<Rightarrow> Finish (Inl e)
          | Inr data \<Rightarrow> Publish data ())"

definition js_CreateChannel ::
  "cmd_codec \<Rightarrow> 'w jetstream \<Rightarrow> 'w \<Rightarrow> (nat \<Rightarrow> ctx) \<Rightarrow> Channel \<Rightarrow> 'w \<times> relay_error option" where
  "js_CreateChannel cc js w ctx channel =
     (case ctx 0 of Some e \<Rightarrow> (w, Some e) | None \<Rightarrow>
      case ValidateChannel channel of Some e \<Rightarrow> (w, Some e) | None \<Rightarrow>
      case js_mutate maxMutationAttempts cc js ctx (ck_tenant (ch_key channel)) (create_plan cc channel) w of
        (w', Inl e) \<Rightarrow> (w', Some e)
      | (w', Inr _) \<Rightarrow> (w', None))"

definition validateKey :: "ChannelKey \<Rightarrow> relay_error option" where
  "validateKey key =
     (if ck_tenant key = '''' \<or> ck_channel key = '''' \<or> ck_epoch key = '''' then Some ErrInvalidArgument else None)"

definition js_LookupChannel :: "cmd_codec \<Rightarrow> 'w jetstream \<Rightarrow> 'w \<Rightarrow> ctx \<Rightarrow> ChannelKey \<Rightarrow> relay_error + Channel" where
  "js_LookupChannel cc js w ctx key =
     (case ctx of Some e \<Rightarrow> Inl e | None \<Rightarrow>
      case validateKey key of Some e \<Rightarrow> Inl e | None \<Rightarrow>
      case js_load cc js w (ck_tenant key) of Inl e \<Rightarrow> Inl e | Inr (state, _) \<Rightarrow>
      case map_of (tn_transcripts state) key of
        None \<Rightarrow> Inl ErrChannelNotFound
      | Some t \<Rightarrow> Inr (CloneChannel (tr_channel t)))"

definition readTranscript :: "transcript \<Rightarrow> u64 \<Rightarrow> int \<Rightarrow> AcceptedRecord list" where
  "readTranscript t after limit =
     (let start = (if after < of_nat (length (tr_records t)) then unat after else length (tr_records t));
          stop = min (start + nat limit) (length (tr_records t))
      in map CloneRecord (take (stop - start) (drop start (tr_records t))))"

definition view_Lookup :: "tenantState \<Rightarrow> ChannelKey \<Rightarrow> string \<Rightarrow> relay_error + AcceptedRecord" where
  "view_Lookup state key eventID =
     (case tn_event state (identityOf key) eventID of
        None \<Rightarrow> Inl ErrEventNotFound
      | Some r \<Rightarrow> if ar_channel r \<noteq> key then Inl ErrEventNotFound else Inr (CloneRecord r))"

definition view_Read :: "tenantState \<Rightarrow> ChannelKey \<Rightarrow> u64 \<Rightarrow> int \<Rightarrow> relay_error + AcceptedRecord list" where
  "view_Read state key after limit =
     (if limit < 1 \<or> limit > 1000 then Inl ErrInvalidArgument
      else case map_of (tn_transcripts state) key of
        None \<Rightarrow> Inl Panicked
      | Some t \<Rightarrow> Inr (readTranscript t after limit))"

definition stateView :: "tenantState \<Rightarrow> ChannelKey \<Rightarrow> AdmissionView" where
  "stateView state key = \<lparr>av_Lookup = view_Lookup state key, av_Read = view_Read state key\<rparr>"

definition append_plan ::
  "cmd_codec \<Rightarrow> AppendIntent \<Rightarrow> Admit \<Rightarrow> PrepareRecord \<Rightarrow> string option \<Rightarrow> tenantState \<Rightarrow> AppendResult plan" where
  "append_plan cc intent admit prepare uuid state =
     (case map_of (tn_transcripts state) (in_channel intent) of None \<Rightarrow> Finish (Inl ErrChannelNotFound) | Some t \<Rightarrow>
      case tn_event state (identityOf (in_channel intent)) (in_event_id intent) of
        Some existing \<Rightarrow>
          Finish (if \<not> sameStoredEvent existing intent then Inl ErrEventIDCollision
            else Inr \<lparr>res_outcome = AppendOutcomeDuplicate, res_record = CloneRecord existing\<rparr>)
      | None \<Rightarrow>
      case admit (stateView state (in_channel intent)) of Some e \<Rightarrow> Finish (Inl e) | None \<Rightarrow>
      let sequence = of_nat (length (tr_records t) + 1); digest = EventDigest (in_canonical intent) in
      case prepare sequence digest of
        Inl e \<Rightarrow> Finish (Inl (Errorf ''prepare accepted record'' e))
      | Inr r \<Rightarrow>
      case ValidatePreparedRecord intent sequence digest r of Some e \<Rightarrow> Finish (Inl e) | None \<Rightarrow>
      if length (ar_signature r) \<noteq> 0 \<or> ar_sequence r > maxJSONSafeInteger then Finish (Inl ErrInvalidArgument)
      else if map_of (tn_receipts state) (ar_receipt_id r) \<noteq> None
      then Finish (Inl (Errorf ''duplicate receipt identity'' ErrInvalidArgument))
      else case newCommand cc uuid (ck_tenant (in_channel intent)) commandRecordAppended
             (RecordAppended \<lparr>rp_authn = encodeBytes (ar_authn r), rp_authz = encodeBytes (ar_authz r), rp_event = encodeBytes (ar_canonical r),
                rp_channel = ck_channel (ar_channel r), rp_digest = ar_digest r, rp_event_id = ar_event_id r,
                rp_receipt_id = ar_receipt_id r, rp_sequence = ar_sequence r, rp_algorithm = ar_algorithm r,
                rp_key_id = ar_key_id r, rp_epoch = ck_epoch (ar_channel r), rp_preimage = encodeBytes (ar_preimage r)\<rparr>) of
        Inl e \<Rightarrow> Finish (Inl e)
      | Inr data \<Rightarrow> Publish data \<lparr>res_outcome = AppendOutcomeAppended, res_record = CloneRecord r\<rparr>)"

definition js_AppendChecked ::
  "cmd_codec \<Rightarrow> 'w jetstream \<Rightarrow> 'w \<Rightarrow> (nat \<Rightarrow> ctx) \<Rightarrow> AppendIntent \<Rightarrow> Admit option \<Rightarrow> PrepareRecord option
     \<Rightarrow> 'w \<times> (relay_error + AppendResult)" where
  "js_AppendChecked cc js w ctx intent admit prepare =
     (case ctx 0 of Some e \<Rightarrow> (w, Inl e) | None \<Rightarrow>
      case ValidateCheckedAppend intent admit prepare of Some e \<Rightarrow> (w, Inl e) | None \<Rightarrow>
      js_mutate maxMutationAttempts cc js ctx (ck_tenant (in_channel intent)) (append_plan cc intent (the admit) (the prepare)) w)"

definition js_Append ::
  "cmd_codec \<Rightarrow> 'w jetstream \<Rightarrow> 'w \<Rightarrow> (nat \<Rightarrow> ctx) \<Rightarrow> AppendIntent \<Rightarrow> PrepareRecord option
     \<Rightarrow> 'w \<times> (relay_error + AppendResult)" where
  "js_Append cc js w ctx intent prepare = js_AppendChecked cc js w ctx intent (Some (\<lambda>_. None)) prepare"

definition attach_plan :: "cmd_codec \<Rightarrow> SignatureAttachment \<Rightarrow> string option \<Rightarrow> tenantState \<Rightarrow> AcceptedRecord plan" where
  "attach_plan cc attachment uuid state =
     (case map_of (tn_receipts state) (sa_receipt_id attachment) of None \<Rightarrow> Finish (Inl ErrReceiptNotFound) | Some r \<Rightarrow>
      if ar_channel r \<noteq> sa_channel attachment then Finish (Inl ErrReceiptNotFound)
      else if ar_preimage r \<noteq> sa_preimage attachment then Finish (Inl ErrSignatureCollision)
      else if length (ar_signature r) \<noteq> 0 then
        Finish (if ar_signature r \<noteq> sa_signature attachment then Inl ErrSignatureCollision else Inr (CloneRecord r))
      else case newCommand cc uuid (ck_tenant (sa_channel attachment)) commandSignatureAttached
             (SignatureAttached \<lparr>sp_channel = ck_channel (sa_channel attachment), sp_digest = preimageDigest (sa_preimage attachment),
                sp_receipt_id = sa_receipt_id attachment, sp_signature = encodeBytes (sa_signature attachment),
                sp_epoch = ck_epoch (sa_channel attachment)\<rparr>) of
        Inl e \<Rightarrow> Finish (Inl e)
      | Inr data \<Rightarrow> Publish data (CloneRecord (r\<lparr>ar_signature := sa_signature attachment\<rparr>)))"

definition js_AttachSignature ::
  "cmd_codec \<Rightarrow> 'w jetstream \<Rightarrow> 'w \<Rightarrow> (nat \<Rightarrow> ctx) \<Rightarrow> SignatureAttachment \<Rightarrow> 'w \<times> (relay_error + AcceptedRecord)" where
  "js_AttachSignature cc js w ctx attachment =
     (case ctx 0 of Some e \<Rightarrow> (w, Inl e) | None \<Rightarrow>
      case ValidateSignatureAttachment attachment of Some e \<Rightarrow> (w, Inl e) | None \<Rightarrow>
      js_mutate maxMutationAttempts cc js ctx (ck_tenant (sa_channel attachment)) (attach_plan cc attachment) w)"

definition js_Lookup :: "cmd_codec \<Rightarrow> 'w jetstream \<Rightarrow> 'w \<Rightarrow> ctx \<Rightarrow> ChannelKey \<Rightarrow> string \<Rightarrow> relay_error + AcceptedRecord" where
  "js_Lookup cc js w ctx key eventID =
     (case ctx of Some e \<Rightarrow> Inl e | None \<Rightarrow>
      if validateKey key \<noteq> None \<or> eventID = '''' then Inl ErrInvalidArgument else
      case js_load cc js w (ck_tenant key) of Inl e \<Rightarrow> Inl e | Inr (state, _) \<Rightarrow>
      case map_of (tn_transcripts state) key of None \<Rightarrow> Inl ErrChannelNotFound | Some _ \<Rightarrow>
      case tn_event state (identityOf key) eventID of
        None \<Rightarrow> Inl ErrEventNotFound
      | Some r \<Rightarrow> if ar_channel r \<noteq> key then Inl ErrEventNotFound else Inr (CloneRecord r))"

definition js_Read :: "cmd_codec \<Rightarrow> 'w jetstream \<Rightarrow> 'w \<Rightarrow> ctx \<Rightarrow> ChannelKey \<Rightarrow> u64 \<Rightarrow> int \<Rightarrow> relay_error + AcceptedRecord list" where
  "js_Read cc js w ctx key after limit =
     (case ctx of Some e \<Rightarrow> Inl e | None \<Rightarrow>
      if validateKey key \<noteq> None \<or> limit < 1 \<or> limit > 1000 then Inl ErrInvalidArgument else
      case js_load cc js w (ck_tenant key) of Inl e \<Rightarrow> Inl e | Inr (state, _) \<Rightarrow>
      case map_of (tn_transcripts state) key of
        None \<Rightarrow> Inl ErrChannelNotFound
      | Some t \<Rightarrow> Inr (readTranscript t after limit))"

end
