(* ===== verification/JetStream_Laws.thy ===== *)
theory JetStream_Laws
  imports Relay_JetStream
begin

text \<open>
  What the distributed relay store guarantees. A tenant log is what its writers published: \<open>log_step\<close> adds one command that some
  operation of the adapter decided on in the reduction of the log before it. The theory proves that such a log always reduces and that
  its reduction simulates the in-memory store, what \<^verbatim>\<open>load\<close> returns, and that successful appends are durable, whatever other
  writers do in between and whether or not a failed publish took effect.
\<close>

section \<open>What is relied on\<close>

text \<open>Strings that survive JSON are valid UTF-8, here over the codes of the bytes.\<close>

definition valid_text :: "string \<Rightarrow> bool" where
  "valid_text s = utf8 (map of_char s)"

lemma valid_text_base64 [simp]: "valid_text (base64_encode bs)"
proof -
  have "list_all (\<lambda>c. of_char c < (128 :: nat)) b64_alphabet" by code_simp
  then have "of_char c < (128 :: nat)" if "c \<in> set (base64_encode bs)" for c
    using base64_encode_chars [OF that] by (auto simp: list_all_iff)
  then show ?thesis unfolding valid_text_def by (intro utf8_ascii) auto
qed

lemma valid_text_digest: "valid_text (''sha-256:'' @ hex_sha256 bs)"
proof -
  have "list_all (\<lambda>c. of_char c < (128 :: nat)) hex_chars" "list_all (\<lambda>c. of_char c < (128 :: nat)) ''sha-256:''" by code_simp+
  then have "of_char c < (128 :: nat)" if "c \<in> set (''sha-256:'' @ hex_sha256 bs)" for c
    using that hex_encode_chars unfolding hex_sha256_def list_all_iff by auto
  then show ?thesis unfolding valid_text_def by (intro utf8_ascii) auto
qed

fun payload_text :: "payload \<Rightarrow> bool" where
  "payload_text (ChannelCreated p) \<longleftrightarrow> list_all valid_text [cp_metadata p, cp_channel p, cp_lifecycle p, cp_digest p, cp_epoch p, cp_uri p]"
| "payload_text (RecordAppended p) \<longleftrightarrow> rp_sequence p \<le> maxJSONSafeInteger \<and>
     list_all valid_text [rp_authn p, rp_authz p, rp_event p, rp_channel p, rp_digest p, rp_event_id p, rp_receipt_id p, rp_algorithm p,
       rp_key_id p, rp_epoch p, rp_preimage p]"
| "payload_text (SignatureAttached p) \<longleftrightarrow> list_all valid_text [sp_channel p, sp_digest p, sp_receipt_id p, sp_signature p, sp_epoch p]"

fun decodes_to :: "cmd_codec \<Rightarrow> payload \<Rightarrow> bytes \<Rightarrow> bool" where
  "decodes_to cc (ChannelCreated p) raw \<longleftrightarrow> cc_decode_channel cc raw = Some p"
| "decodes_to cc (RecordAppended p) raw \<longleftrightarrow> cc_decode_record cc raw = Some p"
| "decodes_to cc (SignatureAttached p) raw \<longleftrightarrow> cc_decode_signature cc raw = Some p"

text \<open>
  The codec: the canonical form of a marshalled command is canonical, is not empty, and decodes to the command, with a payload that
  decodes to the payload, for strings that are valid UTF-8 and integers that a JSON number represents.
\<close>

definition codec_ok :: "cmd_codec \<Rightarrow> bool" where
  "codec_ok cc \<longleftrightarrow> (\<forall>c p raw. list_all valid_text [cm_id c, cm_type c, cm_version c, cm_tenant c] \<longrightarrow> payload_text p \<longrightarrow>
     cm_payload c = cc_marshal_payload cc p \<longrightarrow> cc_Transform cc (cc_marshal_command cc c) = Some raw \<longrightarrow>
     raw \<noteq> [] \<and> cc_Transform cc raw = Some raw \<and>
     (\<exists>body. cc_decode_command cc raw = Some (c\<lparr>cm_payload := body\<rparr>) \<and> decodes_to cc p body))"

type_synonym tenant_log = "(u64 \<times> bytes) list"

definition last_seq :: "tenant_log \<Rightarrow> u64" where
  "last_seq L = (if L = [] then 0 else fst (last L))"

fun js_applies :: "cmd_codec \<Rightarrow> string \<Rightarrow> tenantState \<Rightarrow> tenant_log \<Rightarrow> relay_error + tenantState" where
  "js_applies cc subject s [] = Inr s"
| "js_applies cc subject s (m # ms) =
     (case js_apply cc s subject (fst m) (snd m) of Inl e \<Rightarrow> Inl e | Inr s' \<Rightarrow> js_applies cc subject s' ms)"

definition tenant_subject :: "string \<Rightarrow> string" where
  "tenant_subject tenantID = projr (TenantSubject tenantID)"

definition js_replay :: "cmd_codec \<Rightarrow> string \<Rightarrow> tenant_log \<Rightarrow> relay_error + tenantState" where
  "js_replay cc tenantID L = js_applies cc (tenant_subject tenantID) (newTenantState tenantID) L"

text \<open>The commands the operations publish in a state, for arguments they let through and fields that are text.\<close>

definition channel_text :: "Channel \<Rightarrow> bool" where
  "channel_text c \<longleftrightarrow> list_all valid_text [ck_tenant (ch_key c), ck_channel (ch_key c), ck_epoch (ch_key c), ch_uri c, ch_metadata_digest c]"

definition accepted_text :: "AcceptedRecord \<Rightarrow> bool" where
  "accepted_text r \<longleftrightarrow> list_all valid_text [ck_tenant (ar_channel r), ck_channel (ar_channel r), ck_epoch (ar_channel r), ar_event_id r,
     ar_receipt_id r, ar_key_id r, ar_algorithm r]"

definition attachment_text :: "SignatureAttachment \<Rightarrow> bool" where
  "attachment_text a \<longleftrightarrow> list_all valid_text [ck_tenant (sa_channel a), ck_channel (sa_channel a), ck_epoch (sa_channel a), sa_receipt_id a]"

definition uuid_ok :: "cmd_codec \<Rightarrow> string option \<Rightarrow> bool" where
  "uuid_ok cc uuid \<longleftrightarrow> (\<forall>i. uuid = Some i \<longrightarrow> cc_uuid_v7 cc i \<and> valid_text i)"

inductive published :: "cmd_codec \<Rightarrow> string \<Rightarrow> tenantState \<Rightarrow> bytes \<Rightarrow> bool" for cc tenantID s where
  channel: "create_plan cc channel uuid s = Publish data () \<Longrightarrow> ValidateChannel channel = None \<Longrightarrow> channel_text channel \<Longrightarrow>
    ck_tenant (ch_key channel) = tenantID \<Longrightarrow> uuid_ok cc uuid \<Longrightarrow> published cc tenantID s data"
| append: "append_plan cc intent admit prepare uuid s = Publish data res \<Longrightarrow> ValidateIntent intent = None \<Longrightarrow> accepted_text (res_record res) \<Longrightarrow>
    ck_tenant (in_channel intent) = tenantID \<Longrightarrow> uuid_ok cc uuid \<Longrightarrow> published cc tenantID s data"
| attach: "attach_plan cc attachment uuid s = Publish data sg \<Longrightarrow> ValidateSignatureAttachment attachment = None \<Longrightarrow> attachment_text attachment \<Longrightarrow>
    ck_tenant (sa_channel attachment) = tenantID \<Longrightarrow> uuid_ok cc uuid \<Longrightarrow> published cc tenantID s data"

inductive log_step :: "cmd_codec \<Rightarrow> string \<Rightarrow> tenant_log \<Rightarrow> tenant_log \<Rightarrow> bool" for cc tenantID where
  "js_replay cc tenantID L = Inr s \<Longrightarrow> published cc tenantID s data \<Longrightarrow> last_seq L < n \<Longrightarrow> log_step cc tenantID L (L @ [(n, data)])"

inductive_cases log_stepE: "log_step cc tenantID L L'"

section \<open>Simulation of the in-memory store\<close>

definition js_abs :: "tenantState \<Rightarrow> MemStore" where
  "js_abs s = \<lparr>ms_transcripts = tn_transcripts s, ms_channelURIs = tn_channelURIs s, ms_events = tn_events s\<rparr>"

lemma js_abs_sel [simp]:
  "ms_transcripts (js_abs s) = tn_transcripts s" "ms_channelURIs (js_abs s) = tn_channelURIs s" "ms_events (js_abs s) = tn_events s"
  by (simp_all add: js_abs_def)

lemma mem_event_abs [simp]: "mem_event (js_abs s) identity e = tn_event s identity e"
  by (simp add: mem_event_def tn_event_def)

lemma stateView_abs: "stateView s key = memoryAdmissionView (js_abs s) key"
  by (auto simp: stateView_def memoryAdmissionView_def view_Lookup_def view_Read_def mem_view_Lookup_def mem_view_Read_def
      readTranscript_def mem_slice_def Let_def fun_eq_iff split: option.splits)

text \<open>The receipts index exactly the records of the transcripts, which are the tenant's and number at most \<open>maxJSONSafeInteger\<close>.\<close>

definition js_inv :: "tenantState \<Rightarrow> bool" where
  "js_inv s \<longleftrightarrow> mem_inv (js_abs s) \<and>
     (\<forall>k t. map_of (tn_transcripts s) k = Some t \<longrightarrow> ck_tenant k = tn_tenant s \<and> length (tr_records t) \<le> unat maxJSONSafeInteger \<and>
        (\<forall>r \<in> set (tr_records t). map_of (tn_receipts s) (ar_receipt_id r) = Some r)) \<and>
     (\<forall>i r. map_of (tn_receipts s) i = Some r \<longrightarrow> ar_receipt_id r = i \<and>
        (\<exists>t. map_of (tn_transcripts s) (ar_channel r) = Some t \<and> r \<in> set (tr_records t)))"

lemma js_invD:
  assumes "js_inv s"
  shows "mem_inv (js_abs s)"
    "map_of (tn_transcripts s) k = Some t \<Longrightarrow> ck_tenant k = tn_tenant s"
    "map_of (tn_transcripts s) k = Some t \<Longrightarrow> length (tr_records t) \<le> unat maxJSONSafeInteger"
    "map_of (tn_transcripts s) k = Some t \<Longrightarrow> r \<in> set (tr_records t) \<Longrightarrow> map_of (tn_receipts s) (ar_receipt_id r) = Some r"
    "map_of (tn_receipts s) i = Some r \<Longrightarrow> ar_receipt_id r = i"
    "map_of (tn_receipts s) i = Some r \<Longrightarrow> \<exists>t. map_of (tn_transcripts s) (ar_channel r) = Some t \<and> r \<in> set (tr_records t)"
  using assms unfolding js_inv_def by blast+

lemma js_inv_new [simp]: "js_inv (newTenantState tenantID)"
proof -
  have "js_abs (newTenantState tenantID) = mem_New" by (simp add: js_abs_def newTenantState_def mem_New_def)
  then show ?thesis by (simp add: js_inv_def newTenantState_def)
qed

lemma js_inv_revision [simp]: "js_inv (s\<lparr>tn_revision := n\<rparr>) = js_inv s" "js_abs (s\<lparr>tn_revision := n\<rparr>) = js_abs s"
  by (simp_all add: js_inv_def js_abs_def)

lemma decode_new:
  assumes cc: "codec_ok cc" and new: "newCommand cc uuid tenantID kind p = Inr raw" and "uuid_ok cc uuid" "valid_text tenantID" "tenantID \<noteq> []"
    "payload_text p" and kind: "kind \<in> {commandChannelCreated, commandRecordAppended, commandSignatureAttached}"
  obtains c where "decodeCommand cc raw = Inr c" "cm_type c = kind" "cm_tenant c = tenantID" "decodes_to cc p (cm_payload c)"
proof -
  obtain i where i: "uuid = Some i" and raw: "length raw \<le> MaxCommandBytes"
    "cc_Transform cc (cc_marshal_command cc \<lparr>cm_id = i, cm_type = kind, cm_version = commandVersion,
       cm_payload = cc_marshal_payload cc p, cm_tenant = tenantID\<rparr>) = Some raw"
    using new by (auto simp: newCommand_def split: option.splits if_splits)
  have "valid_text commandVersion" "valid_text commandChannelCreated" "valid_text commandRecordAppended" "valid_text commandSignatureAttached"
    by code_simp+
  then have utf: "valid_text kind" "valid_text i" "cc_uuid_v7 cc i" "valid_text commandVersion"
    using kind assms(3) i by (auto simp: uuid_ok_def)
  obtain body where "raw \<noteq> []" "cc_Transform cc raw = Some raw" "decodes_to cc p body"
    "cc_decode_command cc raw = Some \<lparr>cm_id = i, cm_type = kind, cm_version = commandVersion, cm_payload = body, cm_tenant = tenantID\<rparr>"
    using cc [unfolded codec_ok_def, rule_format, OF _ assms(6) _ raw(2)] utf assms(4) by auto
  then show ?thesis using that utf raw(1) assms(5) kind by (auto simp: decodeCommand_def)
qed

lemma TenantSubject_eq: "tenantID \<noteq> [] \<Longrightarrow> TenantSubject tenantID = Inr (tenant_subject tenantID)"
  by (simp add: tenant_subject_def TenantSubject_def TenantToken_def)

lemma apply_decoded:
  assumes "decodeCommand cc raw = Inr c" "cm_tenant c = tn_tenant s" "tn_tenant s \<noteq> []" "tn_revision s < n"
  shows "cm_type c = commandChannelCreated \<Longrightarrow> applyChannel cc s (cm_payload c) = Inr s' \<Longrightarrow>
      js_apply cc s (tenant_subject (tn_tenant s)) n raw = Inr (s'\<lparr>tn_revision := n\<rparr>)"
    "cm_type c = commandRecordAppended \<Longrightarrow> applyRecord cc s (cm_payload c) = Inr s' \<Longrightarrow>
      js_apply cc s (tenant_subject (tn_tenant s)) n raw = Inr (s'\<lparr>tn_revision := n\<rparr>)"
    "cm_type c = commandSignatureAttached \<Longrightarrow> applySignature cc s (cm_payload c) = Inr s' \<Longrightarrow>
      js_apply cc s (tenant_subject (tn_tenant s)) n raw = Inr (s'\<lparr>tn_revision := n\<rparr>)"
  using assms
  by (simp_all add: js_apply_def TenantSubject_eq commandChannelCreated_def commandRecordAppended_def commandSignatureAttached_def)

lemma decode_encode_bytes [simp]: "decodeBytes (encodeBytes bs) = Some bs"
  by (simp add: decodeBytes_def encodeBytes_def)

lemma valid_text_encode [simp]: "valid_text (encodeBytes bs)"
  by (simp add: encodeBytes_def)

text \<open>A published channel.\<close>

lemma publish_channel:
  assumes cc: "codec_ok cc" and inv: "js_inv s" and create: "create_plan cc channel uuid s = Publish data ()"
    and ok: "ValidateChannel channel = None" "channel_text channel" "ck_tenant (ch_key channel) = tn_tenant s" "uuid_ok cc uuid"
    and n: "tn_revision s < n"
  shows "\<exists>s'. js_apply cc s (tenant_subject (tn_tenant s)) n data = Inr s' \<and> js_inv s' \<and> tn_tenant s' = tn_tenant s \<and>
    fst (mem_CreateChannel (js_abs s) None channel) = js_abs s'"
proof -
  let ?p = "\<lparr>cp_metadata = encodeBytes (ch_metadata channel), cp_channel = ck_channel (ch_key channel), cp_lifecycle = ch_lifecycle channel,
    cp_digest = ch_metadata_digest channel, cp_epoch = ck_epoch (ch_key channel), cp_uri = ch_uri channel\<rparr>"
  have fresh: "map_of (tn_transcripts s) (ch_key channel) = None" "\<not> uri_changed s channel" "\<not> uri_taken s channel"
    and new: "newCommand cc uuid (tn_tenant s) commandChannelCreated (ChannelCreated ?p) = Inr data"
    using create ok(3) by (auto simp: create_plan_def split: option.splits if_splits sum.splits)
  have active: "ch_lifecycle channel = ''active''" "tn_tenant s \<noteq> []" using ok(1,3) by (auto simp: ValidateChannel_def split: if_splits)
  have "valid_text ''active''" by code_simp
  then have "payload_text (ChannelCreated ?p)" "valid_text (tn_tenant s)" using ok(2,3) active by (simp_all add: channel_text_def)
  then obtain c where c: "decodeCommand cc data = Inr c" "cm_type c = commandChannelCreated" "cm_tenant c = tn_tenant s"
    "cc_decode_channel cc (cm_payload c) = Some ?p"
    using decode_new [OF cc new ok(4)] active(2) by auto
  have key: "\<lparr>ck_tenant = tn_tenant s, ck_channel = ck_channel (ch_key channel), ck_epoch = ck_epoch (ch_key channel)\<rparr> = ch_key channel"
    using ok(3) by (cases "ch_key channel") simp
  let ?i = "identityOf (ch_key channel)"
  let ?s = "s\<lparr>tn_channelURIs := AList.update ?i (ch_uri channel) (tn_channelURIs s),
     tn_events := (if map_of (tn_events s) ?i = None then AList.update ?i [] (tn_events s) else tn_events s),
     tn_transcripts := AList.update (ch_key channel) \<lparr>tr_channel = channel, tr_records = []\<rparr> (tn_transcripts s)\<rparr>"
  have free: "\<not> list_ex (\<lambda>(k, t). ck_tenant k = tn_tenant s \<and> ch_uri (tr_channel t) = ch_uri channel \<and>
      ck_channel k \<noteq> ck_channel (ch_key channel)) (tn_transcripts s)"
    using fresh(3) by (auto simp: uri_taken_def list_ex_iff)
  have [simp]: "\<lparr>ch_key = ch_key channel, ch_uri = ch_uri channel, ch_metadata = ch_metadata channel,
      ch_metadata_digest = ch_metadata_digest channel, ch_lifecycle = ch_lifecycle channel\<rparr> = channel"
    by (cases channel) simp
  have "applyChannel cc s (cm_payload c) = Inr ?s"
    using c(4) fresh ok(1) free by (simp add: applyChannel_def key Let_def)
  from apply_decoded(1) [OF c(1,3) active(2) n c(2) this]
  have "js_apply cc s (tenant_subject (tn_tenant s)) n data = Inr (?s\<lparr>tn_revision := n\<rparr>)" .
  moreover have mem: "mem_CreateChannel (js_abs s) None channel = (js_abs ?s, None)"
    using ok(1) fresh(1,2) by (auto simp: mem_CreateChannel_def uri_changed_def Let_def js_abs_def split: option.splits)
  moreover have other: "ar_channel r \<noteq> ch_key channel" if "map_of (tn_receipts s) i = Some r" for i r
    using js_invD(6) [OF inv that] fresh(1) by auto
  moreover have "js_inv ?s"
    using inv mem_inv_CreateChannel [OF js_invD(1) [OF inv] mem] other ok(3) unfolding js_inv_def
    by (auto split: if_split_asm)
  ultimately show ?thesis by (intro exI [of _ "?s\<lparr>tn_revision := n\<rparr>"]) simp
qed

text \<open>A published record.\<close>

lemma append_plan_Publish:
  assumes "append_plan cc intent admit prepare uuid s = Publish data res"
  obtains t r where "map_of (tn_transcripts s) (in_channel intent) = Some t" "tn_event s (identityOf (in_channel intent)) (in_event_id intent) = None"
    "admit (stateView s (in_channel intent)) = None" "prepare (of_nat (length (tr_records t) + 1)) (EventDigest (in_canonical intent)) = Inr r"
    "ValidatePreparedRecord intent (of_nat (length (tr_records t) + 1)) (EventDigest (in_canonical intent)) r = None"
    "ar_signature r = []" "ar_sequence r \<le> maxJSONSafeInteger" "map_of (tn_receipts s) (ar_receipt_id r) = None"
    "newCommand cc uuid (ck_tenant (in_channel intent)) commandRecordAppended
       (RecordAppended \<lparr>rp_authn = encodeBytes (ar_authn r), rp_authz = encodeBytes (ar_authz r), rp_event = encodeBytes (ar_canonical r),
          rp_channel = ck_channel (ar_channel r), rp_digest = ar_digest r, rp_event_id = ar_event_id r,
          rp_receipt_id = ar_receipt_id r, rp_sequence = ar_sequence r, rp_algorithm = ar_algorithm r,
          rp_key_id = ar_key_id r, rp_epoch = ck_epoch (ar_channel r), rp_preimage = encodeBytes (ar_preimage r)\<rparr>) = Inr data"
    "res = \<lparr>res_outcome = AppendOutcomeAppended, res_record = r\<rparr>"
  using assms unfolding append_plan_def Let_def
  by (auto split: option.split_asm sum.split_asm if_split_asm)

lemma append_plan_Finish:
  assumes "append_plan cc intent admit prepare uuid s = Finish (Inr res)"
  shows "tn_event s (identityOf (in_channel intent)) (in_event_id intent) = Some (res_record res)" "sameStoredEvent (res_record res) intent"
  using assms unfolding append_plan_def Let_def
  by (auto split: option.split_asm sum.split_asm if_split_asm)

lemma sequence_bound:
  assumes "length rs \<le> unat maxJSONSafeInteger"
  shows "unat (of_nat (length rs + 1) :: u64) = length rs + 1" "(of_nat (length rs + 1) :: u64) \<noteq> 0"
proof -
  have "length rs + 1 < 2 ^ 64" using assms by (simp add: maxJSONSafeInteger_def)
  then show u: "unat (of_nat (length rs + 1) :: u64) = length rs + 1" by (simp add: unsigned_of_nat take_bit_nat_eq_self del: of_nat_Suc of_nat_add)
  then show "(of_nat (length rs + 1) :: u64) \<noteq> 0" by (metis add_is_0 one_neq_zero unat_0)
qed

lemma publish_record:
  assumes cc: "codec_ok cc" and inv: "js_inv s" and append: "append_plan cc intent admit prepare uuid s = Publish data res"
    and ok: "ValidateIntent intent = None" "accepted_text (res_record res)" "ck_tenant (in_channel intent) = tn_tenant s" "uuid_ok cc uuid"
    and n: "tn_revision s < n"
  shows "\<exists>s'. js_apply cc s (tenant_subject (tn_tenant s)) n data = Inr s' \<and> js_inv s' \<and> tn_tenant s' = tn_tenant s \<and>
    mem_AppendChecked (js_abs s) None intent (Some admit) (Some prepare) = (js_abs s', Inr res)"
proof -
  let ?k = "in_channel intent"
  obtain t r where t: "map_of (tn_transcripts s) ?k = Some t" and ev: "tn_event s (identityOf ?k) (in_event_id intent) = None"
    and go: "admit (stateView s ?k) = None" "prepare (of_nat (length (tr_records t) + 1)) (EventDigest (in_canonical intent)) = Inr r"
    and valid: "ValidatePreparedRecord intent (of_nat (length (tr_records t) + 1)) (EventDigest (in_canonical intent)) r = None"
    and r: "ar_signature r = []" "ar_sequence r \<le> maxJSONSafeInteger" "map_of (tn_receipts s) (ar_receipt_id r) = None"
    and new: "newCommand cc uuid (ck_tenant ?k) commandRecordAppended
       (RecordAppended \<lparr>rp_authn = encodeBytes (ar_authn r), rp_authz = encodeBytes (ar_authz r), rp_event = encodeBytes (ar_canonical r),
          rp_channel = ck_channel (ar_channel r), rp_digest = ar_digest r, rp_event_id = ar_event_id r,
          rp_receipt_id = ar_receipt_id r, rp_sequence = ar_sequence r, rp_algorithm = ar_algorithm r,
          rp_key_id = ar_key_id r, rp_epoch = ck_epoch (ar_channel r), rp_preimage = encodeBytes (ar_preimage r)\<rparr>) = Inr data"
      (is "newCommand cc uuid (ck_tenant ?k) commandRecordAppended (RecordAppended ?p) = _")
    and res: "res = \<lparr>res_outcome = AppendOutcomeAppended, res_record = r\<rparr>"
    using append_plan_Publish [OF append] by metis
  note v = ValidatePreparedRecord_NoneD [OF valid]
  note len = js_invD(3) [OF inv t] and seq = sequence_bound [OF js_invD(3) [OF inv t]]
  have tenant: "tn_tenant s \<noteq> []" using ok(1,3) by (auto simp: ValidateIntent_def split: if_splits)
  have "payload_text (RecordAppended ?p)" "valid_text (ck_tenant ?k)"
    using ok(2) r(2) v(1,5) res valid_text_digest by (simp_all add: accepted_text_def EventDigest_def)
  then obtain c where c: "decodeCommand cc data = Inr c" "cm_type c = commandRecordAppended" "cm_tenant c = tn_tenant s"
    "cc_decode_record cc (cm_payload c) = Some ?p"
    using decode_new [OF cc new ok(4)] tenant ok(3) by auto
  have key: "\<lparr>ck_tenant = tn_tenant s, ck_channel = ck_channel ?k, ck_epoch = ck_epoch ?k\<rparr> = ?k" using ok(3) by (cases ?k) simp
  have whole: "\<lparr>ar_channel = ?k, ar_sequence = ar_sequence r, ar_event_id = ar_event_id r, ar_canonical = ar_canonical r,
      ar_digest = ar_digest r, ar_authn = ar_authn r, ar_authz = ar_authz r, ar_receipt_id = ar_receipt_id r, ar_key_id = ar_key_id r,
      ar_algorithm = ar_algorithm r, ar_preimage = ar_preimage r, ar_signature = []\<rparr> = r"
    using v(1) r(1) by (cases r) simp
  have again: "ValidatePreparedRecord \<lparr>in_channel = ?k, in_event_id = ar_event_id r, in_canonical = ar_canonical r\<rparr>
      (of_nat (length (tr_records t) + 1)) (EventDigest (ar_canonical r)) r = None"
    using valid v by (simp add: ValidatePreparedRecord_def)
  obtain m where m: "map_of (tn_events s) (identityOf ?k) = Some m"
    using mem_invD [OF js_invD(1) [OF inv], of ?k t] t by (auto simp: mem_transcript_ok_def)
  let ?s = "s\<lparr>tn_transcripts := AList.update ?k (t\<lparr>tr_records := tr_records t @ [r]\<rparr>) (tn_transcripts s),
     tn_events := AList.update (identityOf ?k) (AList.update (ar_event_id r) r m) (tn_events s),
     tn_receipts := AList.update (ar_receipt_id r) r (tn_receipts s)\<rparr>"
  have "ar_sequence r \<noteq> 0" "\<not> maxJSONSafeInteger < ar_sequence r" using v(2) seq(2) r(2) by auto
  then have "applyRecord cc s (cm_payload c) = Inr ?s"
    using c(4) v(1) t ev [folded v(3)] m r(3) again by (simp add: applyRecord_def key whole Let_def del: of_nat_Suc of_nat_add)
  from apply_decoded(2) [OF c(1,3) tenant n c(2) this]
  have "js_apply cc s (tenant_subject (tn_tenant s)) n data = Inr (?s\<lparr>tn_revision := n\<rparr>)" .
  moreover have mem: "mem_AppendChecked (js_abs s) None intent (Some admit) (Some prepare) = (js_abs ?s, Inr res)"
  proof -
    have "mem_AppendChecked (js_abs s) None intent (Some admit) (Some prepare) = mem_commit (js_abs s) ?k (in_event_id intent) t r"
      using t ev go valid ok(1) by (simp add: mem_AppendChecked_def ValidateCheckedAppend_def ValidateAppendIntent_def stateView_abs
        Let_def del: of_nat_Suc of_nat_add)
    also have "\<dots> = (js_abs ?s, Inr res)" using m v(3) by (simp add: mem_commit_def Let_def res js_abs_def)
    finally show ?thesis .
  qed
  moreover have "js_inv ?s"
  proof -
    have "length (tr_records t) + 1 \<le> unat maxJSONSafeInteger" using r(2) v(2) seq(1) by (simp add: word_le_nat_alt)
    moreover have "ar_receipt_id q \<noteq> ar_receipt_id r" if "map_of (tn_transcripts s) k = Some u" "q \<in> set (tr_records u)" for k u q
      using js_invD(4) [OF inv that] r(3) by auto
    moreover have "q \<in> set (tr_records t)" if "map_of (tn_receipts s) i = Some q" "ar_channel q = ?k" for i q
      using js_invD(6) [OF inv that(1)] that(2) t by auto
    ultimately show ?thesis
      using inv mem_inv_AppendChecked [OF js_invD(1) [OF inv] mem] t ok(3) v(1) unfolding js_inv_def by (auto split: if_split_asm)
  qed
  ultimately show ?thesis by (intro exI [of _ "?s\<lparr>tn_revision := n\<rparr>"]) simp
qed

text \<open>A published signature.\<close>

lemma attach_plan_Publish:
  assumes "attach_plan cc a uuid s = Publish data sg"
  obtains r where "map_of (tn_receipts s) (sa_receipt_id a) = Some r" "ar_channel r = sa_channel a" "ar_preimage r = sa_preimage a"
    "ar_signature r = []" "sg = r\<lparr>ar_signature := sa_signature a\<rparr>"
    "newCommand cc uuid (ck_tenant (sa_channel a)) commandSignatureAttached
       (SignatureAttached \<lparr>sp_channel = ck_channel (sa_channel a), sp_digest = preimageDigest (sa_preimage a),
          sp_receipt_id = sa_receipt_id a, sp_signature = encodeBytes (sa_signature a), sp_epoch = ck_epoch (sa_channel a)\<rparr>) = Inr data"
  using assms unfolding attach_plan_def
  by (auto split: option.split_asm sum.split_asm if_split_asm)

text \<open>The record of a receipt is where its sequence says, and it is the one the in-memory store's search finds.\<close>

lemma receipt_position:
  assumes inv: "js_inv s" and r: "map_of (tn_receipts s) i = Some r"
  obtains t where "map_of (tn_transcripts s) (ar_channel r) = Some t" "unat (ar_sequence r - 1) < length (tr_records t)"
    "tr_records t ! unat (ar_sequence r - 1) = r" "find_receipt i 0 (tr_records t) = Some (unat (ar_sequence r - 1), r)"
proof -
  obtain t where t: "map_of (tn_transcripts s) (ar_channel r) = Some t" "r \<in> set (tr_records t)"
    using js_invD(6) [OF inv r] by blast
  note i = js_invD(5) [OF inv r]
  have "contiguous (tr_records t)" using mem_invD [OF js_invD(1) [OF inv], of "ar_channel r" t] t(1) by (simp add: mem_transcript_ok_def)
  then have position: "unat (ar_sequence (tr_records t ! j) - 1) = j" if "j < length (tr_records t)" for j
    using that js_invD(3) [OF inv t(1)] by (simp add: contiguous_def maxJSONSafeInteger_def)
  obtain j where j: "j < length (tr_records t)" "tr_records t ! j = r" using t(2) by (auto simp: in_set_conv_nth)
  have "find_receipt i 0 (tr_records t) \<noteq> None" using t(2) i by (auto simp: find_receipt_None)
  then obtain j' q where q: "find_receipt i 0 (tr_records t) = Some (j', q)" by auto
  then have j': "j' < length (tr_records t)" "tr_records t ! j' = q" "ar_receipt_id q = i" using find_receipt_Some [OF q] by auto
  then have "q = r" using js_invD(4) [OF inv t(1), of q] r nth_mem by auto
  then have "j' = j" using position [OF j(1)] position [OF j'(1)] j j' by simp
  moreover have "unat (ar_sequence r - 1) = j" using position [OF j(1)] j(2) by simp
  ultimately show ?thesis using that [of t] t(1) j q \<open>q = r\<close> by blast
qed

lemma js_inv_sign:
  assumes inv: "js_inv s" and r: "map_of (tn_receipts s) i = Some r" and t: "map_of (tn_transcripts s) (ar_channel r) = Some t"
    and at: "j < length (tr_records t)" "tr_records t ! j = r" and sg: "ar_receipt_id sg = ar_receipt_id r" "ar_channel sg = ar_channel r"
    and mem: "mem_inv (js_abs (s\<lparr>tn_transcripts := AList.update (ar_channel r) (t\<lparr>tr_records := (tr_records t)[j := sg]\<rparr>) (tn_transcripts s),
      tn_events := E, tn_receipts := AList.update (ar_receipt_id r) sg (tn_receipts s)\<rparr>))" (is "mem_inv (js_abs ?s)")
  shows "js_inv ?s"
proof -
  note i = js_invD(5) [OF inv r]
  have other: "k = ar_channel r \<and> q = r" if "map_of (tn_transcripts s) k = Some u" "q \<in> set (tr_records u)" "ar_receipt_id q = i" for k u q
    using js_invD(4) [OF inv that(1,2)] that(3) r mem_invD [OF js_invD(1) [OF inv], of k u] that(1,2)
    by (auto simp: mem_transcript_ok_def complete_record_def)
  have "distinct (tr_records t)"
    using mem_invD [OF js_invD(1) [OF inv], of "ar_channel r" t] t by (auto simp: mem_transcript_ok_def distinct_map)
  then have updated: "set ((tr_records t)[j := sg]) = insert sg (set (tr_records t) - {r})" using at by (simp add: set_update_distinct)
  have "ck_tenant k = tn_tenant ?s \<and> length (tr_records u) \<le> unat maxJSONSafeInteger \<and>
      (\<forall>q \<in> set (tr_records u). map_of (tn_receipts ?s) (ar_receipt_id q) = Some q)" if u: "map_of (tn_transcripts ?s) k = Some u" for k u
  proof (cases "k = ar_channel r")
    case True
    then have "u = t\<lparr>tr_records := (tr_records t)[j := sg]\<rparr>" using u by simp
    then show ?thesis using True js_invD(2-4) [OF inv t] other [OF t] sg i by (auto simp: updated)
  next
    case False
    then have u': "map_of (tn_transcripts s) k = Some u" using u by simp
    then show ?thesis using False js_invD(2-4) [OF inv u'] other i by auto
  qed
  moreover have "ar_receipt_id q = l \<and> (\<exists>u. map_of (tn_transcripts ?s) (ar_channel q) = Some u \<and> q \<in> set (tr_records u))"
    if q: "map_of (tn_receipts ?s) l = Some q" for l q
  proof (cases "l = ar_receipt_id r")
    case True
    then show ?thesis using q sg updated by simp
  next
    case False
    then have q': "map_of (tn_receipts s) l = Some q" using q by simp
    have "q \<noteq> r" using js_invD(5) [OF inv q'] False by auto
    then show ?thesis using js_invD(5,6) [OF inv q'] t updated by (cases "ar_channel q = ar_channel r") auto
  qed
  ultimately show ?thesis using mem unfolding js_inv_def by blast
qed

lemma publish_signature:
  assumes cc: "codec_ok cc" and inv: "js_inv s" and attach: "attach_plan cc a uuid s = Publish data sg"
    and ok: "ValidateSignatureAttachment a = None" "attachment_text a" "ck_tenant (sa_channel a) = tn_tenant s" "uuid_ok cc uuid"
    and n: "tn_revision s < n"
  shows "\<exists>s'. js_apply cc s (tenant_subject (tn_tenant s)) n data = Inr s' \<and> js_inv s' \<and> tn_tenant s' = tn_tenant s \<and>
    mem_AttachSignature (js_abs s) None a = (js_abs s', Inr sg)"
proof -
  let ?k = "sa_channel a"
  obtain r where r: "map_of (tn_receipts s) (sa_receipt_id a) = Some r" "ar_channel r = ?k" "ar_preimage r = sa_preimage a" "ar_signature r = []"
    and sg: "sg = r\<lparr>ar_signature := sa_signature a\<rparr>"
    and new: "newCommand cc uuid (ck_tenant ?k) commandSignatureAttached
       (SignatureAttached \<lparr>sp_channel = ck_channel ?k, sp_digest = preimageDigest (sa_preimage a),
          sp_receipt_id = sa_receipt_id a, sp_signature = encodeBytes (sa_signature a), sp_epoch = ck_epoch ?k\<rparr>) = Inr data"
      (is "newCommand cc uuid (ck_tenant ?k) commandSignatureAttached (SignatureAttached ?p) = _")
    using attach_plan_Publish [OF attach] by metis
  have some: "tn_tenant s \<noteq> []" "sa_signature a \<noteq> []" using ok(1,3) by (auto simp: ValidateSignatureAttachment_def split: if_splits)
  have "payload_text (SignatureAttached ?p)" "valid_text (ck_tenant ?k)"
    using ok(2) valid_text_digest by (simp_all add: attachment_text_def preimageDigest_def)
  then obtain c where c: "decodeCommand cc data = Inr c" "cm_type c = commandSignatureAttached" "cm_tenant c = tn_tenant s"
    "cc_decode_signature cc (cm_payload c) = Some ?p"
    using decode_new [OF cc new ok(4)] some(1) ok(3) by auto
  have key: "\<lparr>ck_tenant = tn_tenant s, ck_channel = ck_channel ?k, ck_epoch = ck_epoch ?k\<rparr> = ?k" using ok(3) by (cases ?k) simp
  obtain t where t: "map_of (tn_transcripts s) ?k = Some t" and at: "unat (ar_sequence r - 1) < length (tr_records t)"
    "tr_records t ! unat (ar_sequence r - 1) = r" "find_receipt (sa_receipt_id a) 0 (tr_records t) = Some (unat (ar_sequence r - 1), r)"
    using receipt_position [OF inv r(1)] r(2) by metis
  obtain m where m: "map_of (tn_events s) (identityOf ?k) = Some m"
    using mem_invD [OF js_invD(1) [OF inv], of ?k t] t by (auto simp: mem_transcript_ok_def)
  note i = js_invD(5) [OF inv r(1)]
  let ?s = "s\<lparr>tn_transcripts := AList.update ?k (t\<lparr>tr_records := (tr_records t)[unat (ar_sequence r - 1) := sg]\<rparr>) (tn_transcripts s),
     tn_events := AList.update (identityOf ?k) (AList.update (ar_event_id r) sg m) (tn_events s),
     tn_receipts := AList.update (ar_receipt_id r) sg (tn_receipts s)\<rparr>"
  have "applySignature cc s (cm_payload c) = Inr ?s"
    using c(4) r t at(1) m some(2) by (simp add: applySignature_def key Let_def sg)
  from apply_decoded(3) [OF c(1,3) some(1) n c(2) this]
  have "js_apply cc s (tenant_subject (tn_tenant s)) n data = Inr (?s\<lparr>tn_revision := n\<rparr>)" .
  moreover have mem: "mem_AttachSignature (js_abs s) None a = (js_abs ?s, Inr sg)"
    using ok(1) t at(3) m r some(2) by (simp add: mem_AttachSignature_def Let_def sg js_abs_def)
  moreover have "js_inv ?s"
    using js_inv_sign [OF inv r(1), of t "unat (ar_sequence r - 1)" sg] mem_inv_AttachSignature [OF js_invD(1) [OF inv] mem] t at(1,2) r(2) by (simp add: sg)
  ultimately show ?thesis by (intro exI [of _ "?s\<lparr>tn_revision := n\<rparr>"]) simp
qed

section \<open>Logs\<close>

lemma published_step:
  assumes "codec_ok cc" "js_inv s" "published cc (tn_tenant s) s data" "tn_revision s < n"
  shows "\<exists>s'. js_apply cc s (tenant_subject (tn_tenant s)) n data = Inr s' \<and> js_inv s' \<and> tn_tenant s' = tn_tenant s \<and>
    mem_step (js_abs s) (js_abs s')"
  using assms(3)
proof cases
  case (channel channel uuid)
  with publish_channel [OF assms(1,2) channel(1)] assms(4) obtain s' where
    "js_apply cc s (tenant_subject (tn_tenant s)) n data = Inr s'" "js_inv s'" "tn_tenant s' = tn_tenant s"
    "fst (mem_CreateChannel (js_abs s) None channel) = js_abs s'" by blast
  then show ?thesis using mem_step.create by (metis prod.collapse)
next
  case (append intent admit prepare uuid res)
  with publish_record [OF assms(1,2) append(1)] assms(4) show ?thesis using mem_step.append by metis
next
  case (attach attachment uuid sg)
  with publish_signature [OF assms(1,2) attach(1)] assms(4) show ?thesis using mem_step.attach by metis
qed

lemma js_applies_append:
  "js_applies cc subject s (L @ M) = (case js_applies cc subject s L of Inl e \<Rightarrow> Inl e | Inr s' \<Rightarrow> js_applies cc subject s' M)"
  by (induction L arbitrary: s) (auto split: sum.split)

definition good_log :: "cmd_codec \<Rightarrow> string \<Rightarrow> tenant_log \<Rightarrow> tenantState \<Rightarrow> bool" where
  "good_log cc tenantID L s \<longleftrightarrow> js_replay cc tenantID L = Inr s \<and> js_inv s \<and> tn_tenant s = tenantID \<and> tn_revision s = last_seq L \<and>
     sorted_wrt (<) (0 # map fst L)"

lemma good_log_empty: "good_log cc tenantID [] (newTenantState tenantID)"
  by (simp add: good_log_def js_replay_def last_seq_def) (simp add: newTenantState_def)

lemma last_seq_bound:
  assumes "sorted_wrt (<) (0 # map fst L)" "(k, d) \<in> set L"
  shows "k \<le> last_seq L"
proof -
  obtain M x where L: "L = M @ [x]" using assms(2) by (cases L rule: rev_cases) auto
  then show ?thesis using assms by (auto simp: last_seq_def sorted_wrt_append image_iff intro: less_imp_le)
qed

lemma good_log_publish:
  assumes "codec_ok cc" "good_log cc tenantID L s" "published cc tenantID s data" "last_seq L < n"
  shows "\<exists>s'. good_log cc tenantID (L @ [(n, data)]) s' \<and> mem_step (js_abs s) (js_abs s')"
proof -
  have s: "js_replay cc tenantID L = Inr s" "js_inv s" "tn_tenant s = tenantID" "tn_revision s = last_seq L" "sorted_wrt (<) (0 # map fst L)"
    using assms(2) by (simp_all add: good_log_def)
  obtain s' where s': "js_apply cc s (tenant_subject tenantID) n data = Inr s'" "js_inv s'" "tn_tenant s' = tenantID" "mem_step (js_abs s) (js_abs s')"
    using published_step [OF assms(1) s(2), of data n] assms(3,4) s(3,4) by auto
  have "0 < n" using assms(4) by (metis word_gt_0 word_not_simps(1))
  then have "sorted_wrt (<) (0 # map fst (L @ [(n, data)]))"
    using s(5) last_seq_bound [OF s(5)] assms(4) by (force simp: sorted_wrt_append intro: le_less_trans)
  then have "good_log cc tenantID (L @ [(n, data)]) s'"
    using s s' js_apply_revision(2) [OF s'(1)] by (simp add: good_log_def js_replay_def js_applies_append last_seq_def)
  then show ?thesis using s'(4) by blast
qed

lemma good_log_steps:
  assumes cc: "codec_ok cc" and steps: "(log_step cc tenantID)\<^sup>*\<^sup>* L L'" and good: "good_log cc tenantID L s"
  shows "\<exists>s'. good_log cc tenantID L' s' \<and> mem_step\<^sup>*\<^sup>* (js_abs s) (js_abs s') \<and> (L' = L \<or> last_seq L < last_seq L')"
  using steps
proof (induction rule: rtranclp_induct)
  case base
  then show ?case using good by auto
next
  case (step M M')
  then obtain t where t: "good_log cc tenantID M t" "mem_step\<^sup>*\<^sup>* (js_abs s) (js_abs t)" "M = L \<or> last_seq L < last_seq M" by blast
  from step.hyps(2) obtain u data n where u: "js_replay cc tenantID M = Inr u" "published cc tenantID u data" "last_seq M < n" "M' = M @ [(n, data)]"
    by (blast elim: log_stepE)
  then have "u = t" using t(1) by (simp add: good_log_def)
  then obtain t' where "good_log cc tenantID M' t'" "mem_step (js_abs t) (js_abs t')"
    using good_log_publish [OF cc t(1) _ u(3)] u(2,4) by auto
  moreover have "last_seq M' = n" by (simp add: u(4) last_seq_def)
  ultimately show ?case using t(2,3) u(3) by (metis less_trans rtranclp.rtrancl_into_rtrancl)
qed

text \<open>
  C19: the distributed store refines the in-memory store. Every log the adapter's operations can write, in whatever order and from
  however many processes, reduces without an error, and the state it reduces to is one the in-memory store reaches from empty.
\<close>

theorem js_log_refines_memory:
  assumes "codec_ok cc" "(log_step cc tenantID)\<^sup>*\<^sup>* [] L"
  shows "\<exists>s. js_replay cc tenantID L = Inr s \<and> tn_revision s = last_seq L \<and> mem_step\<^sup>*\<^sup>* mem_New (js_abs s) \<and> js_inv s"
proof -
  have "js_abs (newTenantState tenantID) = mem_New" by (simp add: js_abs_def newTenantState_def mem_New_def)
  then show ?thesis using good_log_steps [OF assms good_log_empty] by (auto simp: good_log_def)
qed

section \<open>Loading\<close>

definition msgs :: "string \<Rightarrow> tenant_log \<Rightarrow> message list" where
  "msgs subject L = map (\<lambda>m. \<lparr>jm_sequence = Some (fst m), jm_subject = subject, jm_data = snd m\<rparr>) L"

lemma msgs_append: "msgs subject (L @ M) = msgs subject L @ msgs subject M"
  by (simp add: msgs_def)

lemma batch_loop_msgs:
  "batch_loop cc subject n s progress (msgs subject M) =
     (case js_applies cc subject s (takeWhile (\<lambda>m. fst m \<le> n) M) of
        Inl e \<Rightarrow> Inl e
      | Inr s' \<Rightarrow> Inr (s', progress \<or> takeWhile (\<lambda>m. fst m \<le> n) M \<noteq> []))"
proof (induction M arbitrary: s progress)
  case (Cons m M)
  show ?case
  proof (cases "fst m \<le> n")
    case True
    then show ?thesis using Cons.IH by (simp add: msgs_def not_less [symmetric] split: sum.split)
  next
    case False
    moreover from this have "n < fst m" by simp
    ultimately show ?thesis by (simp add: msgs_def)
  qed
qed (simp add: msgs_def)

lemma applies_revision:
  "js_applies cc subject s M = Inr s' \<Longrightarrow> tn_revision s' = (if M = [] then tn_revision s else last_seq M)"
proof (induction M arbitrary: s)
  case (Cons m M)
  then obtain t where "js_apply cc s subject (fst m) (snd m) = Inr t" "js_applies cc subject t M = Inr s'" by (auto split: sum.split_asm)
  then show ?case using Cons.IH js_apply_revision(2) by (auto simp: last_seq_def)
qed simp

text \<open>The messages up to the head the load read, of those that come next in the stream.\<close>

lemma takeWhile_segment:
  assumes sorted: "sorted_wrt (<) (0 # map fst (L @ later))" and "L \<noteq> []" "k \<le> length L"
  shows "takeWhile (\<lambda>m. fst m \<le> last_seq L) (take i (drop k (L @ later))) = take i (drop k L)"
proof -
  have low: "fst m \<le> last_seq L" if "m \<in> set L" for m
    using last_seq_bound [of L "fst m" "snd m"] sorted that by (simp add: sorted_wrt_append)
  have high: "last_seq L < fst m" if "m \<in> set later" for m
    using sorted that assms(2) by (auto simp: sorted_wrt_append last_seq_def)
  have "takeWhile (\<lambda>m. fst m \<le> last_seq L) (take j later) = []" for j
    using high [of "hd later"] by (cases j; cases later) (auto simp: not_le)
  moreover have "fst m \<le> last_seq L" if "m \<in> set (take i (drop k L))" for m
    using that low by (meson in_set_dropD in_set_takeD)
  ultimately show ?thesis using assms(3) by (simp add: takeWhile_append2)
qed

definition reads_log :: "'w jetstream \<Rightarrow> 'w \<Rightarrow> string \<Rightarrow> tenant_log \<Rightarrow> tenant_log \<Rightarrow> bool" where
  "reads_log js w subject L later \<longleftrightarrow> sorted_wrt (<) (0 # map fst (L @ later)) \<and>
     (\<forall>delivered ms e. prefix delivered (msgs subject (L @ later)) \<longrightarrow> jt_fetch js w subject delivered 256 = Inr (ms, e) \<longrightarrow>
        prefix (delivered @ ms) (msgs subject (L @ later)))"

definition delivers :: "'w jetstream \<Rightarrow> 'w \<Rightarrow> string \<Rightarrow> tenant_log \<Rightarrow> tenant_log \<Rightarrow> bool" where
  "delivers js w subject L later \<longleftrightarrow>
     (\<forall>delivered. prefix delivered (msgs subject (L @ later)) \<longrightarrow> length delivered < length L \<longrightarrow>
        (\<exists>ms. jt_fetch js w subject delivered 256 = Inr (ms, None) \<and> ms \<noteq> []))"

lemma prefix_msgs:
  assumes "prefix (msgs subject (take k full) @ ms) (msgs subject full)" "k \<le> length full"
  shows "ms = msgs subject (take (length ms) (drop k full))"
proof -
  have "msgs subject full = msgs subject (take k full) @ msgs subject (drop k full)" by (simp add: msgs_def flip: map_append)
  then have "prefix ms (msgs subject (drop k full))" using assms(1) by simp
  then show ?thesis by (auto simp: prefix_def msgs_def take_map [symmetric])
qed

lemma last_seq_take:
  assumes "sorted_wrt (<) (0 # map fst L)" "k < length L"
  shows "last_seq (take k L) < last_seq L"
proof (cases k)
  case 0
  then show ?thesis using assms by (cases L rule: rev_cases) (auto simp: last_seq_def)
next
  case (Suc j)
  then have "map fst L ! j < map fst L ! (length L - 1)"
    using assms by (intro sorted_wrt_nth_less [of "(<)"]) auto
  then show ?thesis using assms(2) Suc by (cases "L = []") (simp_all add: last_seq_def last_conv_nth)
qed

text \<open>One batch of a consumer that has delivered the first \<open>k\<close> messages.\<close>

lemma load_batch:
  assumes reads: "reads_log js w subject L later" and k: "k < length L" "js_applies cc subject s0 (take k L) = Inr s"
    and fetch: "jt_fetch js w subject (msgs subject (take k L)) 256 = Inr (ms, e)"
  shows "batch_loop cc subject (last_seq L) s False ms =
      (case js_applies cc subject s0 (take (k + length ms) L) of Inl e \<Rightarrow> Inl e | Inr s' \<Rightarrow> Inr (s', ms \<noteq> []))"
    "k + length ms \<le> length L \<Longrightarrow> msgs subject (take k L) @ ms = msgs subject (take (k + length ms) L)"
proof -
  let ?M = "take (length ms) (drop k (L @ later))"
  have "prefix (msgs subject (take k L)) (msgs subject (L @ later))"
    by (metis append.assoc append_take_drop_id msgs_append prefixI)
  then have "prefix (msgs subject (take k (L @ later)) @ ms) (msgs subject (L @ later))"
    using reads fetch k(1) unfolding reads_log_def by (metis append_Nil2 diff_is_0_eq' less_imp_le take0 take_append)
  then have ms: "ms = msgs subject ?M" using k(1) by (intro prefix_msgs) simp_all
  have "takeWhile (\<lambda>m. fst m \<le> last_seq L) ?M = take (length ms) (drop k L)"
    using reads k(1) by (intro takeWhile_segment) (auto simp: reads_log_def)
  moreover have "take (length ms) (drop k L) = [] \<longleftrightarrow> ms = []" using k(1) by auto
  ultimately have "batch_loop cc subject (last_seq L) s False (msgs subject ?M) =
      (case js_applies cc subject s (take (length ms) (drop k L)) of Inl e \<Rightarrow> Inl e | Inr s' \<Rightarrow> Inr (s', ms \<noteq> []))"
    unfolding batch_loop_msgs by (simp split: sum.split)
  then show "batch_loop cc subject (last_seq L) s False ms =
      (case js_applies cc subject s0 (take (k + length ms) L) of Inl e \<Rightarrow> Inl e | Inr s' \<Rightarrow> Inr (s', ms \<noteq> []))"
    unfolding ms [symmetric] by (simp add: take_add js_applies_append k(2))
  show "msgs subject (take k L) @ ms = msgs subject (take (k + length ms) L)" if "k + length ms \<le> length L"
    using that by (subst ms) (simp add: msgs_def take_add)
qed

lemma load_loop_exact:
  assumes reads: "reads_log js w subject L later" and L: "L \<noteq> []" "n = last_seq L" and s0: "tn_revision s0 = 0"
  shows "k \<le> length L \<Longrightarrow> js_applies cc subject s0 (take k L) = Inr s \<Longrightarrow> (tn_revision s < n \<Longrightarrow> delivered = msgs subject (take k L)) \<Longrightarrow>
    (load_loop cc js w subject n s delivered = Inr s' \<longrightarrow> js_applies cc subject s0 L = Inr s') \<and>
    (delivers js w subject L later \<longrightarrow> js_applies cc subject s0 L = Inr s' \<longrightarrow> load_loop cc js w subject n s delivered = Inr s')"
  using reads L
proof (induction cc js w subject n s delivered arbitrary: k rule: load_loop.induct)
  case (1 cc js w subject n s delivered)
  note loop = load_loop.simps [of cc js w subject n s delivered]
  have sorted: "sorted_wrt (<) (0 # map fst (L @ later))" "sorted_wrt (<) (0 # map fst L)"
    using "1.prems"(4) by (simp_all add: reads_log_def sorted_wrt_append)
  have complete: "j = length L" if "j \<le> length L" "js_applies cc subject s0 (take j L) = Inr t" "\<not> tn_revision t < n" for j t
    using applies_revision [OF that(2)] s0 last_seq_take [OF sorted(2), of j] that(1,3) "1.prems"(6)
    by (cases "j < length L") (auto simp: last_seq_def split: if_splits)
  have finished: "tn_revision t = n" if "js_applies cc subject s0 L = Inr t" for t
    using applies_revision [OF that] "1.prems"(5,6) by simp
  show ?case
  proof (cases "tn_revision s < n")
    case False
    then show ?thesis using loop complete [OF "1.prems"(1,2)] "1.prems"(2) by auto
  next
    case True
    have k: "k < length L" using True finished "1.prems"(1,2) by (cases "k = length L") auto
    have d: "delivered = msgs subject (take k L)" using "1.prems"(3) True by blast
    have pre: "prefix delivered (msgs subject (L @ later))" unfolding d by (metis append.assoc append_take_drop_id msgs_append prefixI)
    have live: "\<exists>ms. jt_fetch js w subject delivered 256 = Inr (ms, None) \<and> ms \<noteq> []" if "delivers js w subject L later"
      using that pre k unfolding delivers_def d by (auto simp: msgs_def)
    show ?thesis
    proof (cases "\<exists>ms s1. jt_fetch js w subject delivered 256 = Inr (ms, None) \<and> ms \<noteq> [] \<and> js_applies cc subject s0 (take (k + length ms) L) = Inr s1")
      case False
      have "load_loop cc js w subject n s delivered \<noteq> Inr s'"
        using False True load_batch(1) [OF "1.prems"(4) k "1.prems"(2), folded d "1.prems"(6)]
        by (auto simp: loop split: sum.split option.split)
      moreover have "js_applies cc subject s0 L \<noteq> Inr s'" if "js_applies cc subject s0 (take j L) = Inl e" for j e
        using that js_applies_append [of cc subject s0 "take j L" "drop j L"] by simp
      ultimately show ?thesis using False live by (metis sum.exhaust)
    next
      case cont: True
      then obtain ms s1 where ms: "jt_fetch js w subject delivered 256 = Inr (ms, None)" "ms \<noteq> []"
        and s1: "js_applies cc subject s0 (take (k + length ms) L) = Inr s1" by blast
      have batch: "batch_loop cc subject n s False ms = Inr (s1, True)"
        using load_batch(1) [OF "1.prems"(4) k "1.prems"(2) ms(1) [unfolded d]] s1 ms(2) "1.prems"(6) by simp
      let ?k = "min (k + length ms) (length L)"
      have s1': "js_applies cc subject s0 (take ?k L) = Inr s1" using s1 by (cases "k + length ms \<le> length L") simp_all
      have "delivered @ ms = msgs subject (take ?k L)" if "tn_revision s1 < n"
      proof -
        have "k + length ms < length L" using that finished [of s1] s1 by (cases "k + length ms < length L") auto
        then show ?thesis using load_batch(2) [OF "1.prems"(4) k "1.prems"(2) ms(1) [unfolded d]] d by simp
      qed
      then show ?thesis using "1.IH" [OF _ ms(1) refl batch refl refl, of ?k] s1' True "1.prems"(4-6) loop ms(1) batch by simp
    qed
  qed
qed

section \<open>Operations over the stream\<close>

text \<open>
  The stream, for one tenant: \<open>logs w\<close> is the tenant's log in state \<open>w\<close>. The head is the last sequence of the log; a consumer
  delivers the log in order, and possibly what came later; a publish that returns no error has put the command at the end of a log with
  the expected last sequence; a publish that returns an error may have done so, or not. Other writers of the log, before and after,
  are operations of the adapter.
\<close>

definition js_contract :: "cmd_codec \<Rightarrow> 'w jetstream \<Rightarrow> string \<Rightarrow> ('w \<Rightarrow> tenant_log) \<Rightarrow> bool" where
  "js_contract cc js tenantID logs \<longleftrightarrow> (\<forall>w. (log_step cc tenantID)\<^sup>*\<^sup>* [] (logs w) \<longrightarrow>
     (\<forall>h. jt_last js w (tenant_subject tenantID) = Inr h \<longrightarrow> h = (if logs w = [] then None else Some (last_seq (logs w)))) \<and>
     (\<exists>later. reads_log js w (tenant_subject tenantID) (logs w) later) \<and> uuid_ok cc (jt_uuid js w) \<and>
     (\<forall>n data w' r. jt_publish js w (tenant_subject tenantID) n data = (w', r) \<longrightarrow>
        r \<noteq> None \<and> (log_step cc tenantID)\<^sup>*\<^sup>* (logs w) (logs w') \<or>
        (\<exists>M k. (log_step cc tenantID)\<^sup>*\<^sup>* (logs w) M \<and> last_seq M = n \<and> n < k \<and> (log_step cc tenantID)\<^sup>*\<^sup>* (M @ [(k, data)]) (logs w'))))"

lemma load_exact:
  assumes "js_contract cc js tenantID logs" "(log_step cc tenantID)\<^sup>*\<^sup>* [] (logs w)" "tenantID \<noteq> []"
    and load: "js_load cc js w tenantID = Inr (s, subject)"
  shows "subject = tenant_subject tenantID" "js_replay cc tenantID (logs w) = Inr s"
proof -
  note contract = assms(1) [unfolded js_contract_def, rule_format, OF assms(2)]
  show "subject = tenant_subject tenantID"
    using load assms(3) by (auto simp: js_load_def TenantSubject_eq Let_def split: sum.split_asm option.split_asm)
  show "js_replay cc tenantID (logs w) = Inr s"
  proof (cases "logs w = []")
    case True
    then show ?thesis using load contract assms(3)
      by (auto simp: js_load_def TenantSubject_eq js_replay_def Let_def split: sum.split_asm option.split_asm)
  next
    case False
    then have "load_loop cc js w (tenant_subject tenantID) (last_seq (logs w)) (newTenantState tenantID) [] = Inr s"
      using load contract assms(3) by (auto simp: js_load_def TenantSubject_eq Let_def split: sum.split_asm option.split_asm)
    moreover obtain later where "reads_log js w (tenant_subject tenantID) (logs w) later" using contract by blast
    ultimately show ?thesis
      using load_loop_exact [of js w "tenant_subject tenantID" "logs w" later "last_seq (logs w)" "newTenantState tenantID" 0 cc "newTenantState tenantID" "[]" s] False
      by (simp add: js_replay_def newTenantState_def msgs_def)
  qed
qed

text \<open>
  What a mutation that succeeded did: it decided on the reduction of a log of the tenant, and either had nothing to publish or its
  command followed that log immediately.
\<close>

lemma mutate_outcome:
  assumes cc: "codec_ok cc" and contract: "js_contract cc js tenantID logs" and tenant: "tenantID \<noteq> []"
    and pub: "\<And>uuid s data r. uuid_ok cc uuid \<Longrightarrow> decide uuid s = Publish data r \<Longrightarrow> published cc tenantID s data"
  shows "(log_step cc tenantID)\<^sup>*\<^sup>* [] (logs w) \<Longrightarrow> js_mutate n cc js ctx tenantID decide w = (w', Inr res) \<Longrightarrow>
    \<exists>L s uuid. (log_step cc tenantID)\<^sup>*\<^sup>* [] L \<and> js_replay cc tenantID L = Inr s \<and> uuid_ok cc uuid \<and>
      (decide uuid s = Finish (Inr res) \<and> logs w' = L \<or>
       (\<exists>data k. decide uuid s = Publish data res \<and> last_seq L < k \<and> (log_step cc tenantID)\<^sup>*\<^sup>* (L @ [(k, data)]) (logs w')))"
proof (induction n arbitrary: w)
  case (Suc n)
  note c = contract [unfolded js_contract_def, rule_format, OF Suc.prems(1)]
  obtain s subject where load: "js_load cc js w tenantID = Inr (s, subject)" using Suc.prems(2) by (auto split: sum.split_asm)
  note exact = load_exact [OF contract Suc.prems(1) tenant load]
  have uuid: "uuid_ok cc (jt_uuid js w)" using c by blast
  show ?case
  proof (cases "decide (jt_uuid js w) s")
    case (Finish r)
    then show ?thesis using Suc.prems exact uuid by (auto simp: load)
  next
    case (Publish data r)
    obtain w1 e where p: "jt_publish js w subject (tn_revision s) data = (w1, e)" by fastforce
    obtain t where t: "good_log cc tenantID (logs w) t" using good_log_steps [OF cc Suc.prems(1) good_log_empty] by blast
    then have s: "good_log cc tenantID (logs w) s" "tn_revision s = last_seq (logs w)" using exact(2) by (auto simp: good_log_def)
    have at: "M = logs w" if "(log_step cc tenantID)\<^sup>*\<^sup>* (logs w) M" "last_seq M = tn_revision s" for M
      using good_log_steps [OF cc that(1) s(1)] that(2) s(2) by auto
    have ours: "log_step cc tenantID (logs w) (logs w @ [(k, data)])" if "tn_revision s < k" for k
      using log_step.intros [OF exact(2) pub [OF uuid Publish]] that s(2) by simp
    have outcome: "e \<noteq> None \<and> (log_step cc tenantID)\<^sup>*\<^sup>* (logs w) (logs w1) \<or>
        (\<exists>k. tn_revision s < k \<and> (log_step cc tenantID)\<^sup>*\<^sup>* (logs w @ [(k, data)]) (logs w1))"
      using c p at unfolding exact(1) by blast
    show ?thesis
    proof (cases e)
      case None
      then have "w' = w1" "r = res" using Suc.prems(2) Publish p by (auto simp: load)
      then show ?thesis using outcome None Publish exact(2) s(2) Suc.prems(1) uuid by metis
    next
      case (Some x)
      have "(log_step cc tenantID)\<^sup>*\<^sup>* (logs w) (logs w1)" using outcome ours by (meson converse_rtranclp_into_rtranclp)
      then have "(log_step cc tenantID)\<^sup>*\<^sup>* [] (logs w1)" using Suc.prems(1) by (meson rtranclp_trans)
      moreover have "js_mutate n cc js ctx tenantID decide w1 = (w', Inr res)"
        using Suc.prems(2) Publish p Some by (auto simp: load split: option.split_asm)
      ultimately show ?thesis by (rule Suc.IH)
    qed
  qed
qed simp

lemma record_kept:
  assumes cc: "codec_ok cc" and good: "good_log cc tenantID L s" and r: "mem_records (js_abs s) k = Some rs" "r \<in> set rs"
    and steps: "(log_step cc tenantID)\<^sup>*\<^sup>* L L'"
  shows "\<exists>s' rs' r'. js_replay cc tenantID L' = Inr s' \<and> mem_records (js_abs s') k = Some rs' \<and> r' \<in> set rs' \<and> rec_le r r'"
proof -
  obtain s' where s': "good_log cc tenantID L' s'" "mem_step\<^sup>*\<^sup>* (js_abs s) (js_abs s')" using good_log_steps [OF cc steps good] by blast
  have "mem_inv (js_abs s)" using good js_invD(1) by (auto simp: good_log_def)
  then obtain rs' where rs': "mem_records (js_abs s') k = Some rs'" "extends rs rs'" using mem_steps_extends [OF s'(2) _ r(1)] by blast
  obtain i where "i < length rs" "rs ! i = r" using r(2) by (auto simp: in_set_conv_nth)
  then have "rs' ! i \<in> set rs'" "rec_le r (rs' ! i)" using rs'(2) by (auto simp: extends_def)
  then show ?thesis using s'(1) rs'(1) by (auto simp: good_log_def)
qed

text \<open>The record an append returns is in the state of the log it decided on, or of that log with its command.\<close>

lemma append_decided:
  assumes cc: "codec_ok cc" and good: "good_log cc tenantID L s" and uuid: "uuid_ok cc uuid" and valid: "ValidateIntent intent = None"
    and tenant: "ck_tenant (in_channel intent) = tenantID" and prep: "\<forall>n d r. prepare n d = Inr r \<longrightarrow> accepted_text r"
  shows "append_plan cc intent admit prepare uuid s = Publish data res \<Longrightarrow> published cc tenantID s data"
    and "append_plan cc intent admit prepare uuid s = Finish (Inr res) \<Longrightarrow>
      \<exists>rs. mem_records (js_abs s) (in_channel intent) = Some rs \<and> res_record res \<in> set rs \<and>
        ar_event_id (res_record res) = in_event_id intent \<and> ar_canonical (res_record res) = in_canonical intent"
    and "append_plan cc intent admit prepare uuid s = Publish data res \<Longrightarrow> last_seq L < k \<Longrightarrow>
      \<exists>u rs. good_log cc tenantID (L @ [(k, data)]) u \<and> mem_records (js_abs u) (in_channel intent) = Some rs \<and> res_record res \<in> set rs \<and>
        ar_event_id (res_record res) = in_event_id intent \<and> ar_canonical (res_record res) = in_canonical intent"
proof -
  have inv: "js_inv s" "tn_tenant s = tenantID" "tn_revision s = last_seq L" "js_replay cc tenantID L = Inr s" using good by (auto simp: good_log_def)
  have rtext: "accepted_text (res_record res)" if "append_plan cc intent admit prepare uuid s = Publish data res"
    by (rule append_plan_Publish [OF that]) (use prep in simp)
  show pub: "published cc tenantID s data" if p: "append_plan cc intent admit prepare uuid s = Publish data res"
    by (rule published.append [OF p valid rtext [OF p] tenant uuid])
  show "\<exists>rs. mem_records (js_abs s) (in_channel intent) = Some rs \<and> res_record res \<in> set rs \<and>
      ar_event_id (res_record res) = in_event_id intent \<and> ar_canonical (res_record res) = in_canonical intent"
    if "append_plan cc intent admit prepare uuid s = Finish (Inr res)"
    using append_plan_Finish [OF that] mem_indexD(2) [OF js_invD(1) [OF inv(1)], of "identityOf (in_channel intent)" "in_event_id intent" "res_record res"]
    by (auto simp: sameStoredEvent_def mem_records_def)
  show "\<exists>u rs. good_log cc tenantID (L @ [(k, data)]) u \<and> mem_records (js_abs u) (in_channel intent) = Some rs \<and> res_record res \<in> set rs \<and>
      ar_event_id (res_record res) = in_event_id intent \<and> ar_canonical (res_record res) = in_canonical intent"
    if p: "append_plan cc intent admit prepare uuid s = Publish data res" and k: "last_seq L < k"
  proof -
    obtain u where u: "good_log cc tenantID (L @ [(k, data)]) u" using good_log_publish [OF cc good pub [OF p] k] by blast
    obtain u' where u': "js_apply cc s (tenant_subject tenantID) k data = Inr u'"
      "mem_AppendChecked (js_abs s) None intent (Some admit) (Some prepare) = (js_abs u', Inr res)"
      using publish_record [OF cc inv(1) p valid rtext [OF p] _ uuid, of k] inv tenant k by auto
    then have "u' = u" using u inv(4) by (simp add: good_log_def js_replay_def js_applies_append)
    then show ?thesis using mem_AppendChecked_ok [OF js_invD(1) [OF inv(1)] u'(2)] u by blast
  qed
qed

text \<open>
  C18: an append to the distributed store that reports success is durable. Whether it appended or found a duplicate, however many
  attempts it took, whatever other processes wrote in between and whether failed attempts took effect: every log the tenant's log
  can become reduces to a state in which the returned record is in the transcript, at most signed meanwhile.
\<close>

theorem js_append_durable:
  assumes "codec_ok cc" "js_contract cc js tenantID logs" "(log_step cc tenantID)\<^sup>*\<^sup>* [] (logs w)" "ck_tenant (in_channel intent) = tenantID"
    and prep: "\<forall>n d r. prepare n d = Inr r \<longrightarrow> accepted_text r"
    and "js_AppendChecked cc js w ctx intent (Some admit) (Some prepare) = (w', Inr res)"
    and "(log_step cc tenantID)\<^sup>*\<^sup>* (logs w') L'"
  shows "\<exists>s rs r. js_replay cc tenantID L' = Inr s \<and> mem_records (js_abs s) (in_channel intent) = Some rs \<and> r \<in> set rs \<and>
    rec_le (res_record res) r \<and> ar_event_id r = in_event_id intent \<and> ar_canonical r = in_canonical intent"
proof -
  have valid: "ValidateIntent intent = None"
    and run: "js_mutate maxMutationAttempts cc js ctx tenantID (append_plan cc intent admit prepare) w = (w', Inr res)"
    using assms(4,6) by (auto simp: js_AppendChecked_def ValidateCheckedAppend_None split: option.split_asm)
  have tenant: "tenantID \<noteq> []" using valid assms(4) by (auto simp: ValidateIntent_def split: if_splits)
  have pub: "published cc tenantID s data" if "uuid_ok cc uuid" "append_plan cc intent admit prepare uuid s = Publish data r" for uuid s data r
  proof (rule published.append [OF that(2) valid _ assms(4) that(1)])
    show "accepted_text (res_record r)" by (rule append_plan_Publish [OF that(2)]) (use prep in simp)
  qed
  have "\<exists>L s uuid. (log_step cc tenantID)\<^sup>*\<^sup>* [] L \<and> js_replay cc tenantID L = Inr s \<and> uuid_ok cc uuid \<and>
      (append_plan cc intent admit prepare uuid s = Finish (Inr res) \<and> logs w' = L \<or>
       (\<exists>data k. append_plan cc intent admit prepare uuid s = Publish data res \<and> last_seq L < k \<and> (log_step cc tenantID)\<^sup>*\<^sup>* (L @ [(k, data)]) (logs w')))"
    by (rule mutate_outcome [OF assms(1,2) tenant _ assms(3) run]) (rule pub)
  then obtain L s uuid where L: "(log_step cc tenantID)\<^sup>*\<^sup>* [] L" "js_replay cc tenantID L = Inr s" "uuid_ok cc uuid"
    and outcome: "append_plan cc intent admit prepare uuid s = Finish (Inr res) \<and> logs w' = L \<or>
       (\<exists>data k. append_plan cc intent admit prepare uuid s = Publish data res \<and> last_seq L < k \<and> (log_step cc tenantID)\<^sup>*\<^sup>* (L @ [(k, data)]) (logs w'))"
    by blast
  obtain t where "good_log cc tenantID L t" using good_log_steps [OF assms(1) L(1) good_log_empty] by blast
  then have good: "good_log cc tenantID L s" using L(2) by (auto simp: good_log_def)
  note decided = append_decided [OF assms(1) good L(3) valid assms(4) prep]
  obtain M u rs where m: "good_log cc tenantID M u" "(log_step cc tenantID)\<^sup>*\<^sup>* M (logs w')" "mem_records (js_abs u) (in_channel intent) = Some rs"
    "res_record res \<in> set rs" "ar_event_id (res_record res) = in_event_id intent" "ar_canonical (res_record res) = in_canonical intent"
    using outcome
  proof (elim disjE conjE exE)
    assume "append_plan cc intent admit prepare uuid s = Finish (Inr res)" "logs w' = L"
    then show ?thesis using that [of L s] decided(2) good by blast
  next
    fix data k
    assume "append_plan cc intent admit prepare uuid s = Publish data res" "last_seq L < k" "(log_step cc tenantID)\<^sup>*\<^sup>* (L @ [(k, data)]) (logs w')"
    then show ?thesis using that [of "L @ [(k, data)]"] decided(3) by blast
  qed
  obtain s' rs' r' where r': "js_replay cc tenantID L' = Inr s'" "mem_records (js_abs s') (in_channel intent) = Some rs'" "r' \<in> set rs'"
    "rec_le (res_record res) r'"
    using record_kept [OF assms(1) m(1,3,4) rtranclp_trans [OF m(2) assms(7)]] by blast
  then show ?thesis using rec_le_fields(3,4) [OF r'(4)] m(5,6) by auto
qed

lemma load_complete:
  assumes "codec_ok cc" "(log_step cc tenantID)\<^sup>*\<^sup>* [] L" "tenantID \<noteq> []"
    and "jt_last js w (tenant_subject tenantID) = Inr (if L = [] then None else Some (last_seq L))" "jt_consumer js w (tenant_subject tenantID) = None"
    and "reads_log js w (tenant_subject tenantID) L later" "delivers js w (tenant_subject tenantID) L later"
  shows "\<exists>s. js_load cc js w tenantID = Inr (s, tenant_subject tenantID) \<and> js_replay cc tenantID L = Inr s"
proof -
  obtain s where s: "js_replay cc tenantID L = Inr s" using good_log_steps [OF assms(1,2) good_log_empty] by (auto simp: good_log_def)
  show ?thesis
  proof (cases "L = []")
    case True
    then show ?thesis using s assms(3,4) by (simp add: js_load_def TenantSubject_eq js_replay_def)
  next
    case False
    have "load_loop cc js w (tenant_subject tenantID) (last_seq L) (newTenantState tenantID) [] = Inr s"
      using load_loop_exact [OF assms(6) False refl, of "newTenantState tenantID" 0 cc "newTenantState tenantID" "[]" s] s assms(7)
      by (simp add: js_replay_def newTenantState_def msgs_def)
    then show ?thesis using s assms(3-5) False by (simp add: js_load_def TenantSubject_eq)
  qed
qed

text \<open>
  C20: loading a tenant ends, and succeeds. When the head can be read and the consumer keeps delivering the log in order, whether or not
  it delivers messages that came after the head was read, the loop stops with exactly the reduction of the log up to that head.
\<close>

theorem js_load_complete:
  assumes "codec_ok cc" "(log_step cc tenantID)\<^sup>*\<^sup>* [] L" "tenantID \<noteq> []"
    and "jt_last js w (tenant_subject tenantID) = Inr (if L = [] then None else Some (last_seq L))" "jt_consumer js w (tenant_subject tenantID) = None"
    and "reads_log js w (tenant_subject tenantID) L later" "delivers js w (tenant_subject tenantID) L later"
  shows "\<exists>s. js_load cc js w tenantID = Inr (s, tenant_subject tenantID) \<and> js_replay cc tenantID L = Inr s"
  using assms by (rule load_complete)

section \<open>Witnesses\<close>

text \<open>A codec for two commands, the channel and the record of the examples of the in-memory store, and a stream that is the log itself.\<close>

definition ex_channel_body :: payload where
  "ex_channel_body = ChannelCreated \<lparr>cp_metadata = encodeBytes [1], cp_channel = ''c'', cp_lifecycle = ''active'', cp_digest = ''d'',
     cp_epoch = ''e'', cp_uri = ''u''\<rparr>"

definition ex_record_body :: payload where
  "ex_record_body = RecordAppended \<lparr>rp_authn = encodeBytes [1], rp_authz = encodeBytes [1], rp_event = encodeBytes [7], rp_channel = ''c'',
     rp_digest = EventDigest [7], rp_event_id = ''ev'', rp_receipt_id = ''r'', rp_sequence = 1, rp_algorithm = ''a'', rp_key_id = ''k'',
     rp_epoch = ''e'', rp_preimage = encodeBytes [9]\<rparr>"

definition ex_command :: "string \<Rightarrow> bytes \<Rightarrow> command" where
  "ex_command kind body = \<lparr>cm_id = ''i'', cm_type = kind, cm_version = commandVersion, cm_payload = body, cm_tenant = ''t''\<rparr>"

definition ex_cmd_codec :: cmd_codec where
  "ex_cmd_codec = \<lparr>cc_marshal_payload = (\<lambda>p. if p = ex_channel_body then [1] else if p = ex_record_body then [2] else [0]),
     cc_marshal_command = (\<lambda>c. if c = ex_command commandChannelCreated [1] then [1] else if c = ex_command commandRecordAppended [2] then [2] else [0]),
     cc_Transform = (\<lambda>raw. if raw = [1] \<or> raw = [2] then Some raw else None),
     cc_decode_command = (\<lambda>raw. if raw = [1] then Some (ex_command commandChannelCreated [1])
        else if raw = [2] then Some (ex_command commandRecordAppended [2]) else None),
     cc_decode_channel = (\<lambda>raw. if raw = [1] then (case ex_channel_body of ChannelCreated p \<Rightarrow> Some p | _ \<Rightarrow> None) else None),
     cc_decode_record = (\<lambda>raw. if raw = [2] then (case ex_record_body of RecordAppended p \<Rightarrow> Some p | _ \<Rightarrow> None) else None),
     cc_decode_signature = (\<lambda>raw. None), cc_uuid_v7 = (\<lambda>i. i = ''i'')\<rparr>"

definition ex_stream :: "tenant_log jetstream" where
  "ex_stream = \<lparr>jt_last = (\<lambda>w subject. Inr (if w = [] then None else Some (last_seq w))), jt_consumer = (\<lambda>w subject. None),
     jt_fetch = (\<lambda>w subject delivered n. Inr (take n (drop (length delivered) (msgs subject w)), None)),
     jt_publish = (\<lambda>w subject n data. if last_seq w = n \<and> n \<noteq> - 1 then (w @ [(n + 1, data)], None) else (w, Some ErrCommitIndeterminate)),
     jt_uuid = (\<lambda>w. Some ''i'')\<rparr>"

lemma ex_cmd_codec_ok: "codec_ok ex_cmd_codec"
  unfolding codec_ok_def
proof (intro allI impI)
  fix c p raw
  assume p: "cm_payload c = cc_marshal_payload ex_cmd_codec p" and t: "cc_Transform ex_cmd_codec (cc_marshal_command ex_cmd_codec c) = Some raw"
  then have "c = ex_command commandChannelCreated [1] \<and> raw = [1] \<and> p = ex_channel_body \<or> c = ex_command commandRecordAppended [2] \<and> raw = [2] \<and> p = ex_record_body"
    by (auto simp: ex_cmd_codec_def ex_command_def split: if_split_asm)
  then show "raw \<noteq> [] \<and> cc_Transform ex_cmd_codec raw = Some raw \<and>
      (\<exists>body. cc_decode_command ex_cmd_codec raw = Some (c\<lparr>cm_payload := body\<rparr>) \<and> decodes_to ex_cmd_codec p body)"
    by (auto simp: ex_cmd_codec_def ex_command_def ex_channel_body_def ex_record_body_def)
qed

lemma ex_uuid_ok: "uuid_ok ex_cmd_codec (Some ''i'')"
  by (simp add: uuid_ok_def ex_cmd_codec_def) code_simp

lemma prefix_take_drop: "prefix delivered xs \<Longrightarrow> prefix (delivered @ take n (drop (length delivered) xs)) xs"
  by (auto simp: prefix_def take_is_prefix) (metis append_take_drop_id)

lemma ex_reads: "sorted_wrt (<) (0 # map fst w) \<Longrightarrow> reads_log ex_stream w subject w []"
  by (auto simp: reads_log_def ex_stream_def intro: prefix_take_drop)

lemma ex_stream_contract: "js_contract ex_cmd_codec ex_stream tenantID (\<lambda>w. w)"
proof -
  have "\<exists>later. reads_log ex_stream w (tenant_subject tenantID) w later" if "(log_step ex_cmd_codec tenantID)\<^sup>*\<^sup>* [] w" for w
    using good_log_steps [OF ex_cmd_codec_ok that good_log_empty] ex_reads by (auto simp: good_log_def)
  moreover have "n < n + 1" if "n \<noteq> - 1" for n :: u64 using less_Suc_word [of n n] that by simp
  ultimately show ?thesis unfolding js_contract_def by (auto simp: ex_stream_def ex_uuid_ok split: if_split_asm)
qed

definition ex_state1 :: tenantState where
  "ex_state1 = \<lparr>tn_tenant = ''t'', tn_revision = 1, tn_transcripts = [(ex_key, \<lparr>tr_channel = ex_channel, tr_records = []\<rparr>)],
     tn_channelURIs = [((''t'', ''c''), ''u'')], tn_events = [((''t'', ''c''), [])], tn_receipts = []\<rparr>"

lemmas ex_cmd_codec_defs = ex_cmd_codec_def ex_command_def ex_channel_body_def ex_record_body_def ex_defs

lemma ex_kinds [simp]: "commandChannelCreated \<noteq> commandRecordAppended" "commandRecordAppended \<noteq> commandChannelCreated"
  by (simp_all add: commandChannelCreated_def commandRecordAppended_def)

lemma ex_create: "create_plan ex_cmd_codec ex_channel (Some ''i'') (newTenantState ''t'') = Publish [1] ()"
  by (simp add: create_plan_def newTenantState_def uri_changed_def uri_taken_def newCommand_def MaxCommandBytes_def ex_cmd_codec_defs)

lemma ex_replay: "js_replay ex_cmd_codec ''t'' [(1, [1])] = Inr ex_state1"
proof -
  have d: "decodeCommand ex_cmd_codec [1] = Inr (ex_command commandChannelCreated [1])"
    by (simp add: decodeCommand_def MaxCommandBytes_def ex_cmd_codec_defs)
  have "applyChannel ex_cmd_codec (newTenantState ''t'') [1] = Inr (ex_state1\<lparr>tn_revision := 0\<rparr>)"
    by (simp add: applyChannel_def newTenantState_def uri_changed_def ValidateChannel_def identityOf_def ex_state1_def ex_cmd_codec_defs Let_def)
  then have "js_apply ex_cmd_codec (newTenantState ''t'') (tenant_subject ''t'') 1 [1] = Inr (ex_state1\<lparr>tn_revision := 0, tn_revision := 1\<rparr>)"
    using apply_decoded(1) [OF d, of "newTenantState ''t''" 1] by (simp add: newTenantState_def ex_command_def)
  then show ?thesis by (simp add: js_replay_def ex_state1_def)
qed

lemma ex_log: "log_step ex_cmd_codec ''t'' [] [(1, [1])]"
proof -
  have "ValidateChannel ex_channel = None" "ck_tenant (ch_key ex_channel) = ''t''" by code_simp+
  moreover have "channel_text ex_channel" by code_simp
  ultimately have "published ex_cmd_codec ''t'' (newTenantState ''t'') [1]" using published.channel [OF ex_create] ex_uuid_ok by blast
  then show ?thesis using log_step.intros [of ex_cmd_codec "''t''" "[]" "newTenantState ''t''" "[1]" 1] by (simp add: js_replay_def last_seq_def)
qed

theorem js_log_refines_memory_witness:
  "\<exists>s. js_replay ex_cmd_codec ''t'' [(1, [1])] = Inr s \<and> mem_step\<^sup>*\<^sup>* mem_New (js_abs s) \<and> map_of (tn_transcripts s) ex_key \<noteq> None"
proof -
  have "(log_step ex_cmd_codec ''t'')\<^sup>*\<^sup>* [] [(1, [1])]" using ex_log by blast
  from js_log_refines_memory [OF ex_cmd_codec_ok this] show ?thesis by (auto simp: ex_replay) (simp add: ex_state1_def)
qed

lemma ex_live: "delivers ex_stream w subject w []"
  by (auto simp: delivers_def ex_stream_def msgs_def)

lemma ex_loaded: "js_load ex_cmd_codec ex_stream [(1, [1])] ''t'' = Inr (ex_state1, tenant_subject ''t'')"
proof -
  have l: "(log_step ex_cmd_codec ''t'')\<^sup>*\<^sup>* [] [(1, [1])]" using ex_log by blast
  have "reads_log ex_stream [(1, [1])] (tenant_subject ''t'') [(1, [1])] []" by (rule ex_reads) simp
  then show ?thesis
    using load_complete [OF ex_cmd_codec_ok l, of ex_stream "[(1, [1])]" "[]"] ex_replay ex_live by (simp add: ex_stream_def)
qed

theorem js_append_durable_witness:
  "\<exists>w' s rs r. js_AppendChecked ex_cmd_codec ex_stream [(1, [1])] (\<lambda>_. None) ex_intent (Some (\<lambda>_. None)) (Some ex_prepare) =
       (w', Inr \<lparr>res_outcome = AppendOutcomeAppended, res_record = ex_record\<rparr>) \<and>
     js_replay ex_cmd_codec ''t'' w' = Inr s \<and> mem_records (js_abs s) ex_key = Some rs \<and> r \<in> set rs \<and> rec_le ex_record r"
proof -
  have plan: "append_plan ex_cmd_codec ex_intent (\<lambda>_. None) ex_prepare (Some ''i'') ex_state1 =
      Publish [2] \<lparr>res_outcome = AppendOutcomeAppended, res_record = ex_record\<rparr>"
    by (simp add: append_plan_def ex_state1_def tn_event_def identityOf_def ValidatePreparedRecord_def newCommand_def MaxCommandBytes_def
        maxJSONSafeInteger_def ex_cmd_codec_defs Let_def)
  have valid: "ValidateIntent ex_intent = None" by code_simp
  have run: "js_AppendChecked ex_cmd_codec ex_stream [(1, [1])] (\<lambda>_. None) ex_intent (Some (\<lambda>_. None)) (Some ex_prepare) =
      ([(1, [1]), (2, [2])], Inr \<lparr>res_outcome = AppendOutcomeAppended, res_record = ex_record\<rparr>)"
    using valid plan ex_loaded
    by (simp add: js_AppendChecked_def ValidateCheckedAppend_def ValidateAppendIntent_def ex_intent_def ex_key_def maxMutationAttempts_def
        numeral_eq_Suc ex_stream_def last_seq_def ex_state1_def)
  have l: "(log_step ex_cmd_codec ''t'')\<^sup>*\<^sup>* [] [(1, [1])]" using ex_log by blast
  have "accepted_text (projr (ex_prepare n d))" for n d
    by (simp add: accepted_text_def ex_prepare_def ex_key_def) code_simp
  then have prep: "\<forall>n d r. ex_prepare n d = Inr r \<longrightarrow> accepted_text r" by (metis sum.sel(2))
  have tenant: "ck_tenant (in_channel ex_intent) = ''t''" "in_channel ex_intent = ex_key" by (simp_all add: ex_intent_def ex_key_def)
  show ?thesis
    using js_append_durable [OF ex_cmd_codec_ok ex_stream_contract l tenant(1) prep run rtranclp.rtrancl_refl] run tenant(2) by auto
qed

theorem js_load_complete_witness:
  "js_load ex_cmd_codec ex_stream [(1, [1])] ''t'' = Inr (ex_state1, tenant_subject ''t'')"
proof -
  have l: "(log_step ex_cmd_codec ''t'')\<^sup>*\<^sup>* [] [(1, [1])]" using ex_log by blast
  have "reads_log ex_stream [(1, [1])] (tenant_subject ''t'') [(1, [1])] []" by (rule ex_reads) simp
  then show ?thesis
    using js_load_complete [OF ex_cmd_codec_ok l, of ex_stream "[(1, [1])]" "[]"] ex_replay ex_live by (simp add: ex_stream_def)
qed

end
