(* ===== verification/Relay_Sqlite.thy ===== *)
theory Relay_Sqlite
  imports Relay_Memory
begin

text \<open>
  The durable single-node relay store, \<^verbatim>\<open>internal/relay/sqlite/store.go\<close>. A table is the list of its
  rows in insertion order; a statement that inserts or updates fails (\<open>None\<close>) when it would break a
  constraint the schema declares. The driver is outside the program: a \<open>sql_run\<close> says which statements
  of a call fail on their own, what the context reports after the record was prepared and how the commit
  ends. A commit that reports an error may or may not have become durable. All writes happen inside one
  \<^verbatim>\<open>BEGIN IMMEDIATE\<close> transaction (\<open>immediate_tx\<close>) that is rolled back on every early return; the reads
  of \<^verbatim>\<open>Lookup\<close> and \<^verbatim>\<open>Read\<close> are separate statements, each on the database of its own moment.

  The lifecycle tables that the relay store itself reads are here; the operations that write them are in
  the lifecycle theories.
\<close>

section \<open>The tables\<close>

record transcript_row =
  tw_key :: ChannelKey
  tw_next :: nat
  tw_metadata :: bytes
  tw_digest :: string
  tw_lifecycle :: string
  tw_completeness :: string

record payload_tombstone =
  pt_operation :: string
  pt_key :: ChannelKey
  pt_sequence :: u64
  pt_event_id_digest :: string
  pt_event_digest :: string
  pt_receipt_id_digest :: string

record identifier_tombstone =
  it_tenant :: string
  it_channel :: string
  it_kind :: string
  it_digest :: string
  it_operation :: string

record RelayDB =
  rd_identities :: "((string \<times> string) \<times> string) list"
  rd_transcripts :: "transcript_row list"
  rd_records :: "AcceptedRecord list"
  rd_payload_tombstones :: "payload_tombstone list"
  rd_identifier_tombstones :: "identifier_tombstone list"

definition relay_schema :: RelayDB where
  "relay_schema = \<lparr>rd_identities = [], rd_transcripts = [], rd_records = [],
     rd_payload_tombstones = [], rd_identifier_tombstones = []\<rparr>"

text \<open>The largest \<^verbatim>\<open>INTEGER\<close>, \<^verbatim>\<open>math.MaxInt64\<close>.\<close>

definition MaxInt64 :: nat where
  "MaxInt64 = 2 ^ 63 - 1"

definition channel_of :: "ChannelKey \<Rightarrow> string \<times> string" where
  "channel_of k = (ck_tenant k, ck_channel k)"

definition find_transcript :: "RelayDB \<Rightarrow> ChannelKey \<Rightarrow> transcript_row option" where
  "find_transcript db k = find (\<lambda>t. tw_key t = k) (rd_transcripts db)"

definition insert_identity :: "RelayDB \<Rightarrow> string \<times> string \<Rightarrow> string \<Rightarrow> RelayDB option" where
  "insert_identity db c uri =
     (if map_of (rd_identities db) c \<noteq> None \<or> list_ex (\<lambda>(c', u). fst c' = fst c \<and> u = uri) (rd_identities db)
      then None else Some (db\<lparr>rd_identities := rd_identities db @ [(c, uri)]\<rparr>))"

text \<open>\<^verbatim>\<open>INSERT INTO transcripts \<dots> ON CONFLICT DO NOTHING\<close> and the number of rows it affected.\<close>

definition insert_transcript :: "RelayDB \<Rightarrow> Channel \<Rightarrow> (RelayDB \<times> nat) option" where
  "insert_transcript db c =
     (if find_transcript db (ch_key c) \<noteq> None then Some (db, 0)
      else if map_of (rd_identities db) (channel_of (ch_key c)) = None then None
      else if ch_lifecycle c \<notin> {''active'', ''redacted'', ''deleted''} then None
      else Some (db\<lparr>rd_transcripts := rd_transcripts db @
        [\<lparr>tw_key = ch_key c, tw_next = 1, tw_metadata = ch_metadata c, tw_digest = ch_metadata_digest c,
          tw_lifecycle = ch_lifecycle c, tw_completeness = ''complete''\<rparr>]\<rparr>, 1))"

text \<open>The statement names no signature column: the row is inserted with \<^verbatim>\<open>signature\<close> null.\<close>

definition insert_record :: "RelayDB \<Rightarrow> AcceptedRecord \<Rightarrow> RelayDB option" where
  "insert_record db r =
     (if unat (ar_sequence r) = 0 \<or> unat (ar_sequence r) > MaxInt64 \<or> find_transcript db (ar_channel r) = None \<or>
         list_ex (\<lambda>q. channel_of (ar_channel q) = channel_of (ar_channel r) \<and> ar_event_id q = ar_event_id r \<or>
           ar_receipt_id q = ar_receipt_id r \<or>
           ar_channel q = ar_channel r \<and> ar_sequence q = ar_sequence r) (rd_records db)
      then None else Some (db\<lparr>rd_records := rd_records db @ [r\<lparr>ar_signature := []\<rparr>]\<rparr>))"

text \<open>\<^verbatim>\<open>UPDATE transcripts SET next_sequence = next_sequence + 1\<close>: a sum beyond the integers is a real, which
  the strict table refuses.\<close>

definition advance_sequence :: "RelayDB \<Rightarrow> ChannelKey \<Rightarrow> nat \<Rightarrow> (RelayDB \<times> nat) option" where
  "advance_sequence db k n =
     (let hit = (\<lambda>t. tw_key t = k \<and> tw_next t = n) in
      if list_ex hit (rd_transcripts db) \<and> n + 1 > MaxInt64 then None
      else Some (db\<lparr>rd_transcripts := map (\<lambda>t. if hit t then t\<lparr>tw_next := tw_next t + 1\<rparr> else t) (rd_transcripts db)\<rparr>,
        length (filter hit (rd_transcripts db))))"

definition set_signature :: "RelayDB \<Rightarrow> SignatureAttachment \<Rightarrow> RelayDB \<times> nat" where
  "set_signature db a =
     (let hit = (\<lambda>r. ar_channel r = sa_channel a \<and> ar_receipt_id r = sa_receipt_id a \<and> ar_signature r = []) in
      (db\<lparr>rd_records := map (\<lambda>r. if hit r then r\<lparr>ar_signature := sa_signature a\<rparr> else r) (rd_records db)\<rparr>,
       length (filter hit (rd_records db))))"

text \<open>\<^verbatim>\<open>SELECT \<dots> WHERE server_sequence > after AND server_sequence < cutoff ORDER BY server_sequence LIMIT limit\<close>.\<close>

definition select_records :: "RelayDB \<Rightarrow> ChannelKey \<Rightarrow> nat \<Rightarrow> nat \<Rightarrow> int \<Rightarrow> AcceptedRecord list" where
  "select_records db k after cutoff limit =
     take (nat limit) (sort_key ar_sequence (filter (\<lambda>r. ar_channel r = k \<and>
       after < unat (ar_sequence r) \<and> unat (ar_sequence r) < cutoff) (rd_records db)))"

section \<open>Identifier digests\<close>

definition identifierDigestDomain :: string where
  "identifierDigestDomain = ''yukh.lifecycle-identifier-tombstone.v0.1'' @ [CHR 0x00]"

definition identifierDigest :: "string \<Rightarrow> string \<Rightarrow> string" where
  "identifierDigest kind v = ''sha-256:'' @ hex_sha256 (str_bytes (identifierDigestDomain @ kind @ [CHR 0x00] @ v))"

definition event_tombstoned :: "RelayDB \<Rightarrow> ChannelKey \<Rightarrow> string \<Rightarrow> bool" where
  "event_tombstoned db k d = list_ex (\<lambda>i. it_tenant i = ck_tenant k \<and> it_channel i = ck_channel k \<and>
     it_kind i = ''event'' \<and> it_digest i = d) (rd_identifier_tombstones db)"

definition receipt_tombstoned :: "RelayDB \<Rightarrow> string \<Rightarrow> bool" where
  "receipt_tombstoned db d = list_ex (\<lambda>i. it_kind i = ''receipt'' \<and> it_digest i = d) (rd_identifier_tombstones db)"

section \<open>Transactions\<close>

datatype commit_result = Committed | CommitFailed bool

text \<open>\<open>CommitFailed d\<close>: the commit reported an error; \<open>d\<close> says whether it became durable nevertheless.\<close>

record sql_run =
  sr_fault :: "nat \<Rightarrow> bool"
  sr_view_lookup :: "string \<Rightarrow> bool"
  sr_view_read :: "u64 \<Rightarrow> int \<Rightarrow> bool"
  sr_ctx :: ctx
  sr_commit :: commit_result

definition no_faults :: sql_run where
  "no_faults = \<lparr>sr_fault = (\<lambda>_. False), sr_view_lookup = (\<lambda>_. False), sr_view_read = (\<lambda>_ _. False),
     sr_ctx = None, sr_commit = Committed\<rparr>"

text \<open>\<^verbatim>\<open>beginImmediate\<close>, the body, \<^verbatim>\<open>commit\<close> and the deferred \<^verbatim>\<open>rollback\<close>. Statement 0 of a call is the
  \<^verbatim>\<open>BEGIN IMMEDIATE\<close>; \<open>b\<close> and \<open>c\<close> are what the caller reports when it or the commit fails.\<close>

definition immediate_tx :: "sql_run \<Rightarrow> 'e \<Rightarrow> 'e \<Rightarrow> ('db \<Rightarrow> 'e + 'db \<times> 'a) \<Rightarrow> 'db \<Rightarrow> 'db \<times> ('e + 'a)" where
  "immediate_tx run b c body db =
     (if sr_fault run 0 then (db, Inl b)
      else case body db of
        Inl e \<Rightarrow> (db, Inl e)
      | Inr (db', x) \<Rightarrow>
          (case sr_commit run of
             Committed \<Rightarrow> (db', Inr x)
           | CommitFailed durable \<Rightarrow> (if durable then db' else db, Inl c)))"

abbreviation relay_tx :: "sql_run \<Rightarrow> (RelayDB \<Rightarrow> relay_error + RelayDB \<times> 'a) \<Rightarrow> RelayDB \<Rightarrow> RelayDB \<times> (relay_error + 'a)" where
  "relay_tx run \<equiv> immediate_tx run (ErrText ''begin sqlite transaction'') (Errorf ''commit'' ErrCommitIndeterminate)"

section \<open>Channels\<close>

definition lookupChannel :: "bool \<Rightarrow> RelayDB \<Rightarrow> ChannelKey \<Rightarrow> relay_error + Channel" where
  "lookupChannel fault db k =
     (if fault then Inl (ErrText ''look up sqlite channel metadata'')
      else case (find_transcript db k, map_of (rd_identities db) (channel_of k)) of
        (Some t, Some uri) \<Rightarrow>
          (let channel = \<lparr>ch_key = k, ch_uri = uri, ch_metadata = tw_metadata t,
             ch_metadata_digest = tw_digest t, ch_lifecycle = tw_lifecycle t\<rparr> in
           if ValidateChannel channel \<noteq> None
           then Inl (Errorf ''incomplete channel metadata'' ErrChannelNotFound)
           else Inr (CloneChannel channel))
      | _ \<Rightarrow> Inl ErrChannelNotFound)"

definition ensure_identity :: "sql_run \<Rightarrow> Channel \<Rightarrow> RelayDB \<Rightarrow> relay_error + RelayDB" where
  "ensure_identity run channel db =
     (let c = channel_of (ch_key channel) in
      if sr_fault run 1 then Inl (ErrText ''look up sqlite channel identity'')
      else case map_of (rd_identities db) c of
        Some uri \<Rightarrow> if uri \<noteq> ch_uri channel then Inl ErrChannelConflict else Inr db
      | None \<Rightarrow>
          if sr_fault run 2 then Inl (ErrText ''look up sqlite channel URI'')
          else if list_ex (\<lambda>(c', u). fst c' = fst c \<and> u = ch_uri channel) (rd_identities db)
          then Inl ErrChannelConflict
          else case (if sr_fault run 3 then None else insert_identity db c (ch_uri channel)) of
            None \<Rightarrow> Inl (ErrText ''insert sqlite channel identity'')
          | Some db' \<Rightarrow> Inr db')"

definition create_body :: "sql_run \<Rightarrow> Channel \<Rightarrow> RelayDB \<Rightarrow> relay_error + RelayDB \<times> unit" where
  "create_body run channel db =
     (case ensure_identity run channel db of
        Inl e \<Rightarrow> Inl e
      | Inr db1 \<Rightarrow>
          (case (if sr_fault run 4 then None else insert_transcript db1 channel) of
             None \<Rightarrow> Inl (ErrText ''insert sqlite transcript'')
           | Some (db2, rows) \<Rightarrow>
               if sr_fault run 5 then Inl (ErrText ''read sqlite transcript insert result'')
               else if rows = 0 then
                 (case lookupChannel (sr_fault run 6) db2 (ch_key channel) of
                    Inl e \<Rightarrow> Inl e
                  | Inr existing \<Rightarrow>
                      if \<not> SameChannel existing channel then Inl ErrChannelConflict else Inr (db2, ()))
               else Inr (db2, ())))"

definition sq_CreateChannel :: "sql_run \<Rightarrow> RelayDB \<Rightarrow> ctx \<Rightarrow> Channel \<Rightarrow> RelayDB \<times> relay_error option" where
  "sq_CreateChannel run db ctx channel =
     (case ctx of Some e \<Rightarrow> (db, Some e) | None \<Rightarrow>
      case ValidateChannel channel of Some e \<Rightarrow> (db, Some e) | None \<Rightarrow>
      case relay_tx run (create_body run channel) db of
        (db', Inl e) \<Rightarrow> (db', Some e)
      | (db', Inr u) \<Rightarrow> (db', None))"

definition sq_LookupChannel :: "sql_run \<Rightarrow> RelayDB \<Rightarrow> ctx \<Rightarrow> ChannelKey \<Rightarrow> relay_error + Channel" where
  "sq_LookupChannel run db ctx k =
     (case ctx of Some e \<Rightarrow> Inl e | None \<Rightarrow>
      if ck_tenant k = '''' \<or> ck_channel k = '''' \<or> ck_epoch k = '''' then Inl ErrInvalidArgument
      else lookupChannel (sr_fault run 0) db k)"

section \<open>Records\<close>

definition findRecord :: "bool \<Rightarrow> RelayDB \<Rightarrow> string \<Rightarrow> string \<Rightarrow> string \<Rightarrow> relay_error + AcceptedRecord option" where
  "findRecord fault db tenantID channelID eventID =
     (if fault then Inl (ErrText ''look up sqlite event id'')
      else Inr (find (\<lambda>r. ck_tenant (ar_channel r) = tenantID \<and> ck_channel (ar_channel r) = channelID \<and>
        ar_event_id r = eventID) (rd_records db)))"

definition findReceipt :: "bool \<Rightarrow> RelayDB \<Rightarrow> ChannelKey \<Rightarrow> string \<Rightarrow> relay_error + AcceptedRecord option" where
  "findReceipt fault db k receiptID =
     (if fault then Inl (ErrText ''look up sqlite receipt'')
      else Inr (find (\<lambda>r. ar_channel r = k \<and> ar_receipt_id r = receiptID) (rd_records db)))"

definition sq_view_Lookup :: "sql_run \<Rightarrow> RelayDB \<Rightarrow> ChannelKey \<Rightarrow> string \<Rightarrow> relay_error + AcceptedRecord" where
  "sq_view_Lookup run db k eventID =
     (case findRecord (sr_view_lookup run eventID) db (ck_tenant k) (ck_channel k) eventID of
        Inl e \<Rightarrow> Inl e
      | Inr None \<Rightarrow> Inl ErrEventNotFound
      | Inr (Some r) \<Rightarrow> if ar_channel r \<noteq> k then Inl ErrEventNotFound else Inr r)"

definition sq_view_Read :: "sql_run \<Rightarrow> RelayDB \<Rightarrow> ChannelKey \<Rightarrow> u64 \<Rightarrow> int \<Rightarrow> relay_error + AcceptedRecord list" where
  "sq_view_Read run db k after limit =
     (if limit < 1 \<or> limit > 1000 \<or> unat after > MaxInt64 then Inl ErrInvalidArgument
      else if sr_view_read run after limit then Inl (ErrText ''read'')
      else Inr (select_records db k (unat after) (MaxInt64 + 1) limit))"

definition sqliteAdmissionView :: "sql_run \<Rightarrow> RelayDB \<Rightarrow> ChannelKey \<Rightarrow> AdmissionView" where
  "sqliteAdmissionView run db k = \<lparr>av_Lookup = sq_view_Lookup run db k, av_Read = sq_view_Read run db k\<rparr>"

text \<open>The part of \<^verbatim>\<open>AppendChecked\<close> after the admission: preparation, the receipt check and the two writes.\<close>

definition append_new ::
  "sql_run \<Rightarrow> AppendIntent \<Rightarrow> PrepareRecord \<Rightarrow> nat \<Rightarrow> RelayDB \<Rightarrow> relay_error + RelayDB \<times> AppendResult" where
  "append_new run intent prepare n db =
     (let sequence = of_nat n; digest = EventDigest (in_canonical intent) in
      case prepare sequence digest of
        Inl e \<Rightarrow> Inl (Errorf ''prepare accepted record'' e)
      | Inr r \<Rightarrow>
        case sr_ctx run of Some e \<Rightarrow> Inl e | None \<Rightarrow>
        case ValidatePreparedRecord intent sequence digest r of Some e \<Rightarrow> Inl e | None \<Rightarrow>
        if sr_fault run 4 then Inl (ErrText ''check sqlite receipt tombstone'')
        else if receipt_tombstoned db (identifierDigest ''receipt'' (ar_receipt_id r)) then Inl ErrTransitionConflict
        else case (if sr_fault run 5 then None else insert_record db r) of
          None \<Rightarrow> Inl (ErrText ''insert sqlite accepted record'')
        | Some db1 \<Rightarrow>
          case (if sr_fault run 6 then None else advance_sequence db1 (in_channel intent) n) of
            None \<Rightarrow> Inl (ErrText ''advance sqlite transcript sequence'')
          | Some (db2, rows) \<Rightarrow>
              if sr_fault run 7 then Inl (ErrText ''read sqlite sequence update result'')
              else if rows \<noteq> 1 then Inl (ErrText ''advance sqlite transcript sequence: expected one row'')
              else Inr (db2, \<lparr>res_outcome = AppendOutcomeAppended, res_record = CloneRecord r\<rparr>))"

definition append_body ::
  "sql_run \<Rightarrow> AppendIntent \<Rightarrow> Admit \<Rightarrow> PrepareRecord \<Rightarrow> RelayDB \<Rightarrow> relay_error + RelayDB \<times> AppendResult" where
  "append_body run intent admit prepare db =
     (let k = in_channel intent in
      if sr_fault run 1 then Inl (ErrText ''read sqlite transcript sequence'')
      else case find_transcript db k of None \<Rightarrow> Inl ErrChannelNotFound | Some t \<Rightarrow>
      if tw_lifecycle t \<noteq> ''active'' then Inl ErrTransitionConflict
      else if sr_fault run 2 then Inl (ErrText ''check sqlite event tombstone'')
      else if event_tombstoned db k (identifierDigest ''event'' (in_event_id intent)) then Inl ErrEventIDCollision
      else case findRecord (sr_fault run 3) db (ck_tenant k) (ck_channel k) (in_event_id intent) of
        Inl e \<Rightarrow> Inl e
      | Inr (Some existing) \<Rightarrow>
          if ar_channel existing \<noteq> k \<or> ar_canonical existing \<noteq> in_canonical intent then Inl ErrEventIDCollision
          else Inr (db, \<lparr>res_outcome = AppendOutcomeDuplicate, res_record = existing\<rparr>)
      | Inr None \<Rightarrow>
          case admit (sqliteAdmissionView run db k) of
            Some e \<Rightarrow> Inl e
          | None \<Rightarrow> append_new run intent prepare (tw_next t) db)"

definition sq_AppendChecked ::
  "sql_run \<Rightarrow> RelayDB \<Rightarrow> ctx \<Rightarrow> AppendIntent \<Rightarrow> Admit option \<Rightarrow> PrepareRecord option
     \<Rightarrow> RelayDB \<times> (relay_error + AppendResult)" where
  "sq_AppendChecked run db ctx intent admit prepare =
     (case ctx of Some e \<Rightarrow> (db, Inl e) | None \<Rightarrow>
      case ValidateCheckedAppend intent admit prepare of Some e \<Rightarrow> (db, Inl e) | None \<Rightarrow>
      relay_tx run (append_body run intent (the admit) (the prepare)) db)"

definition sq_Append ::
  "sql_run \<Rightarrow> RelayDB \<Rightarrow> ctx \<Rightarrow> AppendIntent \<Rightarrow> PrepareRecord option \<Rightarrow> RelayDB \<times> (relay_error + AppendResult)" where
  "sq_Append run db ctx intent prepare = sq_AppendChecked run db ctx intent (Some (\<lambda>_. None)) prepare"

definition attach_body :: "sql_run \<Rightarrow> SignatureAttachment \<Rightarrow> RelayDB \<Rightarrow> relay_error + RelayDB \<times> AcceptedRecord" where
  "attach_body run a db =
     (case findReceipt (sr_fault run 1) db (sa_channel a) (sa_receipt_id a) of
        Inl e \<Rightarrow> Inl e
      | Inr None \<Rightarrow> Inl ErrReceiptNotFound
      | Inr (Some r) \<Rightarrow>
          if ar_preimage r \<noteq> sa_preimage a then Inl ErrSignatureCollision
          else if length (ar_signature r) > 0 then
            (if ar_signature r \<noteq> sa_signature a then Inl ErrSignatureCollision else Inr (db, r))
          else if sr_fault run 2 then Inl (ErrText ''attach sqlite receipt signature'')
          else case set_signature db a of (db', rows) \<Rightarrow>
            if sr_fault run 3 then Inl (ErrText ''read sqlite signature update result'')
            else if rows \<noteq> 1 then Inl (ErrText ''attach sqlite receipt signature: expected one row'')
            else Inr (db', r\<lparr>ar_signature := sa_signature a\<rparr>))"

definition sq_AttachSignature ::
  "sql_run \<Rightarrow> RelayDB \<Rightarrow> ctx \<Rightarrow> SignatureAttachment \<Rightarrow> RelayDB \<times> (relay_error + AcceptedRecord)" where
  "sq_AttachSignature run db ctx a =
     (case ctx of Some e \<Rightarrow> (db, Inl e) | None \<Rightarrow>
      case ValidateSignatureAttachment a of Some e \<Rightarrow> (db, Inl e) | None \<Rightarrow>
      relay_tx run (attach_body run a) db)"

text \<open>The two statements of \<^verbatim>\<open>Lookup\<close> see the databases \<open>db\<close> and \<open>db1\<close>.\<close>

definition sq_Lookup :: "sql_run \<Rightarrow> RelayDB \<Rightarrow> RelayDB \<Rightarrow> ctx \<Rightarrow> ChannelKey \<Rightarrow> string \<Rightarrow> relay_error + AcceptedRecord" where
  "sq_Lookup run db db1 ctx k eventID =
     (case ctx of Some e \<Rightarrow> Inl e | None \<Rightarrow>
      if ck_tenant k = '''' \<or> ck_channel k = '''' \<or> ck_epoch k = '''' \<or> eventID = '''' then Inl ErrInvalidArgument
      else if sr_fault run 0 then Inl (ErrText ''look up sqlite transcript'')
      else if find_transcript db k = None then Inl ErrChannelNotFound
      else case findRecord (sr_fault run 1) db1 (ck_tenant k) (ck_channel k) eventID of
        Inl e \<Rightarrow> Inl e
      | Inr None \<Rightarrow> Inl ErrEventNotFound
      | Inr (Some r) \<Rightarrow> Inr r)"

text \<open>\<^verbatim>\<open>SELECT MIN(server_sequence) FROM lifecycle_payload_tombstones\<close>, \<open>None\<close> for null.\<close>

definition first_removed :: "RelayDB \<Rightarrow> ChannelKey \<Rightarrow> nat option" where
  "first_removed db k =
     (case map (unat \<circ> pt_sequence) (filter (\<lambda>p. pt_key p = k) (rd_payload_tombstones db)) of
        [] \<Rightarrow> None
      | n # ns \<Rightarrow> Some (fold min ns n))"

text \<open>The statements of \<^verbatim>\<open>Read\<close> see \<open>db\<close> (lifecycle), \<open>db1\<close> (redaction boundary) and \<open>db2\<close> (records).\<close>

definition sq_Read ::
  "sql_run \<Rightarrow> RelayDB \<Rightarrow> RelayDB \<Rightarrow> RelayDB \<Rightarrow> ctx \<Rightarrow> ChannelKey \<Rightarrow> u64 \<Rightarrow> int \<Rightarrow> relay_error + AcceptedRecord list" where
  "sq_Read run db db1 db2 ctx k after limit =
     (let rows = (\<lambda>cutoff. if sr_fault run 2 then Inl (ErrText ''read sqlite accepted records'')
        else Inr (select_records db2 k (unat after) cutoff limit)) in
      case ctx of Some e \<Rightarrow> Inl e | None \<Rightarrow>
      if ck_tenant k = '''' \<or> ck_channel k = '''' \<or> ck_epoch k = '''' \<or> limit < 1 \<or> limit > 1000
      then Inl ErrInvalidArgument
      else if unat after > MaxInt64 then Inr []
      else if sr_fault run 0 then Inl (ErrText ''look up sqlite transcript'')
      else case find_transcript db k of None \<Rightarrow> Inl ErrChannelNotFound | Some t \<Rightarrow>
      if tw_lifecycle t = ''deleted'' then Inr []
      else if tw_lifecycle t = ''redacted'' then
        (if sr_fault run 1 then Inl (ErrText ''read sqlite redaction boundary'')
         else case first_removed db1 k of None \<Rightarrow> Inr [] | Some cutoff \<Rightarrow> rows cutoff)
      else rows MaxInt64)"

section \<open>The store\<close>

text \<open>A database together with what the driver does during the coming calls.\<close>

record SqlWorld =
  sw_db :: RelayDB
  sw_runs :: "sql_run list"

definition sw_run :: "SqlWorld \<Rightarrow> sql_run" where
  "sw_run w = (case sw_runs w of [] \<Rightarrow> no_faults | run # runs \<Rightarrow> run)"

definition sw_step :: "SqlWorld \<Rightarrow> RelayDB \<times> 'a \<Rightarrow> SqlWorld \<times> 'a" where
  "sw_step w r = (\<lparr>sw_db = fst r, sw_runs = tl (sw_runs w)\<rparr>, snd r)"

definition sql_Store :: "SqlWorld Store" where
  "sql_Store = \<lparr>st_CreateChannel = (\<lambda>w c channel. sw_step w (sq_CreateChannel (sw_run w) (sw_db w) c channel)),
     st_LookupChannel = (\<lambda>w. sq_LookupChannel (sw_run w) (sw_db w)),
     st_Lookup = (\<lambda>w. sq_Lookup (sw_run w) (sw_db w) (sw_db w)),
     st_Append = (\<lambda>w c i prepare. sw_step w (sq_Append (sw_run w) (sw_db w) c i prepare)),
     st_AppendChecked = (\<lambda>w c i admit prepare. sw_step w (sq_AppendChecked (sw_run w) (sw_db w) c i admit prepare)),
     st_AttachSignature = (\<lambda>w c a. sw_step w (sq_AttachSignature (sw_run w) (sw_db w) c a)),
     st_Read = (\<lambda>w. sq_Read (sw_run w) (sw_db w) (sw_db w) (sw_db w))\<rparr>"

end
