(* ===== verification/Sqlite_Laws.thy ===== *)
theory Sqlite_Laws
  imports Relay_Sqlite Append_Service "HOL-Library.Multiset"
begin

text \<open>
  What the SQLite relay store keeps, whatever the driver does: the invariant \<open>sq_inv\<close> of the tables, in
  which every sequence number a transcript has handed out belongs to exactly one stored record or one payload
  tombstone, and the contract \<open>relay_store_safe\<close> of the append service for prepared records without a
  signature. The operations of the transcript lifecycle preserve the same invariant (theory Lifecycle_Laws).
\<close>

section \<open>The invariant\<close>

definition rows_of :: "RelayDB \<Rightarrow> ChannelKey \<Rightarrow> AcceptedRecord list" where
  "rows_of db k = filter (\<lambda>r. ar_channel r = k) (rd_records db)"

definition tombs_of :: "RelayDB \<Rightarrow> ChannelKey \<Rightarrow> payload_tombstone list" where
  "tombs_of db k = filter (\<lambda>p. pt_key p = k) (rd_payload_tombstones db)"

definition transcript_ok :: "RelayDB \<Rightarrow> ChannelKey \<Rightarrow> transcript_row \<Rightarrow> bool" where
  "transcript_ok db k t \<longleftrightarrow> map_of (rd_identities db) (channel_of k) \<noteq> None \<and>
     1 \<le> tw_next t \<and> tw_next t \<le> MaxInt64 \<and>
     mset (map (unat \<circ> ar_sequence) (rows_of db k)) + mset (map (unat \<circ> pt_sequence) (tombs_of db k)) =
       mset [1..<tw_next t] \<and>
     sorted (map ar_sequence (rows_of db k))"

definition sq_inv :: "RelayDB \<Rightarrow> bool" where
  "sq_inv db \<longleftrightarrow> distinct (map tw_key (rd_transcripts db)) \<and>
     distinct (map (\<lambda>r. (channel_of (ar_channel r), ar_event_id r)) (rd_records db)) \<and>
     distinct (map ar_receipt_id (rd_records db)) \<and>
     (\<forall>k. case find_transcript db k of
        None \<Rightarrow> rows_of db k = [] \<and> tombs_of db k = []
      | Some t \<Rightarrow> transcript_ok db k t)"

definition sq_records :: "RelayDB \<Rightarrow> ChannelKey \<Rightarrow> AcceptedRecord list option" where
  "sq_records db k = (if find_transcript db k = None then None else Some (rows_of db k))"

lemma sq_invD:
  assumes "sq_inv db"
  shows "distinct (map tw_key (rd_transcripts db))"
    "distinct (map (\<lambda>r. (channel_of (ar_channel r), ar_event_id r)) (rd_records db))"
    "distinct (map ar_receipt_id (rd_records db))"
    "find_transcript db k = Some t \<Longrightarrow> transcript_ok db k t"
    "find_transcript db k = None \<Longrightarrow> rows_of db k = [] \<and> tombs_of db k = []"
  using assms by (auto simp: sq_inv_def dest: spec [where x = k])

lemma sq_inv_schema [simp]: "sq_inv relay_schema"
  by (simp add: sq_inv_def relay_schema_def find_transcript_def rows_of_def tombs_of_def)

lemma find_transcript_Some:
  "find_transcript db k = Some t \<Longrightarrow> t \<in> set (rd_transcripts db) \<and> tw_key t = k"
  by (auto simp: find_transcript_def find_Some_iff)

lemma find_transcript_iff:
  "distinct (map tw_key (rd_transcripts db)) \<Longrightarrow>
     find_transcript db k = Some t \<longleftrightarrow> t \<in> set (rd_transcripts db) \<and> tw_key t = k"
  unfolding find_transcript_def
  by (induction "rd_transcripts db" arbitrary: db rule: list.induct)
    (auto simp: find_Some_iff in_set_conv_nth distinct_conv_nth)

lemma row_transcript: "sq_inv db \<Longrightarrow> r \<in> set (rd_records db) \<Longrightarrow> \<exists>t. find_transcript db (ar_channel r) = Some t"
  using sq_invD(5) [of db "ar_channel r"]
  by (cases "find_transcript db (ar_channel r)") (auto simp: rows_of_def filter_empty_conv)

lemma sorted_rows: "sq_inv db \<Longrightarrow> sorted (map ar_sequence (rows_of db k))"
  using sq_invD(4,5) [of db k] by (cases "find_transcript db k") (auto simp: transcript_ok_def)

lemma row_bounds:
  assumes "sq_inv db" "find_transcript db k = Some t" "r \<in> set (rows_of db k)"
  shows "1 \<le> unat (ar_sequence r)" "unat (ar_sequence r) < tw_next t"
proof -
  have "unat (ar_sequence r) \<in># mset (map (unat \<circ> ar_sequence) (rows_of db k)) + mset (map (unat \<circ> pt_sequence) (tombs_of db k))"
    using assms(3) by (auto simp: image_iff)
  then have "unat (ar_sequence r) \<in># mset [1..<tw_next t]"
    using sq_invD(4) [OF assms(1,2)] unfolding transcript_ok_def by metis
  then show "1 \<le> unat (ar_sequence r)" "unat (ar_sequence r) < tw_next t" by auto
qed

section \<open>Transactions\<close>

lemma immediate_tx_Inr: "immediate_tx run b c body db = (db', Inr x) \<Longrightarrow> body db = Inr (db', x)"
  by (auto simp: immediate_tx_def split: if_splits sum.splits commit_result.splits)

lemma immediate_tx_db:
  "immediate_tx run b c body db = (db', y) \<Longrightarrow> db' = db \<or> (\<exists>x. body db = Inr (db', x))"
  by (auto simp: immediate_tx_def split: if_splits sum.splits commit_result.splits)

text \<open>The writes of an append, and the outcomes of its transaction.\<close>

definition appended :: "RelayDB \<Rightarrow> AcceptedRecord \<Rightarrow> RelayDB" where
  "appended db r = db\<lparr>rd_records := rd_records db @ [r\<lparr>ar_signature := []\<rparr>],
     rd_transcripts := map (\<lambda>t. if tw_key t = ar_channel r then t\<lparr>tw_next := tw_next t + 1\<rparr> else t) (rd_transcripts db)\<rparr>"

lemma advance_sequence_Some:
  assumes d: "distinct (map tw_key (rd_transcripts db))" and t: "find_transcript db k = Some t"
    and adv: "advance_sequence db k (tw_next t) = Some (db', n)"
  shows "db' = db\<lparr>rd_transcripts := map (\<lambda>t. if tw_key t = k then t\<lparr>tw_next := tw_next t + 1\<rparr> else t) (rd_transcripts db)\<rparr>"
    "tw_next t + 1 \<le> MaxInt64"
proof -
  have uniq: "u = t" if "u \<in> set (rd_transcripts db)" "tw_key u = k" for u
    using that t find_transcript_iff [OF d] by (metis option.inject)
  have eq: "map (\<lambda>u. if tw_key u = k \<and> tw_next u = tw_next t then u\<lparr>tw_next := tw_next u + 1\<rparr> else u) (rd_transcripts db) =
    map (\<lambda>t. if tw_key t = k then t\<lparr>tw_next := tw_next t + 1\<rparr> else t) (rd_transcripts db)"
    using uniq by (intro map_cong) auto
  have "db' = db\<lparr>rd_transcripts := map (\<lambda>u. if tw_key u = k \<and> tw_next u = tw_next t then u\<lparr>tw_next := tw_next u + 1\<rparr> else u) (rd_transcripts db)\<rparr>"
    using adv by (auto simp: advance_sequence_def Let_def split: if_splits)
  then show "db' = db\<lparr>rd_transcripts := map (\<lambda>t. if tw_key t = k then t\<lparr>tw_next := tw_next t + 1\<rparr> else t) (rd_transcripts db)\<rparr>"
    by (simp only: eq)
  show "tw_next t + 1 \<le> MaxInt64"
    using adv find_transcript_Some [OF t]
    by (auto simp: advance_sequence_def Let_def list_ex_iff split: if_splits)
qed

definition insertable :: "RelayDB \<Rightarrow> AcceptedRecord \<Rightarrow> bool" where
  "insertable db r \<longleftrightarrow> (\<forall>q \<in> set (rd_records db). \<not> (channel_of (ar_channel q) = channel_of (ar_channel r) \<and>
     ar_event_id q = ar_event_id r) \<and> ar_receipt_id q \<noteq> ar_receipt_id r)"

lemma insert_record_Some:
  "insert_record db r = Some db' \<Longrightarrow> db' = db\<lparr>rd_records := rd_records db @ [r\<lparr>ar_signature := []\<rparr>]\<rparr> \<and> insertable db r"
  by (auto simp: insert_record_def insertable_def list_ex_iff split: if_splits)

text \<open>A committed new record: the transcript was active, neither identifier had been removed before, and the
  record is stored without a signature under the next sequence number.\<close>

definition append_commits :: "RelayDB \<Rightarrow> AppendIntent \<Rightarrow> PrepareRecord \<Rightarrow> AcceptedRecord \<Rightarrow> bool" where
  "append_commits db i prepare r \<longleftrightarrow> (\<exists>t. find_transcript db (in_channel i) = Some t \<and> tw_lifecycle t = ''active'' \<and>
     tw_next t + 1 \<le> MaxInt64 \<and>
     prepare (of_nat (tw_next t)) (EventDigest (in_canonical i)) = Inr r \<and>
     ValidatePreparedRecord i (of_nat (tw_next t)) (EventDigest (in_canonical i)) r = None \<and> insertable db r \<and>
     \<not> event_tombstoned db (in_channel i) (identifierDigest ''event'' (in_event_id i)) \<and>
     \<not> receipt_tombstoned db (identifierDigest ''receipt'' (ar_receipt_id r)))"

lemma append_new_Inr:
  assumes d: "distinct (map tw_key (rd_transcripts db))" and t: "find_transcript db (in_channel i) = Some t"
    and new: "append_new run i prepare (tw_next t) db = Inr (db', res)"
  shows "\<exists>r. res = \<lparr>res_outcome = AppendOutcomeAppended, res_record = r\<rparr> \<and> db' = appended db r \<and> tw_next t + 1 \<le> MaxInt64 \<and>
    prepare (of_nat (tw_next t)) (EventDigest (in_canonical i)) = Inr r \<and> insertable db r \<and>
    ValidatePreparedRecord i (of_nat (tw_next t)) (EventDigest (in_canonical i)) r = None \<and>
    \<not> receipt_tombstoned db (identifierDigest ''receipt'' (ar_receipt_id r))"
proof -
  from new obtain r db1 n where r: "prepare (of_nat (tw_next t)) (EventDigest (in_canonical i)) = Inr r"
      "ValidatePreparedRecord i (of_nat (tw_next t)) (EventDigest (in_canonical i)) r = None"
      "\<not> receipt_tombstoned db (identifierDigest ''receipt'' (ar_receipt_id r))"
      "insert_record db r = Some db1" "advance_sequence db1 (in_channel i) (tw_next t) = Some (db', n)"
      "res = \<lparr>res_outcome = AppendOutcomeAppended, res_record = r\<rparr>"
    by (auto simp: append_new_def Let_def split: sum.splits option.splits if_splits)
  have db1: "db1 = db\<lparr>rd_records := rd_records db @ [r\<lparr>ar_signature := []\<rparr>]\<rparr>" "insertable db r"
    using insert_record_Some [OF r(4)] by simp_all
  have "distinct (map tw_key (rd_transcripts db1))" "find_transcript db1 (in_channel i) = Some t"
    using d t by (simp_all add: db1 find_transcript_def)
  from advance_sequence_Some [OF this r(5)] show ?thesis
    using r db1 ValidatePreparedRecord_NoneD(1) [OF r(2)] by (simp add: appended_def)
qed

lemma findRecord_Inr:
  "findRecord fault db tenantID channelID eventID = Inr (Some r) \<Longrightarrow> r \<in> set (rd_records db) \<and>
     ck_tenant (ar_channel r) = tenantID \<and> ck_channel (ar_channel r) = channelID \<and> ar_event_id r = eventID"
  by (auto simp: findRecord_def find_Some_iff split: if_splits)

lemma append_body_Inr:
  assumes d: "distinct (map tw_key (rd_transcripts db))" and body: "append_body run i admit prepare db = Inr (db', res)"
  obtains (duplicate) r where "db' = db" "res = \<lparr>res_outcome = AppendOutcomeDuplicate, res_record = r\<rparr>"
      "r \<in> set (rd_records db)" "ar_channel r = in_channel i" "ar_event_id r = in_event_id i" "ar_canonical r = in_canonical i"
    | (new) r where "res = \<lparr>res_outcome = AppendOutcomeAppended, res_record = r\<rparr>" "db' = appended db r" "append_commits db i prepare r"
proof -
  from body obtain t found where t: "find_transcript db (in_channel i) = Some t" "tw_lifecycle t = ''active''"
      "\<not> event_tombstoned db (in_channel i) (identifierDigest ''event'' (in_event_id i))"
      "findRecord (sr_fault run 3) db (ck_tenant (in_channel i)) (ck_channel (in_channel i)) (in_event_id i) = Inr found"
    by (auto simp: append_body_def Let_def split: sum.splits option.splits if_splits)
  show thesis
  proof (cases found)
    case None
    then have "append_new run i prepare (tw_next t) db = Inr (db', res)"
      using body t by (auto simp: append_body_def Let_def split: option.splits if_splits)
    from append_new_Inr [OF d t(1) this] show ?thesis using t new by (auto simp: append_commits_def)
  next
    case (Some r)
    then show ?thesis
      using body t duplicate findRecord_Inr [OF t(4) [unfolded Some]] by (auto simp: append_body_def Let_def split: if_splits)
  qed
qed

section \<open>The relay operations preserve the invariant\<close>

lemma MaxInt64_less: "n \<le> MaxInt64 \<Longrightarrow> n < 2 ^ 64"
  by (simp add: MaxInt64_def)

lemma unat_of_nat_next [simp]: "n \<le> MaxInt64 \<Longrightarrow> unat (of_nat n :: u64) = n"
  by (rule unat_of_nat_u64 [OF MaxInt64_less])

lemma find_transcript_map:
  assumes "\<And>t. tw_key (f t) = tw_key t"
  shows "find_transcript (db\<lparr>rd_transcripts := map f (rd_transcripts db)\<rparr>) k = map_option f (find_transcript db k)"
proof -
  have "find (\<lambda>t. tw_key t = k) (map f ts) = map_option f (find (\<lambda>t. tw_key t = k) ts)" for ts
    by (induction ts) (auto simp: assms)
  then show ?thesis by (simp add: find_transcript_def)
qed

lemma find_transcript_appended:
  "find_transcript (appended db r) k =
     map_option (\<lambda>t. if tw_key t = ar_channel r then t\<lparr>tw_next := tw_next t + 1\<rparr> else t) (find_transcript db k)"
proof -
  have "find_transcript (appended db r) k =
      find_transcript (db\<lparr>rd_transcripts := map (\<lambda>t. if tw_key t = ar_channel r then t\<lparr>tw_next := tw_next t + 1\<rparr> else t) (rd_transcripts db)\<rparr>) k"
    by (simp add: find_transcript_def appended_def)
  then show ?thesis by (subst (asm) find_transcript_map) auto
qed

lemma rows_of_appended:
  "rows_of (appended db r) k = rows_of db k @ (if ar_channel r = k then [r\<lparr>ar_signature := []\<rparr>] else [])"
  "tombs_of (appended db r) k = tombs_of db k"
  "rd_identities (appended db r) = rd_identities db"
  by (simp_all add: rows_of_def tombs_of_def appended_def)

lemma transcript_ok_appended:
  assumes inv: "sq_inv db" and t: "find_transcript db (ar_channel r) = Some t" "tw_next t + 1 \<le> MaxInt64"
    and r: "ar_sequence r = of_nat (tw_next t)"
  shows "transcript_ok (appended db r) (ar_channel r) (t\<lparr>tw_next := tw_next t + 1\<rparr>)"
proof -
  note ok = sq_invD(4) [OF inv t(1), unfolded transcript_ok_def]
  have n: "unat (ar_sequence r) = tw_next t" using t(2) by (simp add: r)
  have "\<forall>q \<in> set (rows_of db (ar_channel r)). ar_sequence q \<le> ar_sequence r"
    using row_bounds(2) [OF inv t(1)] n by (auto simp: word_le_nat_alt less_imp_le)
  then have "sorted (map ar_sequence (rows_of (appended db r) (ar_channel r)))"
    using ok by (simp add: rows_of_appended sorted_append)
  moreover have "mset [1..<tw_next t + 1] = add_mset (tw_next t) (mset [1..<tw_next t])" using ok by simp
  ultimately show ?thesis
    using ok t(2) n by (simp add: transcript_ok_def rows_of_appended)
qed

lemma sq_inv_appended:
  assumes inv: "sq_inv db" and commits: "append_commits db i prepare r"
  shows "sq_inv (appended db r)"
proof -
  from commits obtain t where t: "find_transcript db (in_channel i) = Some t" "tw_next t + 1 \<le> MaxInt64" "insertable db r"
    "ar_channel r = in_channel i" "ar_sequence r = of_nat (tw_next t)"
    using ValidatePreparedRecord_NoneD(1,2) by (auto simp: append_commits_def)
  note D = sq_invD [OF inv]
  have keys: "map tw_key (rd_transcripts (appended db r)) = map tw_key (rd_transcripts db)" by (simp add: appended_def)
  have "case find_transcript (appended db r) k of None \<Rightarrow> rows_of (appended db r) k = [] \<and> tombs_of (appended db r) k = []
      | Some t \<Rightarrow> transcript_ok (appended db r) k t" for k
  proof (cases "k = in_channel i")
    case True
    then show ?thesis
      using transcript_ok_appended [OF inv, of r t] t find_transcript_Some [OF t(1)] by (simp add: find_transcript_appended)
  next
    case False
    then show ?thesis
      using D(4,5) [of k] t(4) find_transcript_Some
      by (auto simp: find_transcript_appended rows_of_appended transcript_ok_def split: option.split)
  qed
  moreover have "distinct (map (\<lambda>r. (channel_of (ar_channel r), ar_event_id r)) (rd_records (appended db r)))"
    "distinct (map ar_receipt_id (rd_records (appended db r)))"
    using D(2,3) t(3) by (auto simp: appended_def insertable_def)
  ultimately show ?thesis using D(1) keys by (simp add: sq_inv_def)
qed

lemma sq_inv_map_records:
  assumes inv: "sq_inv db" and f: "\<And>r. ar_channel (f r) = ar_channel r" "\<And>r. ar_sequence (f r) = ar_sequence r"
    "\<And>r. ar_event_id (f r) = ar_event_id r" "\<And>r. ar_receipt_id (f r) = ar_receipt_id r"
  shows "sq_inv (db\<lparr>rd_records := map f (rd_records db)\<rparr>)"
proof -
  have "filter (\<lambda>r. ar_channel r = k) (map f rs) = map f (filter (\<lambda>r. ar_channel r = k) rs)" for k rs
    by (induction rs) (auto simp: f)
  then have rows: "rows_of (db\<lparr>rd_records := map f (rd_records db)\<rparr>) k = map f (rows_of db k)" for k
    by (simp add: rows_of_def)
  have find: "find_transcript (db\<lparr>rd_records := map f (rd_records db)\<rparr>) k = find_transcript db k"
    and tombs: "tombs_of (db\<lparr>rd_records := map f (rd_records db)\<rparr>) k = tombs_of db k" for k
    by (simp_all add: find_transcript_def tombs_of_def)
  show ?thesis
    using sq_invD [OF inv]
    by (auto simp: sq_inv_def transcript_ok_def find tombs rows comp_def f split: option.split)
qed

definition with_signature :: "SignatureAttachment \<Rightarrow> AcceptedRecord \<Rightarrow> AcceptedRecord" where
  "with_signature a r = (if ar_channel r = sa_channel a \<and> ar_receipt_id r = sa_receipt_id a \<and> ar_signature r = []
     then r\<lparr>ar_signature := sa_signature a\<rparr> else r)"

lemma set_signature_db: "fst (set_signature db a) = db\<lparr>rd_records := map (with_signature a) (rd_records db)\<rparr>"
  by (simp add: set_signature_def with_signature_def Let_def)

lemma with_signature_fields:
  "ar_channel (with_signature a r) = ar_channel r" "ar_sequence (with_signature a r) = ar_sequence r"
  "ar_event_id (with_signature a r) = ar_event_id r" "ar_receipt_id (with_signature a r) = ar_receipt_id r"
  "rec_le r (with_signature a r)"
  by (simp_all add: with_signature_def rec_le_def)

lemma findReceipt_Inr:
  "findReceipt fault db k receiptID = Inr (Some r) \<Longrightarrow>
     r \<in> set (rd_records db) \<and> ar_channel r = k \<and> ar_receipt_id r = receiptID"
  by (auto simp: findReceipt_def find_Some_iff split: if_splits)

lemma attach_body_Inr:
  assumes "attach_body run a db = Inr (db', sg)"
  obtains (same) "db' = db" "sg \<in> set (rd_records db)" "ar_channel sg = sa_channel a" "ar_receipt_id sg = sa_receipt_id a"
      "ar_preimage sg = sa_preimage a" "ar_signature sg = sa_signature a" "sa_signature a \<noteq> []"
    | (signed) r where "db' = db\<lparr>rd_records := map (with_signature a) (rd_records db)\<rparr>" "sg = r\<lparr>ar_signature := sa_signature a\<rparr>"
      "r \<in> set (rd_records db)" "ar_channel r = sa_channel a" "ar_receipt_id r = sa_receipt_id a" "ar_preimage r = sa_preimage a"
      "ar_signature r = []"
proof -
  from assms obtain r where "findReceipt (sr_fault run 1) db (sa_channel a) (sa_receipt_id a) = Inr (Some r)"
    by (auto simp: attach_body_def split: sum.splits option.splits)
  note r = this findReceipt_Inr [OF this]
  show thesis
  proof (cases "ar_signature r = []")
    case True
    then show ?thesis using assms r signed set_signature_db [of db a]
      by (auto simp: attach_body_def split: if_splits prod.splits)
  next
    case False
    then show ?thesis using assms r same by (auto simp: attach_body_def split: if_splits)
  qed
qed

lemma ensure_identity_Inr:
  assumes "ensure_identity run channel db = Inr db'"
  shows "map_of (rd_identities db') (channel_of (ch_key channel)) = Some (ch_uri channel)"
    "map_of (rd_identities db) c = Some u \<Longrightarrow> map_of (rd_identities db') c = Some u"
    "\<exists>ids. db' = db\<lparr>rd_identities := ids\<rparr>"
proof -
  show "map_of (rd_identities db') (channel_of (ch_key channel)) = Some (ch_uri channel)"
    "map_of (rd_identities db) c = Some u \<Longrightarrow> map_of (rd_identities db') c = Some u"
    using assms by (auto simp: ensure_identity_def insert_identity_def Let_def map_add_def split: option.splits if_splits)
  have "db' = db\<lparr>rd_identities := rd_identities db'\<rparr>"
    using assms by (auto simp: ensure_identity_def insert_identity_def Let_def split: option.splits if_splits)
  then show "\<exists>ids. db' = db\<lparr>rd_identities := ids\<rparr>" ..
qed

lemma find_append_case: "find P (xs @ ys) = (case find P xs of None \<Rightarrow> find P ys | Some x \<Rightarrow> Some x)"
  by (induction xs) auto

lemma sq_inv_create:
  assumes inv: "sq_inv db" and body: "create_body run channel db = Inr (db', u)"
  shows "sq_inv db'" "rd_records db' = rd_records db" "find_transcript db k \<noteq> None \<Longrightarrow> find_transcript db' k = find_transcript db k"
proof -
  from body obtain db1 n where e: "ensure_identity run channel db = Inr db1" and t: "insert_transcript db1 channel = Some (db', n)"
    by (auto simp: create_body_def split: sum.splits option.splits if_splits)
  note id = ensure_identity_Inr [OF e]
  obtain ids where db1: "db1 = db\<lparr>rd_identities := ids\<rparr>" using id(3) by blast
  have find1: "find_transcript db1 k = find_transcript db k" "rows_of db1 k = rows_of db k" "tombs_of db1 k = tombs_of db k" for k
    by (simp_all add: db1 find_transcript_def rows_of_def tombs_of_def)
  note D = sq_invD [OF inv]
  have "transcript_ok db1 k t" if "find_transcript db k = Some t" for k t
    using D(4) [OF that] id(2) [of "channel_of k"] by (auto simp: transcript_ok_def find1)
  then have inv1: "sq_inv db1"
    unfolding sq_inv_def using D by (auto simp: find1 split: option.split) (auto simp: db1)
  obtain ts where db': "db' = db1\<lparr>rd_transcripts := rd_transcripts db1 @ ts\<rparr>"
    "ts = [] \<or> find_transcript db1 (ch_key channel) = None \<and> (\<exists>t. ts = [t] \<and> tw_key t = ch_key channel \<and> tw_next t = 1)"
  proof (cases "find_transcript db1 (ch_key channel)")
    case None
    then show ?thesis using that t by (auto simp: insert_transcript_def split: if_splits)
  next
    case (Some y)
    then show ?thesis using that [of "[]"] t by (simp add: insert_transcript_def)
  qed
  have find': "find_transcript db' k = (case find_transcript db1 k of None \<Rightarrow> find (\<lambda>t. tw_key t = k) ts | Some t \<Rightarrow> Some t)" for k
    by (auto simp: find_transcript_def db'(1) find_append_case)
  have rows': "rows_of db' k = rows_of db1 k" "tombs_of db' k = tombs_of db1 k" "rd_identities db' = rd_identities db1" for k
    by (simp_all add: db' rows_of_def tombs_of_def)
  show "rd_records db' = rd_records db" by (simp add: db' db1)
  show "find_transcript db k \<noteq> None \<Longrightarrow> find_transcript db' k = find_transcript db k"
    by (auto simp: find' find1)
  note D1 = sq_invD [OF inv1]
  have "\<forall>t \<in> set (rd_transcripts db1). tw_key t \<noteq> ch_key channel" if "find_transcript db1 (ch_key channel) = None"
    using that by (auto simp: find_transcript_def find_None_iff)
  then have "distinct (map tw_key (rd_transcripts db'))" using D1(1) db' by auto
  moreover have "case find_transcript db' k of None \<Rightarrow> rows_of db' k = [] \<and> tombs_of db' k = [] | Some t \<Rightarrow> transcript_ok db' k t" for k
    using D1(4,5) [of k] db'(2) id(1)
    by (auto simp: find' rows' transcript_ok_def MaxInt64_def split: option.splits if_splits)
  moreover have "rd_records db' = rd_records db1" by (simp add: db'(1))
  ultimately show "sq_inv db'" using D1(2,3) by (simp add: sq_inv_def)
qed

section \<open>Every history of the relay operations\<close>

inductive sq_step :: "RelayDB \<Rightarrow> RelayDB \<Rightarrow> bool" where
  create: "sq_CreateChannel run db c channel = (db', e) \<Longrightarrow> sq_step db db'"
| append: "sq_AppendChecked run db c i admit prepare = (db', res) \<Longrightarrow> sq_step db db'"
| attach: "sq_AttachSignature run db c a = (db', x) \<Longrightarrow> sq_step db db'"

lemma sq_CreateChannel_db:
  "sq_CreateChannel run db c channel = (db', e) \<Longrightarrow> db' = db \<or> (\<exists>u. create_body run channel db = Inr (db', u))"
  by (auto simp: sq_CreateChannel_def split: option.splits prod.splits sum.splits dest!: immediate_tx_db)

lemma sq_AppendChecked_db:
  "sq_AppendChecked run db c i admit prepare = (db', y) \<Longrightarrow>
     db' = db \<or> (\<exists>adm p res. prepare = Some p \<and> append_body run i adm p db = Inr (db', res))"
  by (auto simp: sq_AppendChecked_def ValidateCheckedAppend_None split: option.splits dest!: immediate_tx_db)

lemma sq_AppendChecked_Inr:
  "sq_AppendChecked run db c i admit prepare = (db', Inr res) \<Longrightarrow>
     \<exists>adm p. prepare = Some p \<and> append_body run i adm p db = Inr (db', res)"
  by (auto simp: sq_AppendChecked_def ValidateCheckedAppend_None split: option.splits dest!: immediate_tx_Inr)

lemma sq_AttachSignature_db:
  "sq_AttachSignature run db c a = (db', y) \<Longrightarrow> db' = db \<or> (\<exists>sg. attach_body run a db = Inr (db', sg))"
  by (auto simp: sq_AttachSignature_def split: option.splits dest!: immediate_tx_db)

lemma sq_AttachSignature_Inr:
  "sq_AttachSignature run db c a = (db', Inr sg) \<Longrightarrow>
     attach_body run a db = Inr (db', sg) \<and> ValidateSignatureAttachment a = None"
  by (auto simp: sq_AttachSignature_def split: option.splits dest!: immediate_tx_Inr)

text \<open>A relay operation leaves the database as it was, or creates rows for a channel, or appends one record that
  \<open>append_commits\<close> allows, or attaches one signature.\<close>

lemma sq_step_cases:
  assumes step: "sq_step db db'" and inv: "sq_inv db"
  obtains (same) "db' = db"
    | (created) run channel u where "create_body run channel db = Inr (db', u)"
    | (appended) i prepare r where "append_commits db i prepare r" "db' = appended db r"
    | (signed) a where "db' = db\<lparr>rd_records := map (with_signature a) (rd_records db)\<rparr>"
  using step
proof cases
  case (create run c channel e)
  then show ?thesis using same created sq_CreateChannel_db by metis
next
  case (append run c i admit prepare res)
  then show ?thesis
    using same appended append_body_Inr [OF sq_invD(1) [OF inv]] sq_AppendChecked_db by metis
next
  case (attach run c a x)
  then show ?thesis using same signed attach_body_Inr sq_AttachSignature_db by metis
qed

lemma sq_step_inv: "sq_step db db' \<Longrightarrow> sq_inv db \<Longrightarrow> sq_inv db'"
  by (erule sq_step_cases)
    (auto intro: sq_inv_create sq_inv_appended sq_inv_map_records simp: with_signature_fields)

lemma sq_steps_inv: "sq_step\<^sup>*\<^sup>* db db' \<Longrightarrow> sq_inv db \<Longrightarrow> sq_inv db'"
  by (induction rule: rtranclp_induct) (auto intro: sq_step_inv)

lemma rows_of_map:
  "(\<And>r. ar_channel (f r) = ar_channel r) \<Longrightarrow>
     rows_of (db\<lparr>rd_records := map f (rd_records db)\<rparr>) k = map f (rows_of db k)"
proof -
  assume f: "\<And>r. ar_channel (f r) = ar_channel r"
  have "filter (\<lambda>r. ar_channel r = k) (map f rs) = map f (filter (\<lambda>r. ar_channel r = k) rs)" for rs
    by (induction rs) (auto simp: f)
  then show ?thesis by (simp add: rows_of_def)
qed

lemma extends_map: "(\<And>r. rec_le r (f r)) \<Longrightarrow> extends rs (map f rs)"
  by (simp add: extends_def)

lemma sq_step_extends:
  assumes "sq_step db db'" "sq_inv db" "sq_records db k = Some rs"
  shows "\<exists>rs'. sq_records db' k = Some rs' \<and> extends rs rs'"
  using assms(1,2)
proof (cases rule: sq_step_cases)
  case same
  then show ?thesis using assms(3) by simp
next
  case (created run channel u)
  then show ?thesis
    using sq_inv_create(2,3) [OF assms(2) created] assms(3) by (auto simp: sq_records_def rows_of_def split: if_splits)
next
  case (appended i prepare r)
  then show ?thesis using assms(3) by (auto simp: sq_records_def find_transcript_appended rows_of_appended split: if_splits)
next
  case (signed a)
  have "extends (rows_of db k) (map (with_signature a) (rows_of db k))"
    by (rule extends_map) (rule with_signature_fields)
  then show ?thesis
    using assms(3) by (auto simp: sq_records_def signed rows_of_map with_signature_fields find_transcript_def split: if_splits)
qed

lemma sq_steps_extends:
  "sq_step\<^sup>*\<^sup>* db db' \<Longrightarrow> sq_inv db \<Longrightarrow> sq_records db k = Some rs \<Longrightarrow>
     \<exists>rs'. sq_records db' k = Some rs' \<and> extends rs rs'"
proof (induction rule: rtranclp_induct)
  case base
  then show ?case by auto
next
  case (step y z)
  then show ?case
    using sq_step_extends [OF step.hyps(2) sq_steps_inv [OF step.hyps(1)]] by (blast intro: extends_trans)
qed

section \<open>The contract of the append service\<close>

definition unsigned_prepare :: "PrepareRecord \<Rightarrow> bool" where
  "unsigned_prepare p \<longleftrightarrow> (\<forall>n d r. p n d = Inr r \<longrightarrow> ar_signature r = [])"

lemma sq_records_mem:
  "sq_inv db \<Longrightarrow> r \<in> set (rd_records db) \<Longrightarrow> \<exists>rs. sq_records db (ar_channel r) = Some rs \<and> r \<in> set rs"
  using row_transcript [of db r] by (auto simp: sq_records_def rows_of_def)

lemma sq_AppendChecked_ok:
  assumes inv: "sq_inv db" and app: "sq_AppendChecked run db c i admit prepare = (db', Inr res)"
    and unsigned: "pred_option unsigned_prepare prepare"
  shows "\<exists>rs. sq_records db' (in_channel i) = Some rs \<and> res_record res \<in> set rs \<and>
    ar_channel (res_record res) = in_channel i \<and> ar_event_id (res_record res) = in_event_id i \<and>
    ar_canonical (res_record res) = in_canonical i"
proof -
  obtain adm p where p: "prepare = Some p" "append_body run i adm p db = Inr (db', res)"
    using sq_AppendChecked_Inr [OF app] by blast
  from sq_invD(1) [OF inv] p(2) show ?thesis
  proof (cases rule: append_body_Inr)
    case (duplicate r)
    then show ?thesis using sq_records_mem [OF inv, of r] by auto
  next
    case (new r)
    then have v: "ar_signature r = []" "ar_channel r = in_channel i" "ar_event_id r = in_event_id i" "ar_canonical r = in_canonical i"
      using unsigned p(1) ValidatePreparedRecord_NoneD
      by (auto simp: append_commits_def unsigned_prepare_def)
    then have "r \<in> set (rd_records db')" by (simp add: new appended_def)
    then show ?thesis
      using sq_records_mem [OF sq_inv_appended [OF inv new(3)], of r] new v by auto
  qed
qed

lemma sq_AppendChecked_prepared:
  assumes inv: "sq_inv db" and app: "sq_AppendChecked run db c i admit prepare = (db', Inr res)"
    and fresh: "res_outcome res = AppendOutcomeAppended"
  shows "\<exists>p n. prepare = Some p \<and> p n (EventDigest (in_canonical i)) = Inr (res_record res)"
proof -
  obtain adm p where p: "prepare = Some p" "append_body run i adm p db = Inr (db', res)"
    using sq_AppendChecked_Inr [OF app] by blast
  from sq_invD(1) [OF inv] p(2) show ?thesis
    by (cases rule: append_body_Inr) (use fresh p(1) in \<open>auto simp: append_commits_def\<close>)
qed

lemma sq_AttachSignature_ok:
  assumes inv: "sq_inv db" and att: "sq_AttachSignature run db c a = (db', Inr sg)"
  shows "\<exists>rs. sq_records db' (sa_channel a) = Some rs \<and> sg \<in> set rs \<and> ar_receipt_id sg = sa_receipt_id a \<and>
    ar_preimage sg = sa_preimage a \<and> ar_signature sg = sa_signature a \<and> sa_signature a \<noteq> []"
proof -
  have body: "attach_body run a db = Inr (db', sg)" and sig: "sa_signature a \<noteq> []"
    using sq_AttachSignature_Inr [OF att] by (auto simp: ValidateSignatureAttachment_def split: if_splits)
  from body show ?thesis
  proof (cases rule: attach_body_Inr)
    case same
    then show ?thesis using sq_records_mem [OF inv, of sg] by auto
  next
    case (signed r)
    then have "sg = with_signature a r" by (simp add: with_signature_def)
    then have "sg \<in> set (rd_records db')" "ar_channel sg = sa_channel a" using signed by (auto simp: with_signature_fields)
    moreover have "sq_inv db'" unfolding signed(1) by (rule sq_inv_map_records [OF inv]) (simp_all add: with_signature_fields)
    ultimately show ?thesis using sq_records_mem [of db' sg] signed sig by auto
  qed
qed

lemma sq_Lookup_ok:
  "sq_inv db \<Longrightarrow> sq_Lookup run db db c k e = Inr found \<Longrightarrow>
     \<exists>rs. sq_records db (ar_channel found) = Some rs \<and> found \<in> set rs \<and> ar_event_id found = e"
  using sq_records_mem
  by (fastforce simp: sq_Lookup_def split: option.splits if_splits sum.splits dest: findRecord_Inr)

lemma sw_step_Pair: "sw_step w r = (w', x) \<longleftrightarrow> w' = \<lparr>sw_db = fst r, sw_runs = tl (sw_runs w)\<rparr> \<and> x = snd r"
  by (auto simp: sw_step_def)

interpretation sql: relay_store_safe sql_Store "\<lambda>w. sq_inv (sw_db w)" "\<lambda>w. sq_records (sw_db w)" unsigned_prepare
proof (unfold_locales; unfold sql_Store_def Store.select_convs sw_step_Pair)
  fix w w' :: SqlWorld and c i admit prepare r
  assume inv: "sq_inv (sw_db w)"
    and app: "w' = \<lparr>sw_db = fst (sq_AppendChecked (sw_run w) (sw_db w) c i admit prepare), sw_runs = tl (sw_runs w)\<rparr> \<and>
      r = snd (sq_AppendChecked (sw_run w) (sw_db w) c i admit prepare)"
  then have step: "sq_step (sw_db w) (sw_db w')" by (auto intro: sq_step.append [OF surjective_pairing])
  show "sq_inv (sw_db w')" using sq_step_inv [OF step inv] .
  fix k rs
  assume "sq_records (sw_db w) k = Some rs"
  then show "\<exists>rs'. sq_records (sw_db w') k = Some rs' \<and> extends rs rs'" by (rule sq_step_extends [OF step inv])
next
  fix w w' :: SqlWorld and c a x
  assume inv: "sq_inv (sw_db w)"
    and att: "w' = \<lparr>sw_db = fst (sq_AttachSignature (sw_run w) (sw_db w) c a), sw_runs = tl (sw_runs w)\<rparr> \<and>
      x = snd (sq_AttachSignature (sw_run w) (sw_db w) c a)"
  then have step: "sq_step (sw_db w) (sw_db w')" by (auto intro: sq_step.attach [OF surjective_pairing])
  show "sq_inv (sw_db w')" using sq_step_inv [OF step inv] .
  fix k rs
  assume "sq_records (sw_db w) k = Some rs"
  then show "\<exists>rs'. sq_records (sw_db w') k = Some rs' \<and> extends rs rs'" by (rule sq_step_extends [OF step inv])
qed (use sq_AppendChecked_ok sq_AppendChecked_prepared sq_AttachSignature_ok sq_Lookup_ok surjective_pairing in
  \<open>(metis SqlWorld.select_convs(1))+\<close>)

section \<open>Properties\<close>

definition ex_sql0 :: RelayDB where
  "ex_sql0 = fst (sq_CreateChannel no_faults relay_schema None ex_channel)"

definition ex_sql_svc :: "SqlWorld AppendService" where
  "ex_sql_svc = \<lparr>as_store = sql_Store, as_signer = ex_signer\<rparr>"

definition ex_sql_sched :: "SqlWorld schedule" where
  "ex_sql_sched = \<lparr>at_lookup = None, at_append = None, at_attach = None, before_append = id, before_attach = id\<rparr>"

lemma ex_sql0_eq: "ex_sql0 = \<lparr>rd_identities = [((''t'', ''c''), ''u'')],
    rd_transcripts = [\<lparr>tw_key = ex_key, tw_next = 1, tw_metadata = [1], tw_digest = ''d'', tw_lifecycle = ''active'',
      tw_completeness = ''complete''\<rparr>], rd_records = [], rd_payload_tombstones = [], rd_identifier_tombstones = []\<rparr>"
  by (simp add: ex_sql0_def sq_CreateChannel_def ValidateChannel_def ex_channel_def ex_key_def immediate_tx_def no_faults_def
      create_body_def ensure_identity_def Let_def relay_schema_def channel_of_def insert_identity_def insert_transcript_def
      find_transcript_def)

lemma ex_sql0_reachable: "sq_step\<^sup>*\<^sup>* relay_schema ex_sql0"
  by (rule r_into_rtranclp, rule sq_step.create [of no_faults _ None ex_channel], unfold ex_sql0_def) (simp add: prod_eq_iff)

lemmas ex_sql_defs = sq_AppendChecked_def ValidateCheckedAppend_def ValidateAppendIntent_def ValidateIntent_def immediate_tx_def
  append_body_def findRecord_def event_tombstoned_def receipt_tombstoned_def append_new_def ValidatePreparedRecord_def
  insert_record_def advance_sequence_def find_transcript_def no_faults_def ex_intent_def MaxInt64_def

lemma ex_sql_append:
  "sq_AppendChecked no_faults ex_sql0 None ex_intent (Some (\<lambda>_. None)) (Some ex_prepare) =
     (appended ex_sql0 ex_record, Inr \<lparr>res_outcome = AppendOutcomeAppended, res_record = ex_record\<rparr>)"
  by (simp add: ex_sql_defs ex_sql0_eq ex_prepare_def ex_record_def appended_def ex_key_def Let_def)

lemma ex_sql_attach:
  "sq_AttachSignature no_faults (appended ex_sql0 ex_record) None \<lparr>sa_channel = ex_key, sa_receipt_id = ar_receipt_id ex_record,
      sa_preimage = ar_preimage ex_record, sa_signature = [5]\<rparr> =
   ((appended ex_sql0 ex_record)\<lparr>rd_records := [ex_record\<lparr>ar_signature := [5]\<rparr>]\<rparr>, Inr (ex_record\<lparr>ar_signature := [5]\<rparr>))"
  by (simp add: sq_AttachSignature_def ValidateSignatureAttachment_def immediate_tx_def attach_body_def findReceipt_def no_faults_def
      set_signature_def appended_def ex_sql0_eq ex_defs Let_def)

lemma ex_sql_run:
  "AppendService_AppendChecked ex_sql_svc ex_sql_sched \<lparr>sw_db = ex_sql0, sw_runs = []\<rparr> ex_intent (Some (\<lambda>_. None))
      (Some (\<lambda>n d _. ex_prepare n d)) =
    (\<lparr>sw_db = (appended ex_sql0 ex_record)\<lparr>rd_records := [ex_record\<lparr>ar_signature := [5]\<rparr>]\<rparr>, sw_runs = []\<rparr>,
     Inr \<lparr>res_outcome = AppendOutcomeAppended, res_record = ex_record\<lparr>ar_signature := [5]\<rparr>\<rparr>)"
proof -
  have lookup: "sq_Lookup no_faults ex_sql0 ex_sql0 None ex_key ''ev'' = Inl ErrEventNotFound"
    by (simp add: sq_Lookup_def ex_sql0_eq find_transcript_def findRecord_def ex_key_def no_faults_def)
  have "ar_channel ex_record = ex_key" "ar_signature ex_record = []" by (simp_all add: ex_defs)
  then show ?thesis
    using lookup ex_sql_append ex_sql_attach
    by (simp add: AppendService_AppendChecked_def ex_sql_svc_def ex_sql_sched_def ex_signer_def sql_Store_def sw_step_def sw_run_def
        ex_bindSelection ensureSigned_def ValidateIntent_def ex_intent_def ex_key_def)
qed

text \<open>
  C14: the service returns success only for a durable signature, over the SQLite store too. Whatever statements the
  driver fails, however commits end and whatever other transactions of the relay store run between its calls, a successful
  append whose prepared record carries no signature ends with a signed row in the table that carries the receipt and
  preimage under which the intent's event was accepted.
\<close>

theorem svc_sqlite_durable:
  assumes "as_store svc = sql_Store" "sq_step\<^sup>*\<^sup>* relay_schema (sw_db w)"
    and "\<And>w. sq_step\<^sup>*\<^sup>* (sw_db w) (sw_db (before_append sched w))" "\<And>w. sq_step\<^sup>*\<^sup>* (sw_db w) (sw_db (before_attach sched w))"
    and "\<And>prep sel. prepare = Some prep \<Longrightarrow> unsigned_prepare (bindSelection sel prep)"
    and "AppendService_AppendChecked svc sched w i admit prepare = (w', Inr res)"
  shows "\<exists>rs. sq_records (sw_db w') (in_channel i) = Some rs \<and> res_record res \<in> set rs \<and>
    ar_signature (res_record res) \<noteq> [] \<and>
    accepted rs i (ar_receipt_id (res_record res)) (ar_preimage (res_record res))"
proof -
  have q: "quiet (\<lambda>w. sq_inv (sw_db w)) (\<lambda>w. sq_records (sw_db w)) f"
    if "\<And>w. sq_step\<^sup>*\<^sup>* (sw_db w) (sw_db (f w))" for f :: "SqlWorld \<Rightarrow> SqlWorld"
    unfolding quiet_def using that by (blast intro: sq_steps_inv sq_steps_extends)
  show ?thesis
    using sql.append_durable [OF assms(1) sq_steps_inv [OF assms(2) sq_inv_schema] q [OF assms(3)] q [OF assms(4)] assms(5,6)]
    by blast
qed

theorem svc_sqlite_durable_witness:
  "\<exists>w res rs. AppendService_AppendChecked ex_sql_svc ex_sql_sched \<lparr>sw_db = ex_sql0, sw_runs = []\<rparr> ex_intent (Some (\<lambda>_. None))
       (Some (\<lambda>n d _. ex_prepare n d)) = (w, Inr res) \<and>
     sq_records (sw_db w) ex_key = Some rs \<and> res_record res \<in> set rs \<and> ar_signature (res_record res) \<noteq> []"
proof -
  have "unsigned_prepare (bindSelection sel prep)" if "Some (\<lambda>n d (_ :: SigningSelection). ex_prepare n d) = Some prep" for prep sel
    using that by (auto simp: unsigned_prepare_def bindSelection_def ex_prepare_def split: if_splits)
  from svc_sqlite_durable [OF _ _ _ _ this ex_sql_run] ex_sql0_reachable ex_sql_run
  show ?thesis by (fastforce simp: ex_sql_svc_def ex_sql_sched_def ex_intent_def)
qed

text \<open>
  C17: a signature a caller prepares is lost. The SQLite store answers an append with the prepared record, signature
  included, while the row it commits has none: the answered record is not in the table, its unsigned form is. The
  in-memory store keeps the signature.
\<close>

theorem sq_append_drops_signature:
  assumes "sq_step\<^sup>*\<^sup>* relay_schema db"
    and "sq_AppendChecked run db c i admit prepare = (db', Inr res)"
    and "res_outcome res = AppendOutcomeAppended" "ar_signature (res_record res) \<noteq> []"
  shows "res_record res \<notin> set (rd_records db') \<and> (res_record res)\<lparr>ar_signature := []\<rparr> \<in> set (rd_records db')"
proof -
  have inv: "sq_inv db" using sq_steps_inv [OF assms(1) sq_inv_schema] .
  obtain adm p where "append_body run i adm p db = Inr (db', res)"
    using sq_AppendChecked_Inr [OF assms(2)] by blast
  with sq_invD(1) [OF inv] show ?thesis
  proof (cases rule: append_body_Inr)
    case (duplicate r)
    then show ?thesis using assms(3) by simp
  next
    case (new r)
    then have "insertable db r" by (auto simp: append_commits_def)
    then have "r \<notin> set (rd_records db)" by (auto simp: insertable_def)
    then show ?thesis using assms(4) new by (cases r) (auto simp: appended_def)
  qed
qed

theorem sq_append_drops_signature_witness:
  "\<exists>db' r. sq_AppendChecked no_faults ex_sql0 None ex_intent (Some (\<lambda>_. None))
      (Some (\<lambda>n d. map_sum id (\<lambda>r. r\<lparr>ar_signature := [5]\<rparr>) (ex_prepare n d))) =
      (db', Inr \<lparr>res_outcome = AppendOutcomeAppended, res_record = r\<rparr>) \<and> r \<notin> set (rd_records db')"
proof -
  let ?p = "\<lambda>n d. map_sum id (\<lambda>r. r\<lparr>ar_signature := [5]\<rparr>) (ex_prepare n d)"
  let ?r = "ex_record\<lparr>ar_signature := [5]\<rparr>"
  have run: "sq_AppendChecked no_faults ex_sql0 None ex_intent (Some (\<lambda>_. None)) (Some ?p) =
      (appended ex_sql0 ?r, Inr \<lparr>res_outcome = AppendOutcomeAppended, res_record = ?r\<rparr>)"
    by (simp add: ex_sql_defs ex_sql0_eq ex_prepare_def ex_record_def appended_def ex_key_def Let_def)
  show ?thesis using sq_append_drops_signature [OF ex_sql0_reachable run] run by auto
qed

end
