(* ===== verification/Go_Time.thy ===== *)
theory Go_Time
  imports Prelude "HOL-Library.List_Lexorder" "HOL-Library.Char_ord"
begin

text \<open>
  The text form of times: \<^verbatim>\<open>time.Parse\<close> and \<^verbatim>\<open>Time.Format\<close> of the Go library for the one layout the lifecycle
  sources use, \<^verbatim>\<open>2006-01-02T15:04:05.000Z\<close>. Parsing is as lenient as the library is: a one-digit hour, a comma
  before the fraction and a sign inside it are accepted, and out-of-range fields are refused. The theory shows that
  printing and parsing invert each other and that texts in canonical form compare as the instants they denote.
\<close>

section \<open>The calendar\<close>

definition leap :: "int \<Rightarrow> bool" where
  "leap y \<longleftrightarrow> 4 dvd y \<and> (\<not> 100 dvd y \<or> 400 dvd y)"

definition month_days :: "int \<Rightarrow> nat list" where
  "month_days y = [31, if leap y then 29 else 28, 31, 30, 31, 30, 31, 31, 30, 31, 30, 31]"

definition daysIn :: "nat \<Rightarrow> int \<Rightarrow> nat" where
  "daysIn m y = month_days y ! (m - 1)"

definition days_before_year :: "int \<Rightarrow> int" where
  "days_before_year y = 365 * (y - 1) + (y - 1) div 4 - (y - 1) div 100 + (y - 1) div 400"

text \<open>Days since the first of January of the year 1.\<close>

definition days_of :: "int \<Rightarrow> nat \<Rightarrow> nat \<Rightarrow> int" where
  "days_of y m d = days_before_year y + int (sum_list (take (m - 1) (month_days y))) + int d - 1"

definition year_of :: "int \<Rightarrow> int \<times> int" where
  "year_of n =
     (let a = n div 146097; n1 = n - 146097 * a;
          b' = n1 div 36524; b = b' - b' div 4; n2 = n1 - 36524 * b;
          c = n2 div 1461; n3 = n2 - 1461 * c;
          e' = n3 div 365; e = e' - e' div 4
      in (1 + 400 * a + 100 * b + 4 * c + e, n3 - 365 * e))"

fun month_of :: "nat list \<Rightarrow> nat \<Rightarrow> nat \<times> nat" where
  "month_of [] n = (1, n + 1)"
| "month_of (l # ls) n = (if n < l then (1, n + 1) else case month_of ls (n - l) of (m, d) \<Rightarrow> (m + 1, d))"

definition date_of :: "int \<Rightarrow> int \<times> nat \<times> nat" where
  "date_of n = (case year_of n of (y, k) \<Rightarrow> (y, month_of (month_days y) (nat k)))"

text \<open>The Unix epoch is day 719162.\<close>

definition time_Date :: "int \<Rightarrow> nat \<Rightarrow> nat \<Rightarrow> nat \<Rightarrow> nat \<Rightarrow> nat \<Rightarrow> int \<Rightarrow> time" where
  "time_Date y m d h mi s nsec =
     \<lparr>t_nanos = ((days_of y m d - 719162) * 86400 + int h * 3600 + int mi * 60 + int s) * 1000 * Millisecond + nsec,
      t_loc = UTC, t_mono = None\<rparr>"

section \<open>Numbers in text\<close>

definition isDigit :: "char \<Rightarrow> bool" where
  "isDigit c \<longleftrightarrow> char_between (CHR ''0'') c (CHR ''9'')"

definition dval :: "char \<Rightarrow> nat" where
  "dval c = of_char c - 48"

definition dchr :: "nat \<Rightarrow> char" where
  "dchr n = char_of (48 + n)"

fun digits_val :: "nat \<Rightarrow> string \<Rightarrow> nat" where
  "digits_val acc [] = acc"
| "digits_val acc (c # cs) = digits_val (10 * acc + dval c) cs"

text \<open>\<^verbatim>\<open>getnum\<close>: one or two digits; \<open>fixed\<close> requires two.\<close>

fun getnum :: "bool \<Rightarrow> string \<Rightarrow> (nat \<times> string) option" where
  "getnum fixed [] = None"
| "getnum fixed [c] = (if isDigit c \<and> \<not> fixed then Some (dval c, []) else None)"
| "getnum fixed (c # d # v) =
     (if \<not> isDigit c then None
      else if isDigit d then Some (10 * dval c + dval d, v)
      else if fixed then None else Some (dval c, d # v))"

definition getyear :: "string \<Rightarrow> (nat \<times> string) option" where
  "getyear v = (if length v < 4 \<or> \<not> list_all isDigit (take 4 v) then None
     else Some (digits_val 0 (take 4 v), drop 4 v))"

text \<open>\<^verbatim>\<open>parseNanoseconds\<close> on the four bytes of the fraction, in milliseconds. The number is read by \<^verbatim>\<open>atoi\<close>, which
  takes a sign.\<close>

fun getmillis :: "string \<Rightarrow> (nat \<times> string) option" where
  "getmillis (p # a # b # c # v) =
     (if p \<notin> {CHR ''.'', CHR '',''} \<or> \<not> isDigit b \<or> \<not> isDigit c then None
      else if isDigit a then Some (digits_val 0 [a, b, c], v)
      else if a = CHR ''+'' \<or> a = CHR ''-'' \<and> digits_val 0 [b, c] = 0 then Some (digits_val 0 [b, c], v)
      else None)"
| "getmillis v = None"

fun skip_char :: "char \<Rightarrow> string \<Rightarrow> string option" where
  "skip_char p [] = None"
| "skip_char p (c # v) = (if c = p then Some v else None)"

definition number :: "(string \<Rightarrow> (nat \<times> string) option) \<Rightarrow> (nat \<Rightarrow> bool) \<Rightarrow> char \<Rightarrow> string \<Rightarrow> (nat \<times> string) option" where
  "number get inRange sep v =
     (case get v of None \<Rightarrow> None | Some (n, v') \<Rightarrow>
      if \<not> inRange n then None else case skip_char sep v' of None \<Rightarrow> None | Some v'' \<Rightarrow> Some (n, v''))"

section \<open>Parse and Format\<close>

definition time_Parse :: "string \<Rightarrow> time option" where
  "time_Parse v =
     (case number getyear (\<lambda>_. True) (CHR ''-'') v of None \<Rightarrow> None | Some (y, v) \<Rightarrow>
      case number (getnum True) (\<lambda>m. 0 < m \<and> m \<le> 12) (CHR ''-'') v of None \<Rightarrow> None | Some (m, v) \<Rightarrow>
      case number (getnum True) (\<lambda>_. True) (CHR ''T'') v of None \<Rightarrow> None | Some (d, v) \<Rightarrow>
      case number (getnum False) (\<lambda>h. h < 24) (CHR '':'') v of None \<Rightarrow> None | Some (h, v) \<Rightarrow>
      case number (getnum True) (\<lambda>mi. mi < 60) (CHR '':'') v of None \<Rightarrow> None | Some (mi, v) \<Rightarrow>
      case getnum True v of None \<Rightarrow> None | Some (s, v) \<Rightarrow>
      if s \<ge> 60 then None else
      case number getmillis (\<lambda>_. True) (CHR ''Z'') v of None \<Rightarrow> None | Some (ms, v) \<Rightarrow>
      if v \<noteq> [] \<or> d < 1 \<or> d > daysIn m (int y) then None
      else Some (time_Date (int y) m d h mi s (int ms * Millisecond)))"

text \<open>\<^verbatim>\<open>appendInt\<close>: at least \<open>w\<close> digits.\<close>

fun pad :: "nat \<Rightarrow> nat \<Rightarrow> string" where
  "pad w n = (if n < 10 then replicate (w - 1) (CHR ''0'') @ [dchr n] else pad (w - 1) (n div 10) @ [dchr (n mod 10)])"

declare pad.simps [simp del]

definition appendInt :: "int \<Rightarrow> nat \<Rightarrow> string" where
  "appendInt x w = (if x < 0 then CHR ''-'' # pad w (nat (- x)) else pad w (nat x))"

definition layout_text :: "int \<Rightarrow> nat \<Rightarrow> nat \<Rightarrow> nat \<Rightarrow> nat \<Rightarrow> nat \<Rightarrow> nat \<Rightarrow> string" where
  "layout_text y m d h mi s ms = appendInt y 4 @ ''-'' @ pad 2 m @ ''-'' @ pad 2 d @ ''T'' @ pad 2 h @ '':'' @
     pad 2 mi @ '':'' @ pad 2 s @ ''.'' @ pad 3 ms @ ''Z''"

text \<open>\<^verbatim>\<open>Format\<close> of a time whose location is UTC.\<close>

definition time_Format :: "time \<Rightarrow> string" where
  "time_Format t =
     (let secs = t_nanos t div (1000 * Millisecond); nsec = t_nanos t mod (1000 * Millisecond);
          day = secs div 86400; sod = nat (secs mod 86400)
      in case date_of (day + 719162) of (y, m, d) \<Rightarrow>
         layout_text y m d (sod div 3600) (sod mod 3600 div 60) (sod mod 60) (nat (nsec div Millisecond)))"

definition validTime :: "string \<Rightarrow> bool" where
  "validTime v = (case time_Parse v of None \<Rightarrow> False | Some t \<Rightarrow> time_Format t = v)"

section \<open>The calendar is inverted\<close>

lemma year_split:
  fixes y :: int
  obtains a b c e where "y = 1 + 400 * a + 100 * b + 4 * c + e" "0 \<le> b" "b \<le> 3" "0 \<le> c" "c \<le> 24" "0 \<le> e" "e \<le> 3"
proof -
  define z r q where "z = y - 1" and "r = z mod 400" and "q = r mod 100"
  have "z = 400 * (z div 400) + r" "r = 100 * (r div 100) + q" "q = 4 * (q div 4) + q mod 4" by (simp_all add: r_def q_def)
  moreover have bounds: "0 \<le> r" "r < 400" "0 \<le> q" "q < 100" "0 \<le> q mod 4" "q mod 4 < 4" by (simp_all add: r_def q_def)
  moreover have "0 \<le> r div 100" "0 \<le> q div 4" using bounds by (simp_all add: pos_imp_zdiv_nonneg_iff)
  ultimately show thesis
    by (intro that [of "z div 400" "r div 100" "q div 4" "q mod 4"]) (unfold z_def, linarith+)
qed

lemma days_before_split:
  fixes a b c e :: int
  assumes "0 \<le> b" "b \<le> 3" "0 \<le> c" "c \<le> 24" "0 \<le> e" "e \<le> 3"
  shows "days_before_year (1 + 400 * a + 100 * b + 4 * c + e) = 146097 * a + 36524 * b + 1461 * c + 365 * e"
    "leap (1 + 400 * a + 100 * b + 4 * c + e) \<longleftrightarrow> e = 3 \<and> (c \<noteq> 24 \<or> b = 3)"
proof -
  let ?z = "400 * a + 100 * b + 4 * c + e"
  have "?z div 4 = 100 * a + 25 * b + c" by (rule int_div_pos_eq [where r = e]) (use assms in auto)
  moreover have "?z div 100 = 4 * a + b" by (rule int_div_pos_eq [where r = "4 * c + e"]) (use assms in auto)
  moreover have "?z div 400 = a" by (rule int_div_pos_eq [where r = "100 * b + 4 * c + e"]) (use assms in auto)
  ultimately show "days_before_year (1 + 400 * a + 100 * b + 4 * c + e) = 146097 * a + 36524 * b + 1461 * c + 365 * e"
    by (simp add: days_before_year_def add.assoc)
  have "1 + ?z = 4 * (100 * a + 25 * b + c) + (1 + e)" "1 + ?z = 100 * (4 * a + b) + (1 + 4 * c + e)"
    "1 + ?z = 400 * a + (1 + 100 * b + 4 * c + e)" by simp_all
  then have "4 dvd 1 + ?z \<longleftrightarrow> 4 dvd 1 + e" "100 dvd 1 + ?z \<longleftrightarrow> 100 dvd 1 + 4 * c + e"
    "400 dvd 1 + ?z \<longleftrightarrow> 400 dvd 1 + 100 * b + 4 * c + e"
    by (metis dvd_add_right_iff dvd_triv_left)+
  moreover have "4 dvd 1 + e \<longleftrightarrow> e = 3" using assms by (auto dest!: zdvd_imp_le)
  moreover have "100 dvd 1 + 4 * c + e \<longleftrightarrow> e = 3 \<and> c = 24" using assms by (auto dest!: zdvd_imp_le)
  moreover have "400 dvd 1 + 100 * b + 4 * c + e \<longleftrightarrow> e = 3 \<and> c = 24 \<and> b = 3" using assms by (auto dest!: zdvd_imp_le)
  ultimately have "4 dvd 1 + ?z \<longleftrightarrow> e = 3" "100 dvd 1 + ?z \<longleftrightarrow> e = 3 \<and> c = 24" "400 dvd 1 + ?z \<longleftrightarrow> e = 3 \<and> c = 24 \<and> b = 3"
    by simp_all
  then show "leap (1 + 400 * a + 100 * b + 4 * c + e) \<longleftrightarrow> e = 3 \<and> (c \<noteq> 24 \<or> b = 3)" by (auto simp: leap_def add.assoc)
qed

lemma cap_div:
  fixes b n w :: int
  assumes "0 \<le> b" "b \<le> 3" "0 \<le> n" "n \<le> w" "b \<noteq> 3 \<Longrightarrow> n < w" "1 < w"
  shows "(w * b + n) div w - (w * b + n) div w div 4 = b"
proof (cases "n = w")
  case True
  then have "b = 3" using assms by auto
  then have "w * b + n = w * 4" using True by simp
  then show ?thesis using assms \<open>b = 3\<close> by simp
next
  case False
  then have "(w * b + n) div w = b" using assms by (intro int_div_pos_eq [where r = n]) auto
  then show ?thesis using assms by simp
qed

lemma year_of_days:
  assumes k: "0 \<le> k" "k < (if leap y then 366 else 365)"
  shows "year_of (days_before_year y + k) = (y, k)"
proof -
  obtain a b c e where y: "y = 1 + 400 * a + 100 * b + 4 * c + e" and r: "0 \<le> b" "b \<le> 3" "0 \<le> c" "c \<le> 24" "0 \<le> e" "e \<le> 3"
    by (rule year_split)
  define n3 where "n3 = 365 * e + k"
  define n2 where "n2 = 1461 * c + n3"
  define n1 where "n1 = 36524 * b + n2"
  have l: "leap y \<longleftrightarrow> e = 3 \<and> (c \<noteq> 24 \<or> b = 3)" and d: "days_before_year y + k = 146097 * a + n1"
    using days_before_split [OF r, of a] by (simp_all add: y n1_def n2_def n3_def)
  have n3: "0 \<le> n3" "n3 \<le> 1460" "c = 24 \<Longrightarrow> b \<noteq> 3 \<Longrightarrow> n3 \<le> 1459" using k r l by (auto simp: n3_def split: if_splits)
  have n2: "0 \<le> n2" "n2 \<le> 36524" "b \<noteq> 3 \<Longrightarrow> n2 < 36524" using n3 r by (cases "c = 24"; auto simp: n2_def)+
  have n1: "0 \<le> n1" "n1 < 146097" using n2 r by (auto simp: n1_def)
  have A: "(146097 * a + n1) div 146097 = a" by (rule int_div_pos_eq [where r = n1]) (use n1 in auto)
  have B: "n1 div 36524 - n1 div 36524 div 4 = b" unfolding n1_def by (rule cap_div) (use n2 r in auto)
  have C: "n2 div 1461 = c" unfolding n2_def by (rule int_div_pos_eq [where r = n3]) (use n3 in auto)
  have E: "n3 div 365 - n3 div 365 div 4 = e" unfolding n3_def by (rule cap_div) (use k r l in \<open>auto split: if_splits\<close>)
  have "n1 - 36524 * b = n2" "n2 - 1461 * c = n3" "n3 - 365 * e = k" by (simp_all add: n1_def n2_def n3_def)
  then show ?thesis unfolding year_of_def d Let_def A by (simp add: A B C E y)
qed

lemma month_of_sum:
  "1 \<le> m \<Longrightarrow> m \<le> length ls \<Longrightarrow> 1 \<le> d \<Longrightarrow> d \<le> ls ! (m - 1) \<Longrightarrow> month_of ls (sum_list (take (m - 1) ls) + d - 1) = (m, d)"
proof (induction ls arbitrary: m)
  case Nil
  then show ?case by simp
next
  case (Cons l ls)
  show ?case
  proof (cases "m = 1")
    case True
    then show ?thesis using Cons.prems by auto
  next
    case False
    then obtain j where j: "m = Suc (Suc j)" using Cons.prems(1) by (intro that [of "m - 2"]) auto
    then show ?thesis using Cons.IH [of "Suc j"] Cons.prems by auto
  qed
qed

lemma month_days_length [simp]: "length (month_days y) = 12"
  by (simp add: month_days_def)

lemma sum_take_bound:
  "1 \<le> m \<Longrightarrow> m \<le> length ls \<Longrightarrow> sum_list (take (m - 1) ls) + ls ! (m - 1) \<le> sum_list (ls :: nat list)"
proof -
  assume m: "1 \<le> m" "m \<le> length ls"
  have "take m ls = take (m - 1) ls @ [ls ! (m - 1)]" using m take_Suc_conv_app_nth [of "m - 1" ls] by simp
  then have "sum_list (take (m - 1) ls) + ls ! (m - 1) = sum_list (take m ls)" by simp
  moreover have "sum_list (take m ls) + sum_list (drop m ls) = sum_list ls" by (metis append_take_drop_id sum_list_append)
  ultimately show ?thesis by linarith
qed

lemma date_of_days:
  assumes m: "1 \<le> m" "m \<le> 12" and d: "1 \<le> d" "d \<le> daysIn m y"
  shows "date_of (days_of y m d) = (y, m, d)"
proof -
  define k where "k = sum_list (take (m - 1) (month_days y)) + d - 1"
  have "sum_list (month_days y) = (if leap y then 366 else 365)" by (simp add: month_days_def)
  then have "k < (if leap y then 366 else 365)" using sum_take_bound [of m "month_days y"] m d by (simp add: daysIn_def k_def)
  then have "year_of (days_before_year y + int k) = (y, int k)" by (intro year_of_days) (auto split: if_splits)
  moreover have "days_of y m d = days_before_year y + int k" using d by (simp add: days_of_def k_def)
  moreover have "month_of (month_days y) k = (m, d)" using month_of_sum [of m "month_days y" d] m d by (simp add: daysIn_def k_def)
  ultimately show ?thesis by (simp add: date_of_def)
qed

section \<open>Printing and parsing\<close>

definition fields_ok :: "nat \<Rightarrow> nat \<Rightarrow> nat \<Rightarrow> nat \<Rightarrow> nat \<Rightarrow> nat \<Rightarrow> nat \<Rightarrow> bool" where
  "fields_ok y m d h mi s ms \<longleftrightarrow> y < 10000 \<and> 1 \<le> m \<and> m \<le> 12 \<and> 1 \<le> d \<and> d \<le> daysIn m (int y) \<and>
     h < 24 \<and> mi < 60 \<and> s < 60 \<and> ms < 1000"

abbreviation time_fields :: "nat \<Rightarrow> nat \<Rightarrow> nat \<Rightarrow> nat \<Rightarrow> nat \<Rightarrow> nat \<Rightarrow> nat \<Rightarrow> time" where
  "time_fields y m d h mi s ms \<equiv> time_Date (int y) m d h mi s (int ms * Millisecond)"

lemma of_char_dchr: "n < 10 \<Longrightarrow> of_char (dchr n) = 48 + n"
  by (simp add: dchr_def)

lemma dchr_simps [simp]: "n < 10 \<Longrightarrow> isDigit (dchr n)" "n < 10 \<Longrightarrow> dval (dchr n) = n"
  by (simp_all add: isDigit_def dval_def char_between_def of_char_dchr)

lemma isDigit_dval: "isDigit c \<Longrightarrow> dval c < 10 \<and> dchr (dval c) = c"
proof -
  assume "isDigit c"
  then have "48 \<le> (of_char c :: nat)" "of_char c \<le> (57 :: nat)" by (auto simp: isDigit_def char_between_def)
  then show ?thesis by (auto simp: dval_def dchr_def)
qed

lemma dchr_0: "CHR ''0'' = dchr 0"
  by code_simp

lemma replicate_numeral: "replicate 2 x = [x, x]" "replicate 3 x = [x, x, x]"
  by (simp_all add: numeral_eq_Suc)

lemma pad_digits:
  "n < 100 \<Longrightarrow> pad 2 n = [dchr (n div 10), dchr (n mod 10)]"
  "n < 1000 \<Longrightarrow> pad 3 n = [dchr (n div 100), dchr (n div 10 mod 10), dchr (n mod 10)]"
  "n < 10000 \<Longrightarrow> pad 4 n = [dchr (n div 1000), dchr (n div 100 mod 10), dchr (n div 10 mod 10), dchr (n mod 10)]"
  by (simp_all add: pad.simps [of 2] pad.simps [of 3] pad.simps [of 4] pad.simps [of "Suc 0"] dchr_0
      replicate_numeral div_mult2_eq [symmetric]) arith


lemma daysIn_less: "1 \<le> m \<Longrightarrow> m \<le> 12 \<Longrightarrow> daysIn m y < 100"
  by (auto simp: daysIn_def month_days_def nth_Cons split: nat.split)

lemma layout_text_eq:
  assumes "fields_ok y m d h mi s ms"
  shows "layout_text (int y) m d h mi s ms =
    [dchr (y div 1000), dchr (y div 100 mod 10), dchr (y div 10 mod 10), dchr (y mod 10), CHR ''-'',
     dchr (m div 10), dchr (m mod 10), CHR ''-'', dchr (d div 10), dchr (d mod 10), CHR ''T'',
     dchr (h div 10), dchr (h mod 10), CHR '':'', dchr (mi div 10), dchr (mi mod 10), CHR '':'',
     dchr (s div 10), dchr (s mod 10), CHR ''.'', dchr (ms div 100), dchr (ms div 10 mod 10), dchr (ms mod 10), CHR ''Z'']"
proof -
  have "daysIn m (int y) < 100" using assms by (auto simp: fields_ok_def intro: daysIn_less)
  then show ?thesis
    using assms by (simp add: layout_text_def appendInt_def fields_ok_def pad_digits)
qed

lemma digits_back:
  fixes n :: nat
  shows "10 * (n div 10) + n mod 10 = n"
    "10 * (10 * (n div 100) + n div 10 mod 10) + n mod 10 = n"
    "10 * (10 * (10 * (n div 1000) + n div 100 mod 10) + n div 10 mod 10) + n mod 10 = n"
proof -
  have "n div 100 = n div 10 div 10" "n div 1000 = n div 100 div 10" by (simp_all flip: div_mult2_eq)
  then show "10 * (n div 10) + n mod 10 = n" "10 * (10 * (n div 100) + n div 10 mod 10) + n mod 10 = n"
    "10 * (10 * (10 * (n div 1000) + n div 100 mod 10) + n div 10 mod 10) + n mod 10 = n"
    using mult_div_mod_eq [of 10 n] mult_div_mod_eq [of 10 "n div 10"] mult_div_mod_eq [of 10 "n div 100"] by metis+
qed

lemma getnum_digits: "n < 100 \<Longrightarrow> getnum f (dchr (n div 10) # dchr (n mod 10) # v) = Some (n, v)"
proof -
  assume "n < 100"
  then have "n div 10 < 10" by arith
  then show ?thesis by (simp add: digits_back)
qed

lemma number_getnum:
  "n < 100 \<Longrightarrow> inRange n \<Longrightarrow> number (getnum f) inRange sep (dchr (n div 10) # dchr (n mod 10) # sep # v) = Some (n, v)"
  by (simp add: number_def getnum_digits)

lemma number_getyear:
  assumes "y < 10000"
  shows "number getyear (\<lambda>_. True) sep (dchr (y div 1000) # dchr (y div 100 mod 10) # dchr (y div 10 mod 10) # dchr (y mod 10) # sep # v) = Some (y, v)"
proof -
  have "y div 1000 < 10" using assms by arith
  then show ?thesis using digits_back(3) [of y] by (simp add: number_def getyear_def)
qed

lemma number_getmillis:
  assumes "n < 1000"
  shows "number getmillis (\<lambda>_. True) sep (CHR ''.'' # dchr (n div 100) # dchr (n div 10 mod 10) # dchr (n mod 10) # sep # v) = Some (n, v)"
proof -
  have "n div 100 < 10" using assms by arith
  then show ?thesis using digits_back(2) [of n] by (simp add: number_def)
qed

lemma time_Parse_layout:
  assumes ok: "fields_ok y m d h mi s ms"
  shows "time_Parse (layout_text (int y) m d h mi s ms) = Some (time_fields y m d h mi s ms)"
proof -
  have b: "d < 100" "m < 100" "h < 100" "mi < 100" "s < 100" "ms < 1000" "y < 10000"
    using ok daysIn_less [of m "int y"] by (auto simp: fields_ok_def)
  then show ?thesis
    using ok unfolding layout_text_eq [OF ok] time_Parse_def
    by (simp add: number_getyear number_getnum getnum_digits number_getmillis fields_ok_def del: getnum.simps)
qed

lemma digits_val_bound: "list_all isDigit v \<Longrightarrow> acc < k \<Longrightarrow> digits_val acc v < k * 10 ^ length v"
proof (induction v arbitrary: acc k)
  case Nil
  then show ?case by simp
next
  case (Cons c v)
  then have "10 * acc + dval c < k * 10" using isDigit_dval [of c] by auto
  with Cons show ?case by (simp flip: mult.assoc)
qed

lemma getyear_less: "getyear v = Some (y, v') \<Longrightarrow> y < 10000"
  using digits_val_bound [of "take 4 v" 0 1] by (auto simp: getyear_def min_def split: if_splits)

lemma getmillis_less: "getmillis v = Some (ms, v') \<Longrightarrow> ms < 1000"
  by (induction v rule: getmillis.induct)
    (auto split: if_splits dest!: isDigit_dval)

lemma number_Some: "number get inRange sep v = Some (n, v') \<Longrightarrow> \<exists>v''. get v = Some (n, v'') \<and> inRange n"
  by (auto simp: number_def split: option.splits if_splits)

lemma time_Parse_fields:
  assumes "time_Parse v = Some t"
  obtains y m d h mi s ms where "fields_ok y m d h mi s ms" "t = time_fields y m d h mi s ms"
proof -
  have "\<exists>y m d h mi s ms. fields_ok y m d h mi s ms \<and> t = time_fields y m d h mi s ms"
    using assms by (fastforce simp: time_Parse_def fields_ok_def not_less not_le Suc_le_eq split: option.splits if_splits
        dest!: number_Some getyear_less getmillis_less)
  then show thesis using that by blast
qed

lemma div_mod_parts:
  fixes q r w :: int
  assumes "0 \<le> r" "r < w"
  shows "(q * w + r) div w = q" "(q * w + r) mod w = r"
  using assms by (simp_all add: div_pos_pos_trivial)

lemma time_Format_fields:
  assumes ok: "fields_ok y m d h mi s ms"
  shows "time_Format (time_fields y m d h mi s ms) = layout_text (int y) m d h mi s ms"
proof -
  define sod where "sod = h * 3600 + mi * 60 + s"
  have lt: "mi * 60 + s < 3600" "s < 60" "h < 24" using ok by (auto simp: fields_ok_def)
  have "sod = h * 3600 + (mi * 60 + s)" "sod = (h * 60 + mi) * 60 + s" by (simp_all add: sod_def)
  then have "sod div 3600 = h" "sod mod 3600 = mi * 60 + s" "sod mod 60 = s" using lt by (metis div_mult_self3 div_less add_0_right
      mod_mult_self3 mod_less zero_neq_numeral)+
  then have sod: "sod < 86400" "sod div 3600 = h" "sod mod 3600 div 60 = mi" "sod mod 60 = s" using lt by (auto simp: sod_def)
  define day where "day = days_of (int y) m d - 719162"
  have nanos: "t_nanos (time_fields y m d h mi s ms) = (day * 86400 + int sod) * (1000 * Millisecond) + int ms * Millisecond"
    by (simp add: time_Date_def sod_def day_def)
  have "0 \<le> int ms * Millisecond" "int ms * Millisecond < 1000 * Millisecond" using ok by (auto simp: fields_ok_def Millisecond_def)
  note parts = div_mod_parts [OF this, of "day * 86400 + int sod", folded nanos]
  have secs: "(day * 86400 + int sod) div 86400 = day" "(day * 86400 + int sod) mod 86400 = int sod"
    using sod(1) by (intro div_mod_parts; simp)+
  have "date_of (day + 719162) = (int y, m, d)" using ok by (simp add: day_def, intro date_of_days) (auto simp: fields_ok_def)
  moreover have "int ms * Millisecond div Millisecond = int ms" by (simp add: Millisecond_def)
  ultimately show ?thesis by (simp only: time_Format_def parts secs Let_def prod.case nat_int sod)
qed

lemma validTime_fields:
  assumes "validTime v"
  obtains y m d h mi s ms where "fields_ok y m d h mi s ms" "v = layout_text (int y) m d h mi s ms"
    "time_Parse v = Some (time_fields y m d h mi s ms)"
proof -
  obtain t where t: "time_Parse v = Some t" "time_Format t = v" using assms by (auto simp: validTime_def split: option.splits)
  then obtain y m d h mi s ms where "fields_ok y m d h mi s ms" "t = time_fields y m d h mi s ms" by (elim time_Parse_fields)
  then show thesis using that t time_Format_fields by simp
qed

lemma validTime_layout: "fields_ok y m d h mi s ms \<Longrightarrow> validTime (layout_text (int y) m d h mi s ms)"
  by (simp add: validTime_def time_Parse_layout time_Format_fields)

section \<open>Texts compare as instants\<close>

lemma append_less_iff:
  fixes a b :: "'a :: order list"
  assumes "length a = length b"
  shows "a @ v < b @ w \<longleftrightarrow> a < b \<or> a = b \<and> v < w"
  using assms by (induction a b rule: list_induct2) auto

lemma dchr_less: "a < 10 \<Longrightarrow> b < 10 \<Longrightarrow> dchr a < dchr b \<longleftrightarrow> a < b"
  by (simp add: less_char_def of_char_dchr)

lemma dchr_eq: "a < 10 \<Longrightarrow> b < 10 \<Longrightarrow> dchr a = dchr b \<longleftrightarrow> a = b"
  by (metis of_char_dchr add_left_cancel)

lemma lex_digit: "(n :: nat) < n' \<longleftrightarrow> n div 10 < n' div 10 \<or> n div 10 = n' div 10 \<and> n mod 10 < n' mod 10"
  using mult_div_mod_eq [of 10 n] mult_div_mod_eq [of 10 n'] mod_less_divisor [of 10 n] mod_less_divisor [of 10 n'] by linarith

lemma eq_digit: "(n :: nat) = n' \<longleftrightarrow> n div 10 = n' div 10 \<and> n mod 10 = n' mod 10"
  by (metis mult_div_mod_eq)

lemma pad_Suc: "1 \<le> w \<Longrightarrow> pad (Suc w) n = pad w (n div 10) @ [dchr (n mod 10)]"
proof (cases "n < 10")
  case True
  assume "1 \<le> w"
  then obtain v where "w = Suc v" by (cases w) auto
  then show ?thesis using True by (simp add: pad.simps [of _ n] pad.simps [of _ 0] dchr_0 replicate_app_Cons_same)
qed (simp add: pad.simps [of _ n])

lemma pad_order:
  "n < 10 ^ Suc w \<Longrightarrow> n' < 10 ^ Suc w \<Longrightarrow> (pad (Suc w) n < pad (Suc w) n' \<longleftrightarrow> n < n') \<and>
     (pad (Suc w) n = pad (Suc w) n' \<longleftrightarrow> n = n') \<and> length (pad (Suc w) n) = Suc w"
proof (induction w arbitrary: n n')
  case 0
  then show ?case by (simp add: pad.simps dchr_less dchr_eq)
next
  case (Suc w)
  have IH: "(pad (Suc w) (n div 10) < pad (Suc w) (n' div 10) \<longleftrightarrow> n div 10 < n' div 10) \<and>
      (pad (Suc w) (n div 10) = pad (Suc w) (n' div 10) \<longleftrightarrow> n div 10 = n' div 10) \<and> length (pad (Suc w) (n div 10)) = Suc w"
    by (rule Suc.IH) (use Suc.prems in \<open>auto simp: less_mult_imp_div_less\<close>)
  moreover have "length (pad (Suc w) (n' div 10)) = Suc w"
    using Suc.IH [of "n' div 10" "n' div 10"] Suc.prems by (auto simp: less_mult_imp_div_less)
  ultimately show ?case
    unfolding pad_Suc [OF le_add2 [of 1 w, unfolded Suc_eq_plus1 [symmetric]]]
    by (subst append_less_iff) (auto simp: dchr_less dchr_eq lex_digit [of n n'] eq_digit [of n n'])
qed

lemma pad_cmp:
  "n < 100 \<Longrightarrow> n' < 100 \<Longrightarrow> (pad 2 n < pad 2 n' \<longleftrightarrow> n < n') \<and> (pad 2 n = pad 2 n' \<longleftrightarrow> n = n') \<and> length (pad 2 n) = 2"
  "n < 1000 \<Longrightarrow> n' < 1000 \<Longrightarrow> (pad 3 n < pad 3 n' \<longleftrightarrow> n < n') \<and> (pad 3 n = pad 3 n' \<longleftrightarrow> n = n') \<and> length (pad 3 n) = 3"
  "n < 10000 \<Longrightarrow> n' < 10000 \<Longrightarrow> (pad 4 n < pad 4 n' \<longleftrightarrow> n < n') \<and> (pad 4 n = pad 4 n' \<longleftrightarrow> n = n') \<and> length (pad 4 n) = 4"
proof -
  have e: "Suc 1 = 2" "Suc 2 = 3" "Suc 3 = 4" "(10 :: nat) ^ 2 = 100" "(10 :: nat) ^ 3 = 1000" "(10 :: nat) ^ 4 = 10000" by simp_all
  show "n < 100 \<Longrightarrow> n' < 100 \<Longrightarrow> (pad 2 n < pad 2 n' \<longleftrightarrow> n < n') \<and> (pad 2 n = pad 2 n' \<longleftrightarrow> n = n') \<and> length (pad 2 n) = 2"
    by (rule pad_order [of n 1 n', unfolded e])
  show "n < 1000 \<Longrightarrow> n' < 1000 \<Longrightarrow> (pad 3 n < pad 3 n' \<longleftrightarrow> n < n') \<and> (pad 3 n = pad 3 n' \<longleftrightarrow> n = n') \<and> length (pad 3 n) = 3"
    by (rule pad_order [of n 2 n', unfolded e])
  show "n < 10000 \<Longrightarrow> n' < 10000 \<Longrightarrow> (pad 4 n < pad 4 n' \<longleftrightarrow> n < n') \<and> (pad 4 n = pad 4 n' \<longleftrightarrow> n = n') \<and> length (pad 4 n) = 4"
    by (rule pad_order [of n 3 n', unfolded e])
qed

lemma layout_less:
  assumes a: "fields_ok y m d h mi s ms" and b: "fields_ok y' m' d' h' mi' s' ms'"
  shows "layout_text (int y) m d h mi s ms < layout_text (int y') m' d' h' mi' s' ms' \<longleftrightarrow>
    [y, m, d, h, mi, s, ms] < [y', m', d', h', mi', s', ms']"
proof -
  have bounds: "d < 100" "m < 100" "h < 100" "mi < 100" "s < 100" "ms < 1000" "y < 10000"
    "d' < 100" "m' < 100" "h' < 100" "mi' < 100" "s' < 100" "ms' < 1000" "y' < 10000"
    using a b daysIn_less [of m "int y"] daysIn_less [of m' "int y'"] by (auto simp: fields_ok_def)
  have seg: "p @ v < q @ w \<longleftrightarrow> p < q \<or> p = q \<and> v < w" if "length p = length q" for p q v w :: string
    by (rule append_less_iff [OF that])
  show ?thesis using bounds by (simp add: layout_text_def appendInt_def seg pad_cmp)
qed

lemma days_before_year_Suc: "days_before_year (y + 1) = days_before_year y + (if leap y then 366 else 365)"
proof -
  obtain a b c e where y: "y = 1 + 400 * a + 100 * b + 4 * c + e" and r: "0 \<le> b" "b \<le> 3" "0 \<le> c" "c \<le> 24" "0 \<le> e" "e \<le> 3"
    by (rule year_split)
  consider "e < 3" | "e = 3" "c < 24" | "e = 3" "c = 24" "b < 3" | "e = 3" "c = 24" "b = 3" using r by linarith
  then show ?thesis
  proof cases
    case 1
    then show ?thesis using days_before_split [OF r, of a] days_before_split(1) [of b c "e + 1" a] r by (simp add: y)
  next
    case 2
    then show ?thesis using days_before_split [OF r, of a] days_before_split(1) [of b "c + 1" 0 a] r by (simp add: y algebra_simps)
  next
    case 3
    then show ?thesis using days_before_split [OF r, of a] days_before_split(1) [of "b + 1" 0 0 a] r by (simp add: y algebra_simps)
  next
    case 4
    then show ?thesis using days_before_split [OF r, of a] days_before_split(1) [of 0 0 0 "a + 1"] r by (simp add: y algebra_simps)
  qed
qed

lemma days_before_year_mono: "y \<le> y' \<Longrightarrow> days_before_year y \<le> days_before_year y'"
proof (induction y' rule: int_ge_induct)
  case base
  then show ?case by simp
next
  case (step y')
  then show ?case by (simp add: days_before_year_Suc split: if_splits)
qed

lemma days_of_bounds:
  assumes "1 \<le> m" "m \<le> 12" "1 \<le> d" "d \<le> daysIn m y"
  shows "days_before_year y \<le> days_of y m d" "days_of y m d < days_before_year (y + 1)"
proof -
  have "sum_list (month_days y) = (if leap y then 366 else 365)" by (simp add: month_days_def)
  then have "sum_list (take (m - 1) (month_days y)) + d \<le> (if leap y then 366 else 365)"
    using sum_take_bound [of m "month_days y"] assms by (simp add: daysIn_def)
  then have "int (sum_list (take (m - 1) (month_days y))) + int d \<le> (if leap y then 366 else 365)"
    by (simp split: if_splits)
  then show "days_before_year y \<le> days_of y m d" "days_of y m d < days_before_year (y + 1)"
    using assms by (auto simp: days_of_def days_before_year_Suc split: if_splits)
qed

lemma days_of_less:
  assumes a: "1 \<le> m" "m \<le> 12" "1 \<le> d" "d \<le> daysIn m y" and b: "1 \<le> m'" "m' \<le> 12" "1 \<le> d'" "d' \<le> daysIn m' y'"
    and less: "y < y' \<or> y = y' \<and> (m < m' \<or> m = m' \<and> d < d')"
  shows "days_of y m d < days_of y' m' d'"
  using less
proof (elim disjE conjE)
  assume "y < y'"
  then show ?thesis using days_of_bounds(2) [OF a] days_of_bounds(1) [OF b] days_before_year_mono [of "y + 1" y'] by linarith
next
  assume y: "y = y'" and "m < m'"
  then have "sum_list (take (m - 1) (month_days y)) + month_days y ! (m - 1) \<le> sum_list (take (m' - 1) (month_days y))"
    using sum_take_bound [of m "take (m' - 1) (month_days y)"] a b by (simp add: min_absorb1 min_absorb2)
  then show ?thesis using a b y by (simp add: days_of_def daysIn_def)
next
  assume "y = y'" "m = m'" "d < d'"
  then show ?thesis by (simp add: days_of_def)
qed

lemma lex_nanos:
  fixes a a' b b' w :: int
  assumes "0 \<le> b" "b < w" "0 \<le> b'" "b' < w" "a < a' \<or> a = a' \<and> b < b'"
  shows "a * w + b < a' * w + b'"
proof (cases "a = a'")
  case False
  then have "(a + 1) * w \<le> a' * w" using assms by (intro mult_right_mono) auto
  then show ?thesis using assms by (simp add: algebra_simps)
qed (use assms in auto)

lemma time_fields_less:
  assumes a: "fields_ok y m d h mi s ms" and b: "fields_ok y' m' d' h' mi' s' ms'"
    and less: "[y, m, d, h, mi, s, ms] < [y', m', d', h', mi', s', ms']"
  shows "t_nanos (time_fields y m d h mi s ms) < t_nanos (time_fields y' m' d' h' mi' s' ms')"
proof -
  define day day' where "day = days_of (int y) m d" and "day' = days_of (int y') m' d'"
  define sod sod' where "sod = int (h * 3600 + mi * 60 + s)" and "sod' = int (h' * 3600 + mi' * 60 + s')"
  have nanos: "t_nanos (time_fields y m d h mi s ms) = ((day - 719162) * 86400 + sod) * 1000000000 + int ms * 1000000"
      "t_nanos (time_fields y' m' d' h' mi' s' ms') = ((day' - 719162) * 86400 + sod') * 1000000000 + int ms' * 1000000"
    by (simp_all add: time_Date_def Millisecond_def day_def day'_def sod_def sod'_def)
  have "day < day' \<or> day = day' \<and> (sod < sod' \<or> sod = sod' \<and> ms < ms')"
  proof (cases "y = y' \<and> m = m' \<and> d = d'")
    case True
    then have "[h, mi, s, ms] < [h', mi', s', ms']" using less by simp
    then have "sod < sod' \<or> sod = sod' \<and> ms < ms'" using a b by (auto simp: fields_ok_def sod_def sod'_def)
    then show ?thesis using True by (simp add: day_def day'_def)
  next
    case False
    then have "int y < int y' \<or> int y = int y' \<and> (m < m' \<or> m = m' \<and> d < d')" using less by auto
    then have "day < day'" unfolding day_def day'_def
      by (intro days_of_less) (use a b in \<open>auto simp: fields_ok_def\<close>)
    then show ?thesis ..
  qed
  moreover have "0 \<le> sod" "sod < 86400" "0 \<le> sod'" "sod' < 86400" using a b by (auto simp: fields_ok_def sod_def sod'_def)
  ultimately have "(day - 719162) * 86400 + sod < (day' - 719162) * 86400 + sod' \<or>
      (day - 719162) * 86400 + sod = (day' - 719162) * 86400 + sod' \<and> ms < ms'"
    using lex_nanos [of sod 86400 sod' "day - 719162" "day' - 719162"] by auto
  then show ?thesis unfolding nanos using a b by (intro lex_nanos) (auto simp: fields_ok_def)
qed

section \<open>Properties\<close>

text \<open>
  Printing inverts parsing. Whatever text a time is read from, also in a lenient form, its printed text is
  canonical and reads back as the same time.
\<close>

theorem time_text_roundtrip:
  assumes "time_Parse v = Some t"
  shows "validTime (time_Format t) \<and> time_Parse (time_Format t) = Some t"
proof -
  from assms obtain y m d h mi s ms where "fields_ok y m d h mi s ms" "t = time_fields y m d h mi s ms" by (rule time_Parse_fields)
  then show ?thesis by (simp add: validTime_def time_Format_fields time_Parse_layout)
qed

text \<open>
  Canonical texts compare as the instants they denote, which the comparisons of deadlines, evidence times and
  activation times as strings rely on.
\<close>

theorem time_text_order:
  assumes "validTime a" "validTime b"
  shows "\<exists>s t. time_Parse a = Some s \<and> time_Parse b = Some t \<and> (a < b \<longleftrightarrow> t_nanos s < t_nanos t)"
proof -
  obtain y m d h mi s ms where a: "fields_ok y m d h mi s ms" "a = layout_text (int y) m d h mi s ms"
    "time_Parse a = Some (time_fields y m d h mi s ms)" using assms(1) by (rule validTime_fields)
  obtain y' m' d' h' mi' s' ms' where b: "fields_ok y' m' d' h' mi' s' ms'" "b = layout_text (int y') m' d' h' mi' s' ms'"
    "time_Parse b = Some (time_fields y' m' d' h' mi' s' ms')" using assms(2) by (rule validTime_fields)
  let ?f = "[y, m, d, h, mi, s, ms]" and ?g = "[y', m', d', h', mi', s', ms']"
  have "a < b \<longleftrightarrow> ?f < ?g" using layout_less [OF a(1) b(1)] a(2) b(2) by simp
  moreover have "?f < ?g \<or> ?f = ?g \<or> ?g < ?f" by (rule less_linear)
  ultimately show ?thesis
    using time_fields_less [OF a(1) b(1)] time_fields_less [OF b(1) a(1)] a(3) b(3) by (auto simp del: less_list_code)
qed

end
