(* ===== verification/Lifecycle.thy ===== *)
theory Lifecycle
  imports Go_Time Sha256
begin

text \<open>
  The contract of the transcript lifecycle, \<^verbatim>\<open>internal/relay/lifecycle\<close>: the documents of
  \<^verbatim>\<open>types.go\<close>, their validation (\<^verbatim>\<open>validation.go\<close>) and their canonical bytes and digests (\<^verbatim>\<open>canonical.go\<close>).
  Go's string types (\<^verbatim>\<open>Lifecycle\<close>, \<^verbatim>\<open>SagaState\<close>, \<^verbatim>\<open>Action\<close>, \<dots>) are strings here, because a decoded document may hold any text;
  their constants are abbreviations. The JSON codec, the canonicalising transform and the UUID parser are the
  parameter \<open>lifecycle_env\<close>; times are read and printed by the model of theory Go_Time.
\<close>

section \<open>Documents\<close>

abbreviation Active :: string where "Active \<equiv> ''active''"
abbreviation Redacted :: string where "Redacted \<equiv> ''redacted''"
abbreviation Deleted :: string where "Deleted \<equiv> ''deleted''"

abbreviation Reserved :: string where "Reserved \<equiv> ''reserved''"
abbreviation ExportSatisfied :: string where "ExportSatisfied \<equiv> ''export_satisfied''"
abbreviation MarkerPersisted :: string where "MarkerPersisted \<equiv> ''marker_persisted''"
abbreviation ReceiptSigned :: string where "ReceiptSigned \<equiv> ''receipt_signed''"
abbreviation PayloadRemoved :: string where "PayloadRemoved \<equiv> ''payload_removed''"
abbreviation BackupsPending :: string where "BackupsPending \<equiv> ''backups_pending''"
abbreviation Completed :: string where "Completed \<equiv> ''completed''"

abbreviation RedactTranscript :: string where "RedactTranscript \<equiv> ''redact''"
abbreviation DeleteTranscript :: string where "DeleteTranscript \<equiv> ''delete''"

abbreviation ExportForbidden :: string where "ExportForbidden \<equiv> ''forbidden''"
abbreviation ExportPermitted :: string where "ExportPermitted \<equiv> ''permitted''"
abbreviation ExportRequired :: string where "ExportRequired \<equiv> ''required''"

abbreviation EventBackupDomain :: string where "EventBackupDomain \<equiv> ''event''"
abbreviation IdentityBackupDomain :: string where "IdentityBackupDomain \<equiv> ''identity''"
abbreviation AuditBackupDomain :: string where "AuditBackupDomain \<equiv> ''security_audit''"

datatype lc_error = LInvalidContract | LConflict | LUnavailable | LContext

record TranscriptKey =
  tk_tenant :: string
  tk_channel :: string
  tk_epoch :: u64

record Policy =
  pl_profile :: string
  pl_id :: string
  pl_epoch :: u64
  pl_digest :: string
  pl_active_retention :: u64
  pl_event_backup :: u64
  pl_identity_backup :: u64
  pl_audit_backup :: u64
  pl_export_mode :: string
  pl_redaction_role :: string
  pl_deletion_role :: string
  pl_integrity_profile :: string
  pl_issued_at :: string
  pl_activated_at :: string
  pl_approver :: string

record Target =
  tg_kind :: string
  tg_sequences :: "u64 list"

record BackupDeadline =
  bd_domain :: string
  bd_deadline :: string

record Intent =
  li_profile :: string
  li_operation :: string
  li_transcript :: TranscriptKey
  li_action :: string
  li_reason :: string
  li_policy_id :: string
  li_policy_epoch :: u64
  li_policy_digest :: string
  li_target :: Target
  li_high_water :: string
  li_requested_at :: string
  li_requester :: string
  li_audit_receipt :: string
  li_export_mode :: string
  li_deadlines :: "BackupDeadline list"

record Marker =
  mk_profile :: string
  mk_operation :: string
  mk_intent_digest :: string
  mk_transcript :: TranscriptKey
  mk_previous :: string
  mk_resulting :: string
  mk_target :: Target
  mk_policy_digest :: string
  mk_high_water :: string
  mk_time :: string
  mk_audit_receipt :: string

record ReceiptPreimage =
  rp_profile :: string
  rp_receipt_id :: string
  rp_marker_digest :: string
  rp_operation :: string
  rp_intent_digest :: string
  rp_transcript :: TranscriptKey
  rp_resulting :: string
  rp_policy_digest :: string
  rp_issued_at :: string
  rp_key_id :: string
  rp_algorithm :: string

record Operation =
  op_intent :: Intent
  op_intent_digest :: string
  op_state :: string
  op_marker :: bytes
  op_receipt :: bytes
  op_signature :: bytes

record OperationReference =
  or_operation :: string
  or_intent_digest :: string

record DueQuery =
  dq_wall_time :: string
  dq_after :: string
  dq_limit :: nat

record ExportEvidence =
  xe_operation :: string
  xe_intent_digest :: string
  xe_manifest_digest :: string
  xe_custody_digest :: string

record MarkerPersistence =
  mp_operation :: string
  mp_intent_digest :: string
  mp_marker :: bytes
  mp_preimage :: bytes

record LifecycleSignature =
  ls_operation :: string
  ls_intent_digest :: string
  ls_preimage :: bytes
  ls_signature :: bytes

record BackupObligation =
  bo_profile :: string
  bo_operation :: string
  bo_intent_digest :: string
  bo_policy_digest :: string
  bo_domain :: string
  bo_deadline :: string
  bo_binding_kind :: string
  bo_binding_digest :: string

record BackupObligationSet =
  bs_profile :: string
  bs_operation :: string
  bs_intent_digest :: string
  bs_policy_digest :: string
  bs_obligations :: "BackupObligation list"

record CustodianReceipt =
  cr_profile :: string
  cr_receipt_id :: string
  cr_obligation_digest :: string
  cr_operation :: string
  cr_intent_digest :: string
  cr_policy_digest :: string
  cr_domain :: string
  cr_backup_digest :: string
  cr_evidence_time :: string
  cr_method :: string
  cr_outcome :: string
  cr_custodian :: string
  cr_key_id :: string
  cr_algorithm :: string
  cr_signature :: string

record ReceiptEvidence =
  re_domain :: string
  re_receipt_id :: string
  re_digest :: string

record CompletionEvidence =
  ce_profile :: string
  ce_operation :: string
  ce_intent_digest :: string
  ce_policy_digest :: string
  ce_receipts :: "ReceiptEvidence list"
  ce_audit_receipt :: string
  ce_audit_checkpoint :: string
  ce_completed_at :: string

definition CloneOperation :: "Operation \<Rightarrow> Operation" where
  "CloneOperation v = v\<lparr>op_intent := op_intent v, op_marker := op_marker v, op_receipt := op_receipt v,
     op_signature := op_signature v\<rparr>"

lemma CloneOperation_id [simp]: "CloneOperation v = v"
  by (simp add: CloneOperation_def)

section \<open>The environment\<close>

text \<open>The documents that are marshalled: a policy without its digest and a custodian receipt without its signature
  are struct types of their own.\<close>

datatype lc_value =
    VPolicy Policy
  | VUnsignedPolicy Policy
  | VIntent Intent
  | VMarker Marker
  | VReceipt ReceiptPreimage
  | VObligation BackupObligation
  | VObligationSet BackupObligationSet
  | VCustodian CustodianReceipt
  | VUnsignedCustodian CustodianReceipt
  | VCompletion CompletionEvidence

text \<open>\<open>le_Parse\<close> is \<^verbatim>\<open>uuid.Parse\<close> (version and canonical text), \<open>le_Transform\<close> the JSON canonicaliser, \<open>le_Marshal\<close>
  \<^verbatim>\<open>json.Marshal\<close>; \<open>le_intent\<close>, \<dots> are \<^verbatim>\<open>json.Unmarshal\<close> into the type, and \<open>le_strict_marker\<close>, \<open>le_strict_receipt\<close> the
  decoder that refuses unknown fields and trailing data.\<close>

record lifecycle_env =
  le_Parse :: "string \<Rightarrow> (nat \<times> string) option"
  le_Transform :: "bytes \<Rightarrow> bytes option"
  le_Marshal :: "lc_value \<Rightarrow> bytes"
  le_intent :: "bytes \<Rightarrow> Intent option"
  le_marker :: "bytes \<Rightarrow> Marker option"
  le_receipt :: "bytes \<Rightarrow> ReceiptPreimage option"
  le_strict_marker :: "bytes \<Rightarrow> Marker option"
  le_strict_receipt :: "bytes \<Rightarrow> ReceiptPreimage option"
  le_obligation :: "bytes \<Rightarrow> BackupObligation option"
  le_obligation_set :: "bytes \<Rightarrow> BackupObligationSet option"
  le_custodian :: "bytes \<Rightarrow> CustodianReceipt option"
  le_completion :: "bytes \<Rightarrow> CompletionEvidence option"

definition canonical :: "lifecycle_env \<Rightarrow> lc_value \<Rightarrow> bytes option" where
  "canonical env v = le_Transform env (le_Marshal env v)"

definition lc_digest :: "string \<Rightarrow> bytes \<Rightarrow> string" where
  "lc_digest tag body = ''sha-256:'' @ hex_sha256 (str_bytes tag @ body)"

definition ValidateCanonical :: "lifecycle_env \<Rightarrow> bytes \<Rightarrow> lc_error option" where
  "ValidateCanonical env raw =
     (if length raw = 0 \<or> length raw > 16384 \<or> le_Transform env raw \<noteq> Some raw then Some LInvalidContract else None)"

definition decodeCanonical :: "lifecycle_env \<Rightarrow> (bytes \<Rightarrow> 'a option) \<Rightarrow> bytes \<Rightarrow> 'a option" where
  "decodeCanonical env decode raw = (if ValidateCanonical env raw \<noteq> None then None else decode raw)"

section \<open>Fields\<close>

definition lc_identifierPattern :: "string \<Rightarrow> bool" where
  "lc_identifierPattern v \<longleftrightarrow> v \<noteq> [] \<and> length v \<le> 256 \<and>
     hd v \<in> set ''abcdefghijklmnopqrstuvwxyz0123456789'' \<and>
     list_all (\<lambda>c. c \<in> set ''abcdefghijklmnopqrstuvwxyz0123456789._:-'') (tl v)"

definition lc_digestPattern :: "string \<Rightarrow> bool" where
  "lc_digestPattern v \<longleftrightarrow> length v = 72 \<and> take 8 v = ''sha-256:'' \<and> list_all (\<lambda>c. c \<in> set ''0123456789abcdef'') (drop 8 v)"

definition lc_referencePattern :: "string \<Rightarrow> bool" where
  "lc_referencePattern v \<longleftrightarrow> v \<noteq> [] \<and> length v \<le> 512 \<and>
     hd v \<in> set ''ABCDEFGHIJKLMNOPQRSTUVWXYZabcdefghijklmnopqrstuvwxyz0123456789'' \<and>
     list_all (\<lambda>c. c \<in> set ''ABCDEFGHIJKLMNOPQRSTUVWXYZabcdefghijklmnopqrstuvwxyz0123456789._:/-'') (tl v)"

definition positive :: "u64 \<Rightarrow> bool" where
  "positive v \<longleftrightarrow> v > 0 \<and> v \<le> maxSafeInteger"

definition validExport :: "string \<Rightarrow> bool" where
  "validExport v \<longleftrightarrow> v = ExportForbidden \<or> v = ExportPermitted \<or> v = ExportRequired"

definition validAction :: "string \<Rightarrow> bool" where
  "validAction v \<longleftrightarrow> v = RedactTranscript \<or> v = DeleteTranscript"

definition validReason :: "string \<Rightarrow> bool" where
  "validReason v \<longleftrightarrow> v = ''retention_expired'' \<or> v = ''authorized_request''"

definition validBackupDomain :: "string \<Rightarrow> bool" where
  "validBackupDomain v \<longleftrightarrow> v = EventBackupDomain \<or> v = IdentityBackupDomain \<or> v = AuditBackupDomain"

definition validUUIDv7 :: "lifecycle_env \<Rightarrow> string \<Rightarrow> bool" where
  "validUUIDv7 env v = (case le_Parse env v of None \<Rightarrow> False | Some (version, canon) \<Rightarrow> version = 7 \<and> canon = v)"

definition validTranscript :: "TranscriptKey \<Rightarrow> bool" where
  "validTranscript v \<longleftrightarrow> lc_identifierPattern (tk_tenant v) \<and> lc_identifierPattern (tk_channel v) \<and> tk_epoch v \<le> maxSafeInteger"

definition validTransition :: "string \<Rightarrow> string \<Rightarrow> bool" where
  "validTransition from to \<longleftrightarrow> from = Active \<and> (to = Redacted \<or> to = Deleted) \<or> from = Redacted \<and> to = Deleted"

definition actionForLifecycle :: "string \<Rightarrow> string" where
  "actionForLifecycle v = (if v = Deleted then DeleteTranscript else RedactTranscript)"

definition validTarget :: "string \<Rightarrow> Target \<Rightarrow> bool" where
  "validTarget action target =
     (if action = DeleteTranscript then tg_kind target = ''transcript'' \<and> tg_sequences target = []
      else if action \<noteq> RedactTranscript \<or> tg_kind target \<noteq> ''sequences'' \<or> length (tg_sequences target) = 0 \<or>
        length (tg_sequences target) > 1000 then False
      else sorted (tg_sequences target) \<and> list_all positive (tg_sequences target) \<and> distinct_adj (tg_sequences target))"

definition zero_time :: time where
  "zero_time = time_Date 1 1 1 0 0 0 0"

definition backup_domains :: "string list" where
  "backup_domains = [EventBackupDomain, IdentityBackupDomain, AuditBackupDomain]"

definition validDeadlines :: "BackupDeadline list \<Rightarrow> string \<Rightarrow> bool" where
  "validDeadlines vs requested \<longleftrightarrow> length vs = 3 \<and>
     (let requestedAt = (case time_Parse requested of None \<Rightarrow> zero_time | Some t \<Rightarrow> t) in
      list_all2 (\<lambda>v want. bd_domain v = want \<and>
        (case time_Parse (bd_deadline v) of None \<Rightarrow> False | Some deadline \<Rightarrow> time_After deadline requestedAt)) vs backup_domains)"

section \<open>Validation\<close>

text \<open>A digest domain ends with a zero byte.\<close>

definition policyDigestDomain :: string where
  "policyDigestDomain = ''yukh.transcript-lifecycle-policy.v0.1'' @ [CHR 0x00]"

definition intentDigestDomain :: string where
  "intentDigestDomain = ''yukh.transcript-lifecycle-intent.v0.1'' @ [CHR 0x00]"

definition markerDigestDomain :: string where
  "markerDigestDomain = ''yukh.transcript-lifecycle-marker.v0.1'' @ [CHR 0x00]"

definition receiptSignDomain :: string where
  "receiptSignDomain = ''yukh.transcript-lifecycle-receipt.v0.1'' @ [CHR 0x00]"

definition validPolicyFields :: "Policy \<Rightarrow> bool" where
  "validPolicyFields p \<longleftrightarrow> pl_profile p = ''yukh-transcript-lifecycle-policy/v0.1'' \<and> lc_identifierPattern (pl_id p) \<and>
     positive (pl_epoch p) \<and> positive (pl_active_retention p) \<and> positive (pl_event_backup p) \<and>
     positive (pl_identity_backup p) \<and> positive (pl_audit_backup p) \<and> validExport (pl_export_mode p) \<and>
     lc_identifierPattern (pl_redaction_role p) \<and> lc_identifierPattern (pl_deletion_role p) \<and>
     pl_redaction_role p \<noteq> pl_deletion_role p \<and> pl_integrity_profile p = ''sequence-event-receipt-operation/v0.1'' \<and>
     validTime (pl_issued_at p) \<and> validTime (pl_activated_at p) \<and> pl_issued_at p \<le> pl_activated_at p \<and>
     lc_identifierPattern (pl_approver p)"

definition PolicyDigest :: "lifecycle_env \<Rightarrow> Policy \<Rightarrow> lc_error + string" where
  "PolicyDigest env p =
     (if \<not> validPolicyFields p then Inl LInvalidContract
      else case canonical env (VUnsignedPolicy p) of
        None \<Rightarrow> Inl LInvalidContract
      | Some body \<Rightarrow> Inr (lc_digest policyDigestDomain body))"

definition ValidatePolicy :: "lifecycle_env \<Rightarrow> Policy \<Rightarrow> lc_error option" where
  "ValidatePolicy env p =
     (if \<not> validPolicyFields p \<or> \<not> lc_digestPattern (pl_digest p) then Some LInvalidContract
      else if PolicyDigest env p \<noteq> Inr (pl_digest p) then Some LInvalidContract else None)"

definition ValidatePolicySuccessor :: "lifecycle_env \<Rightarrow> Policy \<Rightarrow> Policy \<Rightarrow> lc_error option" where
  "ValidatePolicySuccessor env current successor =
     (if ValidatePolicy env current \<noteq> None \<or> ValidatePolicy env successor \<noteq> None \<or>
         pl_epoch successor \<le> pl_epoch current \<or> pl_activated_at successor \<le> pl_activated_at current
      then Some LConflict else None)"

definition lc_ValidateIntent :: "lifecycle_env \<Rightarrow> Intent \<Rightarrow> lc_error option" where
  "lc_ValidateIntent env i =
     (if li_profile i \<noteq> ''yukh-transcript-lifecycle-intent/v0.1'' \<or> \<not> validUUIDv7 env (li_operation i) \<or>
         \<not> validTranscript (li_transcript i) \<or> \<not> validAction (li_action i) \<or> \<not> validReason (li_reason i) \<or>
         \<not> lc_identifierPattern (li_policy_id i) \<or> \<not> positive (li_policy_epoch i) \<or>
         \<not> lc_digestPattern (li_policy_digest i) \<or> \<not> validTarget (li_action i) (li_target i) \<or>
         \<not> lc_referencePattern (li_high_water i) \<or> \<not> validTime (li_requested_at i) \<or>
         \<not> lc_identifierPattern (li_requester i) \<or> \<not> lc_referencePattern (li_audit_receipt i) \<or>
         \<not> validExport (li_export_mode i) \<or> \<not> validDeadlines (li_deadlines i) (li_requested_at i)
      then Some LInvalidContract else None)"

definition ValidateMarker :: "lifecycle_env \<Rightarrow> Marker \<Rightarrow> lc_error option" where
  "ValidateMarker env k =
     (if mk_profile k \<noteq> ''yukh-transcript-lifecycle-marker/v0.1'' \<or> \<not> validUUIDv7 env (mk_operation k) \<or>
         \<not> lc_digestPattern (mk_intent_digest k) \<or> \<not> validTranscript (mk_transcript k) \<or>
         \<not> validTransition (mk_previous k) (mk_resulting k) \<or>
         \<not> validTarget (actionForLifecycle (mk_resulting k)) (mk_target k) \<or> \<not> lc_digestPattern (mk_policy_digest k) \<or>
         \<not> lc_referencePattern (mk_high_water k) \<or> \<not> validTime (mk_time k) \<or> \<not> lc_referencePattern (mk_audit_receipt k)
      then Some LInvalidContract else None)"

definition ValidateReceiptPreimage :: "lifecycle_env \<Rightarrow> ReceiptPreimage \<Rightarrow> lc_error option" where
  "ValidateReceiptPreimage env r =
     (if rp_profile r \<noteq> ''yukh-transcript-lifecycle-receipt-preimage/v0.1'' \<or> \<not> validUUIDv7 env (rp_receipt_id r) \<or>
         \<not> lc_digestPattern (rp_marker_digest r) \<or> \<not> validUUIDv7 env (rp_operation r) \<or>
         \<not> lc_digestPattern (rp_intent_digest r) \<or> \<not> validTranscript (rp_transcript r) \<or>
         (rp_resulting r \<noteq> Redacted \<and> rp_resulting r \<noteq> Deleted) \<or> \<not> lc_digestPattern (rp_policy_digest r) \<or>
         \<not> validTime (rp_issued_at r) \<or> \<not> lc_identifierPattern (rp_key_id r) \<or> rp_algorithm r \<noteq> ''ed25519''
      then Some LInvalidContract else None)"

definition saga_order :: "string list" where
  "saga_order = [Reserved, ExportSatisfied, MarkerPersisted, ReceiptSigned, PayloadRemoved, BackupsPending, Completed]"

definition saga_index :: "string \<Rightarrow> nat option" where
  "saga_index v = map_of (zip saga_order [0..<length saga_order]) v"

definition ValidSagaAdvance :: "string \<Rightarrow> string \<Rightarrow> bool" where
  "ValidSagaAdvance from to =
     (case (saga_index from, saga_index to) of (Some l, Some r) \<Rightarrow> r = l + 1 | _ \<Rightarrow> False)"

definition ValidAuditReason :: "string \<Rightarrow> bool" where
  "ValidAuditReason v \<longleftrightarrow> v \<in> {''policy_activated'', ''lifecycle_reserved'', ''export_verified'', ''marker_persisted'',
     ''receipt_signed'', ''payload_removed'', ''backup_receipt_recorded'', ''lifecycle_completed'',
     ''backup_deadline_missed'', ''clock_fenced'', ''restore_verified'', ''incident_recorded''}"

definition ValidateOperationReference :: "lifecycle_env \<Rightarrow> string \<Rightarrow> string \<Rightarrow> lc_error option" where
  "ValidateOperationReference env operation intentDigest =
     (if \<not> validUUIDv7 env operation \<or> \<not> lc_digestPattern intentDigest then Some LInvalidContract else None)"

definition ValidateDueQuery :: "lifecycle_env \<Rightarrow> DueQuery \<Rightarrow> lc_error option" where
  "ValidateDueQuery env q =
     (if \<not> validTime (dq_wall_time q) \<or> dq_limit q = 0 \<or> dq_limit q > 1000 \<or>
         (dq_after q \<noteq> '''' \<and> \<not> validUUIDv7 env (dq_after q)) then Some LInvalidContract else None)"

definition ValidateExportEvidence :: "lifecycle_env \<Rightarrow> ExportEvidence \<Rightarrow> lc_error option" where
  "ValidateExportEvidence env e =
     (if ValidateOperationReference env (xe_operation e) (xe_intent_digest e) \<noteq> None \<or>
         \<not> lc_digestPattern (xe_manifest_digest e) \<or> \<not> lc_digestPattern (xe_custody_digest e)
      then Some LInvalidContract else None)"

section \<open>Canonical bytes and digests\<close>

definition CanonicalPolicy :: "lifecycle_env \<Rightarrow> Policy \<Rightarrow> lc_error + bytes" where
  "CanonicalPolicy env p =
     (case ValidatePolicy env p of Some e \<Rightarrow> Inl e | None \<Rightarrow>
      case canonical env (VPolicy p) of None \<Rightarrow> Inl LInvalidContract | Some body \<Rightarrow> Inr body)"

definition CanonicalIntent :: "lifecycle_env \<Rightarrow> Intent \<Rightarrow> lc_error + (bytes \<times> string)" where
  "CanonicalIntent env i =
     (case lc_ValidateIntent env i of Some e \<Rightarrow> Inl e | None \<Rightarrow>
      case canonical env (VIntent i) of
        None \<Rightarrow> Inl LInvalidContract
      | Some body \<Rightarrow> Inr (body, lc_digest intentDigestDomain body))"

definition ValidateRetry :: "lifecycle_env \<Rightarrow> Intent \<Rightarrow> Intent \<Rightarrow> lc_error option" where
  "ValidateRetry env original retry =
     (case (CanonicalIntent env original, CanonicalIntent env retry) of
        (Inr (_, d), Inr (_, d')) \<Rightarrow>
          if li_operation original \<noteq> li_operation retry \<or> d \<noteq> d' then Some LConflict else None
      | _ \<Rightarrow> Some LInvalidContract)"

definition CanonicalMarker :: "lifecycle_env \<Rightarrow> Marker \<Rightarrow> lc_error + (bytes \<times> string)" where
  "CanonicalMarker env k =
     (case ValidateMarker env k of Some e \<Rightarrow> Inl e | None \<Rightarrow>
      case canonical env (VMarker k) of
        None \<Rightarrow> Inl LInvalidContract
      | Some body \<Rightarrow> Inr (body, lc_digest markerDigestDomain body))"

definition CanonicalReceiptPreimage :: "lifecycle_env \<Rightarrow> ReceiptPreimage \<Rightarrow> lc_error + (bytes \<times> bytes)" where
  "CanonicalReceiptPreimage env r =
     (case ValidateReceiptPreimage env r of Some e \<Rightarrow> Inl e | None \<Rightarrow>
      case canonical env (VReceipt r) of
        None \<Rightarrow> Inl LInvalidContract
      | Some body \<Rightarrow> Inr (body, str_bytes receiptSignDomain @ body))"

definition ValidateMarkerPersistence :: "lifecycle_env \<Rightarrow> MarkerPersistence \<Rightarrow> lc_error option" where
  "ValidateMarkerPersistence env v =
     (if ValidateOperationReference env (mp_operation v) (mp_intent_digest v) \<noteq> None then Some LInvalidContract
      else case (decodeCanonical env (le_strict_marker env) (mp_marker v), decodeCanonical env (le_strict_receipt env) (mp_preimage v)) of
        (Some k, Some r) \<Rightarrow>
          if ValidateMarker env k \<noteq> None \<or> ValidateReceiptPreimage env r \<noteq> None then Some LInvalidContract
          else (case CanonicalMarker env k of
            Inl e \<Rightarrow> Some LConflict
          | Inr (_, markerDigest) \<Rightarrow>
              if mk_operation k \<noteq> mp_operation v \<or> mk_intent_digest k \<noteq> mp_intent_digest v \<or>
                 rp_operation r \<noteq> mp_operation v \<or> rp_intent_digest r \<noteq> mp_intent_digest v \<or>
                 rp_marker_digest r \<noteq> markerDigest \<or> rp_transcript r \<noteq> mk_transcript k \<or>
                 rp_resulting r \<noteq> mk_resulting k \<or> rp_policy_digest r \<noteq> mk_policy_digest k
              then Some LConflict else None)
      | _ \<Rightarrow> Some LInvalidContract)"

definition lc_ValidateSignatureAttachment :: "lifecycle_env \<Rightarrow> LifecycleSignature \<Rightarrow> lc_error option" where
  "lc_ValidateSignatureAttachment env v =
     (if ValidateOperationReference env (ls_operation v) (ls_intent_digest v) \<noteq> None \<or> length (ls_signature v) \<noteq> 64
      then Some LInvalidContract
      else case decodeCanonical env (le_strict_receipt env) (ls_preimage v) of
        None \<Rightarrow> Some LInvalidContract
      | Some r \<Rightarrow>
          if ValidateReceiptPreimage env r \<noteq> None then Some LInvalidContract
          else if rp_operation r \<noteq> ls_operation v \<or> rp_intent_digest r \<noteq> ls_intent_digest v then Some LConflict else None)"

end
