(* ===== verification/Backup.thy ===== *)
theory Backup
  imports Lifecycle Base64
begin

text \<open>
  The backup side of the lifecycle contract: \<^verbatim>\<open>internal/relay/lifecycle/backup.go\<close> with the validation and
  canonical forms of its documents from \<^verbatim>\<open>validation.go\<close> and \<^verbatim>\<open>canonical.go\<close>. \<^verbatim>\<open>ClassifyBackupRecovery\<close> is the
  decision the completion of an operation rests on; its loop over the receipts is \<open>classify_loop\<close> over the four maps
  of the code. The verifier of custodian signatures is a parameter.
\<close>

section \<open>Documents\<close>

abbreviation BackupSucceeded :: string where "BackupSucceeded \<equiv> ''success''"
abbreviation BackupFailed :: string where "BackupFailed \<equiv> ''failure''"

abbreviation RecoveryPending :: string where "RecoveryPending \<equiv> ''pending''"
abbreviation RecoveryIncident :: string where "RecoveryIncident \<equiv> ''incident''"
abbreviation RecoveryCorrupt :: string where "RecoveryCorrupt \<equiv> ''corrupt''"
abbreviation RecoveryCompletable :: string where "RecoveryCompletable \<equiv> ''completable''"

abbreviation RecoveryEvidenceMissing :: string where "RecoveryEvidenceMissing \<equiv> ''evidence_missing''"
abbreviation RecoveryReceiptFailed :: string where "RecoveryReceiptFailed \<equiv> ''receipt_failed''"
abbreviation RecoveryDeadlineMissed :: string where "RecoveryDeadlineMissed \<equiv> ''deadline_missed''"
abbreviation RecoveryContradictoryEvidence :: string where "RecoveryContradictoryEvidence \<equiv> ''contradictory_evidence''"
abbreviation RecoveryInvalidEvidence :: string where "RecoveryInvalidEvidence \<equiv> ''invalid_evidence''"
abbreviation RecoveryVerificationUnavailable :: string where "RecoveryVerificationUnavailable \<equiv> ''verification_unavailable''"

record RecoveryFinding =
  rf_domain :: string
  rf_reason :: string

record BackupRecovery =
  br_profile :: string
  br_operation :: string
  br_intent_digest :: string
  br_status :: string
  br_findings :: "RecoveryFinding list"

definition CloneBackupObligationSet :: "BackupObligationSet \<Rightarrow> BackupObligationSet" where
  "CloneBackupObligationSet v = v\<lparr>bs_obligations := bs_obligations v\<rparr>"

definition CloneCompletionEvidence :: "CompletionEvidence \<Rightarrow> CompletionEvidence" where
  "CloneCompletionEvidence v = v\<lparr>ce_receipts := ce_receipts v\<rparr>"

definition CloneBackupRecovery :: "BackupRecovery \<Rightarrow> BackupRecovery" where
  "CloneBackupRecovery v = v\<lparr>br_findings := br_findings v\<rparr>"

lemma Clone_id [simp]:
  "CloneBackupObligationSet b = b" "CloneCompletionEvidence c = c" "CloneBackupRecovery r = r"
  by (simp_all add: CloneBackupObligationSet_def CloneCompletionEvidence_def CloneBackupRecovery_def)

definition indexDomain :: "string \<Rightarrow> nat" where
  "indexDomain d = (if d = EventBackupDomain then 0 else if d = IdentityBackupDomain then 1
     else if d = AuditBackupDomain then 2 else 0)"

section \<open>Validation\<close>

definition ValidateBackupObligation :: "lifecycle_env \<Rightarrow> BackupObligation \<Rightarrow> lc_error option" where
  "ValidateBackupObligation env b =
     (if bo_profile b \<noteq> ''yukh-transcript-backup-obligation/v0.1'' \<or>
         ValidateOperationReference env (bo_operation b) (bo_intent_digest b) \<noteq> None \<or>
         \<not> lc_digestPattern (bo_policy_digest b) \<or> \<not> validBackupDomain (bo_domain b) \<or> \<not> validTime (bo_deadline b) \<or>
         (bo_binding_kind b \<noteq> ''generation'' \<and> bo_binding_kind b \<noteq> ''absence_manifest'') \<or>
         \<not> lc_digestPattern (bo_binding_digest b) then Some LInvalidContract else None)"

definition ValidateBackupObligationSet :: "lifecycle_env \<Rightarrow> BackupObligationSet \<Rightarrow> lc_error option" where
  "ValidateBackupObligationSet env v =
     (if bs_profile v \<noteq> ''yukh-transcript-backup-obligation-set/v0.1'' \<or>
         ValidateOperationReference env (bs_operation v) (bs_intent_digest v) \<noteq> None \<or>
         \<not> lc_digestPattern (bs_policy_digest v) \<or> length (bs_obligations v) \<noteq> 3 then Some LInvalidContract
      else if list_all2 (\<lambda>b want. ValidateBackupObligation env b = None \<and> bo_domain b = want \<and>
          bo_operation b = bs_operation v \<and> bo_intent_digest b = bs_intent_digest v \<and>
          bo_policy_digest b = bs_policy_digest v) (bs_obligations v) backup_domains
      then None else Some LInvalidContract)"

definition ValidateObligationIntent :: "lifecycle_env \<Rightarrow> BackupObligation \<Rightarrow> Intent \<Rightarrow> string \<Rightarrow> lc_error option" where
  "ValidateObligationIntent env b i intentDigest =
     (if ValidateBackupObligation env b \<noteq> None \<or> lc_ValidateIntent env i \<noteq> None then Some LInvalidContract
      else if bo_operation b \<noteq> li_operation i \<or> bo_intent_digest b \<noteq> intentDigest \<or> bo_policy_digest b \<noteq> li_policy_digest i
      then Some LConflict
      else if list_ex (\<lambda>d. bd_domain d = bo_domain b \<and> bd_deadline d = bo_deadline b) (li_deadlines i) then None
      else Some LConflict)"

definition ValidateObligationSetIntent :: "lifecycle_env \<Rightarrow> BackupObligationSet \<Rightarrow> Intent \<Rightarrow> string \<Rightarrow> lc_error option" where
  "ValidateObligationSetIntent env v i intentDigest =
     (if ValidateBackupObligationSet env v \<noteq> None \<or> lc_ValidateIntent env i \<noteq> None then Some LInvalidContract
      else if bs_operation v \<noteq> li_operation i \<or> bs_intent_digest v \<noteq> intentDigest \<or> bs_policy_digest v \<noteq> li_policy_digest i
      then Some LConflict
      else if list_all (\<lambda>b. ValidateObligationIntent env b i intentDigest = None) (bs_obligations v) then None
      else Some LConflict)"

definition ValidateCustodianReceipt :: "lifecycle_env \<Rightarrow> CustodianReceipt \<Rightarrow> lc_error option" where
  "ValidateCustodianReceipt env r =
     (if cr_profile r \<noteq> ''yukh-transcript-backup-custodian-receipt/v0.1'' \<or> \<not> validUUIDv7 env (cr_receipt_id r) \<or>
         \<not> lc_digestPattern (cr_obligation_digest r) \<or>
         ValidateOperationReference env (cr_operation r) (cr_intent_digest r) \<noteq> None \<or> \<not> lc_digestPattern (cr_policy_digest r) \<or>
         \<not> validBackupDomain (cr_domain r) \<or> \<not> lc_digestPattern (cr_backup_digest r) \<or> \<not> validTime (cr_evidence_time r) \<or>
         (cr_method r \<noteq> ''generation_retired'' \<and> cr_method r \<noteq> ''absence_proved'') \<or>
         (cr_outcome r \<noteq> BackupSucceeded \<and> cr_outcome r \<noteq> BackupFailed) \<or>
         \<not> lc_referencePattern (cr_custodian r) \<or> \<not> lc_identifierPattern (cr_key_id r) \<or> cr_algorithm r \<noteq> ''ed25519'' \<or>
         (case base64_decode_plain (cr_signature r) of None \<Rightarrow> True | Some sig \<Rightarrow> length sig \<noteq> 64)
      then Some LInvalidContract else None)"

definition ValidateCompletionEvidence :: "lifecycle_env \<Rightarrow> CompletionEvidence \<Rightarrow> lc_error option" where
  "ValidateCompletionEvidence env c =
     (if ce_profile c \<noteq> ''yukh-transcript-lifecycle-completion-evidence/v0.1'' \<or>
         ValidateOperationReference env (ce_operation c) (ce_intent_digest c) \<noteq> None \<or> \<not> lc_digestPattern (ce_policy_digest c) \<or>
         length (ce_receipts c) \<noteq> 3 \<or> \<not> lc_referencePattern (ce_audit_receipt c) \<or>
         \<not> lc_referencePattern (ce_audit_checkpoint c) \<or> \<not> validTime (ce_completed_at c) then Some LInvalidContract
      else if list_all2 (\<lambda>r want. re_domain r = want \<and> validUUIDv7 env (re_receipt_id r) \<and> lc_digestPattern (re_digest r))
          (ce_receipts c) backup_domains then None else Some LInvalidContract)"

text \<open>The loop over the findings of a recovery: their domains come in order, and the status allows their reasons.\<close>

fun findings_ok :: "string \<Rightarrow> int \<Rightarrow> RecoveryFinding list \<Rightarrow> bool" where
  "findings_ok status latest [] = True"
| "findings_ok status latest (f # fs) =
     (let index = int (indexDomain (rf_domain f));
          validReason = rf_reason f \<in> {RecoveryEvidenceMissing, RecoveryVerificationUnavailable, RecoveryReceiptFailed,
            RecoveryDeadlineMissed, RecoveryContradictoryEvidence, RecoveryInvalidEvidence} in
      if \<not> validBackupDomain (rf_domain f) \<or> \<not> validReason \<or> index \<le> latest then False
      else if status = RecoveryPending \<and> rf_reason f \<noteq> RecoveryEvidenceMissing \<and> rf_reason f \<noteq> RecoveryVerificationUnavailable \<or>
        status = RecoveryIncident \<and> rf_reason f = RecoveryInvalidEvidence \<or>
        status = RecoveryCorrupt \<and> rf_reason f \<noteq> RecoveryInvalidEvidence \<and> rf_reason f \<noteq> RecoveryContradictoryEvidence
      then False
      else findings_ok status index fs)"

definition ValidateBackupRecovery :: "lifecycle_env \<Rightarrow> BackupRecovery \<Rightarrow> lc_error option" where
  "ValidateBackupRecovery env v =
     (if br_profile v \<noteq> ''yukh-transcript-lifecycle-backup-recovery/v0.1'' \<or>
         ValidateOperationReference env (br_operation v) (br_intent_digest v) \<noteq> None then Some LInvalidContract
      else if br_status v \<notin> {RecoveryPending, RecoveryIncident, RecoveryCorrupt, RecoveryCompletable} \<or> length (br_findings v) > 3
      then Some LInvalidContract
      else if \<not> findings_ok (br_status v) (- 1) (br_findings v) then Some LInvalidContract
      else if br_status v = RecoveryCompletable \<and> length (br_findings v) \<noteq> 0 \<or>
        (br_status v = RecoveryPending \<or> br_status v = RecoveryIncident) \<and> length (br_findings v) = 0 then Some LInvalidContract
      else if br_status v = RecoveryIncident \<and>
        \<not> list_ex (\<lambda>f. rf_reason f \<in> {RecoveryReceiptFailed, RecoveryDeadlineMissed, RecoveryContradictoryEvidence}) (br_findings v)
      then Some LInvalidContract else None)"

definition ValidateReceiptObligation :: "lifecycle_env \<Rightarrow> CustodianReceipt \<Rightarrow> BackupObligation \<Rightarrow> string \<Rightarrow> lc_error option" where
  "ValidateReceiptObligation env r b obligationDigest =
     (if ValidateCustodianReceipt env r \<noteq> None \<or> ValidateBackupObligation env b \<noteq> None then Some LInvalidContract
      else if cr_obligation_digest r \<noteq> obligationDigest \<or> cr_operation r \<noteq> bo_operation b \<or>
        cr_intent_digest r \<noteq> bo_intent_digest b \<or> cr_policy_digest r \<noteq> bo_policy_digest b \<or> cr_domain r \<noteq> bo_domain b \<or>
        cr_backup_digest r \<noteq> bo_binding_digest b then Some LConflict
      else if bo_binding_kind b = ''generation'' \<and> cr_method r \<noteq> ''generation_retired'' \<or>
        bo_binding_kind b = ''absence_manifest'' \<and> cr_method r \<noteq> ''absence_proved'' then Some LConflict
      else None)"

section \<open>Canonical bytes and digests\<close>

definition backupObligationDigestDomain :: string where
  "backupObligationDigestDomain = ''yukh.transcript-backup-obligation.v0.1'' @ [CHR 0x00]"

definition backupObligationSetDigestDomain :: string where
  "backupObligationSetDigestDomain = ''yukh.transcript-backup-obligation-set.v0.1'' @ [CHR 0x00]"

definition custodianReceiptDigestDomain :: string where
  "custodianReceiptDigestDomain = ''yukh.transcript-backup-custodian-receipt.v0.1'' @ [CHR 0x00]"

definition custodianReceiptSignDomain :: string where
  "custodianReceiptSignDomain = ''yukh.transcript-backup-custodian-receipt-signature.v0.1'' @ [CHR 0x00]"

definition completionEvidenceDigestDomain :: string where
  "completionEvidenceDigestDomain = ''yukh.transcript-lifecycle-completion-evidence.v0.1'' @ [CHR 0x00]"

definition CanonicalBackupObligation :: "lifecycle_env \<Rightarrow> BackupObligation \<Rightarrow> lc_error + (bytes \<times> string)" where
  "CanonicalBackupObligation env b =
     (if ValidateBackupObligation env b \<noteq> None then Inl LInvalidContract
      else case canonical env (VObligation b) of
        None \<Rightarrow> Inl LInvalidContract
      | Some body \<Rightarrow> Inr (body, lc_digest backupObligationDigestDomain body))"

definition CanonicalBackupObligationSet :: "lifecycle_env \<Rightarrow> BackupObligationSet \<Rightarrow> lc_error + (bytes \<times> string)" where
  "CanonicalBackupObligationSet env v =
     (if ValidateBackupObligationSet env v \<noteq> None then Inl LInvalidContract
      else case canonical env (VObligationSet v) of
        None \<Rightarrow> Inl LInvalidContract
      | Some body \<Rightarrow> Inr (body, lc_digest backupObligationSetDigestDomain body))"

text \<open>The body, its digest and the bytes that are signed, which leave the signature out.\<close>

definition CanonicalCustodianReceipt :: "lifecycle_env \<Rightarrow> CustodianReceipt \<Rightarrow> lc_error + (bytes \<times> string \<times> bytes)" where
  "CanonicalCustodianReceipt env r =
     (if ValidateCustodianReceipt env r \<noteq> None then Inl LInvalidContract
      else case (canonical env (VCustodian r), canonical env (VUnsignedCustodian (r\<lparr>cr_signature := ''''\<rparr>))) of
        (Some body, Some preimage) \<Rightarrow>
          Inr (body, lc_digest custodianReceiptDigestDomain body, str_bytes custodianReceiptSignDomain @ preimage)
      | _ \<Rightarrow> Inl LInvalidContract)"

definition CanonicalCompletionEvidence :: "lifecycle_env \<Rightarrow> CompletionEvidence \<Rightarrow> lc_error + (bytes \<times> string)" where
  "CanonicalCompletionEvidence env c =
     (if ValidateCompletionEvidence env c \<noteq> None then Inl LInvalidContract
      else case canonical env (VCompletion c) of
        None \<Rightarrow> Inl LInvalidContract
      | Some body \<Rightarrow> Inr (body, lc_digest completionEvidenceDigestDomain body))"

section \<open>Retries and signatures\<close>

text \<open>The interface \<^verbatim>\<open>CustodianReceiptVerifier\<close>: the answer for a key, an algorithm, signed bytes and a signature.\<close>

type_synonym verifier = "string \<Rightarrow> string \<Rightarrow> bytes \<Rightarrow> bytes \<Rightarrow> lc_error option"

definition ValidateCustodianReceiptSignature ::
  "lifecycle_env \<Rightarrow> verifier option \<Rightarrow> CustodianReceipt \<Rightarrow> lc_error option" where
  "ValidateCustodianReceiptSignature env verifier r =
     (case verifier of None \<Rightarrow> Some LUnavailable | Some verify \<Rightarrow>
      case CanonicalCustodianReceipt env r of
        Inl e \<Rightarrow> Some e
      | Inr (_, _, signing) \<Rightarrow>
          (let signature = (case base64_decode_plain (cr_signature r) of None \<Rightarrow> [] | Some sig \<Rightarrow> sig) in
           case verify (cr_key_id r) (cr_algorithm r) signing signature of
             None \<Rightarrow> None
           | Some e \<Rightarrow> if e = LUnavailable then Some LUnavailable else Some LInvalidContract))"

definition ValidateCustodianReceiptRetry :: "lifecycle_env \<Rightarrow> CustodianReceipt \<Rightarrow> CustodianReceipt \<Rightarrow> lc_error option" where
  "ValidateCustodianReceiptRetry env original retry =
     (case (CanonicalCustodianReceipt env original, CanonicalCustodianReceipt env retry) of
        (Inr (_, d, _), Inr (_, d', _)) \<Rightarrow>
          if cr_receipt_id original \<noteq> cr_receipt_id retry \<or> d \<noteq> d' then Some LConflict else None
      | _ \<Rightarrow> Some LInvalidContract)"

definition ValidateCompletionRetry :: "lifecycle_env \<Rightarrow> CompletionEvidence \<Rightarrow> CompletionEvidence \<Rightarrow> lc_error option" where
  "ValidateCompletionRetry env original retry =
     (case (CanonicalCompletionEvidence env original, CanonicalCompletionEvidence env retry) of
        (Inr (_, d), Inr (_, d')) \<Rightarrow>
          if ce_operation original \<noteq> ce_operation retry \<or> d \<noteq> d' then Some LConflict else None
      | _ \<Rightarrow> Some LInvalidContract)"

definition ValidateBackupObligationSetRetry ::
  "lifecycle_env \<Rightarrow> BackupObligationSet \<Rightarrow> BackupObligationSet \<Rightarrow> lc_error option" where
  "ValidateBackupObligationSetRetry env original retry =
     (case (CanonicalBackupObligationSet env original, CanonicalBackupObligationSet env retry) of
        (Inr (_, d), Inr (_, d')) \<Rightarrow>
          if bs_operation original \<noteq> bs_operation retry \<or> d \<noteq> d' then Some LConflict else None
      | _ \<Rightarrow> Some LInvalidContract)"

section \<open>Classification\<close>

text \<open>The maps the loop over the receipts fills.\<close>

record recovery_state =
  rs_seen :: "(string, CustodianReceipt) gomap"
  rs_incidents :: "(string, string) gomap"
  rs_pending :: "(string, string) gomap"
  rs_ids :: "(string, string) gomap"

definition rs_empty :: recovery_state where
  "rs_empty = \<lparr>rs_seen = [], rs_incidents = [], rs_pending = [], rs_ids = []\<rparr>"

text \<open>The loop over the obligations: their digests by domain, \<open>None\<close> when the set is corrupt.\<close>

definition obligation_digests ::
  "lifecycle_env \<Rightarrow> string \<Rightarrow> string \<Rightarrow> BackupObligation list \<Rightarrow> (string, string) gomap option" where
  "obligation_digests env operation intentDigest obligations =
     (if list_all2 (\<lambda>b want. bo_domain b = want \<and> bo_operation b = operation \<and> bo_intent_digest b = intentDigest \<and>
          bo_policy_digest b = bo_policy_digest (hd obligations) \<and> \<not> isl (CanonicalBackupObligation env b)) obligations backup_domains
      then Some (map (\<lambda>b. (bo_domain b, snd (projr (CanonicalBackupObligation env b)))) obligations)
      else None)"

text \<open>A verified receipt: the first of its domain is remembered and judged, a later one is compared with it.\<close>

definition note_receipt :: "lifecycle_env \<Rightarrow> BackupObligation \<Rightarrow> recovery_state \<Rightarrow> CustodianReceipt \<Rightarrow> recovery_state" where
  "note_receipt env obligation st r =
     (let d = cr_domain r in
      case map_of (rs_seen st) d of
        Some previous \<Rightarrow>
          if ValidateCustodianReceiptRetry env previous r \<noteq> None
          then st\<lparr>rs_incidents := AList.update d RecoveryContradictoryEvidence (rs_incidents st)\<rparr> else st
      | None \<Rightarrow>
          let st = st\<lparr>rs_seen := AList.update d r (rs_seen st)\<rparr>;
              st = (if cr_outcome r = BackupFailed
                then st\<lparr>rs_incidents := AList.update d RecoveryReceiptFailed (rs_incidents st)\<rparr> else st)
          in if cr_outcome r = BackupSucceeded \<and> bo_deadline obligation < cr_evidence_time r
             then st\<lparr>rs_incidents := AList.update d RecoveryDeadlineMissed (rs_incidents st)\<rparr> else st)"

text \<open>One turn of the loop over the receipts: \<open>Inl\<close> returns a classification at once, \<open>Inr\<close> goes on.\<close>

definition classify_receipt ::
  "lifecycle_env \<Rightarrow> verifier option \<Rightarrow> BackupObligation list \<Rightarrow> (string, string) gomap \<Rightarrow> recovery_state \<Rightarrow> CustodianReceipt
     \<Rightarrow> RecoveryFinding list + recovery_state" where
  "classify_receipt env verifier obligations digests st r =
     (let d = cr_domain r; obligation = obligations ! indexDomain d;
          st' = st\<lparr>rs_ids := AList.update (cr_receipt_id r) d (rs_ids st)\<rparr> in
      if \<not> validBackupDomain d then Inl []
      else if map_of (rs_ids st) (cr_receipt_id r) \<notin> {None, Some d} then Inl []
      else if ValidateReceiptObligation env r obligation (the (map_of digests d)) \<noteq> None
      then Inl [\<lparr>rf_domain = d, rf_reason = RecoveryInvalidEvidence\<rparr>]
      else case ValidateCustodianReceiptSignature env verifier r of
        Some e \<Rightarrow>
          if e = LUnavailable then Inr (st'\<lparr>rs_pending := AList.update d RecoveryVerificationUnavailable (rs_pending st')\<rparr>)
          else Inl [\<lparr>rf_domain = d, rf_reason = RecoveryInvalidEvidence\<rparr>]
      | None \<Rightarrow> Inr (note_receipt env obligation st' r))"

fun classify_loop ::
  "lifecycle_env \<Rightarrow> verifier option \<Rightarrow> BackupObligation list \<Rightarrow> (string, string) gomap \<Rightarrow> recovery_state \<Rightarrow> CustodianReceipt list
     \<Rightarrow> RecoveryFinding list + recovery_state" where
  "classify_loop env verifier obligations digests st [] = Inr st"
| "classify_loop env verifier obligations digests st (r # rs) =
     (case classify_receipt env verifier obligations digests st r of
        Inl findings \<Rightarrow> Inl findings
      | Inr st' \<Rightarrow> classify_loop env verifier obligations digests st' rs)"

definition domain_finding :: "recovery_state \<Rightarrow> string \<Rightarrow> RecoveryFinding list" where
  "domain_finding st d =
     (case map_of (rs_incidents st) d of
        Some reason \<Rightarrow> [\<lparr>rf_domain = d, rf_reason = reason\<rparr>]
      | None \<Rightarrow>
          (case map_of (rs_pending st) d of
             Some reason \<Rightarrow> [\<lparr>rf_domain = d, rf_reason = reason\<rparr>]
           | None \<Rightarrow> if map_of (rs_seen st) d = None then [\<lparr>rf_domain = d, rf_reason = RecoveryEvidenceMissing\<rparr>] else []))"

definition recovery_verdict :: "recovery_state \<Rightarrow> string \<times> RecoveryFinding list" where
  "recovery_verdict st =
     (let findings = concat (map (domain_finding st) backup_domains) in
      if list_ex (\<lambda>d. map_of (rs_incidents st) d \<noteq> None) backup_domains then (RecoveryIncident, findings)
      else if length findings > 0 then (RecoveryPending, findings)
      else (RecoveryCompletable, []))"

definition ClassifyBackupRecovery ::
  "lifecycle_env \<Rightarrow> string \<Rightarrow> string \<Rightarrow> BackupObligation list \<Rightarrow> CustodianReceipt list \<Rightarrow> verifier option \<Rightarrow> BackupRecovery" where
  "ClassifyBackupRecovery env operation intentDigest obligations receipts verifier =
     (let result = (\<lambda>(status, findings). \<lparr>br_profile = ''yukh-transcript-lifecycle-backup-recovery/v0.1'', br_operation = operation,
        br_intent_digest = intentDigest, br_status = status, br_findings = findings\<rparr>) in
      if ValidateOperationReference env operation intentDigest \<noteq> None \<or> length obligations \<noteq> 3 then result (RecoveryCorrupt, [])
      else case obligation_digests env operation intentDigest obligations of
        None \<Rightarrow> result (RecoveryCorrupt, [])
      | Some digests \<Rightarrow>
          (case classify_loop env verifier obligations digests rs_empty receipts of
             Inl findings \<Rightarrow> result (RecoveryCorrupt, findings)
           | Inr st \<Rightarrow> result (recovery_verdict st)))"

text \<open>The receipt of a domain in the map \<^verbatim>\<open>byDomain\<close>: the last one wins; a missing one is the zero value, whose
  validation fails.\<close>

definition by_domain :: "CustodianReceipt list \<Rightarrow> string \<Rightarrow> CustodianReceipt option" where
  "by_domain receipts d = find (\<lambda>r. cr_domain r = d) (rev receipts)"

text \<open>The test of the loop over \<^verbatim>\<open>evidence.Receipts\<close>, for one reference.\<close>

definition reference_ok :: "lifecycle_env \<Rightarrow> CompletionEvidence \<Rightarrow> CustodianReceipt list \<Rightarrow> ReceiptEvidence \<Rightarrow> bool" where
  "reference_ok env evidence receipts ref =
     (case by_domain receipts (re_domain ref) of None \<Rightarrow> False | Some r \<Rightarrow>
      case CanonicalCustodianReceipt env r of Inl e \<Rightarrow> False | Inr (_, digest, _) \<Rightarrow>
        cr_receipt_id r = re_receipt_id ref \<and> digest = re_digest ref \<and> cr_operation r = ce_operation evidence \<and>
        cr_intent_digest r = ce_intent_digest evidence \<and> cr_policy_digest r = ce_policy_digest evidence \<and>
        cr_evidence_time r \<le> ce_completed_at evidence)"

definition ValidateCompletionAgainst ::
  "lifecycle_env \<Rightarrow> CompletionEvidence \<Rightarrow> BackupObligation list \<Rightarrow> CustodianReceipt list \<Rightarrow> verifier option \<Rightarrow> lc_error option" where
  "ValidateCompletionAgainst env evidence obligations receipts verifier =
     (if ValidateCompletionEvidence env evidence \<noteq> None then Some LInvalidContract
      else if br_status (ClassifyBackupRecovery env (ce_operation evidence) (ce_intent_digest evidence) obligations receipts verifier)
        \<noteq> RecoveryCompletable then Some LConflict
      else if list_all (reference_ok env evidence receipts) (ce_receipts evidence)
      then None else Some LConflict)"

section \<open>What the loop maintains\<close>

definition rs_ok :: "recovery_state \<Rightarrow> bool" where
  "rs_ok st \<longleftrightarrow> (\<forall>d reason. map_of (rs_incidents st) d = Some reason \<longrightarrow>
       reason \<in> {RecoveryReceiptFailed, RecoveryDeadlineMissed, RecoveryContradictoryEvidence}) \<and>
     (\<forall>d reason. map_of (rs_pending st) d = Some reason \<longrightarrow> reason = RecoveryVerificationUnavailable)"

lemma rs_ok_update:
  "rs_ok (st\<lparr>rs_ids := ids\<rparr>) = rs_ok st"
  "rs_ok st \<Longrightarrow> rs_ok (st\<lparr>rs_ids := ids, rs_pending := AList.update d RecoveryVerificationUnavailable (rs_pending st)\<rparr>)"
  by (auto simp: rs_ok_def)

lemma note_receipt_rs:
  "rs_ok st \<Longrightarrow> rs_ok (note_receipt env b st r)"
  "map_of (rs_incidents st) d \<noteq> None \<Longrightarrow> map_of (rs_incidents (note_receipt env b st r)) d \<noteq> None"
  "rs_pending (note_receipt env b st r) = rs_pending st"
  by (auto simp: note_receipt_def Let_def rs_ok_def split: option.split)

text \<open>The outcomes of a turn that goes on: the receipt is put off or taken into account.\<close>

lemma classify_receipt_cases:
  assumes "classify_receipt env v obs ds st r = Inr st'"
  obtains (put_off) "st' = st\<lparr>rs_ids := AList.update (cr_receipt_id r) (cr_domain r) (rs_ids st),
        rs_pending := AList.update (cr_domain r) RecoveryVerificationUnavailable (rs_pending st)\<rparr>"
    | (verified) "st' = note_receipt env (obs ! indexDomain (cr_domain r))
          (st\<lparr>rs_ids := AList.update (cr_receipt_id r) (cr_domain r) (rs_ids st)\<rparr>) r"
        "ValidateCustodianReceiptSignature env v r = None" "validBackupDomain (cr_domain r)"
        "ValidateReceiptObligation env r (obs ! indexDomain (cr_domain r)) (the (map_of ds (cr_domain r))) = None"
  using assms by (auto simp: classify_receipt_def Let_def split: if_splits option.splits)

lemma classify_receipt_Inr:
  assumes "classify_receipt env v obs ds st r = Inr st'"
  shows "rs_ok st \<Longrightarrow> rs_ok st'"
    and "map_of (rs_incidents st) d \<noteq> None \<Longrightarrow> map_of (rs_incidents st') d \<noteq> None"
    and "map_of (rs_pending st) d \<noteq> None \<Longrightarrow> map_of (rs_pending st') d \<noteq> None"
proof -
  show "rs_ok st \<Longrightarrow> rs_ok st'"
    using assms by (cases rule: classify_receipt_cases) (simp_all add: rs_ok_update note_receipt_rs(1))
  show "map_of (rs_incidents st) d \<noteq> None \<Longrightarrow> map_of (rs_incidents st') d \<noteq> None"
    using assms by (cases rule: classify_receipt_cases) (simp_all add: note_receipt_rs(2))
  show "map_of (rs_pending st) d \<noteq> None \<Longrightarrow> map_of (rs_pending st') d \<noteq> None"
    using assms by (cases rule: classify_receipt_cases) (simp_all add: note_receipt_rs(3))
qed

lemma classify_receipt_Inl:
  "classify_receipt env v obs ds st r = Inl fs \<Longrightarrow>
     fs = [] \<or> (\<exists>d. validBackupDomain d \<and> fs = [\<lparr>rf_domain = d, rf_reason = RecoveryInvalidEvidence\<rparr>])"
  by (auto simp: classify_receipt_def Let_def split: if_splits option.splits)

lemma classify_loop_Inl:
  "classify_loop env v obs ds st rs = Inl fs \<Longrightarrow>
     fs = [] \<or> (\<exists>d. validBackupDomain d \<and> fs = [\<lparr>rf_domain = d, rf_reason = RecoveryInvalidEvidence\<rparr>])"
  by (induction rs arbitrary: st) (auto split: sum.splits dest: classify_receipt_Inl)

lemma classify_loop_ok: "classify_loop env v obs ds st rs = Inr st' \<Longrightarrow> rs_ok st \<Longrightarrow> rs_ok st'"
  by (induction rs arbitrary: st) (auto split: sum.splits dest: classify_receipt_Inr(1))

lemma classify_loop_incidents:
  "classify_loop env v obs ds st rs = Inr st' \<Longrightarrow> map_of (rs_incidents st) d \<noteq> None \<Longrightarrow> map_of (rs_incidents st') d \<noteq> None"
  by (induction rs arbitrary: st) (auto split: sum.splits dest: classify_receipt_Inr(2))

lemma classify_loop_pending:
  "classify_loop env v obs ds st rs = Inr st' \<Longrightarrow> map_of (rs_pending st) d \<noteq> None \<Longrightarrow> map_of (rs_pending st') d \<noteq> None"
  by (induction rs arbitrary: st) (auto split: sum.splits dest: classify_receipt_Inr(3))

lemma classify_loop_append:
  "classify_loop env v obs ds st (rs @ rs') =
     (case classify_loop env v obs ds st rs of Inl fs \<Rightarrow> Inl fs | Inr st' \<Rightarrow> classify_loop env v obs ds st' rs')"
  by (induction rs arbitrary: st) (auto split: sum.splits)

lemma rs_ok_empty [simp]: "rs_ok rs_empty"
  by (simp add: rs_ok_def rs_empty_def)

lemma domain_finding_cases:
  assumes "rs_ok st"
  obtains (none) "domain_finding st d = []" "map_of (rs_incidents st) d = None" "map_of (rs_seen st) d \<noteq> None" "map_of (rs_pending st) d = None"
    | (incident) reason where "domain_finding st d = [\<lparr>rf_domain = d, rf_reason = reason\<rparr>]" "map_of (rs_incidents st) d \<noteq> None"
        "reason \<in> {RecoveryReceiptFailed, RecoveryDeadlineMissed, RecoveryContradictoryEvidence}"
    | (pending) reason where "domain_finding st d = [\<lparr>rf_domain = d, rf_reason = reason\<rparr>]" "map_of (rs_incidents st) d = None"
        "reason \<in> {RecoveryEvidenceMissing, RecoveryVerificationUnavailable}"
proof (cases "map_of (rs_incidents st) d")
  case None
  show ?thesis
  proof (cases "map_of (rs_pending st) d")
    case (Some reason)
    then have "reason = RecoveryVerificationUnavailable" using assms by (auto simp: rs_ok_def)
    then show ?thesis using pending None Some by (simp add: domain_finding_def)
  qed (use none pending None in \<open>cases "map_of (rs_seen st) d"; simp add: domain_finding_def\<close>)
next
  case (Some reason)
  then show ?thesis using assms incident by (auto simp: domain_finding_def rs_ok_def)
qed

text \<open>The reasons a status allows.\<close>

definition allowed :: "string \<Rightarrow> string \<Rightarrow> bool" where
  "allowed status reason \<longleftrightarrow> reason \<in> {RecoveryEvidenceMissing, RecoveryVerificationUnavailable, RecoveryReceiptFailed,
       RecoveryDeadlineMissed, RecoveryContradictoryEvidence, RecoveryInvalidEvidence} \<and>
     \<not> (status = RecoveryPending \<and> reason \<noteq> RecoveryEvidenceMissing \<and> reason \<noteq> RecoveryVerificationUnavailable \<or>
       status = RecoveryIncident \<and> reason = RecoveryInvalidEvidence \<or>
       status = RecoveryCorrupt \<and> reason \<noteq> RecoveryInvalidEvidence \<and> reason \<noteq> RecoveryContradictoryEvidence)"

definition one_finding :: "string \<Rightarrow> string \<Rightarrow> RecoveryFinding list \<Rightarrow> bool" where
  "one_finding status d fs \<longleftrightarrow> fs = [] \<or> (\<exists>reason. fs = [\<lparr>rf_domain = d, rf_reason = reason\<rparr>] \<and> allowed status reason)"

lemma findings_ok_Cons:
  "findings_ok status l (\<lparr>rf_domain = d, rf_reason = reason\<rparr> # fs) \<longleftrightarrow>
     validBackupDomain d \<and> l < int (indexDomain d) \<and> allowed status reason \<and> findings_ok status (int (indexDomain d)) fs"
proof -
  have shape: "(if \<not> v \<or> \<not> r \<or> i \<le> l then False else if bad then False else rest) \<longleftrightarrow> v \<and> l < i \<and> (r \<and> \<not> bad) \<and> rest"
    for v r bad rest and i :: int by (cases "i \<le> l"; cases v; cases r; cases bad; simp)
  show ?thesis unfolding findings_ok.simps Let_def RecoveryFinding.select_convs allowed_def by (rule shape)
qed

lemma indexDomain_values:
  "indexDomain EventBackupDomain = 0" "indexDomain IdentityBackupDomain = 1" "indexDomain AuditBackupDomain = 2"
  "validBackupDomain EventBackupDomain" "validBackupDomain IdentityBackupDomain" "validBackupDomain AuditBackupDomain"
  by (simp_all add: indexDomain_def validBackupDomain_def)

lemma three_findings:
  assumes "one_finding status EventBackupDomain a" "one_finding status IdentityBackupDomain b" "one_finding status AuditBackupDomain c"
  shows "findings_ok status (- 1) (a @ b @ c) \<and> length (a @ b @ c) \<le> 3"
  using assms unfolding one_finding_def
  by (elim disjE exE conjE; simp add: findings_ok_Cons indexDomain_values del: findings_ok.simps(2))

lemma domain_finding_one:
  assumes "rs_ok st"
  shows "one_finding RecoveryIncident d (domain_finding st d)"
    and "map_of (rs_incidents st) d = None \<Longrightarrow> one_finding RecoveryPending d (domain_finding st d)"
  by (rule domain_finding_cases [OF assms, of d]; auto simp: one_finding_def allowed_def)+

lemma verdict_findings:
  assumes ok: "rs_ok st" and v: "recovery_verdict st = (status, fs)"
  shows "findings_ok status (- 1) fs \<and> length fs \<le> 3"
    "status = RecoveryCompletable \<and> fs = [] \<or> status = RecoveryPending \<and> fs \<noteq> [] \<or> status = RecoveryIncident \<and> fs \<noteq> [] \<and>
       list_ex (\<lambda>f. rf_reason f \<in> {RecoveryReceiptFailed, RecoveryDeadlineMissed, RecoveryContradictoryEvidence}) fs"
proof -
  have fs: "concat (map (domain_finding st) backup_domains) =
      domain_finding st EventBackupDomain @ domain_finding st IdentityBackupDomain @ domain_finding st AuditBackupDomain"
    by (simp add: backup_domains_def)
  consider (incident) d where "d \<in> set backup_domains" "map_of (rs_incidents st) d \<noteq> None" "status = RecoveryIncident"
      "fs = concat (map (domain_finding st) backup_domains)"
    | (pending) "\<forall>d \<in> set backup_domains. map_of (rs_incidents st) d = None" "status = RecoveryPending" "fs \<noteq> []"
      "fs = concat (map (domain_finding st) backup_domains)"
    | (completable) "status = RecoveryCompletable" "fs = []"
    using v unfolding recovery_verdict_def Let_def list_ex_iff by (auto split: if_splits)
  then have "(findings_ok status (- 1) fs \<and> length fs \<le> 3) \<and> (status = RecoveryCompletable \<and> fs = [] \<or> status = RecoveryPending \<and> fs \<noteq> [] \<or>
      status = RecoveryIncident \<and> fs \<noteq> [] \<and>
       list_ex (\<lambda>f. rf_reason f \<in> {RecoveryReceiptFailed, RecoveryDeadlineMissed, RecoveryContradictoryEvidence}) fs)"
  proof cases
    case incident
    obtain reason where "domain_finding st d = [\<lparr>rf_domain = d, rf_reason = reason\<rparr>]"
        "reason \<in> {RecoveryReceiptFailed, RecoveryDeadlineMissed, RecoveryContradictoryEvidence}"
      by (rule domain_finding_cases [OF ok, of d]) (use incident(2) in auto)
    then have "\<exists>f \<in> set fs. rf_reason f \<in> {RecoveryReceiptFailed, RecoveryDeadlineMissed, RecoveryContradictoryEvidence}"
      using incident(1,4) by force
    moreover have "findings_ok status (- 1) fs \<and> length fs \<le> 3"
      unfolding incident(3,4) fs by (intro three_findings domain_finding_one(1) [OF ok])
    ultimately show ?thesis using incident(3) by (auto simp: list_ex_iff)
  next
    case pending
    have "findings_ok status (- 1) fs \<and> length fs \<le> 3"
      unfolding pending(2,4) fs by (intro three_findings domain_finding_one(2) [OF ok]) (use pending(1) in \<open>auto simp: backup_domains_def\<close>)
    then show ?thesis using pending by simp
  qed simp
  then show "findings_ok status (- 1) fs \<and> length fs \<le> 3"
    "status = RecoveryCompletable \<and> fs = [] \<or> status = RecoveryPending \<and> fs \<noteq> [] \<or> status = RecoveryIncident \<and> fs \<noteq> [] \<and>
       list_ex (\<lambda>f. rf_reason f \<in> {RecoveryReceiptFailed, RecoveryDeadlineMissed, RecoveryContradictoryEvidence}) fs" by simp_all
qed

text \<open>
  C16: a classification is well formed. Whatever obligations, receipts and verifier are given, the recovery that is
  computed for a valid reference passes its own validation: a closed status, at most three findings in the order of
  the domains, and only reasons that the status allows.
\<close>

theorem classification_wellformed:
  assumes "ValidateOperationReference env operation intentDigest = None"
  shows "ValidateBackupRecovery env (ClassifyBackupRecovery env operation intentDigest obligations receipts verifier) = None"
proof -
  have corrupt: "ValidateBackupRecovery env \<lparr>br_profile = ''yukh-transcript-lifecycle-backup-recovery/v0.1'', br_operation = operation,
      br_intent_digest = intentDigest, br_status = RecoveryCorrupt, br_findings = fs\<rparr> = None"
    if "fs = [] \<or> (\<exists>d. validBackupDomain d \<and> fs = [\<lparr>rf_domain = d, rf_reason = RecoveryInvalidEvidence\<rparr>])" for fs
    using assms that by (auto simp: ValidateBackupRecovery_def)
  show ?thesis
  proof (cases "length obligations = 3 \<and> obligation_digests env operation intentDigest obligations \<noteq> None")
    case False
    then show ?thesis using corrupt by (auto simp: ClassifyBackupRecovery_def Let_def split: option.split)
  next
    case True
    then obtain ds where ds: "length obligations = 3" "obligation_digests env operation intentDigest obligations = Some ds" by auto
    show ?thesis
    proof (cases "classify_loop env verifier obligations ds rs_empty receipts")
      case (Inl fs)
      then show ?thesis using corrupt classify_loop_Inl [OF Inl] ds assms by (simp add: ClassifyBackupRecovery_def)
    next
      case (Inr st)
      obtain status fs where v: "recovery_verdict st = (status, fs)" by (cases "recovery_verdict st")
      then show ?thesis
        using verdict_findings [OF classify_loop_ok [OF Inr] v] ds assms Inr
        by (auto simp: ClassifyBackupRecovery_def ValidateBackupRecovery_def)
    qed
  qed
qed

section \<open>What a completion rests on\<close>

text \<open>A receipt that the loop took into account: bound to the obligation of its domain and signed by its custodian.\<close>

definition accountable ::
  "lifecycle_env \<Rightarrow> verifier option \<Rightarrow> BackupObligation list \<Rightarrow> (string, string) gomap \<Rightarrow> CustodianReceipt \<Rightarrow> bool" where
  "accountable env v obs ds r \<longleftrightarrow> validBackupDomain (cr_domain r) \<and> ValidateCustodianReceiptSignature env v r = None \<and>
     ValidateReceiptObligation env r (obs ! indexDomain (cr_domain r)) (the (map_of ds (cr_domain r))) = None"

text \<open>What a domain without incident and without suspended receipt promises after a list of receipts: the remembered
  receipt reports a timely success and all the others repeat it.\<close>

definition timely :: "BackupObligation list \<Rightarrow> CustodianReceipt \<Rightarrow> bool" where
  "timely obs p \<longleftrightarrow> cr_outcome p \<noteq> BackupFailed \<and>
     (cr_outcome p = BackupSucceeded \<longrightarrow> cr_evidence_time p \<le> bo_deadline (obs ! indexDomain (cr_domain p)))"

definition domain_sound ::
  "lifecycle_env \<Rightarrow> verifier option \<Rightarrow> BackupObligation list \<Rightarrow> (string, string) gomap \<Rightarrow> CustodianReceipt option \<Rightarrow>
     CustodianReceipt list \<Rightarrow> string \<Rightarrow> bool" where
  "domain_sound env v obs ds seen rs d \<longleftrightarrow>
     (\<forall>p. seen = Some p \<longrightarrow> p \<in> set rs \<and> cr_domain p = d \<and> accountable env v obs ds p \<and> timely obs p) \<and>
     (\<forall>r \<in> set rs. cr_domain r = d \<longrightarrow> accountable env v obs ds r \<and>
        (\<exists>p. seen = Some p \<and> (r = p \<or> ValidateCustodianReceiptRetry env p r = None)))"

definition rs_sound ::
  "lifecycle_env \<Rightarrow> verifier option \<Rightarrow> BackupObligation list \<Rightarrow> (string, string) gomap \<Rightarrow> recovery_state \<Rightarrow> CustodianReceipt list
     \<Rightarrow> bool" where
  "rs_sound env v obs ds st rs \<longleftrightarrow> (\<forall>d. map_of (rs_incidents st) d = None \<longrightarrow> map_of (rs_pending st) d = None \<longrightarrow>
     domain_sound env v obs ds (map_of (rs_seen st) d) rs d)"

lemma domain_sound_snoc:
  assumes "domain_sound env v obs ds seen rs d"
  shows "cr_domain r \<noteq> d \<Longrightarrow> domain_sound env v obs ds seen (rs @ [r]) d"
    and "seen = Some p \<Longrightarrow> ValidateCustodianReceiptRetry env p r = None \<Longrightarrow> accountable env v obs ds r \<Longrightarrow>
      domain_sound env v obs ds seen (rs @ [r]) d"
    and "seen = None \<Longrightarrow> cr_domain r = d \<Longrightarrow> accountable env v obs ds r \<Longrightarrow> timely obs r \<Longrightarrow>
      domain_sound env v obs ds (Some r) (rs @ [r]) d"
  using assms unfolding domain_sound_def by auto

lemma rs_sound_empty: "rs_sound env v obs ds rs_empty []"
  by (simp add: rs_sound_def rs_empty_def domain_sound_def)

lemma rs_sound_put_off:
  assumes "rs_sound env v obs ds st rs"
  shows "rs_sound env v obs ds (st\<lparr>rs_ids := ids, rs_pending := AList.update (cr_domain r) reason (rs_pending st)\<rparr>) (rs @ [r])"
  using assms unfolding rs_sound_def by (auto simp: update_conv' intro: domain_sound_snoc(1))

lemma note_receipt_cases:
  assumes "map_of (rs_incidents (note_receipt env b st r)) d = None"
  obtains (again) p where "cr_domain r = d" "map_of (rs_seen st) d = Some p" "ValidateCustodianReceiptRetry env p r = None"
      "note_receipt env b st r = st"
    | (first) "cr_domain r = d" "map_of (rs_seen st) d = None" "map_of (rs_seen (note_receipt env b st r)) d = Some r"
      "cr_outcome r \<noteq> BackupFailed" "cr_outcome r = BackupSucceeded \<Longrightarrow> cr_evidence_time r \<le> bo_deadline b"
    | (other) "cr_domain r \<noteq> d" "map_of (rs_seen (note_receipt env b st r)) d = map_of (rs_seen st) d"
      "map_of (rs_incidents st) d = None"
proof (cases "cr_domain r = d")
  case True
  show ?thesis
  proof (cases "map_of (rs_seen st) d")
    case None
    then have "map_of (rs_seen (note_receipt env b st r)) d = Some r" "cr_outcome r \<noteq> BackupFailed"
      "cr_outcome r = BackupSucceeded \<Longrightarrow> cr_evidence_time r \<le> bo_deadline b"
      using assms True by (auto simp: note_receipt_def Let_def update_conv' split: if_splits)
    then show ?thesis using first True None by simp
  next
    case (Some p)
    then show ?thesis using assms True again [OF True Some]
      by (auto simp: note_receipt_def Let_def update_conv' split: if_splits)
  qed
next
  case False
  then have "map_of (rs_seen (note_receipt env b st r)) d = map_of (rs_seen st) d"
    "map_of (rs_incidents (note_receipt env b st r)) d = map_of (rs_incidents st) d"
    by (auto simp: note_receipt_def Let_def update_conv' split: option.split)
  then show ?thesis using other False assms by simp
qed

lemma rs_sound_note:
  assumes "rs_sound env v obs ds st rs" "accountable env v obs ds r"
  shows "rs_sound env v obs ds (note_receipt env (obs ! indexDomain (cr_domain r)) st r) (rs @ [r])"
  unfolding rs_sound_def
proof (intro allI impI)
  let ?st = "note_receipt env (obs ! indexDomain (cr_domain r)) st r"
  fix d
  assume none: "map_of (rs_incidents ?st) d = None" "map_of (rs_pending ?st) d = None"
  have "map_of (rs_incidents st) d = None" "map_of (rs_pending st) d = None"
    using none note_receipt_rs(2) [of st d] by (metis, simp add: note_receipt_rs(3))
  then have sound: "domain_sound env v obs ds (map_of (rs_seen st) d) rs d" using assms(1) by (simp add: rs_sound_def)
  from none(1) show "domain_sound env v obs ds (map_of (rs_seen ?st) d) (rs @ [r]) d"
  proof (cases rule: note_receipt_cases)
    case (again p)
    then show ?thesis using domain_sound_snoc(2) [OF sound] assms(2) by simp
  next
    case first
    then show ?thesis using domain_sound_snoc(3) [OF sound] assms(2) by (simp add: timely_def)
  next
    case other
    then show ?thesis using domain_sound_snoc(1) [OF sound] by simp
  qed
qed

lemma classify_loop_sound:
  "classify_loop env v obs ds st rs' = Inr st' \<Longrightarrow> rs_sound env v obs ds st rs \<Longrightarrow> rs_sound env v obs ds st' (rs @ rs')"
proof (induction rs' arbitrary: st rs)
  case (Cons r rs')
  then obtain st1 where st1: "classify_receipt env v obs ds st r = Inr st1" "classify_loop env v obs ds st1 rs' = Inr st'"
    by (auto split: sum.splits)
  have "rs_sound env v obs ds st1 (rs @ [r])"
    using st1(1)
  proof (cases rule: classify_receipt_cases)
    case put_off
    then show ?thesis using rs_sound_put_off Cons.prems(2) by simp
  next
    case verified
    have "rs_sound env v obs ds (st\<lparr>rs_ids := ids\<rparr>) rs" for ids using Cons.prems(2) by (simp add: rs_sound_def)
    then show ?thesis using verified rs_sound_note by (simp add: accountable_def)
  qed
  then show ?case using Cons.IH [OF st1(2)] by fastforce
qed simp

lemma completable_state:
  assumes "br_status (ClassifyBackupRecovery env operation intentDigest obs rs v) = RecoveryCompletable"
  obtains ds st where "obligation_digests env operation intentDigest obs = Some ds" "rs_sound env v obs ds st rs"
    "\<And>d. d \<in> set backup_domains \<Longrightarrow> map_of (rs_incidents st) d = None \<and> map_of (rs_pending st) d = None \<and> map_of (rs_seen st) d \<noteq> None"
proof -
  obtain ds st where ds: "obligation_digests env operation intentDigest obs = Some ds"
    and st: "classify_loop env v obs ds rs_empty rs = Inr st" and verdict: "fst (recovery_verdict st) = RecoveryCompletable"
    using assms by (auto simp: ClassifyBackupRecovery_def Let_def split_beta split: if_splits option.splits sum.splits)
  have "rs_sound env v obs ds st rs" using classify_loop_sound [OF st rs_sound_empty] by simp
  moreover have "map_of (rs_incidents st) d = None \<and> map_of (rs_pending st) d = None \<and> map_of (rs_seen st) d \<noteq> None"
    if d: "d \<in> set backup_domains" for d
  proof -
    have "domain_finding st d = []" "map_of (rs_incidents st) d = None"
      using verdict d unfolding recovery_verdict_def Let_def list_ex_iff by (auto split: if_splits)
    then show ?thesis by (auto simp: domain_finding_def split: option.splits if_splits)
  qed
  ultimately show ?thesis using that ds by blast
qed

lemma obligation_digests_nth:
  assumes "obligation_digests env operation intentDigest obs = Some ds" "i < 3"
  shows "bo_domain (obs ! i) = backup_domains ! i" "indexDomain (backup_domains ! i) = i" "backup_domains ! i \<in> set backup_domains"
    and "map_of ds (backup_domains ! i) = Some (snd (projr (CanonicalBackupObligation env (obs ! i))))"
proof -
  have len: "length backup_domains = 3" by (simp add: backup_domains_def)
  have all: "list_all2 (\<lambda>b want. bo_domain b = want) obs backup_domains"
    and ds: "ds = map (\<lambda>b. (bo_domain b, snd (projr (CanonicalBackupObligation env b)))) obs"
    using assms(1) by (auto simp: obligation_digests_def split: if_splits elim: list_all2_mono)
  show dom: "bo_domain (obs ! i) = backup_domains ! i" using all assms(2) len by (simp add: list_all2_conv_all_nth)
  show "indexDomain (backup_domains ! i) = i" "backup_domains ! i \<in> set backup_domains"
    using assms(2) by (auto simp: less_Suc_eq numeral_3_eq_3 backup_domains_def indexDomain_def)
  have "map fst ds = backup_domains"
    using all len unfolding ds by (intro nth_equalityI) (auto simp: list_all2_conv_all_nth)
  moreover have "distinct backup_domains" by (simp add: backup_domains_def)
  ultimately have "map_of ds (fst (ds ! i)) = Some (snd (ds ! i))"
    using assms(2) len by (metis length_map map_of_eq_Some_iff nth_mem prod.collapse)
  then show "map_of ds (backup_domains ! i) = Some (snd (projr (CanonicalBackupObligation env (obs ! i))))"
    using dom assms(2) all len by (simp add: ds list_all2_lengthD)
qed

text \<open>The reference of a completion and the last receipt of its domain.\<close>

lemma completion_reference:
  assumes "ValidateCompletionAgainst env evidence obs rs v = None" "i < 3"
  obtains r body signing where "re_domain (ce_receipts evidence ! i) = backup_domains ! i" "r \<in> set rs" "cr_domain r = backup_domains ! i"
    "CanonicalCustodianReceipt env r = Inr (body, re_digest (ce_receipts evidence ! i), signing)"
    "cr_receipt_id r = re_receipt_id (ce_receipts evidence ! i)"
proof -
  let ?ref = "ce_receipts evidence ! i"
  have len: "length (ce_receipts evidence) = 3" and dom: "re_domain ?ref = backup_domains ! i"
    using assms by (auto simp: ValidateCompletionAgainst_def ValidateCompletionEvidence_def list_all2_conv_all_nth split: if_splits)
  then have "?ref \<in> set (ce_receipts evidence)" using assms(2) by simp
  then have "reference_ok env evidence rs ?ref"
    using assms(1) by (auto simp: ValidateCompletionAgainst_def list_all_iff split: if_splits)
  then obtain r body signing where r: "by_domain rs (re_domain ?ref) = Some r"
      "CanonicalCustodianReceipt env r = Inr (body, re_digest ?ref, signing)" "cr_receipt_id r = re_receipt_id ?ref"
    by (auto simp: reference_ok_def split: option.splits sum.splits)
  then have "r \<in> set rs" "cr_domain r = backup_domains ! i"
    using dom nth_mem [of _ "rev rs"] by (auto simp: by_domain_def find_Some_iff)
  then show ?thesis using that dom r by blast
qed

lemma receipt_retry_digest:
  "ValidateCustodianReceiptRetry env p r = None \<Longrightarrow> CanonicalCustodianReceipt env r = Inr (body, digest, signing) \<Longrightarrow>
     cr_receipt_id p = cr_receipt_id r \<and> (\<exists>body signing. CanonicalCustodianReceipt env p = Inr (body, digest, signing))"
  "ValidateCustodianReceiptRetry env p r = None \<Longrightarrow> CanonicalCustodianReceipt env p = Inr (body, digest, signing) \<Longrightarrow>
     cr_receipt_id p = cr_receipt_id r \<and> (\<exists>body signing. CanonicalCustodianReceipt env r = Inr (body, digest, signing))"
  by (auto simp: ValidateCustodianReceiptRetry_def split: sum.splits if_splits)

text \<open>
  C15: a completion rests on timely, verified evidence. When the validation of a completion succeeds, each of the
  three domains has a receipt that its custodian signed, that is bound to the digest of the domain's obligation,
  reports success no later than the deadline, and has the id and the digest which the completion cites; and no
  receipt of the domain contradicts it.
\<close>

theorem completion_sound:
  assumes "ValidateCompletionAgainst env evidence obs rs v = None" "i < 3"
  shows "(\<exists>r \<in> set rs. cr_domain r = backup_domains ! i \<and> cr_outcome r = BackupSucceeded \<and>
        cr_evidence_time r \<le> bo_deadline (obs ! i) \<and> ValidateCustodianReceiptSignature env v r = None \<and>
        cr_obligation_digest r = snd (projr (CanonicalBackupObligation env (obs ! i))) \<and>
        cr_backup_digest r = bo_binding_digest (obs ! i)) \<and>
     (\<forall>r \<in> set rs. cr_domain r = backup_domains ! i \<longrightarrow> ValidateCustodianReceiptSignature env v r = None \<and>
        cr_receipt_id r = re_receipt_id (ce_receipts evidence ! i) \<and>
        (\<exists>body signing. CanonicalCustodianReceipt env r = Inr (body, re_digest (ce_receipts evidence ! i), signing)))"
proof -
  let ?d = "backup_domains ! i"
  have "br_status (ClassifyBackupRecovery env (ce_operation evidence) (ce_intent_digest evidence) obs rs v) = RecoveryCompletable"
    using assms(1) by (auto simp: ValidateCompletionAgainst_def split: if_splits)
  then obtain ds st where ds: "obligation_digests env (ce_operation evidence) (ce_intent_digest evidence) obs = Some ds"
    and st: "rs_sound env v obs ds st rs"
      "\<And>d. d \<in> set backup_domains \<Longrightarrow> map_of (rs_incidents st) d = None \<and> map_of (rs_pending st) d = None \<and> map_of (rs_seen st) d \<noteq> None"
    by (rule completable_state) blast
  note nth = obligation_digests_nth [OF ds assms(2)]
  from st(2) [OF nth(3)] obtain p where p: "map_of (rs_seen st) ?d = Some p" by auto
  have sound: "domain_sound env v obs ds (Some p) rs ?d" using st p nth(3) unfolding rs_sound_def by metis
  obtain r body signing where r: "r \<in> set rs" "cr_domain r = ?d" "cr_receipt_id r = re_receipt_id (ce_receipts evidence ! i)"
      "CanonicalCustodianReceipt env r = Inr (body, re_digest (ce_receipts evidence ! i), signing)"
    by (rule completion_reference [OF assms]) blast
  have cited: "cr_receipt_id p = re_receipt_id (ce_receipts evidence ! i)"
      "\<exists>body signing. CanonicalCustodianReceipt env p = Inr (body, re_digest (ce_receipts evidence ! i), signing)"
    using sound r receipt_retry_digest(1) [OF _ r(4)] unfolding domain_sound_def by (metis option.inject)+
  have "p \<in> set rs" "cr_domain p = ?d" and acc: "accountable env v obs ds p" "timely obs p"
    using sound by (auto simp: domain_sound_def)
  then have bound: "ValidateReceiptObligation env p (obs ! i) (snd (projr (CanonicalBackupObligation env (obs ! i)))) = None"
    using nth by (simp add: accountable_def)
  then have "cr_outcome p = BackupSucceeded"
    using acc(2) by (auto simp: ValidateReceiptObligation_def ValidateCustodianReceipt_def timely_def split: if_splits)
  moreover have "ValidateCustodianReceiptSignature env v r' = None \<and>
        cr_receipt_id r' = re_receipt_id (ce_receipts evidence ! i) \<and>
        (\<exists>body signing. CanonicalCustodianReceipt env r' = Inr (body, re_digest (ce_receipts evidence ! i), signing))"
    if "r' \<in> set rs" "cr_domain r' = ?d" for r'
    using sound that cited receipt_retry_digest(2) unfolding domain_sound_def accountable_def by (metis option.inject)
  ultimately show ?thesis
    using \<open>p \<in> set rs\<close> \<open>cr_domain p = ?d\<close> acc bound nth
    by (intro conjI bexI [of _ p]) (auto simp: accountable_def timely_def ValidateReceiptObligation_def split: if_splits)
qed

text \<open>
  An incident is permanent. Once the receipts of an operation establish an incident, no further receipts make
  the operation completable: a completion validated against the longer list is refused.
\<close>

theorem incident_permanent:
  assumes "br_status (ClassifyBackupRecovery env (ce_operation evidence) (ce_intent_digest evidence) obs rs v) = RecoveryIncident"
  shows "ValidateCompletionAgainst env evidence obs (rs @ rs') v \<noteq> None"
proof
  assume "ValidateCompletionAgainst env evidence obs (rs @ rs') v = None"
  then have "br_status (ClassifyBackupRecovery env (ce_operation evidence) (ce_intent_digest evidence) obs (rs @ rs') v)
      = RecoveryCompletable"
    by (auto simp: ValidateCompletionAgainst_def split: if_splits)
  then obtain ds st' where ds: "obligation_digests env (ce_operation evidence) (ce_intent_digest evidence) obs = Some ds"
    and st': "classify_loop env v obs ds rs_empty (rs @ rs') = Inr st'" "fst (recovery_verdict st') = RecoveryCompletable"
    by (auto simp: ClassifyBackupRecovery_def Let_def split_beta split: if_splits option.splits sum.splits)
  from st'(1) obtain st where st: "classify_loop env v obs ds rs_empty rs = Inr st" "classify_loop env v obs ds st rs' = Inr st'"
    by (auto simp: classify_loop_append split: sum.splits)
  with assms ds have "fst (recovery_verdict st) = RecoveryIncident"
    by (auto simp: ClassifyBackupRecovery_def Let_def split_beta split: if_splits)
  then obtain d where d: "d \<in> set backup_domains" "map_of (rs_incidents st) d \<noteq> None"
    unfolding recovery_verdict_def Let_def list_ex_iff by (auto split: if_splits)
  then have "map_of (rs_incidents st') d \<noteq> None" using classify_loop_incidents [OF st(2)] by blast
  then show False using st'(2) d(1) unfolding recovery_verdict_def Let_def list_ex_iff by (auto split: if_splits)
qed

section \<open>An operation with its evidence\<close>

text \<open>Environments that accept every identifier and encode a document other than an intent by its type, or by the domain of the
  backup it is about; only the empty input is not canonicalised.\<close>

fun ex_Marshal :: "lc_value \<Rightarrow> bytes" where
  "ex_Marshal (VIntent _) = [1]"
| "ex_Marshal (VMarker _) = [2]"
| "ex_Marshal (VReceipt _) = [3]"
| "ex_Marshal (VPolicy _) = [4]"
| "ex_Marshal (VUnsignedPolicy _) = [4]"
| "ex_Marshal (VObligation v) = str_bytes (bo_domain v)"
| "ex_Marshal (VObligationSet _) = [5]"
| "ex_Marshal (VCustodian v) = str_bytes (cr_domain v)"
| "ex_Marshal (VUnsignedCustodian v) = str_bytes (cr_domain v)"
| "ex_Marshal (VCompletion _) = [6]"

definition ex_like :: "lifecycle_env \<Rightarrow> bool" where
  "ex_like env \<longleftrightarrow> le_Parse env = (\<lambda>s. Some (7, s)) \<and> le_Transform env = (\<lambda>b. if b = [] then None else Some b) \<and>
     (\<forall>v. (\<forall>i. v \<noteq> VIntent i) \<longrightarrow> le_Marshal env v = ex_Marshal v)"

definition ex_lc :: lifecycle_env where
  "ex_lc = \<lparr>le_Parse = \<lambda>s. Some (7, s), le_Transform = \<lambda>b. if b = [] then None else Some b, le_Marshal = ex_Marshal, le_intent = \<lambda>_. None, le_marker = \<lambda>_. None,
     le_receipt = \<lambda>_. None, le_strict_marker = \<lambda>_. None, le_strict_receipt = \<lambda>_. None, le_obligation = \<lambda>_. None,
     le_obligation_set = \<lambda>_. None, le_custodian = \<lambda>_. None, le_completion = \<lambda>_. None\<rparr>"

lemma ex_lc_like [simp]: "ex_like ex_lc"
  by (simp add: ex_lc_def ex_like_def)

lemma ex_like_simps [simp]: "ex_like env \<Longrightarrow> validUUIDv7 env s"
  "ex_like env \<Longrightarrow> (\<forall>i. v \<noteq> VIntent i) \<Longrightarrow> ex_Marshal v \<noteq> [] \<Longrightarrow> canonical env v = Some (ex_Marshal v)"
  by (simp_all add: ex_like_def validUUIDv7_def canonical_def)

definition ex_intent_digest :: string where "ex_intent_digest = lc_digest intentDigestDomain [1]"

definition ex_policy_digest :: string where "ex_policy_digest = lc_digest policyDigestDomain [4]"

definition ex_hash :: string where "ex_hash = ''sha-256:'' @ replicate 64 (CHR ''0'')"

definition ex_deadline :: string where "ex_deadline = layout_text 2026 1 2 0 0 0 0"

definition ex_evidenced :: string where "ex_evidenced = layout_text 2026 1 1 0 0 0 0"

definition ex_obligation :: "string \<Rightarrow> BackupObligation" where
  "ex_obligation d = \<lparr>bo_profile = ''yukh-transcript-backup-obligation/v0.1'', bo_operation = ''op'', bo_intent_digest = ex_intent_digest,
     bo_policy_digest = ex_policy_digest, bo_domain = d, bo_deadline = ex_deadline, bo_binding_kind = ''generation'', bo_binding_digest = ex_hash\<rparr>"

definition ex_receipt :: "string \<Rightarrow> string \<Rightarrow> CustodianReceipt" where
  "ex_receipt outcome d = \<lparr>cr_profile = ''yukh-transcript-backup-custodian-receipt/v0.1'', cr_receipt_id = d,
     cr_obligation_digest = lc_digest backupObligationDigestDomain (str_bytes d), cr_operation = ''op'', cr_intent_digest = ex_intent_digest,
     cr_policy_digest = ex_policy_digest, cr_domain = d, cr_backup_digest = ex_hash, cr_evidence_time = ex_evidenced,
     cr_method = ''generation_retired'', cr_outcome = outcome, cr_custodian = ''a'', cr_key_id = ''k'', cr_algorithm = ''ed25519'',
     cr_signature = base64_encode (replicate 64 0)\<rparr>"

definition ex_completion :: CompletionEvidence where
  "ex_completion = \<lparr>ce_profile = ''yukh-transcript-lifecycle-completion-evidence/v0.1'', ce_operation = ''op'',
     ce_intent_digest = ex_intent_digest, ce_policy_digest = ex_policy_digest,
     ce_receipts = map (\<lambda>d. \<lparr>re_domain = d, re_receipt_id = d, re_digest = lc_digest custodianReceiptDigestDomain (str_bytes d)\<rparr>) backup_domains,
     ce_audit_receipt = ''a'', ce_audit_checkpoint = ''b'', ce_completed_at = ex_deadline\<rparr>"

definition ex_verifier :: "verifier option" where "ex_verifier = Some (\<lambda>_ _ _ _. None)"

lemma ex_times:
  "validTime ex_deadline" "validTime ex_evidenced" "ex_evidenced < ex_deadline"
proof -
  have ok: "fields_ok 2026 1 1 0 0 0 0" "fields_ok 2026 1 2 0 0 0 0"
    by (simp_all add: fields_ok_def daysIn_def month_days_def leap_def)
  show "validTime ex_deadline" "validTime ex_evidenced"
    using validTime_layout [OF ok(1)] validTime_layout [OF ok(2)] by (simp_all add: ex_deadline_def ex_evidenced_def)
  show "ex_evidenced < ex_deadline" using layout_less [OF ok] by (simp add: ex_deadline_def ex_evidenced_def)
qed

lemma lc_digest_pattern [simp]: "lc_digestPattern (lc_digest tag body)"
proof -
  have "set ''abcdef0123456789'' = set ''0123456789abcdef''" by code_simp
  then show ?thesis
    using digestPattern_hex_sha256 [of "str_bytes tag @ body"] unfolding lc_digestPattern_def lc_digest_def digestPattern_def by simp
qed

lemma ex_hash_pattern [simp]: "lc_digestPattern ex_hash" "lc_digestPattern ex_intent_digest" "lc_digestPattern ex_policy_digest"
  by (simp_all add: ex_intent_digest_def ex_policy_digest_def) (simp add: lc_digestPattern_def ex_hash_def list_all_iff)

lemma ex_reference [simp]: "ex_like env \<Longrightarrow> ValidateOperationReference env ''op'' ex_intent_digest = None"
  by (simp add: ValidateOperationReference_def)

lemma domain_bytes [simp]: "validBackupDomain d \<Longrightarrow> str_bytes d \<noteq> []"
  by (auto simp: validBackupDomain_def str_bytes_def)

lemma ex_domains [simp]: "bo_domain (ex_obligation d) = d" "cr_domain (ex_receipt outcome d) = d" "cr_domain (r\<lparr>cr_signature := sg\<rparr>) = cr_domain r"
  by (simp_all add: ex_obligation_def ex_receipt_def)

lemma ex_obligation_ok [simp]:
  assumes "ex_like env" "validBackupDomain d"
  shows "ValidateBackupObligation env (ex_obligation d) = None"
    and "CanonicalBackupObligation env (ex_obligation d) = Inr (str_bytes d, lc_digest backupObligationDigestDomain (str_bytes d))"
proof -
  show v: "ValidateBackupObligation env (ex_obligation d) = None"
    using assms ex_times by (simp add: ValidateBackupObligation_def ex_obligation_def)
  show "CanonicalBackupObligation env (ex_obligation d) = Inr (str_bytes d, lc_digest backupObligationDigestDomain (str_bytes d))"
    using assms by (simp add: CanonicalBackupObligation_def v)
qed

lemma ex_receipt_ok [simp]:
  assumes "ex_like env" "validBackupDomain d" "outcome = BackupSucceeded \<or> outcome = BackupFailed"
  shows "ValidateCustodianReceipt env (ex_receipt outcome d) = None"
    and "CanonicalCustodianReceipt env (ex_receipt outcome d) =
      Inr (str_bytes d, lc_digest custodianReceiptDigestDomain (str_bytes d), str_bytes custodianReceiptSignDomain @ str_bytes d)"
    and "ValidateReceiptObligation env (ex_receipt outcome d) (ex_obligation d) (lc_digest backupObligationDigestDomain (str_bytes d)) = None"
    and "ValidateCustodianReceiptSignature env ex_verifier (ex_receipt outcome d) = None"
proof -
  show v: "ValidateCustodianReceipt env (ex_receipt outcome d) = None"
    using assms ex_times
    by (auto simp: ValidateCustodianReceipt_def ex_receipt_def lc_referencePattern_def lc_identifierPattern_def)
  show c: "CanonicalCustodianReceipt env (ex_receipt outcome d) =
      Inr (str_bytes d, lc_digest custodianReceiptDigestDomain (str_bytes d), str_bytes custodianReceiptSignDomain @ str_bytes d)"
    using v assms by (simp add: CanonicalCustodianReceipt_def)
  show "ValidateReceiptObligation env (ex_receipt outcome d) (ex_obligation d) (lc_digest backupObligationDigestDomain (str_bytes d)) = None"
    using v ex_obligation_ok(1) [OF assms(1,2)] by (simp add: ValidateReceiptObligation_def) (simp add: ex_receipt_def ex_obligation_def)
  show "ValidateCustodianReceiptSignature env ex_verifier (ex_receipt outcome d) = None"
    by (simp add: ValidateCustodianReceiptSignature_def c ex_verifier_def)
qed

definition ex_obligations :: "BackupObligation list" where
  "ex_obligations = map ex_obligation backup_domains"

definition ex_digests :: "(string, string) gomap" where
  "ex_digests = map (\<lambda>d. (d, lc_digest backupObligationDigestDomain (str_bytes d))) backup_domains"

lemma ex_obligation_digests: "ex_like env \<Longrightarrow> obligation_digests env ''op'' ex_intent_digest ex_obligations = Some ex_digests"
proof -
  assume like: "ex_like env"
  then have "list_all2 (\<lambda>b want. bo_domain b = want \<and> bo_operation b = ''op'' \<and> bo_intent_digest b = ex_intent_digest \<and>
      bo_policy_digest b = bo_policy_digest (hd ex_obligations) \<and> \<not> isl (CanonicalBackupObligation env b)) ex_obligations backup_domains"
    by (simp add: ex_obligations_def backup_domains_def indexDomain_values) (simp add: ex_obligation_def)
  moreover from like have "map (\<lambda>b. (bo_domain b, snd (projr (CanonicalBackupObligation env b)))) ex_obligations = ex_digests"
    by (simp add: ex_obligations_def ex_digests_def backup_domains_def indexDomain_values)
  ultimately show ?thesis by (simp add: obligation_digests_def)
qed

lemma ex_obligations_length [simp]: "length ex_obligations = 3"
  by (simp add: ex_obligations_def backup_domains_def)

lemma ex_turn:
  assumes "ex_like env" "d \<in> set backup_domains" "outcome = BackupSucceeded \<or> outcome = BackupFailed" "map_of (rs_ids st) d \<in> {None, Some d}"
  shows "classify_receipt env ex_verifier ex_obligations ex_digests st (ex_receipt outcome d) =
     Inr (note_receipt env (ex_obligation d) (st\<lparr>rs_ids := AList.update d d (rs_ids st)\<rparr>) (ex_receipt outcome d))"
proof -
  have d: "validBackupDomain d" "ex_obligations ! indexDomain d = ex_obligation d"
      "map_of ex_digests d = Some (lc_digest backupObligationDigestDomain (str_bytes d))"
    using assms(2) by (auto simp: backup_domains_def indexDomain_values ex_obligations_def ex_digests_def)
  have "cr_domain (ex_receipt outcome d) = d" "cr_receipt_id (ex_receipt outcome d) = d" by (simp_all add: ex_receipt_def)
  then show ?thesis using assms d by (simp add: classify_receipt_def)
qed

lemma ex_note:
  assumes "map_of (rs_seen st) d = None"
  shows "note_receipt env (ex_obligation d) st (ex_receipt BackupSucceeded d) =
      st\<lparr>rs_seen := AList.update d (ex_receipt BackupSucceeded d) (rs_seen st)\<rparr>"
    and "note_receipt env (ex_obligation d) st (ex_receipt BackupFailed d) =
      st\<lparr>rs_seen := AList.update d (ex_receipt BackupFailed d) (rs_seen st),
         rs_incidents := AList.update d RecoveryReceiptFailed (rs_incidents st)\<rparr>"
  using assms ex_times by (auto simp: note_receipt_def ex_receipt_def ex_obligation_def Let_def)

lemma ex_completable:
  "ex_like env \<Longrightarrow> br_status (ClassifyBackupRecovery env ''op'' ex_intent_digest ex_obligations (map (ex_receipt BackupSucceeded) backup_domains) ex_verifier)
     = RecoveryCompletable"
proof -
  assume like: "ex_like env"
  obtain st where "classify_loop env ex_verifier ex_obligations ex_digests rs_empty (map (ex_receipt BackupSucceeded) backup_domains) = Inr st"
      "rs_incidents st = []" "rs_pending st = []" "\<forall>d \<in> set backup_domains. map_of (rs_seen st) d \<noteq> None"
    using like by (simp add: backup_domains_def ex_turn ex_note rs_empty_def)
  then have "recovery_verdict st = (RecoveryCompletable, [])"
    by (auto simp: recovery_verdict_def domain_finding_def list_ex_iff)
  then show ?thesis
    using \<open>classify_loop _ _ _ _ _ _ = _\<close>
    by (simp add: ClassifyBackupRecovery_def ex_obligation_digests like Let_def)
qed

lemma ex_completion_valid:
  "ex_like env \<Longrightarrow> ValidateCompletionAgainst env ex_completion ex_obligations (map (ex_receipt BackupSucceeded) backup_domains) ex_verifier = None"
proof -
  assume like: "ex_like env"
  then have "ValidateCompletionEvidence env ex_completion = None"
    using ex_times by (simp add: ValidateCompletionEvidence_def ex_completion_def backup_domains_def lc_referencePattern_def)
  moreover from like have "list_all (reference_ok env ex_completion (map (ex_receipt BackupSucceeded) backup_domains)) (ce_receipts ex_completion)"
    using ex_times(3)
    by (simp add: reference_ok_def by_domain_def ex_completion_def backup_domains_def indexDomain_values)
       (simp add: ex_receipt_def)
  moreover have "ce_operation ex_completion = ''op''" "ce_intent_digest ex_completion = ex_intent_digest"
    by (simp_all add: ex_completion_def)
  ultimately show ?thesis using ex_completable [OF like] by (simp add: ValidateCompletionAgainst_def)
qed

theorem classification_wellformed_witness:
  "ValidateBackupRecovery ex_lc (ClassifyBackupRecovery ex_lc ''op'' ex_intent_digest ex_obligations
     (map (ex_receipt BackupSucceeded) backup_domains) ex_verifier) = None"
  by (rule classification_wellformed [OF ex_reference [OF ex_lc_like]])

theorem completion_sound_witness:
  "\<exists>r \<in> set (map (ex_receipt BackupSucceeded) backup_domains). cr_domain r = AuditBackupDomain \<and> cr_outcome r = BackupSucceeded \<and>
     cr_evidence_time r \<le> ex_deadline"
  using completion_sound [OF ex_completion_valid [OF ex_lc_like], of 2]
  by (auto simp: backup_domains_def ex_obligations_def ex_obligation_def)

end
