(* ===== verification/Protocol.thy ===== *)
theory Protocol
  imports Json "HOL-Library.List_Lexorder" "HOL-Library.Char_ord"
begin

text \<open>
  The validation of protocol bytes, \<^verbatim>\<open>internal/relay/protocol/validator.go\<close>: events, channel metadata and receipts.
  The compiled JSON schemas, the JSON text syntax and the third-party canonicaliser are parameters; the strict decoder
  works on the token stream of \<^verbatim>\<open>json.Decoder\<close>. A failed type assertion of the source is the outcome \<open>Panic\<close>.
\<close>

section \<open>Parameters\<close>

text \<open>The tokens of a decoder with \<^verbatim>\<open>UseNumber\<close>; member names are strings like the others.\<close>

datatype token = OpenObject | CloseObject | OpenArray | CloseArray | Number | Text string | Boolean bool | Null

text \<open>\<open>pe_Unmarshal\<close> is \<^verbatim>\<open>json.Unmarshal\<close> into an \<^verbatim>\<open>any\<close>, \<open>pe_tokens\<close> what the decoder reads from a text: its tokens, and
  whether they end with the end of the input.\<close>

record protocol_env =
  pe_Unmarshal :: "bytes \<Rightarrow> json option"
  pe_tokens :: "bytes \<Rightarrow> token list \<times> bool"
  pe_Transform :: "bytes \<Rightarrow> bytes option"

datatype protocol_error = ErrInvalidEvent | Panic

record Event =
  ev_ID :: string
  ev_Type :: string
  ev_ChannelURI :: string
  ev_ParticipantID :: string
  ev_Canonical :: bytes

text \<open>The compiled schemas, each as what its \<^verbatim>\<open>Validate\<close> accepts; \<open>None\<close> is a nil pointer.\<close>

record Validator =
  vd_envelope :: "(json \<Rightarrow> bool) option"
  vd_metadata :: "(json \<Rightarrow> bool) option"
  vd_receipt :: "(json \<Rightarrow> bool) option"

record ChannelMetadata =
  cm_TenantID :: string
  cm_ChannelID :: string
  cm_ChannelURI :: string
  cm_ACLPolicyVersion :: string
  cm_ACLPolicyDigest :: string
  cm_RetentionPolicyDigest :: string
  cm_RetentionEpoch :: u64
  cm_CreatedAt :: string
  cm_Digest :: string

definition maxEventSize :: nat where
  "maxEventSize = 65536"

definition maxDepth :: nat where
  "maxDepth = 16"

definition utf8_Valid :: "bytes \<Rightarrow> bool" where
  "utf8_Valid raw = utf8 (map unat raw)"

section \<open>Receipts and channel metadata\<close>

definition ValidateReceipt :: "protocol_env \<Rightarrow> Validator option \<Rightarrow> bytes \<Rightarrow> protocol_error option" where
  "ValidateReceipt env v raw =
     (case Option.bind v vd_receipt of None \<Rightarrow> Some ErrInvalidEvent | Some schema \<Rightarrow>
      if length raw = 0 \<or> length raw > 16384 \<or> \<not> utf8_Valid raw then Some ErrInvalidEvent
      else case pe_Unmarshal env raw of None \<Rightarrow> Some ErrInvalidEvent | Some x \<Rightarrow>
      if pe_Transform env raw \<noteq> Some raw \<or> \<not> schema x then Some ErrInvalidEvent else None)"

text \<open>Type assertions on a member: \<^verbatim>\<open>object[key].(string)\<close>, \<^verbatim>\<open>.(float64)\<close>, \<^verbatim>\<open>.(map[string]any)\<close>, \<^verbatim>\<open>.([]any)\<close>.\<close>

definition as_string :: "json \<Rightarrow> protocol_error + string" where
  "as_string v = (case v of JStr s \<Rightarrow> Inr s | _ \<Rightarrow> Inl Panic)"

definition as_float64 :: "json \<Rightarrow> protocol_error + rat" where
  "as_float64 v = (case v of JNum q \<Rightarrow> Inr q | _ \<Rightarrow> Inl Panic)"

definition as_object :: "json \<Rightarrow> protocol_error + (string, json) gomap" where
  "as_object v = (case v of JObj m \<Rightarrow> Inr m | _ \<Rightarrow> Inl Panic)"

definition as_array :: "json \<Rightarrow> protocol_error + json list" where
  "as_array v = (case v of JArr xs \<Rightarrow> Inr xs | _ \<Rightarrow> Inl Panic)"

definition bindE :: "'e + 'a \<Rightarrow> ('a \<Rightarrow> 'e + 'b) \<Rightarrow> 'e + 'b" where
  "bindE m f = (case m of Inl e \<Rightarrow> Inl e | Inr x \<Rightarrow> f x)"

lemma bindE_simps [simp]: "bindE (Inl e) f = Inl e" "bindE (Inr x) f = f x"
  by (simp_all add: bindE_def)

lemma bindE_Inr: "bindE m f = Inr y \<longleftrightarrow> (\<exists>x. m = Inr x \<and> f x = Inr y)"
  by (cases m) auto

text \<open>The conversion \<^verbatim>\<open>uint64(float64)\<close> truncates.\<close>

definition ValidateChannelMetadata :: "protocol_env \<Rightarrow> Validator option \<Rightarrow> bytes \<Rightarrow> protocol_error + ChannelMetadata" where
  "ValidateChannelMetadata env v raw =
     (case Option.bind v vd_metadata of None \<Rightarrow> Inl ErrInvalidEvent | Some schema \<Rightarrow>
      if length raw = 0 \<or> \<not> utf8_Valid raw then Inl ErrInvalidEvent
      else case pe_Unmarshal env raw of None \<Rightarrow> Inl ErrInvalidEvent | Some x \<Rightarrow>
      if pe_Transform env raw \<noteq> Some raw \<or> \<not> schema x then Inl ErrInvalidEvent
      else bindE (as_object x) (\<lambda>object.
        bindE (as_string (member object ''tenant_id'')) (\<lambda>tenant.
        bindE (as_string (member object ''channel_id'')) (\<lambda>channel.
        bindE (as_string (member object ''channel_uri'')) (\<lambda>uri.
        bindE (as_string (member object ''acl_policy_version'')) (\<lambda>version.
        bindE (as_string (member object ''acl_policy_digest'')) (\<lambda>acl.
        bindE (as_string (member object ''retention_policy_digest'')) (\<lambda>retention.
        bindE (as_float64 (member object ''retention_epoch'')) (\<lambda>epoch.
        bindE (as_string (member object ''created_at'')) (\<lambda>created.
        Inr \<lparr>cm_TenantID = tenant, cm_ChannelID = channel, cm_ChannelURI = uri, cm_ACLPolicyVersion = version,
          cm_ACLPolicyDigest = acl, cm_RetentionPolicyDigest = retention, cm_RetentionEpoch = of_int \<lfloor>epoch\<rfloor>,
          cm_CreatedAt = created,
          cm_Digest = ''sha-256:'' @ hex_sha256 (str_bytes (''yukh.channel-metadata.v0.1'' @ zero_byte) @ raw)\<rparr>))))))))))"

section \<open>The strict decoder\<close>

text \<open>\<^verbatim>\<open>decoder.More\<close> and the token \<^verbatim>\<open>decoder.Token\<close> reads.\<close>

definition hd_token :: "token list \<Rightarrow> token option" where
  "hd_token ts = (case ts of [] \<Rightarrow> None | t # rest \<Rightarrow> Some t)"

definition More :: "token list \<Rightarrow> bool" where
  "More ts \<longleftrightarrow> hd_token ts \<notin> {None, Some CloseObject, Some CloseArray}"

lemma hd_token_simps [simp]: "hd_token [] = None" "hd_token (t # ts) = Some t"
  by (simp_all add: hd_token_def)

lemma hd_token_Some: "hd_token ts = Some t \<longleftrightarrow> ts = t # tl ts"
  by (cases ts) auto

lemma More_simps [simp]: "\<not> More []" "More (t # ts) \<longleftrightarrow> t \<noteq> CloseObject \<and> t \<noteq> CloseArray"
  by (auto simp: More_def)

text \<open>\<open>decode_object\<close> and \<open>decode_array\<close> are the loops over the members and the elements; \<open>depth\<close> is that of the children.
  A closing delimiter of the wrong kind, or the end of the tokens, ends a loop with an error.\<close>

function decodeValue :: "nat \<Rightarrow> token list \<Rightarrow> (json \<times> token list) option"
  and decode_object :: "nat \<Rightarrow> (string, json) gomap \<Rightarrow> token list \<Rightarrow> (json \<times> token list) option"
  and decode_array :: "nat \<Rightarrow> json list \<Rightarrow> token list \<Rightarrow> (json \<times> token list) option" where
  "decodeValue depth ts =
     (if depth > maxDepth then None
      else case ts of
        OpenObject # rest \<Rightarrow> decode_object (depth + 1) [] rest
      | OpenArray # rest \<Rightarrow> decode_array (depth + 1) [] rest
      | Text s # rest \<Rightarrow> Some (JStr s, rest)
      | Boolean b # rest \<Rightarrow> Some (JBool b, rest)
      | Null # rest \<Rightarrow> Some (JNull, rest)
      | _ \<Rightarrow> None)"
| "decode_object depth object ts =
     (if More ts then
        (case ts of
           Text name # rest \<Rightarrow>
             if map_of object name \<noteq> None then None
             else (case decodeValue depth rest of
                None \<Rightarrow> None
              | Some (child, rest') \<Rightarrow> decode_object depth (AList.update name child object) rest')
         | _ \<Rightarrow> None)
      else if hd_token ts = Some CloseObject then Some (JObj object, tl ts) else None)"
| "decode_array depth values ts =
     (if More ts then
        (case decodeValue depth ts of
           None \<Rightarrow> None
         | Some (child, rest') \<Rightarrow> decode_array depth (values @ [child]) rest')
      else if hd_token ts = Some CloseArray then Some (JArr values, tl ts) else None)"
  by pat_completeness auto

termination
proof -
  have shorter:
    "decodeValue_decode_object_decode_array_dom (Inl (d, ts)) \<Longrightarrow> decodeValue d ts = Some (v, rest) \<Longrightarrow> length rest < length ts"
    "decodeValue_decode_object_decode_array_dom (Inr (Inl (d, m, ts))) \<Longrightarrow> decode_object d m ts = Some (v, rest) \<Longrightarrow> length rest < length ts"
    "decodeValue_decode_object_decode_array_dom (Inr (Inr (d, xs, ts))) \<Longrightarrow> decode_array d xs ts = Some (v, rest) \<Longrightarrow> length rest < length ts"
    for d ts m xs v rest
  proof (induction arbitrary: v rest and v rest and v rest rule: decodeValue_decode_object_decode_array.pinduct)
    case (1 depth ts)
    then show ?case
      by (auto simp: decodeValue.psimps split: if_splits list.splits token.splits) (metis less_Suc_eq)+
  next
    case (2 depth object ts)
    then show ?case
      by (auto simp: decode_object.psimps hd_token_Some split: if_splits list.splits token.splits option.splits; fastforce)
  next
    case (3 depth vals ts)
    then show ?case
      by (cases ts) (auto simp: decode_array.psimps split: if_splits option.splits; fastforce)+
  qed
  show ?thesis
    by (relation "measure (case_sum (\<lambda>(d, ts). 2 * length ts) (case_sum (\<lambda>(d, m, ts). 2 * length ts) (\<lambda>(d, xs, ts). 2 * length ts + 1)))")
      (auto dest: shorter)
qed

declare decodeValue.simps [simp del] decode_object.simps [simp del] decode_array.simps [simp del]

definition decodeStrict :: "protocol_env \<Rightarrow> bytes \<Rightarrow> json option" where
  "decodeStrict env raw =
     (case pe_tokens env raw of (ts, eof) \<Rightarrow>
      case decodeValue 1 ts of
        None \<Rightarrow> None
      | Some (x, rest) \<Rightarrow> if rest = [] \<and> eof then Some x else None)"

definition Canonicalize :: "protocol_env \<Rightarrow> bytes \<Rightarrow> protocol_error + bytes" where
  "Canonicalize env raw =
     (case decodeStrict env raw of None \<Rightarrow> Inl ErrInvalidEvent | Some _ \<Rightarrow>
      case pe_Transform env raw of None \<Rightarrow> Inl ErrInvalidEvent | Some canon \<Rightarrow> Inr canon)"

section \<open>Events\<close>

text \<open>Comparison of two \<^verbatim>\<open>any\<close>: two maps, or two slices, are not comparable.\<close>

fun any_equal :: "json \<Rightarrow> json \<Rightarrow> protocol_error + bool" where
  "any_equal (JObj _) (JObj _) = Inl Panic"
| "any_equal (JArr _) (JArr _) = Inl Panic"
| "any_equal x y = Inr (x = y)"

definition parents :: "(string, string) gomap" where
  "parents = [(''progress'', ''parent_claim_event_id''), (''answer'', ''question_event_id''), (''verdict'', ''review_event_id''),
     (''handoff_offer'', ''parent_claim_event_id''), (''handoff_accept'', ''offer_event_id''), (''release'', ''parent_claim_event_id''),
     (''evidence_verification'', ''referenced_event_id'')]"

definition check :: "bool \<Rightarrow> protocol_error + unit" where
  "check ok = (if ok then Inr () else Inl ErrInvalidEvent)"

definition check_root :: "(string, json) gomap \<Rightarrow> string \<Rightarrow> protocol_error + unit" where
  "check_root event typeName =
     (if typeName = ''claim'' \<or> typeName = ''question'' \<or> typeName = ''review_request''
      then bindE (any_equal (member event ''correlation_id'') (member event ''id'')) check else Inr ())"

definition check_parent :: "(string, json) gomap \<Rightarrow> (string, json) gomap \<Rightarrow> string \<Rightarrow> protocol_error + unit" where
  "check_parent event data typeName =
     (case map_of parents typeName of None \<Rightarrow> Inr () | Some parent \<Rightarrow>
        bindE (any_equal (member event ''causation_id'') (member data parent)) check)"

definition check_presence :: "(string, json) gomap \<Rightarrow> string \<Rightarrow> protocol_error + unit" where
  "check_presence data typeName =
     (if typeName \<noteq> ''presence'' then Inr ()
      else bindE (as_string (member data ''valid_until'')) (\<lambda>until.
        bindE (as_string (member data ''observed_at'')) (\<lambda>observed. check (observed < until))))"

fun strings_of :: "json list \<Rightarrow> protocol_error + string list" where
  "strings_of [] = Inr []"
| "strings_of (x # xs) = bindE (as_string x) (\<lambda>s. bindE (strings_of xs) (\<lambda>ss. Inr (s # ss)))"

definition check_claim :: "(string, json) gomap \<Rightarrow> string \<Rightarrow> protocol_error + unit" where
  "check_claim data typeName =
     (if typeName \<noteq> ''claim'' then Inr ()
      else bindE (as_array (member data ''expected_active_claims'')) (\<lambda>observed.
        bindE (strings_of observed) (\<lambda>values. check (sorted values))))"

definition validateSemantics :: "(string, json) gomap \<Rightarrow> protocol_error + unit" where
  "validateSemantics event =
     bindE (as_string (member event ''type'')) (\<lambda>typeName.
     bindE (as_object (member event ''data'')) (\<lambda>data.
     bindE (check_root event typeName) (\<lambda>_.
     bindE (check_parent event data typeName) (\<lambda>_.
     bindE (check_presence data typeName) (\<lambda>_. check_claim data typeName)))))"

definition Validate :: "protocol_env \<Rightarrow> Validator option \<Rightarrow> bytes \<Rightarrow> protocol_error + Event" where
  "Validate env v raw =
     (case Option.bind v vd_envelope of None \<Rightarrow> Inl ErrInvalidEvent | Some schema \<Rightarrow>
      if length raw = 0 \<or> length raw > maxEventSize \<or> \<not> utf8_Valid raw then Inl ErrInvalidEvent
      else case decodeStrict env raw of None \<Rightarrow> Inl ErrInvalidEvent | Some x \<Rightarrow>
      if pe_Transform env raw \<noteq> Some raw \<or> \<not> schema x then Inl ErrInvalidEvent
      else bindE (as_object x) (\<lambda>object.
        bindE (validateSemantics object) (\<lambda>_.
        bindE (as_object (member object ''participant'')) (\<lambda>participant.
        bindE (as_string (member object ''id'')) (\<lambda>eventID.
        bindE (as_string (member object ''type'')) (\<lambda>typeName.
        bindE (as_string (member object ''channel'')) (\<lambda>uri.
        bindE (as_string (member participant ''id'')) (\<lambda>participantID.
        Inr \<lparr>ev_ID = eventID, ev_Type = typeName, ev_ChannelURI = uri, ev_ParticipantID = participantID,
          ev_Canonical = raw\<rparr>))))))))"

section \<open>What the decoder accepts\<close>

text \<open>The tokens of a value, and the values the protocol admits: no numbers, no duplicate members, bounded nesting.\<close>

fun tokens_of :: "json \<Rightarrow> token list" where
  "tokens_of JNull = [Null]"
| "tokens_of (JBool b) = [Boolean b]"
| "tokens_of (JNum q) = [Number]"
| "tokens_of (JStr s) = [Text s]"
| "tokens_of (JArr xs) = OpenArray # concat (map tokens_of xs) @ [CloseArray]"
| "tokens_of (JObj m) = OpenObject # concat (map (\<lambda>(k, v). Text k # tokens_of v) m) @ [CloseObject]"

fun admitted :: "nat \<Rightarrow> json \<Rightarrow> bool" where
  "admitted depth (JNum q) = False"
| "admitted depth (JArr xs) = (depth \<le> maxDepth \<and> list_all (admitted (depth + 1)) xs)"
| "admitted depth (JObj m) = (depth \<le> maxDepth \<and> distinct (map fst m) \<and> list_all (\<lambda>(k, v). admitted (depth + 1) v) m)"
| "admitted depth v = (depth \<le> maxDepth)"

lemma update_new: "map_of m k = None \<Longrightarrow> AList.update k v m = m @ [(k, v)]"
  by (induction m) (auto split: if_splits)

lemma decode_sound:
  "decodeValue d ts = Some (v, rest) \<Longrightarrow> admitted d v \<and> ts = tokens_of v @ rest"
  "decode_object d m ts = Some (v, rest) \<Longrightarrow> distinct (map fst m) \<Longrightarrow> \<exists>n. v = JObj (m @ n) \<and> distinct (map fst (m @ n)) \<and>
     list_all (\<lambda>(k, v). admitted d v) n \<and> ts = concat (map (\<lambda>(k, v). Text k # tokens_of v) n) @ CloseObject # rest"
  "decode_array d xs ts = Some (v, rest) \<Longrightarrow> \<exists>ys. v = JArr (xs @ ys) \<and> list_all (admitted d) ys \<and>
     ts = concat (map tokens_of ys) @ CloseArray # rest"
proof (induction d ts and d m ts and d xs ts arbitrary: v rest and v rest and v rest
    rule: decodeValue_decode_object_decode_array.induct)
  case (1 depth ts)
  then have d: "depth \<le> maxDepth" by (simp add: decodeValue.simps split: if_splits)
  from 1 obtain t r where ts: "ts = t # r" by (auto simp: decodeValue.simps split: if_splits list.splits)
  show ?case
  proof (cases t)
    case OpenObject
    then show ?thesis using 1 d ts by (fastforce simp: decodeValue.simps)
  next
    case OpenArray
    then show ?thesis using 1 d ts by (fastforce simp: decodeValue.simps)
  qed (use 1(3) d ts in \<open>auto simp: decodeValue.simps\<close>)
next
  case (2 depth object ts)
  then obtain t r where ts: "ts = t # r" by (auto simp: decode_object.simps split: list.splits)
  show ?case
  proof (cases t)
    case (Text name)
    obtain child rest' where c: "map_of object name = None" "decodeValue depth r = Some (child, rest')"
        "decode_object depth (object @ [(name, child)]) rest' = Some (v, rest)"
      using 2(3) ts Text by (auto simp: decode_object.simps [of depth object] update_new split: if_splits option.splits)
    have child: "admitted depth child \<and> r = tokens_of child @ rest'" using 2(1) c(1,2) ts Text by simp
    have "distinct (map fst (object @ [(name, child)]))" using 2(4) c(1) by (auto simp: map_of_eq_None_iff)
    with 2(2) [OF _ ts Text _ c(2) refl, of v rest] ts Text c(1,3) obtain n where n: "v = JObj ((object @ [(name, child)]) @ n)"
        "distinct (map fst ((object @ [(name, child)]) @ n))" "list_all (\<lambda>(k, v). admitted depth v) n"
        "rest' = concat (map (\<lambda>(k, v). Text k # tokens_of v) n) @ CloseObject # rest"
      by (auto simp: update_new)
    then show ?thesis using child ts Text by (intro exI [of _ "(name, child) # n"]) simp
  qed (use 2(3,4) ts in \<open>auto simp: decode_object.simps [of depth object]\<close>)
next
  case (3 depth vals ts)
  show ?case
  proof (cases "More ts")
    case True
    then obtain child rest' where c: "decodeValue depth ts = Some (child, rest')" "decode_array depth (vals @ [child]) rest' = Some (v, rest)"
      using 3(3) by (auto simp: decode_array.simps [of depth vals] split: option.splits)
    from 3(2) [OF True c(1) refl c(2)] obtain ys where "v = JArr ((vals @ [child]) @ ys)" "list_all (admitted depth) ys"
        "rest' = concat (map tokens_of ys) @ CloseArray # rest" by blast
    then show ?thesis using 3(1) [OF True c(1)] by (intro exI [of _ "child # ys"]) simp
  next
    case False
    then show ?thesis using 3(3) by (auto simp: decode_array.simps [of depth vals] hd_token_Some split: if_splits)
  qed
qed

lemma decode_complete:
  "admitted d v \<Longrightarrow> decodeValue d (tokens_of v @ rest) = Some (v, rest)"
proof (induction v arbitrary: d rest)
  case (JArr xs)
  have "decode_array (d + 1) ys (concat (map tokens_of zs) @ CloseArray # rest) = Some (JArr (ys @ zs), rest)"
    if "set zs \<subseteq> set xs" for ys zs
    using that
  proof (induction zs arbitrary: ys)
    case Nil
    then show ?case by (simp add: decode_array.simps)
  next
    case (Cons z zs)
    then have "More (tokens_of z @ ts)" for ts by (cases z) auto
    moreover have "decodeValue (d + 1) (tokens_of z @ ts) = Some (z, ts)" for ts
      using JArr Cons.prems by (auto simp: list_all_iff)
    ultimately show ?case using Cons by (simp add: decode_array.simps [of _ ys])
  qed
  from this [of xs "[]"] JArr.prems show ?case by (simp add: decodeValue.simps)
next
  case (JObj m)
  have "decode_object (d + 1) m1 (concat (map (\<lambda>(k, v). Text k # tokens_of v) m2) @ CloseObject # rest) = Some (JObj (m1 @ m2), rest)"
    if "m = m1 @ m2" for m1 m2
    using that
  proof (induction m2 arbitrary: m1)
    case Nil
    then show ?case by (simp add: decode_object.simps)
  next
    case (Cons kv m2)
    obtain k v where kv: "kv = (k, v)" by (cases kv)
    have "decodeValue (d + 1) (tokens_of v @ ts) = Some (v, ts)" for ts
      using JObj Cons.prems kv by (fastforce simp: list_all_iff)
    moreover have "map_of m1 k = None" using JObj.prems Cons.prems kv by (auto simp: map_of_eq_None_iff)
    ultimately show ?case
      using Cons.IH [of "m1 @ [kv]"] Cons.prems kv by (simp add: decode_object.simps [of _ m1] update_new)
  qed
  from this [of "[]" m] JObj.prems show ?case by (simp add: decodeValue.simps)
qed (auto simp: decodeValue.simps)

text \<open>
  C10: the strict decoder accepts exactly the protocol's values. For every token stream, decoding succeeds with a
  value and a rest if and only if the value has no number, no duplicate member and at most sixteen levels of nesting, and
  the tokens read are those of the value; in particular the decoder always terminates.
\<close>

theorem decodeValue_exact:
  "decodeValue depth ts = Some (v, rest) \<longleftrightarrow> admitted depth v \<and> ts = tokens_of v @ rest"
  using decode_sound(1) decode_complete by blast

section \<open>What validation guarantees\<close>

definition is_text :: "json \<Rightarrow> bool" where
  "is_text v \<longleftrightarrow> (case v of JStr s \<Rightarrow> True | _ \<Rightarrow> False)"

text \<open>What the envelope and payload schemas prescribe of the members the code reads, from \<^verbatim>\<open>schema/envelope-0.1.schema.json\<close>,
  \<^verbatim>\<open>payloads/presence-0.1.schema.json\<close> and \<^verbatim>\<open>payloads/claim-0.1.schema.json\<close>: their types, and which are required.\<close>

definition data_shape :: "string \<Rightarrow> (string, json) gomap \<Rightarrow> bool" where
  "data_shape typeName data \<longleftrightarrow>
     (typeName = ''presence'' \<longrightarrow> is_text (member data ''valid_until'') \<and> is_text (member data ''observed_at'')) \<and>
     (typeName = ''claim'' \<longrightarrow> (case member data ''expected_active_claims'' of JArr xs \<Rightarrow> list_all is_text xs | _ \<Rightarrow> False))"

definition envelope_shape :: "json \<Rightarrow> bool" where
  "envelope_shape x = (case x of
       JObj m \<Rightarrow> list_all (\<lambda>k. is_text (member m k)) [''id'', ''type'', ''channel''] \<and>
         (case member m ''participant'' of JObj p \<Rightarrow> is_text (member p ''id'') | _ \<Rightarrow> False) \<and>
         (case member m ''data'' of JObj d \<Rightarrow> data_shape (text_of m ''type'') d | _ \<Rightarrow> False) \<and>
         (map_of parents (text_of m ''type'') \<noteq> None \<longrightarrow> is_text (member m ''causation_id''))
     | _ \<Rightarrow> False)"

lemma is_textE: "is_text v \<Longrightarrow> (\<And>s. v = JStr s \<Longrightarrow> thesis) \<Longrightarrow> thesis"
  by (auto simp: is_text_def split: json.splits)

lemma any_equal_text [simp]: "any_equal (JStr s) y = Inr (JStr s = y)" "any_equal x (JStr s) = Inr (x = JStr s)"
  by (cases y; simp) (cases x; simp)

lemma strings_of_text: "list_all is_text xs \<Longrightarrow> \<exists>ss. strings_of xs = Inr ss \<and> xs = map JStr ss"
  by (induction xs) (auto simp: as_string_def elim!: is_textE)

lemma check_simps [simp]: "check ok \<noteq> Inl Panic" "check ok = Inr u \<longleftrightarrow> ok"
  by (simp_all add: check_def)

text \<open>The rules of \<^verbatim>\<open>validateSemantics\<close> for an object of that shape.\<close>

definition semantics_ok :: "(string, json) gomap \<Rightarrow> (string, json) gomap \<Rightarrow> string \<Rightarrow> bool" where
  "semantics_ok m data typeName \<longleftrightarrow>
     (typeName \<in> {''claim'', ''question'', ''review_request''} \<longrightarrow> member m ''correlation_id'' = member m ''id'') \<and>
     (\<forall>parent. map_of parents typeName = Some parent \<longrightarrow> member m ''causation_id'' = member data parent) \<and>
     (typeName = ''presence'' \<longrightarrow> text_of data ''observed_at'' < text_of data ''valid_until'') \<and>
     (typeName = ''claim'' \<longrightarrow> (\<exists>ss. member data ''expected_active_claims'' = JArr (map JStr ss) \<and> sorted ss))"

lemma check_outcome: "(if ok then Inr () else Inl ErrInvalidEvent) = check ok"
  by (simp add: check_def)

lemma check_root_eq:
  "is_text (member m ''id'') \<Longrightarrow> check_root m typeName =
     check (typeName \<in> {''claim'', ''question'', ''review_request''} \<longrightarrow> member m ''correlation_id'' = member m ''id'')"
  by (elim is_textE) (auto simp: check_root_def check_def)

lemma check_parent_eq:
  assumes "map_of parents typeName \<noteq> None \<longrightarrow> is_text (member m ''causation_id'')"
  shows "check_parent m data typeName =
     check (\<forall>parent. map_of parents typeName = Some parent \<longrightarrow> member m ''causation_id'' = member data parent)"
proof (cases "map_of parents typeName")
  case (Some parent)
  then obtain s where "member m ''causation_id'' = JStr s" using assms by (auto elim: is_textE)
  then show ?thesis using Some by (simp add: check_parent_def)
qed (simp add: check_parent_def check_def)

lemma check_presence_eq:
  "data_shape typeName data \<Longrightarrow> check_presence data typeName =
     check (typeName = ''presence'' \<longrightarrow> text_of data ''observed_at'' < text_of data ''valid_until'')"
  by (auto simp: data_shape_def check_presence_def check_def as_string_def text_of_def elim!: is_textE)

lemma check_claim_eq:
  assumes "data_shape typeName data"
  shows "check_claim data typeName =
     check (typeName = ''claim'' \<longrightarrow> (\<exists>ss. member data ''expected_active_claims'' = JArr (map JStr ss) \<and> sorted ss))"
proof (cases "typeName = ''claim''")
  case True
  then obtain xs where xs: "member data ''expected_active_claims'' = JArr xs" "list_all is_text xs"
    using assms by (auto simp: data_shape_def split: json.splits)
  then obtain ss where ss: "strings_of xs = Inr ss" "xs = map JStr ss" using strings_of_text by blast
  have "inj JStr" by (auto intro: injI)
  then have "(\<exists>ss'. JArr (map JStr ss) = JArr (map JStr ss') \<and> sorted ss') \<longleftrightarrow> sorted ss" by (auto simp: inj_map_eq_map)
  then show ?thesis using True xs(1) ss by (simp add: check_claim_def as_array_def)
qed (simp add: check_claim_def check_def)

lemma check_bind: "bindE (check a) (\<lambda>_. check b) = check (a \<and> b)"
  by (simp add: check_def)

lemma validateSemantics_eq:
  assumes "envelope_shape (JObj m)"
  obtains data where "member m ''data'' = JObj data" "validateSemantics m = check (semantics_ok m data (text_of m ''type''))"
proof -
  obtain data where d: "member m ''data'' = JObj data" "data_shape (text_of m ''type'') data"
    using assms by (auto simp: envelope_shape_def split: json.splits)
  have t: "as_string (member m ''type'') = Inr (text_of m ''type'')" "is_text (member m ''id'')"
    "map_of parents (text_of m ''type'') \<noteq> None \<longrightarrow> is_text (member m ''causation_id'')"
    using assms by (auto simp: envelope_shape_def as_string_def text_of_def elim!: is_textE)
  have "validateSemantics m = check (semantics_ok m data (text_of m ''type''))"
    unfolding validateSemantics_def t(1) d(1) as_object_def bindE_simps json.case check_root_eq [OF t(2)] check_parent_eq [OF t(3)]
      check_presence_eq [OF d(2)] check_claim_eq [OF d(2)] check_bind semantics_ok_def by simp
  then show ?thesis using that d(1) by blast
qed

text \<open>
  C11: an accepted event is canonical, strict and consistent, and validation never panics. For schemas that
  prescribe the types of the members that the code asserts, validating any bytes ends without a failed type assertion, and
  an accepted event consists of its own canonical bytes, at most 65536 of them; they are the tokens of an admitted object that
  satisfies the schema and the rules on correlation, causation, presence intervals and claim observations, and the identifier, type and channel of the
  event are members of that object.
\<close>

theorem Validate_accepts:
  assumes "vd_envelope vd = Some schema" "\<forall>x. schema x \<longrightarrow> envelope_shape x"
  shows "Validate env (Some vd) raw \<noteq> Inl Panic \<and>
    (\<forall>e. Validate env (Some vd) raw = Inr e \<longrightarrow> ev_Canonical e = raw \<and> pe_Transform env raw = Some raw \<and> length raw \<le> maxEventSize \<and>
      (\<exists>m data. pe_tokens env raw = (tokens_of (JObj m), True) \<and> admitted 1 (JObj m) \<and> schema (JObj m) \<and>
        member m ''data'' = JObj data \<and> semantics_ok m data (ev_Type e) \<and>
        ev_ID e = text_of m ''id'' \<and> ev_Type e = text_of m ''type'' \<and> ev_ChannelURI e = text_of m ''channel''))"
proof (cases "length raw = 0 \<or> length raw > maxEventSize \<or> \<not> utf8_Valid raw \<or> decodeStrict env raw = None \<or>
    pe_Transform env raw \<noteq> Some raw \<or> \<not> schema (the (decodeStrict env raw))")
  case True
  then show ?thesis using assms(1) by (auto simp: Validate_def split: option.split)
next
  case False
  then obtain x where x: "decodeStrict env raw = Some x" "schema x" by auto
  then obtain m where m: "x = JObj m" "envelope_shape (JObj m)"
    using assms(2) by (cases x) (auto simp: envelope_shape_def)
  have tokens: "pe_tokens env raw = (tokens_of x, True)" "admitted 1 x"
    using x(1) decode_sound(1) by (auto simp: decodeStrict_def split: prod.splits option.splits if_splits)
  obtain data where data: "member m ''data'' = JObj data" "validateSemantics m = check (semantics_ok m data (text_of m ''type''))"
    using m(2) by (rule validateSemantics_eq)
  have "\<exists>p. member m ''participant'' = JObj p \<and> is_text (member p ''id'')"
    "is_text (member m ''id'')" "is_text (member m ''type'')" "is_text (member m ''channel'')"
    using m(2) by (auto simp: envelope_shape_def split: json.splits(2))
  then obtain e where e: "Validate env (Some vd) raw = bindE (check (semantics_ok m data (text_of m ''type''))) (\<lambda>_. Inr e)"
      "ev_Canonical e = raw" "ev_ID e = text_of m ''id''" "ev_Type e = text_of m ''type''" "ev_ChannelURI e = text_of m ''channel''"
    using assms(1) False x m data by (auto simp: Validate_def as_object_def as_string_def text_of_def elim!: is_textE)
  show ?thesis using e False tokens x m data by (auto simp: bindE_def check_def split: if_splits)
qed

definition ex_event :: json where
  "ex_event = JObj [(''channel'', JStr ''c''), (''correlation_id'', JStr ''i''),
     (''data'', JObj [(''expected_active_claims'', JArr [JStr ''a'', JStr ''b''])]),
     (''id'', JStr ''i''), (''participant'', JObj [(''id'', JStr ''p'')]), (''type'', JStr ''claim'')]"

definition ex_protocol :: protocol_env where
  "ex_protocol = \<lparr>pe_Unmarshal = \<lambda>_. None, pe_tokens = \<lambda>_. (tokens_of ex_event, True), pe_Transform = Some\<rparr>"

definition ex_validator :: Validator where
  "ex_validator = \<lparr>vd_envelope = Some envelope_shape, vd_metadata = None, vd_receipt = None\<rparr>"

theorem Validate_accepts_witness:
  "\<exists>e m. Validate ex_protocol (Some ex_validator) [0x7B] = Inr e \<and> ev_Canonical e = [0x7B] \<and>
     pe_tokens ex_protocol [0x7B] = (tokens_of (JObj m), True) \<and> ev_ID e = text_of m ''id''"
proof -
  have "admitted 1 ex_event" by (simp add: ex_event_def maxDepth_def)
  then have "decodeValue 1 (tokens_of ex_event @ []) = Some (ex_event, [])" by (rule decode_complete)
  then have "decodeStrict ex_protocol [0x7B] = Some ex_event" by (simp add: decodeStrict_def ex_protocol_def)
  moreover have "envelope_shape ex_event" by code_simp
  moreover have "validateSemantics (case ex_event of JObj m \<Rightarrow> m) = Inr ()" by code_simp
  ultimately obtain e where e: "Validate ex_protocol (Some ex_validator) [0x7B] = Inr e"
    by (auto simp: Validate_def ex_validator_def ex_protocol_def maxEventSize_def utf8_Valid_def ex_event_def as_object_def
        as_string_def member_def)
  have "vd_envelope ex_validator = Some envelope_shape" by (simp add: ex_validator_def)
  from Validate_accepts [OF this, of ex_protocol "[0x7B]"] e show ?thesis by auto
qed

end
