(* ===== verification/Lifecycle_Sqlite.thy ===== *)
theory Lifecycle_Sqlite
  imports Backup Protocol Relay_Sqlite
begin

text \<open>
  The transcript lifecycle over SQLite: \<^verbatim>\<open>internal/relay/sqlite/lifecycle.go\<close> (reservation, export evidence,
  markers, inspection) and \<^verbatim>\<open>internal/relay/sqlite/removal.go\<close> (receipt signatures and the removal of payloads). The
  lifecycle tables stand beside those of the relay store in one database, so the transactions of both interleave. An operation
  that first reads outside its transaction has the database of that read as a separate argument: anything can be
  committed in between. Statements are numbered, and \<open>sr_fault\<close> says which of them fail.
\<close>

section \<open>The tables\<close>

record policy_row =
  pw_digest :: string
  pw_id :: string
  pw_epoch :: u64
  pw_canonical :: bytes
  pw_retention :: u64
  pw_export :: string

record binding_row =
  tb_key :: ChannelKey
  tb_digest :: string
  tb_id :: string
  tb_epoch :: u64
  tb_deadline :: string

text \<open>A null blob reads as no bytes.\<close>

record operation_row =
  ow_operation :: string
  ow_intent_digest :: string
  ow_intent :: bytes
  ow_key :: ChannelKey
  ow_policy_digest :: string
  ow_requested_at :: string
  ow_state :: string
  ow_manifest :: "string option"
  ow_custody :: "string option"
  ow_marker :: bytes
  ow_receipt :: bytes
  ow_signature :: bytes
  ow_removal :: "string option"

record set_row =
  os_operation :: string
  os_digest :: string
  os_canonical :: bytes

record obligation_row =
  ob_operation :: string
  ob_domain :: string
  ob_digest :: string
  ob_canonical :: bytes
  ob_deadline :: string
  ob_kind :: string
  ob_binding :: string

record receipt_row =
  rr_id :: string
  rr_digest :: string
  rr_operation :: string
  rr_domain :: string
  rr_canonical :: bytes
  rr_time :: string
  rr_outcome :: string

record completion_row =
  cw_operation :: string
  cw_digest :: string
  cw_canonical :: bytes
  cw_completed_at :: string

record LifecycleDB =
  ld_relay :: RelayDB
  ld_policies :: "policy_row list"
  ld_bindings :: "binding_row list"
  ld_operations :: "operation_row list"
  ld_sets :: "set_row list"
  ld_obligations :: "obligation_row list"
  ld_receipts :: "receipt_row list"
  ld_completions :: "completion_row list"

definition lifecycle_schema :: LifecycleDB where
  "lifecycle_schema = \<lparr>ld_relay = relay_schema, ld_policies = [], ld_bindings = [], ld_operations = [], ld_sets = [],
     ld_obligations = [], ld_receipts = [], ld_completions = []\<rparr>"

text \<open>\<^verbatim>\<open>strconv.FormatUint\<close> and the key of a transcript in the tables.\<close>

definition FormatUint :: "u64 \<Rightarrow> string" where
  "FormatUint v = pad 1 (unat v)"

definition transcript_key :: "TranscriptKey \<Rightarrow> ChannelKey" where
  "transcript_key t = \<lparr>ck_tenant = tk_tenant t, ck_channel = tk_channel t, ck_epoch = FormatUint (tk_epoch t)\<rparr>"

definition find_operation :: "LifecycleDB \<Rightarrow> string \<Rightarrow> operation_row option" where
  "find_operation db operation = find (\<lambda>w. ow_operation w = operation) (ld_operations db)"

text \<open>\<^verbatim>\<open>INSERT INTO lifecycle_policies \<dots> ON CONFLICT DO NOTHING\<close>, \<open>None\<close> when a check of the table fails.\<close>

definition insert_policy :: "LifecycleDB \<Rightarrow> policy_row \<Rightarrow> LifecycleDB option" where
  "insert_policy db p =
     (if pw_epoch p = 0 \<or> unat (pw_epoch p) > MaxInt64 \<or> pw_retention p = 0 \<or> unat (pw_retention p) > MaxInt64 \<or>
         pw_export p \<notin> {ExportForbidden, ExportPermitted, ExportRequired} then None
      else if list_ex (\<lambda>q. pw_digest q = pw_digest p) (ld_policies db) then Some db
      else Some (db\<lparr>ld_policies := ld_policies db @ [p]\<rparr>))"

definition insert_binding :: "LifecycleDB \<Rightarrow> binding_row \<Rightarrow> LifecycleDB option" where
  "insert_binding db b =
     (if tb_epoch b = 0 \<or> unat (tb_epoch b) > MaxInt64 then None
      else if list_ex (\<lambda>c. tb_key c = tb_key b) (ld_bindings db) then Some db
      else if find_transcript (ld_relay db) (tb_key b) = None \<or>
        \<not> list_ex (\<lambda>p. pw_digest p = tb_digest b) (ld_policies db) then None
      else Some (db\<lparr>ld_bindings := ld_bindings db @ [b]\<rparr>))"

text \<open>An insertion has to respect the primary key, the index on active operations and the foreign key.\<close>

definition insert_operation :: "LifecycleDB \<Rightarrow> operation_row \<Rightarrow> LifecycleDB option" where
  "insert_operation db w =
     (if find_operation db (ow_operation w) \<noteq> None \<or> ow_state w \<notin> set saga_order \<or>
         \<not> list_ex (\<lambda>b. tb_key b = ow_key w) (ld_bindings db) \<or>
         ow_state w \<noteq> Completed \<and> list_ex (\<lambda>v. ow_key v = ow_key w \<and> ow_state v \<noteq> Completed) (ld_operations db)
      then None else Some (db\<lparr>ld_operations := ld_operations db @ [w]\<rparr>))"

text \<open>\<^verbatim>\<open>UPDATE lifecycle_operations SET \<dots> WHERE operation_id = ? AND intent_digest = ? AND state = ?\<close> and the
  number of rows it changed.\<close>

definition update_operation ::
  "LifecycleDB \<Rightarrow> string \<Rightarrow> string \<Rightarrow> string \<Rightarrow> (operation_row \<Rightarrow> operation_row) \<Rightarrow> LifecycleDB \<times> nat" where
  "update_operation db operation intentDigest state f =
     (let hit = (\<lambda>w. ow_operation w = operation \<and> ow_intent_digest w = intentDigest \<and> ow_state w = state) in
      (db\<lparr>ld_operations := map (\<lambda>w. if hit w then f w else w) (ld_operations db)\<rparr>, length (filter hit (ld_operations db))))"

text \<open>\<^verbatim>\<open>UPDATE transcripts SET lifecycle = ?, completeness = 'incomplete' WHERE \<dots> AND lifecycle = ?\<close>.\<close>

definition set_lifecycle :: "RelayDB \<Rightarrow> ChannelKey \<Rightarrow> string \<Rightarrow> string \<Rightarrow> RelayDB \<times> nat" where
  "set_lifecycle db k from to =
     (let hit = (\<lambda>t. tw_key t = k \<and> tw_lifecycle t = from) in
      (db\<lparr>rd_transcripts := map (\<lambda>t. if hit t then t\<lparr>tw_lifecycle := to, tw_completeness := ''incomplete''\<rparr> else t) (rd_transcripts db)\<rparr>,
       length (filter hit (rd_transcripts db))))"

section \<open>Stored operations\<close>

record lifecycleOperationRow =
  lo_operation :: Operation
  lo_canonicalIntent :: bytes
  lo_manifest :: string
  lo_custody :: string
  lo_removal :: string

definition validMarkerPersistence :: "lifecycle_env \<Rightarrow> Operation \<Rightarrow> bool" where
  "validMarkerPersistence env v \<longleftrightarrow> ValidateMarkerPersistence env \<lparr>mp_operation = li_operation (op_intent v),
     mp_intent_digest = op_intent_digest v, mp_marker = op_marker v, mp_preimage = op_receipt v\<rparr> = None"

definition validLifecycleDigest :: "string \<Rightarrow> bool" where
  "validLifecycleDigest v \<longleftrightarrow> length v = 72 \<and> take 8 v = ''sha-256:'' \<and>
     list_all (\<lambda>c. \<not> (c < CHR ''0'' \<or> CHR ''9'' < c \<and> c < CHR ''a'' \<or> CHR ''f'' < c)) (drop 8 v)"

definition validExportBinding :: "lifecycle_env \<Rightarrow> lifecycleOperationRow \<Rightarrow> bool" where
  "validExportBinding env row =
     (let v = lo_operation row in
      if li_export_mode (op_intent v) = ExportRequired
      then lo_manifest row \<noteq> '''' \<and> lo_custody row \<noteq> '''' \<and>
        ValidateExportEvidence env \<lparr>xe_operation = li_operation (op_intent v), xe_intent_digest = op_intent_digest v,
          xe_manifest_digest = lo_manifest row, xe_custody_digest = lo_custody row\<rparr> = None
      else lo_manifest row = '''' \<and> lo_custody row = '''')"

definition validStoredLifecycle :: "lifecycle_env \<Rightarrow> lifecycleOperationRow \<Rightarrow> bool" where
  "validStoredLifecycle env row =
     (let v = lo_operation row; exportEmpty = (lo_manifest row = '''' \<and> lo_custody row = '''') in
      if op_state v = Reserved \<or> op_state v = ExportSatisfied then
        length (op_marker v) = 0 \<and> length (op_receipt v) = 0 \<and> length (op_signature v) = 0 \<and> lo_removal row = '''' \<and>
        (op_state v \<noteq> Reserved \<or> li_export_mode (op_intent v) = ExportRequired \<and> exportEmpty) \<and>
        (op_state v \<noteq> ExportSatisfied \<or> validExportBinding env row)
      else if op_state v = MarkerPersisted then
        validExportBinding env row \<and> length (op_signature v) = 0 \<and> lo_removal row = '''' \<and> validMarkerPersistence env v
      else if op_state v = ReceiptSigned then
        validExportBinding env row \<and> length (op_signature v) = 64 \<and> lo_removal row = '''' \<and> validMarkerPersistence env v
      else if op_state v = PayloadRemoved \<or> op_state v = BackupsPending \<or> op_state v = Completed then
        validExportBinding env row \<and> length (op_signature v) = 64 \<and> validLifecycleDigest (lo_removal row) \<and> validMarkerPersistence env v
      else False)"

text \<open>The row as it is scanned, with the decoded intent.\<close>

definition scan_operation :: "operation_row \<Rightarrow> Intent \<Rightarrow> lifecycleOperationRow" where
  "scan_operation w i = \<lparr>lo_operation = \<lparr>op_intent = i, op_intent_digest = ow_intent_digest w, op_state = ow_state w,
       op_marker = ow_marker w, op_receipt = ow_receipt w, op_signature = ow_signature w\<rparr>,
     lo_canonicalIntent = ow_intent w, lo_manifest = (case ow_manifest w of None \<Rightarrow> '''' | Some d \<Rightarrow> d),
     lo_custody = (case ow_custody w of None \<Rightarrow> '''' | Some d \<Rightarrow> d), lo_removal = (case ow_removal w of None \<Rightarrow> '''' | Some d \<Rightarrow> d)\<rparr>"

definition loadLifecycleOperation ::
  "lifecycle_env \<Rightarrow> bool \<Rightarrow> LifecycleDB \<Rightarrow> string \<Rightarrow> lc_error + lifecycleOperationRow option" where
  "loadLifecycleOperation env fault db operation =
     (if fault then Inl LUnavailable
      else case find_operation db operation of None \<Rightarrow> Inr None | Some w \<Rightarrow>
      if ValidateCanonical env (ow_intent w) \<noteq> None then Inl LUnavailable
      else case le_intent env (ow_intent w) of None \<Rightarrow> Inl LUnavailable | Some i \<Rightarrow>
      case CanonicalIntent env i of Inl e \<Rightarrow> Inl LUnavailable | Inr (_, digest) \<Rightarrow>
      if digest \<noteq> ow_intent_digest w then Inl LUnavailable
      else if \<not> validStoredLifecycle env (scan_operation w i) then Inl LUnavailable
      else Inr (Some (scan_operation w i)))"

text \<open>\<^verbatim>\<open>closedFound\<close>: a row that has to exist.\<close>

definition closedFound :: "lc_error + 'a option \<Rightarrow> lc_error + 'a" where
  "closedFound r = (case r of Inl e \<Rightarrow> Inl e | Inr None \<Rightarrow> Inl LInvalidContract | Inr (Some x) \<Rightarrow> Inr x)"

text \<open>Updates have to change one row.\<close>

definition exactlyOne :: "bool \<Rightarrow> 'e \<Rightarrow> 'db \<times> nat \<Rightarrow> 'e + 'db" where
  "exactlyOne fault e r = (if fault \<or> snd r \<noteq> 1 then Inl e else Inr (fst r))"

abbreviation lifecycle_tx ::
  "sql_run \<Rightarrow> (LifecycleDB \<Rightarrow> lc_error + LifecycleDB \<times> 'a) \<Rightarrow> LifecycleDB \<Rightarrow> LifecycleDB \<times> (lc_error + 'a)" where
  "lifecycle_tx run \<equiv> immediate_tx run LUnavailable LUnavailable"

section \<open>Reservation\<close>

definition maxSQLiteRetentionMillis :: u64 where
  "maxSQLiteRetentionMillis = 9223372036854"

record LifecyclePreparation =
  lp_validator :: Validator
  lp_policies :: "(string, Policy) gomap"

text \<open>The loop over the policies of \<^verbatim>\<open>NewLifecyclePreparation\<close>; \<open>validator\<close> is what compiling the schemas gives.\<close>

fun close_policies :: "lifecycle_env \<Rightarrow> (string, Policy) gomap \<Rightarrow> Policy list \<Rightarrow> lc_error + (string, Policy) gomap" where
  "close_policies env known [] = Inr known"
| "close_policies env known (p # ps) =
     (if ValidatePolicy env p \<noteq> None \<or> pl_active_retention p > maxSQLiteRetentionMillis then Inl LInvalidContract
      else if map_of known (pl_digest p) \<notin> {None, Some p} then Inl LConflict
      else close_policies env (AList.update (pl_digest p) p known) ps)"

definition NewLifecyclePreparation ::
  "lifecycle_env \<Rightarrow> bool \<Rightarrow> Validator option \<Rightarrow> Policy list \<Rightarrow> lc_error + LifecyclePreparation" where
  "NewLifecyclePreparation env hasStore validator policies =
     (if \<not> hasStore \<or> length policies = 0 then Inl LInvalidContract
      else case validator of None \<Rightarrow> Inl LUnavailable | Some v \<Rightarrow>
        bindE (close_policies env [] policies) (\<lambda>known. Inr \<lparr>lp_validator = v, lp_policies = known\<rparr>))"

definition find_sequence :: "RelayDB \<Rightarrow> ChannelKey \<Rightarrow> nat \<Rightarrow> AcceptedRecord option" where
  "find_sequence db k n = find (\<lambda>r. ar_channel r = k \<and> unat (ar_sequence r) = n) (rd_records db)"

text \<open>Statement 3 reads the record at the high-water mark, the statements from 9 on those of the targets.\<close>

definition signed_at :: "bool \<Rightarrow> RelayDB \<Rightarrow> ChannelKey \<Rightarrow> nat \<Rightarrow> bool" where
  "signed_at fault db k n =
     (\<not> fault \<and> (case find_sequence db k n of None \<Rightarrow> False | Some r \<Rightarrow> length (ar_signature r) \<noteq> 0))"

definition validateLifecycleHighWater :: "sql_run \<Rightarrow> LifecycleDB \<Rightarrow> Intent \<Rightarrow> ChannelKey \<Rightarrow> nat \<Rightarrow> lc_error + unit" where
  "validateLifecycleHighWater run db i k highWater =
     (if \<not> signed_at (sr_fault run 3) (ld_relay db) k highWater \<or>
         map_option ar_receipt_id (find_sequence (ld_relay db) k highWater) \<noteq> Some (li_high_water i) then Inl LConflict
      else if list_all (\<lambda>(j, s). unat s \<le> highWater \<and> signed_at (sr_fault run j) (ld_relay db) k (unat s))
        (enumerate 9 (tg_sequences (li_target i))) then Inr ()
      else Inl LConflict)"

definition persistLifecyclePolicy :: "sql_run \<Rightarrow> LifecycleDB \<Rightarrow> Policy \<Rightarrow> bytes \<Rightarrow> lc_error + LifecycleDB" where
  "persistLifecyclePolicy run db p canon =
     (let row = \<lparr>pw_digest = pl_digest p, pw_id = pl_id p, pw_epoch = pl_epoch p, pw_canonical = canon,
        pw_retention = pl_active_retention p, pw_export = pl_export_mode p\<rparr> in
      case (if sr_fault run 4 then None else insert_policy db row) of None \<Rightarrow> Inl LUnavailable | Some db1 \<Rightarrow>
      case (if sr_fault run 5 then None else find (\<lambda>q. pw_digest q = pl_digest p) (ld_policies db1)) of
        None \<Rightarrow> Inl LUnavailable
      | Some existing \<Rightarrow> if existing \<noteq> row then Inl LConflict else Inr db1)"

definition persistTranscriptPolicyBinding :: "sql_run \<Rightarrow> LifecycleDB \<Rightarrow> Intent \<Rightarrow> ChannelKey \<Rightarrow> string \<Rightarrow> lc_error + LifecycleDB" where
  "persistTranscriptPolicyBinding run db i k deadline =
     (let row = \<lparr>tb_key = k, tb_digest = li_policy_digest i, tb_id = li_policy_id i, tb_epoch = li_policy_epoch i,
        tb_deadline = deadline\<rparr> in
      case (if sr_fault run 6 then None else insert_binding db row) of None \<Rightarrow> Inl LUnavailable | Some db1 \<Rightarrow>
      case (if sr_fault run 7 then None else find (\<lambda>b. tb_key b = k) (ld_bindings db1)) of
        None \<Rightarrow> Inl LUnavailable
      | Some existing \<Rightarrow> if existing \<noteq> row then Inl LConflict else Inr db1)"

text \<open>The deadline of the retention: the creation time of the channel plus the retention period, at the width of
  \<^verbatim>\<open>time.Duration\<close>.\<close>

definition retention_deadline :: "string \<Rightarrow> Policy \<Rightarrow> lc_error + string" where
  "retention_deadline created p =
     (case time_Parse created of None \<Rightarrow> Inl LInvalidContract | Some t \<Rightarrow>
        let deadline = time_Format (time_Add t (sint (pl_active_retention p * 1000000))) in
        if time_Parse deadline = None then Inl LInvalidContract else Inr deadline)"

text \<open>What the channel metadata and the row of the transcript have to say. The metadata schema requires the members that
  \<^verbatim>\<open>ValidateChannelMetadata\<close> asserts, so its outcome \<open>Panic\<close> does not arise here.\<close>

definition reservable :: "protocol_env \<Rightarrow> LifecyclePreparation \<Rightarrow> Intent \<Rightarrow> Policy \<Rightarrow> transcript_row \<Rightarrow> ChannelMetadata option" where
  "reservable penv prep i policy t =
     (case ValidateChannelMetadata penv (Some (lp_validator prep)) (tw_metadata t) of
        Inl e \<Rightarrow> None
      | Inr metadata \<Rightarrow>
          if cm_TenantID metadata \<noteq> tk_tenant (li_transcript i) \<or> cm_ChannelID metadata \<noteq> tk_channel (li_transcript i) \<or>
             cm_RetentionPolicyDigest metadata \<noteq> pl_digest policy \<or> cm_RetentionEpoch metadata \<noteq> pl_epoch policy \<or>
             tw_lifecycle t \<noteq> Active \<or> tw_completeness t \<noteq> ''complete'' \<or> tw_next t \<le> 1
          then None else Some metadata)"

definition reserved_row :: "Intent \<Rightarrow> string \<Rightarrow> bytes \<Rightarrow> Policy \<Rightarrow> operation_row" where
  "reserved_row i digest canon policy = \<lparr>ow_operation = li_operation i, ow_intent_digest = digest, ow_intent = canon,
     ow_key = transcript_key (li_transcript i), ow_policy_digest = li_policy_digest i, ow_requested_at = li_requested_at i,
     ow_state = (if pl_export_mode policy \<noteq> ExportRequired then ExportSatisfied else Reserved), ow_manifest = None, ow_custody = None,
     ow_marker = [], ow_receipt = [], ow_signature = [], ow_removal = None\<rparr>"

definition reserve_new ::
  "sql_run \<Rightarrow> lifecycle_env \<Rightarrow> protocol_env \<Rightarrow> LifecyclePreparation \<Rightarrow> Intent \<Rightarrow> bytes \<Rightarrow> string \<Rightarrow> LifecycleDB
     \<Rightarrow> lc_error + LifecycleDB \<times> Operation" where
  "reserve_new run env penv prep i canon digest db =
     (let k = transcript_key (li_transcript i) in
      case map_of (lp_policies prep) (li_policy_digest i) of None \<Rightarrow> Inl LConflict | Some policy \<Rightarrow>
      if pl_id policy \<noteq> li_policy_id i \<or> pl_epoch policy \<noteq> li_policy_epoch i \<or> pl_export_mode policy \<noteq> li_export_mode i then Inl LConflict
      else if sr_fault run 2 then Inl LUnavailable
      else case find_transcript (ld_relay db) k of None \<Rightarrow> Inl LInvalidContract | Some t \<Rightarrow>
      case reservable penv prep i policy t of None \<Rightarrow> Inl LConflict | Some metadata \<Rightarrow>
      bindE (validateLifecycleHighWater run db i k (tw_next t - 1)) (\<lambda>_.
      bindE (CanonicalPolicy env policy) (\<lambda>canonicalPolicy.
      bindE (retention_deadline (cm_CreatedAt metadata) policy) (\<lambda>deadline.
      bindE (persistLifecyclePolicy run db policy canonicalPolicy) (\<lambda>db1.
      bindE (persistTranscriptPolicyBinding run db1 i k deadline) (\<lambda>db2.
      let row = reserved_row i digest canon policy in
      case (if sr_fault run 8 then None else insert_operation db2 row) of
        None \<Rightarrow> Inl LConflict
      | Some db3 \<Rightarrow> Inr (db3, \<lparr>op_intent = i, op_intent_digest = digest, op_state = ow_state row, op_marker = [], op_receipt = [],
          op_signature = []\<rparr>)))))))"

definition reserve_body ::
  "sql_run \<Rightarrow> lifecycle_env \<Rightarrow> protocol_env \<Rightarrow> LifecyclePreparation \<Rightarrow> Intent \<Rightarrow> bytes \<Rightarrow> string \<Rightarrow> LifecycleDB
     \<Rightarrow> lc_error + LifecycleDB \<times> Operation" where
  "reserve_body run env penv prep i canon digest db =
     bindE (loadLifecycleOperation env (sr_fault run 1) db (li_operation i)) (\<lambda>found.
       case found of
         Some existing \<Rightarrow>
           if op_intent_digest (lo_operation existing) \<noteq> digest \<or> lo_canonicalIntent existing \<noteq> canon then Inl LConflict
           else Inr (db, CloneOperation (lo_operation existing))
       | None \<Rightarrow> reserve_new run env penv prep i canon digest db)"

definition lp_Reserve ::
  "sql_run \<Rightarrow> lifecycle_env \<Rightarrow> protocol_env \<Rightarrow> LifecyclePreparation \<Rightarrow> LifecycleDB \<Rightarrow> bool \<Rightarrow> Intent
     \<Rightarrow> LifecycleDB \<times> (lc_error + Operation)" where
  "lp_Reserve run env penv prep db cancelled i =
     (if cancelled then (db, Inl LContext)
      else case CanonicalIntent env i of
        Inl e \<Rightarrow> (db, Inl e)
      | Inr (canon, digest) \<Rightarrow> lifecycle_tx run (reserve_body run env penv prep i canon digest) db)"

section \<open>Export evidence and markers\<close>

definition bind_export_body :: "sql_run \<Rightarrow> lifecycle_env \<Rightarrow> ExportEvidence \<Rightarrow> LifecycleDB \<Rightarrow> lc_error + LifecycleDB \<times> Operation" where
  "bind_export_body run env e db =
     bindE (closedFound (loadLifecycleOperation env (sr_fault run 1) db (xe_operation e))) (\<lambda>stored.
       let v = lo_operation stored in
       if op_intent_digest v \<noteq> xe_intent_digest e \<or> li_export_mode (op_intent v) \<noteq> ExportRequired then Inl LConflict
       else if lo_manifest stored \<noteq> '''' \<or> lo_custody stored \<noteq> '''' then
         (if lo_manifest stored \<noteq> xe_manifest_digest e \<or> lo_custody stored \<noteq> xe_custody_digest e then Inl LConflict
          else Inr (db, CloneOperation v))
       else if op_state v \<noteq> Reserved then Inl LConflict
       else bindE (exactlyOne (sr_fault run 2) LUnavailable
           (update_operation db (xe_operation e) (xe_intent_digest e) Reserved
             (\<lambda>w. w\<lparr>ow_manifest := Some (xe_manifest_digest e), ow_custody := Some (xe_custody_digest e), ow_state := ExportSatisfied\<rparr>)))
         (\<lambda>db1. Inr (db1, CloneOperation (v\<lparr>op_state := ExportSatisfied\<rparr>))))"

definition lp_BindExport ::
  "sql_run \<Rightarrow> lifecycle_env \<Rightarrow> LifecycleDB \<Rightarrow> bool \<Rightarrow> ExportEvidence \<Rightarrow> LifecycleDB \<times> (lc_error + Operation)" where
  "lp_BindExport run env db cancelled e =
     (if cancelled then (db, Inl LContext)
      else case ValidateExportEvidence env e of Some x \<Rightarrow> (db, Inl x) | None \<Rightarrow> lifecycle_tx run (bind_export_body run env e) db)"

definition markerMatchesIntent :: "Marker \<Rightarrow> Intent \<Rightarrow> bool" where
  "markerMatchesIntent k i \<longleftrightarrow> mk_operation k = li_operation i \<and> mk_transcript k = li_transcript i \<and>
     mk_policy_digest k = li_policy_digest i \<and> mk_high_water k = li_high_water i \<and> mk_audit_receipt k = li_audit_receipt i \<and>
     tg_kind (mk_target k) = tg_kind (li_target i) \<and> tg_sequences (mk_target k) = tg_sequences (li_target i)"

definition persist_marker_body ::
  "sql_run \<Rightarrow> lifecycle_env \<Rightarrow> MarkerPersistence \<Rightarrow> Marker \<Rightarrow> LifecycleDB \<Rightarrow> lc_error + LifecycleDB \<times> Operation" where
  "persist_marker_body run env p marker db =
     bindE (closedFound (loadLifecycleOperation env (sr_fault run 1) db (mp_operation p))) (\<lambda>stored.
       let v = lo_operation stored in
       if op_intent_digest v \<noteq> mp_intent_digest p \<or> \<not> markerMatchesIntent marker (op_intent v) then Inl LConflict
       else if op_state v = MarkerPersisted then
         (if op_marker v \<noteq> mp_marker p \<or> op_receipt v \<noteq> mp_preimage p then Inl LConflict else Inr (db, CloneOperation v))
       else if op_state v \<noteq> ExportSatisfied then Inl LConflict
       else bindE (exactlyOne (sr_fault run 2 \<or> mk_resulting marker \<notin> {Active, Redacted, Deleted}) LConflict
           (set_lifecycle (ld_relay db) (transcript_key (mk_transcript marker)) (mk_previous marker) (mk_resulting marker)))
         (\<lambda>relay. bindE (exactlyOne (sr_fault run 3) LUnavailable
           (update_operation (db\<lparr>ld_relay := relay\<rparr>) (mp_operation p) (mp_intent_digest p) ExportSatisfied
             (\<lambda>w. w\<lparr>ow_marker := mp_marker p, ow_receipt := mp_preimage p, ow_state := MarkerPersisted\<rparr>)))
         (\<lambda>db1. Inr (db1, CloneOperation (v\<lparr>op_state := MarkerPersisted, op_marker := mp_marker p, op_receipt := mp_preimage p\<rparr>)))))"

definition lp_PersistMarker ::
  "sql_run \<Rightarrow> lifecycle_env \<Rightarrow> LifecycleDB \<Rightarrow> bool \<Rightarrow> MarkerPersistence \<Rightarrow> LifecycleDB \<times> (lc_error + Operation)" where
  "lp_PersistMarker run env db cancelled p =
     (if cancelled then (db, Inl LContext)
      else case ValidateMarkerPersistence env p of Some e \<Rightarrow> (db, Inl e) | None \<Rightarrow>
      case (le_marker env (mp_marker p), le_receipt env (mp_preimage p)) of
        (Some marker, Some _) \<Rightarrow> lifecycle_tx run (persist_marker_body run env p marker) db
      | _ \<Rightarrow> (db, Inl LInvalidContract))"

section \<open>Inspection\<close>

definition lp_Inspect :: "bool \<Rightarrow> lifecycle_env \<Rightarrow> LifecycleDB \<Rightarrow> bool \<Rightarrow> string \<Rightarrow> lc_error + Operation" where
  "lp_Inspect fault env db cancelled operation =
     (if cancelled then Inl LContext
      else if ValidateOperationReference env operation (''sha-256:'' @ replicate 64 (CHR ''0'')) \<noteq> None then Inl LInvalidContract
      else bindE (closedFound (loadLifecycleOperation env fault db operation)) (\<lambda>stored. Inr (CloneOperation (lo_operation stored))))"

text \<open>The operations due: the statement sees \<open>db\<close>, the inspection of the \<open>n\<close>-th of them the database \<open>dbs n\<close>.\<close>

definition due_ids :: "LifecycleDB \<Rightarrow> DueQuery \<Rightarrow> string list" where
  "due_ids db q = take (dq_limit q) (sort (map ow_operation (filter (\<lambda>w. ow_requested_at w \<le> dq_wall_time q \<and>
     dq_after q < ow_operation w \<and> ow_state w \<in> {Reserved, ExportSatisfied, MarkerPersisted}) (ld_operations db))))"

fun inspect_all ::
  "sql_run \<Rightarrow> lifecycle_env \<Rightarrow> (nat \<Rightarrow> LifecycleDB) \<Rightarrow> (nat \<Rightarrow> bool) \<Rightarrow> nat \<Rightarrow> string list \<Rightarrow> lc_error + Operation list" where
  "inspect_all run env dbs cancelled n [] = Inr []"
| "inspect_all run env dbs cancelled n (operation # ids) =
     bindE (lp_Inspect (sr_fault run n) env (dbs n) (cancelled n) operation) (\<lambda>v.
     bindE (inspect_all run env dbs cancelled (n + 1) ids) (\<lambda>vs. Inr (v # vs)))"

definition lp_InspectDue ::
  "sql_run \<Rightarrow> lifecycle_env \<Rightarrow> LifecycleDB \<Rightarrow> (nat \<Rightarrow> LifecycleDB) \<Rightarrow> (nat \<Rightarrow> bool) \<Rightarrow> DueQuery \<Rightarrow> lc_error + Operation list" where
  "lp_InspectDue run env db dbs cancelled q =
     (if cancelled 0 then Inl LContext
      else case ValidateDueQuery env q of Some e \<Rightarrow> Inl e | None \<Rightarrow>
      if sr_fault run 0 then Inl LUnavailable else inspect_all run env dbs cancelled 1 (due_ids db q))"

section \<open>Signatures\<close>

text \<open>The interface \<^verbatim>\<open>ReceiptSignatureVerifier\<close>: whether it accepts a key, an algorithm, bytes and a signature.\<close>

type_synonym receipt_verifier = "string \<Rightarrow> string \<Rightarrow> bytes \<Rightarrow> bytes \<Rightarrow> bool"

definition verify_receipt :: "lifecycle_env \<Rightarrow> receipt_verifier \<Rightarrow> bytes \<Rightarrow> bytes \<Rightarrow> lc_error option" where
  "verify_receipt env verify preimage signature =
     (case le_receipt env preimage of None \<Rightarrow> Some LUnavailable | Some receipt \<Rightarrow>
      case CanonicalReceiptPreimage env receipt of Inl e \<Rightarrow> Some LUnavailable | Inr (_, signing) \<Rightarrow>
      if verify (rp_key_id receipt) (rp_algorithm receipt) signing signature then None else Some LUnavailable)"

definition verifyStoredSignature :: "lifecycle_env \<Rightarrow> receipt_verifier \<Rightarrow> Operation \<Rightarrow> lc_error option" where
  "verifyStoredSignature env verify v = verify_receipt env verify (op_receipt v) (op_signature v)"

definition lr_attach_body ::
  "sql_run \<Rightarrow> lifecycle_env \<Rightarrow> LifecycleSignature \<Rightarrow> LifecycleDB \<Rightarrow> lc_error + LifecycleDB \<times> Operation" where
  "lr_attach_body run env a db =
     bindE (closedFound (loadLifecycleOperation env (sr_fault run 1) db (ls_operation a))) (\<lambda>stored.
       let v = lo_operation stored in
       if op_intent_digest v \<noteq> ls_intent_digest a \<or> op_receipt v \<noteq> ls_preimage a then Inl LConflict
       else if op_state v \<noteq> MarkerPersisted then
         (if (op_state v = ReceiptSigned \<or> op_state v = PayloadRemoved) \<and> op_signature v = ls_signature a
          then Inr (db, CloneOperation v) else Inl LConflict)
       else bindE (exactlyOne (sr_fault run 2) LUnavailable
           (update_operation db (ls_operation a) (ls_intent_digest a) MarkerPersisted
             (\<lambda>w. w\<lparr>ow_signature := ls_signature a, ow_state := ReceiptSigned\<rparr>)))
         (\<lambda>db1. Inr (db1, CloneOperation (v\<lparr>op_state := ReceiptSigned, op_signature := ls_signature a\<rparr>))))"

text \<open>\<open>db0\<close> is the database of the preflight, \<open>db\<close> that of the transaction; \<open>sr_ctx\<close> plays no part here.\<close>

definition lr_AttachSignature ::
  "sql_run \<Rightarrow> lifecycle_env \<Rightarrow> receipt_verifier \<Rightarrow> bool \<Rightarrow> LifecycleDB \<Rightarrow> LifecycleDB \<Rightarrow> bool \<Rightarrow> LifecycleSignature
     \<Rightarrow> LifecycleDB \<times> (lc_error + Operation)" where
  "lr_AttachSignature run env verify fault db0 db cancelled a =
     (if cancelled then (db, Inl LContext)
      else case lc_ValidateSignatureAttachment env a of Some e \<Rightarrow> (db, Inl e) | None \<Rightarrow>
      case closedFound (loadLifecycleOperation env fault db0 (ls_operation a)) of Inl e \<Rightarrow> (db, Inl e) | Inr stored \<Rightarrow>
      let v = lo_operation stored in
      if op_intent_digest v \<noteq> ls_intent_digest a \<or> op_receipt v \<noteq> ls_preimage a then (db, Inl LConflict)
      else if op_state v = ReceiptSigned \<or> op_state v = PayloadRemoved then
        (if op_signature v \<noteq> ls_signature a then (db, Inl LConflict)
         else case verifyStoredSignature env verify v of Some e \<Rightarrow> (db, Inl e) | None \<Rightarrow> (db, Inr (CloneOperation v)))
      else if op_state v \<noteq> MarkerPersisted then (db, Inl LConflict)
      else case verify_receipt env verify (op_receipt v) (ls_signature a) of
        Some e \<Rightarrow> (db, Inl e)
      | None \<Rightarrow> lifecycle_tx run (lr_attach_body run env a) db)"

section \<open>The removal of payloads\<close>

record removalRecord =
  rm_sequence :: u64
  rm_event :: string
  rm_event_digest :: string
  rm_receipt :: string

definition removalDigestDomain :: string where
  "removalDigestDomain = ''yukh.lifecycle-payload-removal.v0.1'' @ [CHR 0x00]"

definition removal_bytes :: "removalRecord \<Rightarrow> bytes" where
  "removal_bytes r = put_be64 (rm_sequence r) @
     concat (map (\<lambda>v. put_be64 (of_nat (length v)) @ str_bytes v) [rm_event r, rm_event_digest r, rm_receipt r])"

definition removalDigest :: "removalRecord list \<Rightarrow> string" where
  "removalDigest rs = ''sha-256:'' @ hex_sha256 (str_bytes removalDigestDomain @ concat (map removal_bytes rs))"

definition removal_of :: "AcceptedRecord \<Rightarrow> removalRecord" where
  "removal_of r = \<lparr>rm_sequence = ar_sequence r, rm_event = ar_event_id r, rm_event_digest = ar_digest r,
     rm_receipt = ar_receipt_id r\<rparr>"

text \<open>Statement 2 reads the records of a deletion; the statements from 5 on read, in turn, those of a redaction.\<close>

fun select_targets :: "sql_run \<Rightarrow> RelayDB \<Rightarrow> ChannelKey \<Rightarrow> nat \<Rightarrow> u64 list \<Rightarrow> lc_error + removalRecord list" where
  "select_targets run db k n [] = Inr []"
| "select_targets run db k n (s # ss) =
     (if sr_fault run n then Inl LUnavailable
      else case find_sequence db k (unat s) of None \<Rightarrow> Inl LConflict | Some r \<Rightarrow>
      bindE (select_targets run db k (n + 1) ss) (\<lambda>rs. Inr (removal_of r # rs)))"

definition selectRemovalRecords :: "sql_run \<Rightarrow> RelayDB \<Rightarrow> Intent \<Rightarrow> lc_error + removalRecord list" where
  "selectRemovalRecords run db i =
     (let k = transcript_key (li_transcript i) in
      if li_action i = DeleteTranscript then
        (if sr_fault run 2 then Inl LUnavailable
         else Inr (map removal_of (sort_key ar_sequence (filter (\<lambda>r. ar_channel r = k) (rd_records db)))))
      else select_targets run db k 5 (tg_sequences (li_target i)))"

text \<open>The insertions into the tombstone tables; the two identifiers go in either order.\<close>

definition insert_payload_tombstone :: "LifecycleDB \<Rightarrow> payload_tombstone \<Rightarrow> LifecycleDB option" where
  "insert_payload_tombstone db p =
     (if unat (pt_sequence p) = 0 \<or> unat (pt_sequence p) > MaxInt64 \<or> find_operation db (pt_operation p) = None \<or>
         list_ex (\<lambda>q. pt_operation q = pt_operation p \<and> pt_sequence q = pt_sequence p) (rd_payload_tombstones (ld_relay db))
      then None
      else Some (db\<lparr>ld_relay := (ld_relay db)\<lparr>rd_payload_tombstones := rd_payload_tombstones (ld_relay db) @ [p]\<rparr>\<rparr>))"

definition insert_identifier_tombstone :: "LifecycleDB \<Rightarrow> identifier_tombstone \<Rightarrow> LifecycleDB option" where
  "insert_identifier_tombstone db i =
     (if it_kind i \<notin> {''event'', ''receipt''} \<or> find_operation db (it_operation i) = None \<or>
         list_ex (\<lambda>j. it_tenant j = it_tenant i \<and> it_channel j = it_channel i \<and> it_kind j = it_kind i \<and> it_digest j = it_digest i \<or>
           it_kind j = ''receipt'' \<and> it_kind i = ''receipt'' \<and> it_digest j = it_digest i) (rd_identifier_tombstones (ld_relay db))
      then None
      else Some (db\<lparr>ld_relay := (ld_relay db)\<lparr>rd_identifier_tombstones := rd_identifier_tombstones (ld_relay db) @ [i]\<rparr>\<rparr>))"

definition payload_tombstone_of :: "string \<Rightarrow> TranscriptKey \<Rightarrow> removalRecord \<Rightarrow> payload_tombstone" where
  "payload_tombstone_of operation t r = \<lparr>pt_operation = operation, pt_key = transcript_key t, pt_sequence = rm_sequence r,
     pt_event_id_digest = identifierDigest ''event'' (rm_event r), pt_event_digest = rm_event_digest r,
     pt_receipt_id_digest = identifierDigest ''receipt'' (rm_receipt r)\<rparr>"

definition identifier_tombstone_of :: "string \<Rightarrow> TranscriptKey \<Rightarrow> string \<Rightarrow> string \<Rightarrow> identifier_tombstone" where
  "identifier_tombstone_of operation t kind v = \<lparr>it_tenant = tk_tenant t, it_channel = tk_channel t, it_kind = kind,
     it_digest = identifierDigest kind v, it_operation = operation\<rparr>"

definition insertRemovalEvidence ::
  "(nat \<Rightarrow> bool) \<Rightarrow> LifecycleDB \<Rightarrow> string \<Rightarrow> TranscriptKey \<Rightarrow> removalRecord \<Rightarrow> LifecycleDB option" where
  "insertRemovalEvidence fault db operation t r =
     Option.bind (if fault 0 then None else insert_payload_tombstone db (payload_tombstone_of operation t r)) (\<lambda>db1.
     Option.bind (if fault 1 then None else insert_identifier_tombstone db1 (identifier_tombstone_of operation t ''event'' (rm_event r))) (\<lambda>db2.
     if fault 2 then None else insert_identifier_tombstone db2 (identifier_tombstone_of operation t ''receipt'' (rm_receipt r))))"

definition delete_record :: "LifecycleDB \<Rightarrow> ChannelKey \<Rightarrow> u64 \<Rightarrow> LifecycleDB \<times> nat" where
  "delete_record db k s =
     (let hit = (\<lambda>r. ar_channel r = k \<and> ar_sequence r = s); relay = ld_relay db in
      (db\<lparr>ld_relay := relay\<lparr>rd_records := filter (\<lambda>r. \<not> hit r) (rd_records relay)\<rparr>\<rparr>, length (filter hit (rd_records relay))))"

text \<open>The loop over the removed records; the record at index \<open>n\<close> uses the statements from \<open>4 * n\<close> of \<open>fault\<close>.\<close>

fun remove_records ::
  "(nat \<Rightarrow> bool) \<Rightarrow> string \<Rightarrow> TranscriptKey \<Rightarrow> nat \<Rightarrow> LifecycleDB \<Rightarrow> removalRecord list \<Rightarrow> lc_error + LifecycleDB" where
  "remove_records fault operation t n db [] = Inr db"
| "remove_records fault operation t n db (r # rs) =
     (case insertRemovalEvidence (\<lambda>j. fault (4 * n + j)) db operation t r of
        None \<Rightarrow> Inl LUnavailable
      | Some db1 \<Rightarrow>
          bindE (exactlyOne (fault (4 * n + 3)) LUnavailable (delete_record db1 (transcript_key t) (rm_sequence r)))
            (\<lambda>db2. remove_records fault operation t (n + 1) db2 rs))"

definition evidence_record :: "removalRecord \<Rightarrow> removalRecord" where
  "evidence_record r = r\<lparr>rm_event := identifierDigest ''event'' (rm_event r), rm_receipt := identifierDigest ''receipt'' (rm_receipt r)\<rparr>"

definition tombstone_record :: "payload_tombstone \<Rightarrow> removalRecord" where
  "tombstone_record p = \<lparr>rm_sequence = pt_sequence p, rm_event = pt_event_id_digest p, rm_event_digest = pt_event_digest p,
     rm_receipt = pt_receipt_id_digest p\<rparr>"

definition validateRemovalEvidence :: "bool \<Rightarrow> LifecycleDB \<Rightarrow> lifecycleOperationRow \<Rightarrow> bool" where
  "validateRemovalEvidence fault db stored =
     (let records = map tombstone_record (sort_key pt_sequence (filter (\<lambda>p. pt_operation p = li_operation (op_intent (lo_operation stored)))
        (rd_payload_tombstones (ld_relay db)))) in
      \<not> fault \<and> length records > 0 \<and> removalDigest records = lo_removal stored)"

text \<open>\<open>rfault\<close> covers the statements of the loop, \<open>sr_fault\<close> the others.\<close>

definition remove_payload_body ::
  "sql_run \<Rightarrow> (nat \<Rightarrow> bool) \<Rightarrow> lifecycle_env \<Rightarrow> OperationReference \<Rightarrow> Operation \<Rightarrow> LifecycleDB \<Rightarrow> lc_error + LifecycleDB \<times> Operation" where
  "remove_payload_body run rfault env ref preflight db =
     bindE (closedFound (loadLifecycleOperation env (sr_fault run 1) db (or_operation ref))) (\<lambda>stored.
       let v = lo_operation stored; i = op_intent v in
       if op_intent_digest v \<noteq> or_intent_digest ref then Inl LConflict
       else if op_signature v \<noteq> op_signature preflight \<or> op_receipt v \<noteq> op_receipt preflight then Inl LConflict
       else if op_state v = PayloadRemoved then
         (if \<not> validateRemovalEvidence (sr_fault run 3) db stored then Inl LUnavailable else Inr (db, CloneOperation v))
       else if op_state v \<noteq> ReceiptSigned then Inl LConflict
       else bindE (selectRemovalRecords run (ld_relay db) i) (\<lambda>removed.
         if length removed = 0 then Inl LConflict
         else bindE (remove_records rfault (li_operation i) (li_transcript i) 0 db removed) (\<lambda>db1.
           bindE (exactlyOne (sr_fault run 4) LUnavailable
             (update_operation db1 (or_operation ref) (or_intent_digest ref) ReceiptSigned
               (\<lambda>w. w\<lparr>ow_removal := Some (removalDigest (map evidence_record removed)), ow_state := PayloadRemoved\<rparr>)))
           (\<lambda>db2. Inr (db2, CloneOperation (v\<lparr>op_state := PayloadRemoved\<rparr>))))))"

definition lr_RemovePayload ::
  "sql_run \<Rightarrow> (nat \<Rightarrow> bool) \<Rightarrow> lifecycle_env \<Rightarrow> receipt_verifier \<Rightarrow> bool \<Rightarrow> LifecycleDB \<Rightarrow> LifecycleDB \<Rightarrow> bool \<Rightarrow> OperationReference
     \<Rightarrow> LifecycleDB \<times> (lc_error + Operation)" where
  "lr_RemovePayload run rfault env verify fault db0 db cancelled ref =
     (if cancelled then (db, Inl LContext)
      else case ValidateOperationReference env (or_operation ref) (or_intent_digest ref) of Some e \<Rightarrow> (db, Inl e) | None \<Rightarrow>
      case closedFound (loadLifecycleOperation env fault db0 (or_operation ref)) of Inl e \<Rightarrow> (db, Inl e) | Inr stored \<Rightarrow>
      let v = lo_operation stored in
      if op_intent_digest v \<noteq> or_intent_digest ref then (db, Inl LConflict)
      else if op_state v = ReceiptSigned \<or> op_state v = PayloadRemoved then
        (case verifyStoredSignature env verify v of
           Some e \<Rightarrow> (db, Inl e)
         | None \<Rightarrow> lifecycle_tx run (remove_payload_body run rfault env ref v) db)
      else (db, Inl LConflict))"

end
