(* ===== verification/Lifecycle_Completion.thy ===== *)
theory Lifecycle_Completion
  imports Lifecycle_Sqlite
begin

text \<open>
  The end of a lifecycle operation over SQLite, \<^verbatim>\<open>internal/relay/sqlite/backup_completion.go\<close>: binding the backup
  obligations, recording custodian receipts, inspecting the recovery and completing. Each operation reads outside its
  transaction first; the databases of these reads are \<open>snap 0\<close>, \<open>snap 1\<close>, \<dots>, and \<open>pf n\<close> says whether the
  read fails.
\<close>

section \<open>Reading the evidence\<close>

definition decodeObligationSet :: "lifecycle_env \<Rightarrow> bytes \<Rightarrow> lc_error + BackupObligationSet \<times> bytes \<times> string" where
  "decodeObligationSet env raw =
     (if ValidateCanonical env raw \<noteq> None then Inl LInvalidContract
      else case le_obligation_set env raw of None \<Rightarrow> Inl LInvalidContract | Some v \<Rightarrow>
        bindE (CanonicalBackupObligationSet env v) (\<lambda>(canon, digest). Inr (v, canon, digest)))"

definition loadObligationSet :: "lifecycle_env \<Rightarrow> bool \<Rightarrow> LifecycleDB \<Rightarrow> string \<Rightarrow> lc_error + set_row option" where
  "loadObligationSet env fault db operation =
     (if fault then Inl LUnavailable
      else case find (\<lambda>row. os_operation row = operation) (ld_sets db) of None \<Rightarrow> Inr None | Some row \<Rightarrow>
      case decodeObligationSet env (os_canonical row) of Inl e \<Rightarrow> Inl LUnavailable | Inr (_, canon, digest) \<Rightarrow>
      if digest \<noteq> os_digest row \<or> canon \<noteq> os_canonical row then Inl LUnavailable else Inr (Some row))"

text \<open>The obligation in a row, when its columns agree with the canonical document.\<close>

definition obligation_of :: "lifecycle_env \<Rightarrow> obligation_row \<Rightarrow> BackupObligation option" where
  "obligation_of env row =
     (if ValidateCanonical env (ob_canonical row) \<noteq> None then None
      else case le_obligation env (ob_canonical row) of None \<Rightarrow> None | Some v \<Rightarrow>
      case CanonicalBackupObligation env v of Inl e \<Rightarrow> None | Inr (canon, digest) \<Rightarrow>
      if digest \<noteq> ob_digest row \<or> canon \<noteq> ob_canonical row \<or> bo_domain v \<noteq> ob_domain row \<or> bo_deadline v \<noteq> ob_deadline row \<or>
         bo_binding_kind v \<noteq> ob_kind row \<or> bo_binding_digest v \<noteq> ob_binding row then None else Some v)"

definition loadObligation ::
  "lifecycle_env \<Rightarrow> bool \<Rightarrow> LifecycleDB \<Rightarrow> string \<Rightarrow> string \<Rightarrow> lc_error + BackupObligation \<times> bytes \<times> string" where
  "loadObligation env fault db operation domain =
     (if fault then Inl LUnavailable
      else case find (\<lambda>row. ob_operation row = operation \<and> ob_domain row = domain) (ld_obligations db) of
        None \<Rightarrow> Inl LUnavailable
      | Some row \<Rightarrow>
          (case obligation_of env row of None \<Rightarrow> Inl LUnavailable | Some v \<Rightarrow>
             if bo_operation v \<noteq> operation then Inl LUnavailable else Inr (v, ob_canonical row, ob_digest row)))"

definition custodian_of :: "lifecycle_env \<Rightarrow> receipt_row \<Rightarrow> CustodianReceipt option" where
  "custodian_of env row =
     (if ValidateCanonical env (rr_canonical row) \<noteq> None then None
      else case le_custodian env (rr_canonical row) of None \<Rightarrow> None | Some v \<Rightarrow>
      case CanonicalCustodianReceipt env v of Inl e \<Rightarrow> None | Inr (canon, digest, _) \<Rightarrow>
      if canon \<noteq> rr_canonical row \<or> digest \<noteq> rr_digest row \<or> cr_receipt_id v \<noteq> rr_id row \<or> cr_operation v \<noteq> rr_operation row \<or>
         cr_domain v \<noteq> rr_domain row \<or> cr_evidence_time v \<noteq> rr_time row \<or> cr_outcome v \<noteq> rr_outcome row then None else Some v)"

definition loadReceiptByID :: "lifecycle_env \<Rightarrow> bool \<Rightarrow> LifecycleDB \<Rightarrow> string \<Rightarrow> lc_error + receipt_row option" where
  "loadReceiptByID env fault db receiptID =
     (if fault then Inl LUnavailable
      else case find (\<lambda>row. rr_id row = receiptID) (ld_receipts db) of None \<Rightarrow> Inr None | Some row \<Rightarrow>
      if custodian_of env row = None then Inl LUnavailable else Inr (Some row))"

definition loadCompletion :: "lifecycle_env \<Rightarrow> bool \<Rightarrow> LifecycleDB \<Rightarrow> string \<Rightarrow> lc_error + (completion_row \<times> CompletionEvidence) option" where
  "loadCompletion env fault db operation =
     (if fault then Inl LUnavailable
      else case find (\<lambda>row. cw_operation row = operation) (ld_completions db) of None \<Rightarrow> Inr None | Some row \<Rightarrow>
      if ValidateCanonical env (cw_canonical row) \<noteq> None then Inl LUnavailable
      else case le_completion env (cw_canonical row) of None \<Rightarrow> Inl LUnavailable | Some v \<Rightarrow>
      case CanonicalCompletionEvidence env v of Inl e \<Rightarrow> Inl LUnavailable | Inr (canon, digest) \<Rightarrow>
      if canon \<noteq> cw_canonical row \<or> digest \<noteq> cw_digest row \<or> ce_operation v \<noteq> operation \<or> ce_completed_at v \<noteq> cw_completed_at row
      then Inl LUnavailable else Inr (Some (row, v)))"

fun map_option_all :: "('a \<Rightarrow> 'b option) \<Rightarrow> 'a list \<Rightarrow> 'b list option" where
  "map_option_all f [] = Some []"
| "map_option_all f (x # xs) = Option.bind (f x) (\<lambda>y. Option.bind (map_option_all f xs) (\<lambda>ys. Some (y # ys)))"

definition domain_rank :: "string \<Rightarrow> nat" where
  "domain_rank d = (if d = EventBackupDomain then 0 else if d = IdentityBackupDomain then 1 else 2)"

text \<open>The two statements see \<open>db\<close> and \<open>db'\<close>; receipts come in the order of their insertion. The code does not ask for an error of the
  iteration after the obligations. An interrupted iteration is a failed read here; in the code it is a shorter list, which
  the comparison with the three obligations of the set refuses.\<close>

definition loadBackupEvidence ::
  "lifecycle_env \<Rightarrow> bool \<Rightarrow> bool \<Rightarrow> LifecycleDB \<Rightarrow> LifecycleDB \<Rightarrow> string \<Rightarrow> lc_error + BackupObligation list \<times> CustodianReceipt list" where
  "loadBackupEvidence env fault fault' db db' operation =
     (if fault then Inl LUnavailable
      else case map_option_all (obligation_of env)
          (sort_key (domain_rank \<circ> ob_domain) (filter (\<lambda>row. ob_operation row = operation) (ld_obligations db))) of
        None \<Rightarrow> Inl LUnavailable
      | Some obligations \<Rightarrow>
          if fault' then Inl LUnavailable
          else (case map_option_all (custodian_of env) (filter (\<lambda>row. rr_operation row = operation) (ld_receipts db')) of
             None \<Rightarrow> Inl LUnavailable
           | Some receipts \<Rightarrow> Inr (obligations, receipts)))"

definition obligationsMatchSet :: "lifecycle_env \<Rightarrow> BackupObligationSet \<Rightarrow> BackupObligation list \<Rightarrow> bool" where
  "obligationsMatchSet env v obligations \<longleftrightarrow> length obligations = length (bs_obligations v) \<and>
     list_all2 (\<lambda>l r. \<not> isl (CanonicalBackupObligation env l) \<and> CanonicalBackupObligation env l = CanonicalBackupObligation env r)
       (bs_obligations v) obligations"

definition obligationSetMatchesEvidence :: "lifecycle_env \<Rightarrow> set_row option \<Rightarrow> BackupObligation list \<Rightarrow> bool" where
  "obligationSetMatchesEvidence env row obligations =
     (case row of None \<Rightarrow> False | Some r \<Rightarrow>
      case decodeObligationSet env (os_canonical r) of Inl e \<Rightarrow> False | Inr (v, canon, digest) \<Rightarrow>
        digest = os_digest r \<and> canon = os_canonical r \<and> obligationsMatchSet env v obligations)"

definition sameOperationSnapshot :: "lifecycleOperationRow \<Rightarrow> lifecycleOperationRow \<Rightarrow> bool" where
  "sameOperationSnapshot a b \<longleftrightarrow> op_intent_digest (lo_operation a) = op_intent_digest (lo_operation b) \<and>
     op_state (lo_operation a) = op_state (lo_operation b) \<and> lo_canonicalIntent a = lo_canonicalIntent b \<and>
     op_marker (lo_operation a) = op_marker (lo_operation b) \<and> op_receipt (lo_operation a) = op_receipt (lo_operation b) \<and>
     op_signature (lo_operation a) = op_signature (lo_operation b) \<and> lo_removal a = lo_removal b"

text \<open>The canonical bytes and the digest with the error discarded.\<close>

definition print_obligation :: "lifecycle_env \<Rightarrow> BackupObligation \<Rightarrow> bytes \<times> string" where
  "print_obligation env v = (case CanonicalBackupObligation env v of Inl e \<Rightarrow> ([], '''') | Inr x \<Rightarrow> x)"

definition print_custodian :: "lifecycle_env \<Rightarrow> CustodianReceipt \<Rightarrow> bytes \<times> string" where
  "print_custodian env v = (case CanonicalCustodianReceipt env v of Inl e \<Rightarrow> ([], '''') | Inr (canon, digest, _) \<Rightarrow> (canon, digest))"

definition sameBackupEvidence ::
  "lifecycle_env \<Rightarrow> BackupObligation list \<Rightarrow> CustodianReceipt list \<Rightarrow> BackupObligation list \<Rightarrow> CustodianReceipt list \<Rightarrow> bool" where
  "sameBackupEvidence env aO aR bO bR \<longleftrightarrow> length aO = length bO \<and> length aR = length bR \<and>
     map (print_obligation env) aO = map (print_obligation env) bO \<and> map (print_custodian env) aR = map (print_custodian env) bR"

definition indexBackupDomain :: "string \<Rightarrow> nat" where
  "indexBackupDomain d = (if d = EventBackupDomain then 0 else if d = IdentityBackupDomain then 1 else 2)"

definition completionReferencesStored ::
  "lifecycle_env \<Rightarrow> CompletionEvidence \<Rightarrow> BackupObligation list \<Rightarrow> CustodianReceipt list \<Rightarrow> bool" where
  "completionReferencesStored env e obligations receipts =
     (if length obligations \<noteq> 3 \<or> length receipts \<noteq> 3 \<or> length (ce_receipts e) \<noteq> 3 then False
      else list_all (\<lambda>ref. case by_domain receipts (re_domain ref) of None \<Rightarrow> False | Some r \<Rightarrow>
        (case CanonicalCustodianReceipt env r of Inl x \<Rightarrow> False | Inr (_, digest, _) \<Rightarrow>
           re_receipt_id ref = cr_receipt_id r \<and> re_digest ref = digest \<and> cr_outcome r = BackupSucceeded \<and>
           cr_evidence_time r \<le> bo_deadline (obligations ! indexBackupDomain (re_domain ref)) \<and>
           cr_evidence_time r \<le> ce_completed_at e)) (ce_receipts e))"

definition corruptRecovery :: "OperationReference \<Rightarrow> BackupRecovery" where
  "corruptRecovery ref = \<lparr>br_profile = ''yukh-transcript-lifecycle-backup-recovery/v0.1'', br_operation = or_operation ref,
     br_intent_digest = or_intent_digest ref, br_status = RecoveryCorrupt,
     br_findings = [\<lparr>rf_domain = EventBackupDomain, rf_reason = RecoveryInvalidEvidence\<rparr>]\<rparr>"

section \<open>Binding the obligations\<close>

definition insert_set :: "LifecycleDB \<Rightarrow> set_row \<Rightarrow> LifecycleDB option" where
  "insert_set db row =
     (if find_operation db (os_operation row) = None \<or>
         list_ex (\<lambda>r. os_operation r = os_operation row \<or> os_digest r = os_digest row) (ld_sets db) then None
      else Some (db\<lparr>ld_sets := ld_sets db @ [row]\<rparr>))"

definition insert_obligation :: "LifecycleDB \<Rightarrow> obligation_row \<Rightarrow> LifecycleDB option" where
  "insert_obligation db row =
     (if ob_domain row \<notin> set backup_domains \<or> ob_kind row \<notin> {''generation'', ''absence_manifest''} \<or>
         \<not> list_ex (\<lambda>r. os_operation r = ob_operation row) (ld_sets db) \<or>
         list_ex (\<lambda>r. ob_operation r = ob_operation row \<and> ob_domain r = ob_domain row \<or> ob_digest r = ob_digest row) (ld_obligations db)
      then None else Some (db\<lparr>ld_obligations := ld_obligations db @ [row]\<rparr>))"

text \<open>The loop over the obligations; statement \<open>n\<close> inserts.\<close>

fun insert_obligations :: "sql_run \<Rightarrow> lifecycle_env \<Rightarrow> nat \<Rightarrow> LifecycleDB \<Rightarrow> BackupObligation list \<Rightarrow> lc_error + LifecycleDB" where
  "insert_obligations run env n db [] = Inr db"
| "insert_obligations run env n db (v # vs) =
     (case CanonicalBackupObligation env v of Inl e \<Rightarrow> Inl LInvalidContract | Inr (canon, digest) \<Rightarrow>
      case (if sr_fault run n then None else insert_obligation db \<lparr>ob_operation = bo_operation v, ob_domain = bo_domain v, ob_digest = digest,
          ob_canonical = canon, ob_deadline = bo_deadline v, ob_kind = bo_binding_kind v, ob_binding = bo_binding_digest v\<rparr>) of
        None \<Rightarrow> Inl LUnavailable
      | Some db1 \<Rightarrow> insert_obligations run env (n + 1) db1 vs)"

definition bind_obligations_body ::
  "sql_run \<Rightarrow> lifecycle_env \<Rightarrow> BackupObligationSet \<Rightarrow> bytes \<Rightarrow> string \<Rightarrow> lifecycleOperationRow \<Rightarrow> LifecycleDB
     \<Rightarrow> lc_error + LifecycleDB \<times> Operation" where
  "bind_obligations_body run env v canon digest preflight db =
     bindE (closedFound (loadLifecycleOperation env (sr_fault run 1) db (bs_operation v))) (\<lambda>stored.
       let s = lo_operation stored in
       if op_state s = BackupsPending \<or> op_state s = Completed then
         (case (loadObligationSet env (sr_fault run 2) db (bs_operation v),
                loadBackupEvidence env (sr_fault run 3) (sr_fault run 4) db db (bs_operation v)) of
            (Inr (Some row), Inr (obligations, _)) \<Rightarrow>
              if os_digest row \<noteq> digest \<or> os_canonical row \<noteq> canon \<or> \<not> obligationsMatchSet env v obligations then Inl LConflict
              else Inr (db, CloneOperation s)
          | _ \<Rightarrow> Inl LConflict)
       else if \<not> sameOperationSnapshot preflight stored \<or> op_state s \<noteq> PayloadRemoved then Inl LConflict
       else case (if sr_fault run 5 then None else insert_set db \<lparr>os_operation = bs_operation v, os_digest = digest, os_canonical = canon\<rparr>) of
         None \<Rightarrow> Inl LConflict
       | Some db1 \<Rightarrow>
           bindE (insert_obligations run env 7 db1 (bs_obligations v)) (\<lambda>db2.
           bindE (exactlyOne (sr_fault run 6) LUnavailable
             (update_operation db2 (bs_operation v) (bs_intent_digest v) PayloadRemoved (\<lambda>w. w\<lparr>ow_state := BackupsPending\<rparr>)))
           (\<lambda>db3. Inr (db3, CloneOperation (s\<lparr>op_state := BackupsPending\<rparr>)))))"

definition lb_BindBackupObligations ::
  "sql_run \<Rightarrow> lifecycle_env \<Rightarrow> (nat \<Rightarrow> bool) \<Rightarrow> (nat \<Rightarrow> LifecycleDB) \<Rightarrow> LifecycleDB \<Rightarrow> bool \<Rightarrow> BackupObligationSet
     \<Rightarrow> LifecycleDB \<times> (lc_error + Operation)" where
  "lb_BindBackupObligations run env pf snap db cancelled v =
     (if cancelled then (db, Inl LContext)
      else case CanonicalBackupObligationSet env v of Inl e \<Rightarrow> (db, Inl e) | Inr (canon, digest) \<Rightarrow>
      case closedFound (loadLifecycleOperation env (pf 0) (snap 0) (bs_operation v)) of Inl e \<Rightarrow> (db, Inl e) | Inr preflight \<Rightarrow>
      let s = lo_operation preflight in
      case ValidateObligationSetIntent env v (op_intent s) (op_intent_digest s) of Some e \<Rightarrow> (db, Inl e) | None \<Rightarrow>
      case loadObligationSet env (pf 1) (snap 1) (bs_operation v) of Inl e \<Rightarrow> (db, Inl LUnavailable)
      | Inr (Some existing) \<Rightarrow>
          if os_canonical existing \<noteq> canon \<or> os_digest existing \<noteq> digest then (db, Inl LConflict)
          else (case loadBackupEvidence env (pf 2) (pf 3) (snap 2) (snap 3) (bs_operation v) of
             Inl e \<Rightarrow> (db, Inl LUnavailable)
           | Inr (obligations, _) \<Rightarrow>
               if \<not> obligationsMatchSet env v obligations then (db, Inl LUnavailable)
               else (case closedFound (loadLifecycleOperation env (pf 4) (snap 4) (bs_operation v)) of
                  Inl e \<Rightarrow> (db, Inl e)
                | Inr current \<Rightarrow>
                    if op_state (lo_operation current) \<noteq> BackupsPending \<and> op_state (lo_operation current) \<noteq> Completed
                    then (db, Inl LUnavailable) else (db, Inr (CloneOperation (lo_operation current)))))
      | Inr None \<Rightarrow>
          if op_state s \<noteq> PayloadRemoved then (db, Inl LConflict)
          else lifecycle_tx run (bind_obligations_body run env v canon digest preflight) db)"

section \<open>Recording receipts\<close>

definition insert_receipt :: "LifecycleDB \<Rightarrow> receipt_row \<Rightarrow> LifecycleDB option" where
  "insert_receipt db row =
     (if rr_outcome row \<notin> {BackupSucceeded, BackupFailed} \<or>
         \<not> list_ex (\<lambda>r. ob_operation r = rr_operation row \<and> ob_domain r = rr_domain row) (ld_obligations db) \<or>
         list_ex (\<lambda>r. rr_id r = rr_id row \<or> rr_digest r = rr_digest row) (ld_receipts db)
      then None else Some (db\<lparr>ld_receipts := ld_receipts db @ [row]\<rparr>))"

definition record_receipt_body ::
  "sql_run \<Rightarrow> lifecycle_env \<Rightarrow> CustodianReceipt \<Rightarrow> bytes \<Rightarrow> string \<Rightarrow> lifecycleOperationRow \<Rightarrow> BackupObligation \<times> bytes \<times> string \<Rightarrow> LifecycleDB
     \<Rightarrow> lc_error + LifecycleDB \<times> Operation" where
  "record_receipt_body run env r canon digest preflight obligation db =
     bindE (closedFound (loadLifecycleOperation env (sr_fault run 1) db (cr_operation r))) (\<lambda>stored.
     bindE (loadReceiptByID env (sr_fault run 2) db (cr_receipt_id r)) (\<lambda>concurrent.
       case concurrent of
         Some row \<Rightarrow> if rr_digest row \<noteq> digest \<or> rr_canonical row \<noteq> canon then Inl LConflict else Inr (db, CloneOperation (lo_operation stored))
       | None \<Rightarrow>
           if loadObligation env (sr_fault run 3) db (cr_operation r) (cr_domain r) \<noteq> Inr obligation \<or>
              \<not> sameOperationSnapshot preflight stored \<or> op_state (lo_operation stored) \<noteq> BackupsPending then Inl LConflict
           else case (if sr_fault run 4 then None else insert_receipt db \<lparr>rr_id = cr_receipt_id r, rr_digest = digest,
               rr_operation = cr_operation r, rr_domain = cr_domain r, rr_canonical = canon, rr_time = cr_evidence_time r,
               rr_outcome = cr_outcome r\<rparr>) of
             None \<Rightarrow> Inl LConflict
           | Some db1 \<Rightarrow> Inr (db1, CloneOperation (lo_operation stored))))"

definition lb_RecordBackupReceipt ::
  "sql_run \<Rightarrow> lifecycle_env \<Rightarrow> verifier option \<Rightarrow> (nat \<Rightarrow> bool) \<Rightarrow> (nat \<Rightarrow> LifecycleDB) \<Rightarrow> LifecycleDB \<Rightarrow> bool \<Rightarrow> CustodianReceipt
     \<Rightarrow> LifecycleDB \<times> (lc_error + Operation)" where
  "lb_RecordBackupReceipt run env verifier pf snap db cancelled r =
     (if cancelled then (db, Inl LContext)
      else case CanonicalCustodianReceipt env r of Inl e \<Rightarrow> (db, Inl e) | Inr (canon, digest, _) \<Rightarrow>
      case closedFound (loadLifecycleOperation env (pf 0) (snap 0) (cr_operation r)) of Inl e \<Rightarrow> (db, Inl e) | Inr preflight \<Rightarrow>
      let s = lo_operation preflight in
      if op_intent_digest s \<noteq> cr_intent_digest r \<or> (op_state s \<noteq> BackupsPending \<and> op_state s \<noteq> Completed) then (db, Inl LConflict)
      else case loadObligation env (pf 1) (snap 1) (cr_operation r) (cr_domain r) of Inl e \<Rightarrow> (db, Inl LUnavailable) | Inr obligation \<Rightarrow>
      if ValidateReceiptObligation env r (fst obligation) (snd (snd obligation)) \<noteq> None then (db, Inl LConflict)
      else case ValidateCustodianReceiptSignature env verifier r of Some e \<Rightarrow> (db, Inl e) | None \<Rightarrow>
      case loadReceiptByID env (pf 2) (snap 2) (cr_receipt_id r) of Inl e \<Rightarrow> (db, Inl LUnavailable)
      | Inr (Some existing) \<Rightarrow>
          if rr_digest existing \<noteq> digest \<or> rr_canonical existing \<noteq> canon then (db, Inl LConflict)
          else (case closedFound (loadLifecycleOperation env (pf 3) (snap 3) (cr_operation r)) of
             Inl e \<Rightarrow> (db, Inl e) | Inr current \<Rightarrow> (db, Inr (CloneOperation (lo_operation current))))
      | Inr None \<Rightarrow>
          if op_state s \<noteq> BackupsPending then (db, Inl LConflict)
          else lifecycle_tx run (record_receipt_body run env r canon digest preflight obligation) db)"

section \<open>Recovery and completion\<close>

text \<open>The reads of \<^verbatim>\<open>InspectBackupRecovery\<close> are one read-only transaction; \<open>pf 0\<close> is its start and \<open>pf 6\<close> its end.\<close>

definition lb_InspectBackupRecovery ::
  "lifecycle_env \<Rightarrow> verifier option \<Rightarrow> (nat \<Rightarrow> bool) \<Rightarrow> LifecycleDB \<Rightarrow> bool \<Rightarrow> OperationReference \<Rightarrow> lc_error + BackupRecovery" where
  "lb_InspectBackupRecovery env verifier pf db cancelled ref =
     (if cancelled then Inl LContext
      else case ValidateOperationReference env (or_operation ref) (or_intent_digest ref) of Some e \<Rightarrow> Inl e | None \<Rightarrow>
      if pf 0 then Inl LUnavailable
      else case closedFound (loadLifecycleOperation env (pf 1) db (or_operation ref)) of Inl e \<Rightarrow> Inl e | Inr stored \<Rightarrow>
      let s = lo_operation stored in
      if op_intent_digest s \<noteq> or_intent_digest ref then Inl LConflict
      else case (loadObligationSet env (pf 2) db (or_operation ref), loadCompletion env (pf 3) db (or_operation ref)) of
        (Inr (Some row), Inr completion) \<Rightarrow>
          if op_state s \<noteq> BackupsPending \<and> op_state s \<noteq> Completed \<or> op_state s = BackupsPending \<and> completion \<noteq> None \<or>
             op_state s = Completed \<and> completion = None then Inr (corruptRecovery ref)
          else (case loadBackupEvidence env (pf 4) (pf 5) db db (or_operation ref) of
             Inl e \<Rightarrow> Inr (corruptRecovery ref)
           | Inr (obligations, receipts) \<Rightarrow>
               if \<not> obligationSetMatchesEvidence env (Some row) obligations \<or>
                  (case completion of None \<Rightarrow> False | Some (_, e) \<Rightarrow> \<not> completionReferencesStored env e obligations receipts)
               then Inr (corruptRecovery ref)
               else if pf 6 then Inl LUnavailable
               else Inr (CloneBackupRecovery (ClassifyBackupRecovery env (or_operation ref) (or_intent_digest ref) obligations receipts verifier)))
      | _ \<Rightarrow> Inr (corruptRecovery ref))"

definition insert_completion :: "LifecycleDB \<Rightarrow> completion_row \<Rightarrow> LifecycleDB option" where
  "insert_completion db row =
     (if find_operation db (cw_operation row) = None \<or>
         list_ex (\<lambda>r. cw_operation r = cw_operation row \<or> cw_digest r = cw_digest row) (ld_completions db) then None
      else Some (db\<lparr>ld_completions := ld_completions db @ [row]\<rparr>))"

definition complete_body ::
  "sql_run \<Rightarrow> lifecycle_env \<Rightarrow> CompletionEvidence \<Rightarrow> bytes \<Rightarrow> string \<Rightarrow> lifecycleOperationRow \<Rightarrow> set_row \<Rightarrow>
     BackupObligation list \<Rightarrow> CustodianReceipt list \<Rightarrow> LifecycleDB \<Rightarrow> lc_error + LifecycleDB \<times> Operation" where
  "complete_body run env e canon digest preflight row obligations receipts db =
     bindE (closedFound (loadLifecycleOperation env (sr_fault run 1) db (ce_operation e))) (\<lambda>stored.
       let s = lo_operation stored in
       if op_state s = Completed then
         (case loadCompletion env (sr_fault run 2) db (ce_operation e) of
            Inr (Some (c, _)) \<Rightarrow> if cw_digest c \<noteq> digest \<or> cw_canonical c \<noteq> canon then Inl LConflict else Inr (db, CloneOperation s)
          | _ \<Rightarrow> Inl LConflict)
       else case loadObligationSet env (sr_fault run 3) db (ce_operation e) of
         Inr (Some current) \<Rightarrow>
           if \<not> sameOperationSnapshot preflight stored \<or> op_state s \<noteq> BackupsPending \<or> os_digest current \<noteq> os_digest row \<or>
              os_canonical current \<noteq> os_canonical row then Inl LConflict
           else (case loadBackupEvidence env (sr_fault run 4) (sr_fault run 5) db db (ce_operation e) of
              Inl x \<Rightarrow> Inl LConflict
            | Inr (currentObligations, currentReceipts) \<Rightarrow>
                if \<not> sameBackupEvidence env obligations receipts currentObligations currentReceipts then Inl LConflict
                else if \<not> completionReferencesStored env e currentObligations currentReceipts then Inl LConflict
                else case (if sr_fault run 6 then None else insert_completion db \<lparr>cw_operation = ce_operation e, cw_digest = digest,
                    cw_canonical = canon, cw_completed_at = ce_completed_at e\<rparr>) of
                  None \<Rightarrow> Inl LConflict
                | Some db1 \<Rightarrow>
                    bindE (exactlyOne (sr_fault run 7) LUnavailable
                      (update_operation db1 (ce_operation e) (ce_intent_digest e) BackupsPending (\<lambda>w. w\<lparr>ow_state := Completed\<rparr>)))
                    (\<lambda>db2. Inr (db2, CloneOperation (s\<lparr>op_state := Completed\<rparr>))))
       | _ \<Rightarrow> Inl LConflict)"

definition lb_Complete ::
  "sql_run \<Rightarrow> lifecycle_env \<Rightarrow> verifier option \<Rightarrow> (CompletionEvidence \<Rightarrow> lc_error option) \<Rightarrow> (nat \<Rightarrow> bool) \<Rightarrow> (nat \<Rightarrow> LifecycleDB) \<Rightarrow> LifecycleDB
     \<Rightarrow> bool \<Rightarrow> CompletionEvidence \<Rightarrow> LifecycleDB \<times> (lc_error + Operation)" where
  "lb_Complete run env verifier audit pf snap db cancelled e =
     (if cancelled then (db, Inl LContext)
      else case CanonicalCompletionEvidence env e of Inl x \<Rightarrow> (db, Inl x) | Inr (canon, digest) \<Rightarrow>
      case closedFound (loadLifecycleOperation env (pf 0) (snap 0) (ce_operation e)) of Inl x \<Rightarrow> (db, Inl x) | Inr preflight \<Rightarrow>
      let s = lo_operation preflight in
      if op_intent_digest s \<noteq> ce_intent_digest e \<or> li_policy_digest (op_intent s) \<noteq> ce_policy_digest e \<or>
         (op_state s \<noteq> BackupsPending \<and> op_state s \<noteq> Completed) then (db, Inl LConflict)
      else case loadObligationSet env (pf 1) (snap 1) (ce_operation e) of Inl x \<Rightarrow> (db, Inl LUnavailable)
      | Inr None \<Rightarrow> (db, Inl LUnavailable)
      | Inr (Some row) \<Rightarrow>
      case loadBackupEvidence env (pf 2) (pf 3) (snap 2) (snap 3) (ce_operation e) of Inl x \<Rightarrow> (db, Inl LUnavailable)
      | Inr (obligations, receipts) \<Rightarrow>
      case ValidateCompletionAgainst env e obligations receipts verifier of Some x \<Rightarrow> (db, Inl x) | None \<Rightarrow>
      case audit (CloneCompletionEvidence e) of
        Some x \<Rightarrow> if x = LUnavailable then (db, Inl LUnavailable) else (db, Inl LInvalidContract)
      | None \<Rightarrow>
      case loadCompletion env (pf 4) (snap 4) (ce_operation e) of Inl x \<Rightarrow> (db, Inl LUnavailable)
      | Inr (Some (existing, _)) \<Rightarrow>
          if cw_digest existing \<noteq> digest \<or> cw_canonical existing \<noteq> canon then (db, Inl LConflict)
          else (case closedFound (loadLifecycleOperation env (pf 5) (snap 5) (ce_operation e)) of
             Inl x \<Rightarrow> (db, Inl x)
           | Inr current \<Rightarrow>
               if op_state (lo_operation current) \<noteq> Completed then (db, Inl LUnavailable) else (db, Inr (CloneOperation (lo_operation current))))
      | Inr None \<Rightarrow> lifecycle_tx run (complete_body run env e canon digest preflight row obligations receipts) db)"

end
