(* ===== verification/Lifecycle_Saga.thy ===== *)
theory Lifecycle_Saga
  imports Lifecycle_Completion Sqlite_Laws
begin

text \<open>
  The transcript lifecycle as a saga: the relation \<open>saga\<close> says, without reference to statements, faults
  and snapshots, what a committed transaction of the relay store, of the lifecycle preparation, the removal or the completion does
  to the database, and under which conditions. Every operation of the code refines it: whatever its reads saw and whichever
  statement or commit failed, it leaves the database as it was or makes one step of the saga.
\<close>

section \<open>Rows\<close>

text \<open>Replacing the row of an operation.\<close>

definition put_operation :: "LifecycleDB \<Rightarrow> operation_row \<Rightarrow> LifecycleDB" where
  "put_operation db w = db\<lparr>ld_operations := map (\<lambda>v. if ow_operation v = ow_operation w then w else v) (ld_operations db)\<rparr>"

lemma put_operation_sel [simp]:
  "ld_relay (put_operation db w) = ld_relay db" "ld_bindings (put_operation db w) = ld_bindings db"
  "ld_policies (put_operation db w) = ld_policies db" "ld_sets (put_operation db w) = ld_sets db"
  "ld_obligations (put_operation db w) = ld_obligations db" "ld_receipts (put_operation db w) = ld_receipts db"
  "ld_completions (put_operation db w) = ld_completions db"
  "map ow_operation (ld_operations (put_operation db w)) = map ow_operation (ld_operations db)"
  by (simp_all add: put_operation_def comp_def)

lemma find_operation_Some:
  "find_operation db operation = Some w \<Longrightarrow> w \<in> set (ld_operations db) \<and> ow_operation w = operation"
  by (auto simp: find_operation_def find_Some_iff)

lemma find_operation_iff:
  "distinct (map ow_operation (ld_operations db)) \<Longrightarrow>
     find_operation db operation = Some w \<longleftrightarrow> w \<in> set (ld_operations db) \<and> ow_operation w = operation"
  unfolding find_operation_def
  by (induction "ld_operations db" arbitrary: db rule: list.induct)
    (auto simp: find_Some_iff in_set_conv_nth distinct_conv_nth)

lemma operation_unique:
  "distinct (map ow_operation (ld_operations db)) \<Longrightarrow> v \<in> set (ld_operations db) \<Longrightarrow> w \<in> set (ld_operations db) \<Longrightarrow>
     ow_operation v = ow_operation w \<Longrightarrow> v = w"
  by (auto simp: distinct_map inj_on_def)

text \<open>An update that changes one row replaces the row it finds.\<close>

lemma update_operation_put:
  assumes d: "distinct (map ow_operation (ld_operations db))" and f: "\<And>w. ow_operation (f w) = ow_operation w"
    and one: "exactlyOne fault e (update_operation db operation digest state f) = Inr db'"
  obtains w where "w \<in> set (ld_operations db)" "ow_operation w = operation" "ow_intent_digest w = digest" "ow_state w = state"
    "db' = put_operation db (f w)"
proof -
  let ?hit = "\<lambda>w. ow_operation w = operation \<and> ow_intent_digest w = digest \<and> ow_state w = state"
  have n: "length (filter ?hit (ld_operations db)) = 1"
    and db': "db' = db\<lparr>ld_operations := map (\<lambda>w. if ?hit w then f w else w) (ld_operations db)\<rparr>"
    using one by (auto simp: exactlyOne_def update_operation_def Let_def split: if_splits)
  from n have "set (filter ?hit (ld_operations db)) \<noteq> {}" by force
  then obtain w where w: "w \<in> set (ld_operations db)" "?hit w" by auto
  have "map (\<lambda>v. if ?hit v then f v else v) (ld_operations db) =
      map (\<lambda>v. if ow_operation v = ow_operation (f w) then f w else v) (ld_operations db)"
    using operation_unique [OF d _ w(1)] w(2) f by (intro map_cong) auto
  then show ?thesis using that w db' by (simp add: put_operation_def)
qed

lemma loadLifecycleOperation_Some:
  assumes "loadLifecycleOperation env fault db operation = Inr (Some row)"
  obtains w i where "find_operation db operation = Some w" "le_intent env (ow_intent w) = Some i" "row = scan_operation w i"
    "validStoredLifecycle env row" "\<exists>body. CanonicalIntent env i = Inr (body, ow_intent_digest w)"
  using assms by (auto simp: loadLifecycleOperation_def split: if_splits option.splits sum.splits)

lemma loadLifecycleOperation_None:
  "loadLifecycleOperation env fault db operation = Inr None \<Longrightarrow> find_operation db operation = None"
  by (auto simp: loadLifecycleOperation_def split: if_splits option.splits sum.splits)

lemma closedFound_Inr [simp]: "closedFound r = Inr x \<longleftrightarrow> r = Inr (Some x)"
  by (auto simp: closedFound_def split: sum.splits option.splits)

text \<open>A stored operation: the row with the intent that its bytes decode to.\<close>

definition stored :: "lifecycle_env \<Rightarrow> LifecycleDB \<Rightarrow> operation_row \<Rightarrow> Intent \<Rightarrow> bool" where
  "stored env db w i \<longleftrightarrow> w \<in> set (ld_operations db) \<and> le_intent env (ow_intent w) = Some i \<and> validStoredLifecycle env (scan_operation w i) \<and>
     lc_ValidateIntent env i = None"

lemma CanonicalIntent_valid: "CanonicalIntent env i = Inr x \<Longrightarrow> lc_ValidateIntent env i = None"
  by (auto simp: CanonicalIntent_def split: option.splits)

lemma load_stored:
  assumes "loadLifecycleOperation env fault db operation = Inr (Some row)"
  obtains w i where "stored env db w i" "ow_operation w = operation" "row = scan_operation w i"
  using assms by (elim loadLifecycleOperation_Some)
    (auto simp: stored_def dest!: find_operation_Some CanonicalIntent_valid intro!: that)

lemma scan_operation_sel [simp]:
  "op_intent (lo_operation (scan_operation w i)) = i" "op_intent_digest (lo_operation (scan_operation w i)) = ow_intent_digest w"
  "op_state (lo_operation (scan_operation w i)) = ow_state w" "op_marker (lo_operation (scan_operation w i)) = ow_marker w"
  "op_receipt (lo_operation (scan_operation w i)) = ow_receipt w" "op_signature (lo_operation (scan_operation w i)) = ow_signature w"
  "lo_canonicalIntent (scan_operation w i) = ow_intent w"
  by (simp_all add: scan_operation_def)

lemma update_stored:
  assumes "distinct (map ow_operation (ld_operations db))" "w \<in> set (ld_operations db)" "ow_operation w = operation"
    "exactlyOne fault e (update_operation db operation digest state f) = Inr db'" "\<And>w. ow_operation (f w) = ow_operation w"
  shows "db' = put_operation db (f w) \<and> ow_state w = state \<and> ow_intent_digest w = digest"
  using update_operation_put [OF assms(1,5,4)] operation_unique [OF assms(1) _ assms(2)] assms(3) by metis

section \<open>The saga\<close>

text \<open>The effect of a removal on the relay tables: the records leave, their tombstones stay.\<close>

definition removed_relay :: "string \<Rightarrow> TranscriptKey \<Rightarrow> AcceptedRecord list \<Rightarrow> RelayDB \<Rightarrow> RelayDB" where
  "removed_relay operation t rs db = db\<lparr>
     rd_records := filter (\<lambda>r. \<not> (ar_channel r = transcript_key t \<and> ar_sequence r \<in> ar_sequence ` set rs)) (rd_records db),
     rd_payload_tombstones := rd_payload_tombstones db @ map (payload_tombstone_of operation t \<circ> removal_of) rs,
     rd_identifier_tombstones := rd_identifier_tombstones db @
       concat (map (\<lambda>r. [identifier_tombstone_of operation t ''event'' (ar_event_id r),
         identifier_tombstone_of operation t ''receipt'' (ar_receipt_id r)]) rs)\<rparr>"

text \<open>The records an intent covers.\<close>

definition covered :: "RelayDB \<Rightarrow> Intent \<Rightarrow> AcceptedRecord list \<Rightarrow> bool" where
  "covered db i rs \<longleftrightarrow> set rs \<subseteq> set (rows_of db (transcript_key (li_transcript i))) \<and>
     (if li_action i = DeleteTranscript then set rs = set (rows_of db (transcript_key (li_transcript i)))
      else map ar_sequence rs = tg_sequences (li_target i))"

definition obligation_row_of :: "lifecycle_env \<Rightarrow> BackupObligation \<Rightarrow> obligation_row" where
  "obligation_row_of env v = (case projr (CanonicalBackupObligation env v) of (canon, digest) \<Rightarrow>
     \<lparr>ob_operation = bo_operation v, ob_domain = bo_domain v, ob_digest = digest, ob_canonical = canon, ob_deadline = bo_deadline v,
      ob_kind = bo_binding_kind v, ob_binding = bo_binding_digest v\<rparr>)"

definition receipt_row_of :: "lifecycle_env \<Rightarrow> CustodianReceipt \<Rightarrow> receipt_row" where
  "receipt_row_of env r = (case projr (CanonicalCustodianReceipt env r) of (canon, digest, _) \<Rightarrow>
     \<lparr>rr_id = cr_receipt_id r, rr_digest = digest, rr_operation = cr_operation r, rr_domain = cr_domain r, rr_canonical = canon,
      rr_time = cr_evidence_time r, rr_outcome = cr_outcome r\<rparr>)"

definition completion_row_of :: "lifecycle_env \<Rightarrow> CompletionEvidence \<Rightarrow> completion_row" where
  "completion_row_of env e = (case projr (CanonicalCompletionEvidence env e) of (canon, digest) \<Rightarrow>
     \<lparr>cw_operation = ce_operation e, cw_digest = digest, cw_canonical = canon, cw_completed_at = ce_completed_at e\<rparr>)"

inductive saga :: "lifecycle_env \<Rightarrow> receipt_verifier \<Rightarrow> verifier option \<Rightarrow> LifecycleDB \<Rightarrow> LifecycleDB \<Rightarrow> bool"
  for env verify custody where
  relay: "sq_step (ld_relay db) relay \<Longrightarrow> saga env verify custody db (db\<lparr>ld_relay := relay\<rparr>)"
| reserved: "CanonicalIntent env i = Inr (canon, digest) \<Longrightarrow> k = transcript_key (li_transcript i) \<Longrightarrow>
    find_transcript (ld_relay db) k = Some t \<Longrightarrow> tw_lifecycle t = Active \<Longrightarrow> tw_completeness t = ''complete'' \<Longrightarrow>
    find_sequence (ld_relay db) k (tw_next t - 1) = Some high \<Longrightarrow> ar_receipt_id high = li_high_water i \<Longrightarrow> ar_signature high \<noteq> [] \<Longrightarrow>
    find_operation db (li_operation i) = None \<Longrightarrow> \<forall>w \<in> set (ld_operations db). ow_key w = k \<longrightarrow> ow_state w = Completed \<Longrightarrow>
    set (ld_bindings db) \<subseteq> set bindings \<Longrightarrow> \<exists>b \<in> set bindings. tb_key b = k \<Longrightarrow> row = reserved_row i digest canon policy \<Longrightarrow>
    pl_export_mode policy = li_export_mode i \<Longrightarrow>
    saga env verify custody db (db\<lparr>ld_policies := policies, ld_bindings := bindings, ld_operations := ld_operations db @ [row]\<rparr>)"
| exported: "stored env db w i \<Longrightarrow> ow_state w = Reserved \<Longrightarrow>
    saga env verify custody db (put_operation db (w\<lparr>ow_manifest := Some manifest, ow_custody := Some custodyDigest, ow_state := ExportSatisfied\<rparr>))"
| marked: "stored env db w i \<Longrightarrow> ow_state w = ExportSatisfied \<Longrightarrow> le_marker env markerBytes = Some marker \<Longrightarrow> markerMatchesIntent marker i \<Longrightarrow>
    ValidateMarkerPersistence env \<lparr>mp_operation = ow_operation w, mp_intent_digest = ow_intent_digest w, mp_marker = markerBytes, mp_preimage = preimage\<rparr> = None \<Longrightarrow>
    find_transcript (ld_relay db) (transcript_key (li_transcript i)) = Some t \<Longrightarrow> tw_lifecycle t = mk_previous marker \<Longrightarrow>
    relay = fst (set_lifecycle (ld_relay db) (transcript_key (li_transcript i)) (mk_previous marker) (mk_resulting marker)) \<Longrightarrow>
    saga env verify custody db (put_operation (db\<lparr>ld_relay := relay\<rparr>) (w\<lparr>ow_marker := markerBytes, ow_receipt := preimage, ow_state := MarkerPersisted\<rparr>))"
| signed: "stored env db w i \<Longrightarrow> ow_state w = MarkerPersisted \<Longrightarrow> verify_receipt env verify (ow_receipt w) signature = None \<Longrightarrow> length signature = 64 \<Longrightarrow>
    saga env verify custody db (put_operation db (w\<lparr>ow_signature := signature, ow_state := ReceiptSigned\<rparr>))"
| removed: "stored env db w i \<Longrightarrow> ow_state w = ReceiptSigned \<Longrightarrow> verify_receipt env verify (ow_receipt w) (ow_signature w) = None \<Longrightarrow>
    covered (ld_relay db) i rs \<Longrightarrow> rs \<noteq> [] \<Longrightarrow> distinct (map ar_sequence rs) \<Longrightarrow> sorted (map ar_sequence rs) \<Longrightarrow>
    find_operation db (li_operation i) \<noteq> None \<Longrightarrow>
    \<forall>p \<in> set (rd_payload_tombstones (ld_relay db)). pt_operation p = li_operation i \<longrightarrow> pt_sequence p \<notin> ar_sequence ` set rs \<Longrightarrow>
    saga env verify custody db (put_operation (db\<lparr>ld_relay := removed_relay (li_operation i) (li_transcript i) rs (ld_relay db)\<rparr>)
      (w\<lparr>ow_removal := Some (removalDigest (map (evidence_record \<circ> removal_of) rs)), ow_state := PayloadRemoved\<rparr>))"
| bound: "stored env db w i \<Longrightarrow> ow_state w = PayloadRemoved \<Longrightarrow> CanonicalBackupObligationSet env v = Inr (canon, digest) \<Longrightarrow>
    bs_operation v = ow_operation w \<Longrightarrow> ValidateObligationSetIntent env v i (ow_intent_digest w) = None \<Longrightarrow>
    \<forall>row \<in> set (ld_sets db). os_operation row \<noteq> ow_operation w \<Longrightarrow>
    saga env verify custody db (put_operation (db\<lparr>ld_sets := ld_sets db @ [\<lparr>os_operation = ow_operation w, os_digest = digest, os_canonical = canon\<rparr>],
      ld_obligations := ld_obligations db @ map (obligation_row_of env) (bs_obligations v)\<rparr>) (w\<lparr>ow_state := BackupsPending\<rparr>))"
| recorded: "stored env db w i \<Longrightarrow> ow_state w = BackupsPending \<Longrightarrow> cr_operation r = ow_operation w \<Longrightarrow>
    loadObligation env False db (ow_operation w) (cr_domain r) = Inr (obligation, raw, digest) \<Longrightarrow>
    ValidateReceiptObligation env r obligation digest = None \<Longrightarrow> ValidateCustodianReceiptSignature env custody r = None \<Longrightarrow>
    \<forall>row \<in> set (ld_receipts db). rr_id row \<noteq> cr_receipt_id r \<Longrightarrow>
    saga env verify custody db (db\<lparr>ld_receipts := ld_receipts db @ [receipt_row_of env r]\<rparr>)"
| completed: "stored env db w i \<Longrightarrow> ow_state w = BackupsPending \<Longrightarrow> ce_operation e = ow_operation w \<Longrightarrow> ce_intent_digest e = ow_intent_digest w \<Longrightarrow>
    loadBackupEvidence env False False db db (ow_operation w) = Inr (obligations, receipts) \<Longrightarrow>
    ValidateCompletionAgainst env e obligations receipts custody = None \<Longrightarrow> completionReferencesStored env e obligations receipts \<Longrightarrow>
    \<forall>row \<in> set (ld_completions db). cw_operation row \<noteq> ow_operation w \<Longrightarrow>
    saga env verify custody db (put_operation (db\<lparr>ld_completions := ld_completions db @ [completion_row_of env e]\<rparr>) (w\<lparr>ow_state := Completed\<rparr>))"

section \<open>The operations refine the saga\<close>

lemma persistLifecyclePolicy_Inr:
  "persistLifecyclePolicy run db p canon = Inr db' \<Longrightarrow> \<exists>ps. db' = db\<lparr>ld_policies := ps\<rparr>"
proof -
  assume "persistLifecyclePolicy run db p canon = Inr db'"
  then obtain row where "insert_policy db row = Some db'"
    by (auto simp: persistLifecyclePolicy_def Let_def split: option.splits if_splits)
  then have "db' = db\<lparr>ld_policies := ld_policies db'\<rparr>" by (auto simp: insert_policy_def split: if_splits)
  then show ?thesis ..
qed

lemma persistTranscriptPolicyBinding_Inr:
  assumes "persistTranscriptPolicyBinding run db i k deadline = Inr db'"
  obtains bs where "db' = db\<lparr>ld_bindings := bs\<rparr>" "set (ld_bindings db) \<subseteq> set bs" "\<exists>b \<in> set bs. tb_key b = k"
proof -
  obtain row b where "insert_binding db row = Some db'" and b: "find (\<lambda>b. tb_key b = k) (ld_bindings db') = Some b"
    using assms by (auto simp: persistTranscriptPolicyBinding_def Let_def split: option.splits if_splits)
  then have "db' = db\<lparr>ld_bindings := ld_bindings db'\<rparr>" "set (ld_bindings db) \<subseteq> set (ld_bindings db')"
    by (auto simp: insert_binding_def split: if_splits)
  moreover have "\<exists>b \<in> set (ld_bindings db'). tb_key b = k" using b by (auto simp: find_Some_iff)
  ultimately show ?thesis using that by blast
qed

lemma insert_operation_Some:
  assumes "insert_operation db w = Some db'" "ow_state w \<noteq> Completed"
  shows "db' = db\<lparr>ld_operations := ld_operations db @ [w]\<rparr>" "find_operation db (ow_operation w) = None"
    "\<forall>v \<in> set (ld_operations db). ow_key v = ow_key w \<longrightarrow> ow_state v = Completed"
  using assms by (auto simp: insert_operation_def list_ex_iff split: if_splits)

lemma validateLifecycleHighWater_Inr:
  assumes "validateLifecycleHighWater run db i k n = Inr u"
  obtains high where "find_sequence (ld_relay db) k n = Some high" "ar_receipt_id high = li_high_water i" "ar_signature high \<noteq> []"
  using assms by (auto simp: validateLifecycleHighWater_def signed_at_def split: if_splits option.splits)

lemma reserve_new_saga:
  assumes "reserve_new run env penv prep i canon digest db = Inr (db', v)" "CanonicalIntent env i = Inr (canon, digest)"
  shows "saga env verify custody db db'"
proof -
  let ?k = "transcript_key (li_transcript i)"
  from assms(1) obtain policy t metadata where p: "pl_export_mode policy = li_export_mode i"
      and t: "find_transcript (ld_relay db) ?k = Some t" and m: "reservable penv prep i policy t = Some metadata"
      and rest: "bindE (validateLifecycleHighWater run db i ?k (tw_next t - 1)) (\<lambda>_.
      bindE (CanonicalPolicy env policy) (\<lambda>canonicalPolicy.
      bindE (retention_deadline (cm_CreatedAt metadata) policy) (\<lambda>deadline.
      bindE (persistLifecyclePolicy run db policy canonicalPolicy) (\<lambda>db1.
      bindE (persistTranscriptPolicyBinding run db1 i ?k deadline) (\<lambda>db2.
      let row = reserved_row i digest canon policy in
      case (if sr_fault run 8 then None else insert_operation db2 row) of
        None \<Rightarrow> Inl LConflict
      | Some db3 \<Rightarrow> Inr (db3, \<lparr>op_intent = i, op_intent_digest = digest, op_state = ow_state row, op_marker = [], op_receipt = [],
          op_signature = []\<rparr>)))))) = Inr (db', v)"
    by (simp add: reserve_new_def Let_def split: option.splits if_splits)
  then obtain u canonicalPolicy deadline db1 db2 where h: "validateLifecycleHighWater run db i ?k (tw_next t - 1) = Inr u"
      and db1: "persistLifecyclePolicy run db policy canonicalPolicy = Inr db1"
      and db2: "persistTranscriptPolicyBinding run db1 i ?k deadline = Inr db2"
      and ins: "insert_operation db2 (reserved_row i digest canon policy) = Some db'"
    by (auto simp: bindE_Inr Let_def split: option.splits if_splits)
  obtain high where high: "find_sequence (ld_relay db) ?k (tw_next t - 1) = Some high" "ar_receipt_id high = li_high_water i"
      "ar_signature high \<noteq> []" using h by (rule validateLifecycleHighWater_Inr)
  obtain ps where ps: "db1 = db\<lparr>ld_policies := ps\<rparr>" using persistLifecyclePolicy_Inr [OF db1] ..
  obtain bs where bs: "db2 = db1\<lparr>ld_bindings := bs\<rparr>" "set (ld_bindings db1) \<subseteq> set bs" "\<exists>b \<in> set bs. tb_key b = ?k"
    using db2 by (rule persistTranscriptPolicyBinding_Inr)
  have "ow_state (reserved_row i digest canon policy) \<noteq> Completed" by (simp add: reserved_row_def)
  note new = insert_operation_Some [OF ins this]
  have "tw_lifecycle t = Active" "tw_completeness t = ''complete''"
    using m by (auto simp: reservable_def split: sum.splits if_splits)
  then show ?thesis
    using saga.reserved [OF assms(2) refl t _ _ high, where bindings = bs and policies = ps and policy = policy] new bs ps p
    by (simp add: reserved_row_def find_operation_def)
qed

lemma Reserve_saga:
  assumes "lp_Reserve run env penv prep db cancelled i = (db', x)"
  shows "db' = db \<or> saga env verify custody db db'"
proof -
  consider "db' = db" | canon digest v where "CanonicalIntent env i = Inr (canon, digest)" "reserve_body run env penv prep i canon digest db = Inr (db', v)"
    using assms by (auto simp: lp_Reserve_def split: if_splits sum.splits dest!: immediate_tx_db)
  then show ?thesis
  proof cases
    case 2
    then show ?thesis using reserve_new_saga by (fastforce simp: reserve_body_def bindE_Inr split: option.splits if_splits)
  qed simp
qed

lemma BindExport_saga:
  assumes d: "distinct (map ow_operation (ld_operations db))" and op: "lp_BindExport run env db cancelled e = (db', x)"
  shows "db' = db \<or> saga env verify custody db db'"
proof -
  consider "db' = db" | v where "bind_export_body run env e db = Inr (db', v)"
    using op by (auto simp: lp_BindExport_def split: if_splits option.splits dest!: immediate_tx_db)
  then show ?thesis
  proof cases
    case 2
    then obtain row where row: "loadLifecycleOperation env (sr_fault run 1) db (xe_operation e) = Inr (Some row)"
      and cases: "db' = db \<or> op_state (lo_operation row) = Reserved \<and> exactlyOne (sr_fault run 2) LUnavailable
        (update_operation db (xe_operation e) (xe_intent_digest e) Reserved
          (\<lambda>w. w\<lparr>ow_manifest := Some (xe_manifest_digest e), ow_custody := Some (xe_custody_digest e), ow_state := ExportSatisfied\<rparr>)) = Inr db'"
      by (auto simp: bind_export_body_def bindE_Inr Let_def split: if_splits)
    obtain w i where w: "stored env db w i" "ow_operation w = xe_operation e" "row = scan_operation w i" using row by (rule load_stored)
    show ?thesis
      using cases w saga.exported [OF w(1)] update_stored [OF d, of w "xe_operation e"] by (fastforce simp: stored_def)
  qed simp
qed

lemma set_lifecycle_one:
  assumes "sq_inv db" "exactlyOne fault e (set_lifecycle db k from to) = Inr db'"
  obtains t where "find_transcript db k = Some t" "tw_lifecycle t = from" "db' = fst (set_lifecycle db k from to)"
proof -
  have n: "length (filter (\<lambda>t. tw_key t = k \<and> tw_lifecycle t = from) (rd_transcripts db)) = 1"
    and db': "db' = fst (set_lifecycle db k from to)"
    using assms(2) by (auto simp: exactlyOne_def set_lifecycle_def Let_def split: if_splits)
  from n have "set (filter (\<lambda>t. tw_key t = k \<and> tw_lifecycle t = from) (rd_transcripts db)) \<noteq> {}" by force
  then obtain t where "t \<in> set (rd_transcripts db)" "tw_key t = k" "tw_lifecycle t = from" by auto
  then show ?thesis using that db' find_transcript_iff [OF sq_invD(1) [OF assms(1)]] by blast
qed

lemma PersistMarker_saga:
  assumes d: "distinct (map ow_operation (ld_operations db))" and inv: "sq_inv (ld_relay db)"
    and op: "lp_PersistMarker run env db cancelled p = (db', x)"
  shows "db' = db \<or> saga env verify custody db db'"
proof -
  consider "db' = db" | marker v where "ValidateMarkerPersistence env p = None" "le_marker env (mp_marker p) = Some marker"
      "persist_marker_body run env p marker db = Inr (db', v)"
    using op by (auto simp: lp_PersistMarker_def split: if_splits option.splits dest!: immediate_tx_db)
  then show ?thesis
  proof cases
    case 2
    then obtain row where row: "loadLifecycleOperation env (sr_fault run 1) db (mp_operation p) = Inr (Some row)"
      "op_intent_digest (lo_operation row) = mp_intent_digest p" "markerMatchesIntent marker (op_intent (lo_operation row))"
      and cases: "db' = db \<or> (\<exists>relay fault fault'. op_state (lo_operation row) = ExportSatisfied \<and>
        exactlyOne fault LConflict (set_lifecycle (ld_relay db) (transcript_key (mk_transcript marker)) (mk_previous marker) (mk_resulting marker)) = Inr relay \<and>
        exactlyOne fault' LUnavailable (update_operation (db\<lparr>ld_relay := relay\<rparr>) (mp_operation p) (mp_intent_digest p) ExportSatisfied
             (\<lambda>w. w\<lparr>ow_marker := mp_marker p, ow_receipt := mp_preimage p, ow_state := MarkerPersisted\<rparr>)) = Inr db')"
      by (auto simp: persist_marker_body_def bindE_Inr Let_def split: if_splits)
    obtain w i where w: "stored env db w i" "ow_operation w = mp_operation p" "row = scan_operation w i" using row(1) by (rule load_stored)
    have k: "mk_transcript marker = li_transcript i" using row(3) w(3) by (simp add: markerMatchesIntent_def)
    from cases show ?thesis
    proof (elim disjE exE conjE)
      fix relay fault fault'
      assume set: "exactlyOne fault LConflict (set_lifecycle (ld_relay db) (transcript_key (mk_transcript marker)) (mk_previous marker) (mk_resulting marker)) = Inr relay"
        and upd: "exactlyOne fault' LUnavailable (update_operation (db\<lparr>ld_relay := relay\<rparr>) (mp_operation p) (mp_intent_digest p) ExportSatisfied
             (\<lambda>w. w\<lparr>ow_marker := mp_marker p, ow_receipt := mp_preimage p, ow_state := MarkerPersisted\<rparr>)) = Inr db'"
      obtain t where t: "find_transcript (ld_relay db) (transcript_key (mk_transcript marker)) = Some t" "tw_lifecycle t = mk_previous marker"
          "relay = fst (set_lifecycle (ld_relay db) (transcript_key (mk_transcript marker)) (mk_previous marker) (mk_resulting marker))"
        using inv set by (rule set_lifecycle_one)
      have "db' = put_operation (db\<lparr>ld_relay := relay\<rparr>) (w\<lparr>ow_marker := mp_marker p, ow_receipt := mp_preimage p, ow_state := MarkerPersisted\<rparr>) \<and>
          ow_state w = ExportSatisfied \<and> ow_intent_digest w = mp_intent_digest p"
        using update_stored [OF _ _ w(2) upd] d w(1) by (simp add: stored_def)
      moreover have "p = \<lparr>mp_operation = ow_operation w, mp_intent_digest = mp_intent_digest p, mp_marker = mp_marker p, mp_preimage = mp_preimage p\<rparr>"
        using w(2) by simp
      ultimately show ?thesis
        using saga.marked [OF w(1) _ 2(2), where preimage = "mp_preimage p"] 2(1) row(3) w(3) t k by simp
    qed simp
  qed simp
qed

lemma AttachSignature_saga:
  assumes d: "distinct (map ow_operation (ld_operations db))"
    and op: "lr_AttachSignature run env verify fault db0 db cancelled a = (db', x)"
  shows "db' = db \<or> saga env verify custody db db'"
proof -
  consider "db' = db" | v where "lc_ValidateSignatureAttachment env a = None" "verify_receipt env verify (ls_preimage a) (ls_signature a) = None"
      "lr_attach_body run env a db = Inr (db', v)"
    using op by (auto simp: lr_AttachSignature_def Let_def split: if_splits option.splits sum.splits dest!: immediate_tx_db)
  then show ?thesis
  proof cases
    case 2
    then obtain row where row: "loadLifecycleOperation env (sr_fault run 1) db (ls_operation a) = Inr (Some row)"
      "op_receipt (lo_operation row) = ls_preimage a"
      and cases: "db' = db \<or> (\<exists>fault. exactlyOne fault LUnavailable
           (update_operation db (ls_operation a) (ls_intent_digest a) MarkerPersisted
             (\<lambda>w. w\<lparr>ow_signature := ls_signature a, ow_state := ReceiptSigned\<rparr>)) = Inr db')"
      by (auto simp: lr_attach_body_def bindE_Inr Let_def split: if_splits)
    obtain w i where w: "stored env db w i" "ow_operation w = ls_operation a" "row = scan_operation w i" using row(1) by (rule load_stored)
    have "length (ls_signature a) = 64" using 2(1) by (auto simp: lc_ValidateSignatureAttachment_def split: if_splits)
    then show ?thesis
      using cases w saga.signed [OF w(1)] update_stored [OF d _ w(2)] 2(2) row(2) by (fastforce simp: stored_def)
  qed simp
qed

lemma sorted_adj_distinct: "sorted xs \<Longrightarrow> distinct_adj xs \<Longrightarrow> distinct (xs :: u64 list)"
proof (induction xs)
  case (Cons x xs)
  then show ?case by (cases xs) force+
qed simp

lemma rows_distinct:
  assumes "sq_inv db"
  shows "distinct (map ar_sequence (rows_of db k))"
proof (cases "find_transcript db k")
  case (Some t)
  have "mset (map (unat \<circ> ar_sequence) (rows_of db k) @ map (unat \<circ> pt_sequence) (tombs_of db k)) = mset [1..<tw_next t]"
    using sq_invD(4) [OF assms Some] by (simp add: transcript_ok_def)
  then have "distinct (map (unat \<circ> ar_sequence) (rows_of db k) @ map (unat \<circ> pt_sequence) (tombs_of db k))"
    using mset_eq_imp_distinct_iff distinct_upt by blast
  then show ?thesis by (auto simp: distinct_map inj_on_def)
qed (use sq_invD(5) [OF assms] in simp)

lemma select_targets_Inr:
  "select_targets run db k n ss = Inr removed \<Longrightarrow>
     \<exists>rs. removed = map removal_of rs \<and> set rs \<subseteq> set (rows_of db k) \<and> map ar_sequence rs = ss"
proof (induction ss arbitrary: n removed)
  case (Cons s ss)
  then obtain r rs' where r: "find_sequence db k (unat s) = Some r" "select_targets run db k (n + 1) ss = Inr rs'" "removed = removal_of r # rs'"
    by (auto simp: bindE_Inr split: if_splits option.splits)
  have "r \<in> set (rows_of db k)" "ar_sequence r = s"
    using r(1) by (auto simp: find_sequence_def find_Some_iff rows_of_def intro: unsigned_word_eqI)
  moreover obtain rs where "rs' = map removal_of rs" "set rs \<subseteq> set (rows_of db k)" "map ar_sequence rs = ss"
    using Cons.IH [OF r(2)] by blast
  ultimately show ?case using r(3) by (intro exI [of _ "r # rs"]) simp
qed simp

lemma selectRemovalRecords_Inr:
  assumes inv: "sq_inv db" and valid: "lc_ValidateIntent env i = None" and sel: "selectRemovalRecords run db i = Inr removed"
  obtains rs where "removed = map removal_of rs" "covered db i rs" "distinct (map ar_sequence rs)" "sorted (map ar_sequence rs)"
proof (cases "li_action i = DeleteTranscript")
  case True
  let ?rows = "rows_of db (transcript_key (li_transcript i))"
  have "removed = map removal_of (sort_key ar_sequence ?rows)"
    using sel True by (auto simp: selectRemovalRecords_def rows_of_def split: if_splits)
  moreover have "sort_key ar_sequence ?rows = ?rows" using sorted_rows [OF inv] by (simp add: sort_key_id_if_sorted)
  ultimately show ?thesis using that [of ?rows] True rows_distinct [OF inv] sorted_rows [OF inv] by (simp add: covered_def)
next
  case False
  then obtain rs where rs: "removed = map removal_of rs" "set rs \<subseteq> set (rows_of db (transcript_key (li_transcript i)))"
      "map ar_sequence rs = tg_sequences (li_target i)"
    using sel select_targets_Inr by (fastforce simp: selectRemovalRecords_def)
  have "validTarget (li_action i) (li_target i)" using valid by (auto simp: lc_ValidateIntent_def split: if_splits)
  then have "sorted (tg_sequences (li_target i))" "distinct (tg_sequences (li_target i))"
    using False sorted_adj_distinct by (auto simp: validTarget_def split: if_splits)
  then show ?thesis using that [of rs] rs False by (simp add: covered_def)
qed

lemma insertRemovalEvidence_Some:
  assumes "insertRemovalEvidence fault db operation t (removal_of r) = Some db'"
  shows "db' = db\<lparr>ld_relay := (ld_relay db)\<lparr>
      rd_payload_tombstones := rd_payload_tombstones (ld_relay db) @ [payload_tombstone_of operation t (removal_of r)],
      rd_identifier_tombstones := rd_identifier_tombstones (ld_relay db) @ [identifier_tombstone_of operation t ''event'' (ar_event_id r),
         identifier_tombstone_of operation t ''receipt'' (ar_receipt_id r)]\<rparr>\<rparr>"
    and "find_operation db operation \<noteq> None"
    and "\<forall>p \<in> set (rd_payload_tombstones (ld_relay db)). pt_operation p = operation \<longrightarrow> pt_sequence p \<noteq> ar_sequence r"
proof -
  obtain db1 db2 where db1: "insert_payload_tombstone db (payload_tombstone_of operation t (removal_of r)) = Some db1"
      and db2: "insert_identifier_tombstone db1 (identifier_tombstone_of operation t ''event'' (ar_event_id r)) = Some db2"
      and db3: "insert_identifier_tombstone db2 (identifier_tombstone_of operation t ''receipt'' (ar_receipt_id r)) = Some db'"
    using assms by (auto simp: insertRemovalEvidence_def removal_of_def bind_eq_Some_conv split: if_splits)
  have 1: "db1 = db\<lparr>ld_relay := (ld_relay db)\<lparr>rd_payload_tombstones := rd_payload_tombstones (ld_relay db) @
      [payload_tombstone_of operation t (removal_of r)]\<rparr>\<rparr>"
    and "find_operation db operation \<noteq> None"
    and "\<forall>p \<in> set (rd_payload_tombstones (ld_relay db)). pt_operation p = operation \<longrightarrow> pt_sequence p \<noteq> ar_sequence r"
    using db1 by (auto simp: insert_payload_tombstone_def payload_tombstone_of_def removal_of_def list_ex_iff split: if_splits)
  then show "find_operation db operation \<noteq> None"
    "\<forall>p \<in> set (rd_payload_tombstones (ld_relay db)). pt_operation p = operation \<longrightarrow> pt_sequence p \<noteq> ar_sequence r" by simp_all
  have 2: "y = x\<lparr>ld_relay := (ld_relay x)\<lparr>rd_identifier_tombstones := rd_identifier_tombstones (ld_relay x) @ [j]\<rparr>\<rparr>"
    if "insert_identifier_tombstone x j = Some y" for x y j
    using that by (auto simp: insert_identifier_tombstone_def split: if_splits)
  show "db' = db\<lparr>ld_relay := (ld_relay db)\<lparr>
      rd_payload_tombstones := rd_payload_tombstones (ld_relay db) @ [payload_tombstone_of operation t (removal_of r)],
      rd_identifier_tombstones := rd_identifier_tombstones (ld_relay db) @ [identifier_tombstone_of operation t ''event'' (ar_event_id r),
         identifier_tombstone_of operation t ''receipt'' (ar_receipt_id r)]\<rparr>\<rparr>"
    by (simp add: 2 [OF db3] 2 [OF db2] 1)
qed

lemma remove_records_Inr:
  "remove_records fault operation t n db (map removal_of rs) = Inr db' \<Longrightarrow>
     db' = db\<lparr>ld_relay := removed_relay operation t rs (ld_relay db)\<rparr> \<and> (rs \<noteq> [] \<longrightarrow> find_operation db operation \<noteq> None) \<and>
     (\<forall>p \<in> set (rd_payload_tombstones (ld_relay db)). pt_operation p = operation \<longrightarrow> pt_sequence p \<notin> ar_sequence ` set rs)"
proof (induction rs arbitrary: n db)
  case Nil
  then show ?case by (simp add: removed_relay_def)
next
  case (Cons r rs)
  then obtain db1 db2 where db1: "insertRemovalEvidence (\<lambda>j. fault (4 * n + j)) db operation t (removal_of r) = Some db1"
      and "exactlyOne (fault (4 * n + 3)) LUnavailable (delete_record db1 (transcript_key t) (rm_sequence (removal_of r))) = Inr db2"
      and rest: "remove_records fault operation t (n + 1) db2 (map removal_of rs) = Inr db'"
    by (auto simp: bindE_Inr split: option.splits)
  then have db2: "db2 = fst (delete_record db1 (transcript_key t) (ar_sequence r))"
    by (auto simp: exactlyOne_def removal_of_def split: if_splits)
  note ev = insertRemovalEvidence_Some [OF db1]
  have db2': "db2 = db\<lparr>ld_relay := removed_relay operation t [r] (ld_relay db)\<rparr>"
    by (simp add: db2 ev(1) delete_record_def Let_def removed_relay_def)
  have "removed_relay operation t rs (removed_relay operation t [r] (ld_relay db)) = removed_relay operation t (r # rs) (ld_relay db)"
    by (rule RelayDB.equality) (auto simp: removed_relay_def intro!: filter_cong)
  moreover have "set (rd_payload_tombstones (ld_relay db)) \<subseteq> set (rd_payload_tombstones (ld_relay db2))"
    by (auto simp: db2' removed_relay_def)
  ultimately show ?case using Cons.IH [OF rest] ev(2,3) db2' by auto
qed

lemma RemovePayload_saga:
  assumes d: "distinct (map ow_operation (ld_operations db))" and inv: "sq_inv (ld_relay db)"
    and op: "lr_RemovePayload run rfault env verify fault db0 db cancelled ref = (db', x)"
  shows "db' = db \<or> saga env verify custody db db'"
proof -
  consider "db' = db" | preflight v where "verify_receipt env verify (op_receipt preflight) (op_signature preflight) = None"
      "remove_payload_body run rfault env ref preflight db = Inr (db', v)"
    using op by (auto simp: lr_RemovePayload_def verifyStoredSignature_def Let_def split: if_splits option.splits sum.splits dest!: immediate_tx_db)
  then show ?thesis
  proof cases
    case 2
    then obtain row where row: "loadLifecycleOperation env (sr_fault run 1) db (or_operation ref) = Inr (Some row)"
      "op_signature (lo_operation row) = op_signature preflight" "op_receipt (lo_operation row) = op_receipt preflight"
      and cases: "db' = db \<or> (\<exists>removed db1 fault'. selectRemovalRecords run (ld_relay db) (op_intent (lo_operation row)) = Inr removed \<and> removed \<noteq> [] \<and>
        remove_records rfault (li_operation (op_intent (lo_operation row))) (li_transcript (op_intent (lo_operation row))) 0 db removed = Inr db1 \<and>
        exactlyOne fault' LUnavailable (update_operation db1 (or_operation ref) (or_intent_digest ref) ReceiptSigned
               (\<lambda>w. w\<lparr>ow_removal := Some (removalDigest (map evidence_record removed)), ow_state := PayloadRemoved\<rparr>)) = Inr db')"
      by (auto simp: remove_payload_body_def bindE_Inr Let_def split: if_splits)
    obtain w i where w: "stored env db w i" "ow_operation w = or_operation ref" "row = scan_operation w i" using row(1) by (rule load_stored)
    from cases show ?thesis
    proof (elim disjE exE conjE)
      fix removed db1 fault'
      assume sel: "selectRemovalRecords run (ld_relay db) (op_intent (lo_operation row)) = Inr removed" "removed \<noteq> []"
        and rem: "remove_records rfault (li_operation (op_intent (lo_operation row))) (li_transcript (op_intent (lo_operation row))) 0 db removed = Inr db1"
        and upd: "exactlyOne fault' LUnavailable (update_operation db1 (or_operation ref) (or_intent_digest ref) ReceiptSigned
               (\<lambda>w. w\<lparr>ow_removal := Some (removalDigest (map evidence_record removed)), ow_state := PayloadRemoved\<rparr>)) = Inr db'"
      obtain rs where rs: "removed = map removal_of rs" "covered (ld_relay db) i rs" "distinct (map ar_sequence rs)" "sorted (map ar_sequence rs)"
        using selectRemovalRecords_Inr [OF inv _ sel(1)] w by (auto simp: stored_def)
      note r = remove_records_Inr [OF rem [unfolded rs(1)]]
      have db1: "db1 = db\<lparr>ld_relay := removed_relay (li_operation i) (li_transcript i) rs (ld_relay db)\<rparr>"
        using r w(3) by simp
      have "db' = put_operation db1 (w\<lparr>ow_removal := Some (removalDigest (map evidence_record removed)), ow_state := PayloadRemoved\<rparr>) \<and>
          ow_state w = ReceiptSigned"
        using update_stored [OF _ _ w(2) upd] d w(1) by (simp add: db1 stored_def)
      then show ?thesis
        using saga.removed [OF w(1), where rs = rs and verify = verify and custody = custody] 2(1) row(2,3) w(3) r rs sel(2) db1 by simp
    qed simp
  qed simp
qed

lemma insert_obligations_Inr:
  "insert_obligations run env n db vs = Inr db' \<Longrightarrow> db' = db\<lparr>ld_obligations := ld_obligations db @ map (obligation_row_of env) vs\<rparr>"
proof (induction vs arbitrary: n db)
  case (Cons v vs)
  then obtain canon digest db1 where c: "CanonicalBackupObligation env v = Inr (canon, digest)"
      and "insert_obligation db (obligation_row_of env v) = Some db1" and rest: "insert_obligations run env (n + 1) db1 vs = Inr db'"
    by (auto simp: obligation_row_of_def split: sum.splits if_splits option.splits)
  then have "db1 = db\<lparr>ld_obligations := ld_obligations db @ [obligation_row_of env v]\<rparr>"
    by (auto simp: insert_obligation_def split: if_splits)
  then show ?case using Cons.IH [OF rest] by simp
qed simp

lemma same_snapshot_intent:
  assumes "loadLifecycleOperation env fault db0 operation = Inr (Some preflight)" "stored env db w i"
    "sameOperationSnapshot preflight (scan_operation w i)"
  shows "op_intent (lo_operation preflight) = i" "op_intent_digest (lo_operation preflight) = ow_intent_digest w"
    "op_state (lo_operation preflight) = ow_state w"
  using assms(1)
proof (rule loadLifecycleOperation_Some)
  fix w0 i0
  assume a: "le_intent env (ow_intent w0) = Some i0" "preflight = scan_operation w0 i0"
  then have "ow_intent w0 = ow_intent w" using assms(3) by (simp add: sameOperationSnapshot_def)
  then show "op_intent (lo_operation preflight) = i" using a assms(2) by (simp add: stored_def)
qed (use assms(3) in \<open>simp_all add: sameOperationSnapshot_def\<close>)

lemma BindBackupObligations_saga:
  assumes d: "distinct (map ow_operation (ld_operations db))"
    and op: "lb_BindBackupObligations run env pf snap db cancelled v = (db', x)"
  shows "db' = db \<or> saga env verify custody db db'"
proof -
  consider "db' = db" | canon digest preflight y where "CanonicalBackupObligationSet env v = Inr (canon, digest)"
      "loadLifecycleOperation env (pf 0) (snap 0) (bs_operation v) = Inr (Some preflight)"
      "ValidateObligationSetIntent env v (op_intent (lo_operation preflight)) (op_intent_digest (lo_operation preflight)) = None"
      "bind_obligations_body run env v canon digest preflight db = Inr (db', y)"
    using op by (auto simp: lb_BindBackupObligations_def Let_def split: if_splits option.splits sum.splits prod.splits dest!: immediate_tx_db)
  then show ?thesis
  proof cases
    case 2
    let ?row = "\<lparr>os_operation = bs_operation v, os_digest = digest, os_canonical = canon\<rparr>"
    from 2(4) obtain row where row: "loadLifecycleOperation env (sr_fault run 1) db (bs_operation v) = Inr (Some row)"
      and cases: "db' = db \<or> (\<exists>db1 db2 fault. sameOperationSnapshot preflight row \<and> insert_set db ?row = Some db1 \<and>
        insert_obligations run env 7 db1 (bs_obligations v) = Inr db2 \<and>
        exactlyOne fault LUnavailable (update_operation db2 (bs_operation v) (bs_intent_digest v) PayloadRemoved (\<lambda>w. w\<lparr>ow_state := BackupsPending\<rparr>)) = Inr db')"
      by (auto simp: bind_obligations_body_def bindE_Inr Let_def split: if_splits sum.splits option.splits prod.splits)
    obtain w i where w: "stored env db w i" "ow_operation w = bs_operation v" "row = scan_operation w i" using row by (rule load_stored)
    from cases show ?thesis
    proof (elim disjE exE conjE)
      fix db1 db2 fault
      assume same: "sameOperationSnapshot preflight row" and set: "insert_set db ?row = Some db1"
        and obs: "insert_obligations run env 7 db1 (bs_obligations v) = Inr db2"
        and upd: "exactlyOne fault LUnavailable (update_operation db2 (bs_operation v) (bs_intent_digest v) PayloadRemoved (\<lambda>w. w\<lparr>ow_state := BackupsPending\<rparr>)) = Inr db'"
      have db1: "db1 = db\<lparr>ld_sets := ld_sets db @ [?row]\<rparr>" "\<forall>r \<in> set (ld_sets db). os_operation r \<noteq> ow_operation w"
        using set w(2) by (auto simp: insert_set_def list_ex_iff split: if_splits)
      have db2: "db2 = db1\<lparr>ld_obligations := ld_obligations db1 @ map (obligation_row_of env) (bs_obligations v)\<rparr>"
        using obs by (rule insert_obligations_Inr)
      have "db' = put_operation db2 (w\<lparr>ow_state := BackupsPending\<rparr>) \<and> ow_state w = PayloadRemoved"
        using update_stored [OF _ _ w(2) upd] d w(1) by (simp add: db1 db2 stored_def)
      moreover have "ValidateObligationSetIntent env v i (ow_intent_digest w) = None"
        using 2(3) same_snapshot_intent [OF 2(2) w(1)] same w(3) by simp
      ultimately show ?thesis
        using saga.bound [OF w(1) _ 2(1) w(2) [symmetric], where verify = verify and custody = custody] db1 db2 w(2) by simp
    qed simp
  qed simp
qed

lemma loadObligation_ok: "loadObligation env fault db operation domain = Inr x \<Longrightarrow> loadObligation env False db operation domain = Inr x"
  by (auto simp: loadObligation_def split: if_splits)

lemma RecordBackupReceipt_saga:
  assumes op: "lb_RecordBackupReceipt run env custody pf snap db cancelled r = (db', x)"
  shows "db' = db \<or> saga env verify custody db db'"
proof -
  consider "db' = db" | canon digest signing preflight obligation y where "CanonicalCustodianReceipt env r = Inr (canon, digest, signing)"
      "ValidateReceiptObligation env r (fst obligation) (snd (snd obligation)) = None" "ValidateCustodianReceiptSignature env custody r = None"
      "record_receipt_body run env r canon digest preflight obligation db = Inr (db', y)"
    using op unfolding lb_RecordBackupReceipt_def Let_def
    by (auto split: if_splits option.splits sum.splits prod.splits dest!: immediate_tx_db)
  then show ?thesis
  proof cases
    case 2
    from 2(4) obtain row where row: "loadLifecycleOperation env (sr_fault run 1) db (cr_operation r) = Inr (Some row)"
      and cases: "db' = db \<or> (loadObligation env (sr_fault run 3) db (cr_operation r) (cr_domain r) = Inr obligation \<and>
        op_state (lo_operation row) = BackupsPending \<and> insert_receipt db (receipt_row_of env r) = Some db')"
      using 2(1) by (auto simp: record_receipt_body_def bindE_Inr receipt_row_of_def split: if_splits sum.splits option.splits)
    obtain w i where w: "stored env db w i" "ow_operation w = cr_operation r" "row = scan_operation w i" using row by (rule load_stored)
    obtain o1 raw dig where o: "obligation = (o1, raw, dig)" by (cases obligation)
    have "rr_id (receipt_row_of env r) = cr_receipt_id r" using 2(1) by (simp add: receipt_row_of_def)
    then have "db' = db\<lparr>ld_receipts := ld_receipts db @ [receipt_row_of env r]\<rparr> \<and> (\<forall>row \<in> set (ld_receipts db). rr_id row \<noteq> cr_receipt_id r)"
      if "insert_receipt db (receipt_row_of env r) = Some db'"
      using that by (auto simp: insert_receipt_def list_ex_iff split: if_splits)
    then show ?thesis
      using cases saga.recorded [OF w(1) _ w(2) [symmetric], where verify = verify and custody = custody] 2(2,3) o w loadObligation_ok by fastforce
  qed simp
qed

text \<open>Documents read from rows are determined by their canonical bytes, so evidence that prints alike is the same.\<close>

lemma map_option_all_Some: "map_option_all f xs = Some ys \<longleftrightarrow> map f xs = map Some ys"
  by (induction xs arbitrary: ys) (auto simp: bind_eq_Some_conv Cons_eq_map_conv)

lemma map_option_all_mem: "map_option_all f xs = Some ys \<Longrightarrow> y \<in> set ys \<Longrightarrow> \<exists>x \<in> set xs. f x = Some y"
  by (induction xs arbitrary: ys) (auto simp: bind_eq_Some_conv)

lemma obligation_of_bytes: "obligation_of env row = Some v \<Longrightarrow> le_obligation env (fst (print_obligation env v)) = Some v"
  by (auto simp: obligation_of_def print_obligation_def split: if_splits option.splits sum.splits prod.splits)

lemma custodian_of_bytes: "custodian_of env row = Some v \<Longrightarrow> le_custodian env (fst (print_custodian env v)) = Some v"
  by (auto simp: custodian_of_def print_custodian_def split: if_splits option.splits sum.splits prod.splits)

lemma evidence_bytes:
  assumes "loadBackupEvidence env fault fault' db db' operation = Inr (obs, rs)"
  shows "v \<in> set obs \<Longrightarrow> le_obligation env (fst (print_obligation env v)) = Some v"
    and "r \<in> set rs \<Longrightarrow> le_custodian env (fst (print_custodian env r)) = Some r"
  using assms
  by (auto simp: loadBackupEvidence_def split: if_splits option.splits
      dest!: map_option_all_mem intro: obligation_of_bytes custodian_of_bytes)

lemma sameBackupEvidence_eq:
  assumes "loadBackupEvidence env f1 f2 db1 db2 operation = Inr (aO, aR)" "loadBackupEvidence env f3 f4 db3 db4 operation' = Inr (bO, bR)"
    "sameBackupEvidence env aO aR bO bR"
  shows "aO = bO" "aR = bR"
proof -
  have inj: "xs = ys" if "map p xs = map p ys" "\<And>x. x \<in> set xs \<union> set ys \<Longrightarrow> g (p x) = Some x" for p g and xs ys :: "'a list"
  proof -
    have "map Some xs = map (g \<circ> p) xs" "map Some ys = map (g \<circ> p) ys" using that(2) by auto
    then have "map Some xs = map Some ys" using that(1) by (simp flip: map_map)
    then show ?thesis by (simp add: inj_map_eq_map)
  qed
  show "aO = bO"
    using assms(3) evidence_bytes(1) [OF assms(1)] evidence_bytes(1) [OF assms(2)]
    by (intro inj [of "print_obligation env" _ _ "\<lambda>x. le_obligation env (fst x)"]) (auto simp: sameBackupEvidence_def)
  show "aR = bR"
    using assms(3) evidence_bytes(2) [OF assms(1)] evidence_bytes(2) [OF assms(2)]
    by (intro inj [of "print_custodian env" _ _ "\<lambda>x. le_custodian env (fst x)"]) (auto simp: sameBackupEvidence_def)
qed

lemma loadBackupEvidence_ok:
  "loadBackupEvidence env fault fault' db db' operation = Inr x \<Longrightarrow> loadBackupEvidence env False False db db' operation = Inr x"
  by (auto simp: loadBackupEvidence_def split: if_splits option.splits)

definition completes :: "lifecycle_env \<Rightarrow> verifier option \<Rightarrow> LifecycleDB \<Rightarrow> LifecycleDB \<Rightarrow> CompletionEvidence \<Rightarrow> operation_row \<Rightarrow> bool" where
  "completes env custody db db' e w \<longleftrightarrow> (\<exists>i obligations receipts. stored env db w i \<and> ow_state w = BackupsPending \<and>
     ce_operation e = ow_operation w \<and> ce_intent_digest e = ow_intent_digest w \<and>
     loadBackupEvidence env False False db db (ow_operation w) = Inr (obligations, receipts) \<and>
     ValidateCompletionAgainst env e obligations receipts custody = None \<and> completionReferencesStored env e obligations receipts \<and>
     (\<forall>row \<in> set (ld_completions db). cw_operation row \<noteq> ow_operation w) \<and>
     db' = put_operation (db\<lparr>ld_completions := ld_completions db @ [completion_row_of env e]\<rparr>) (w\<lparr>ow_state := Completed\<rparr>))"

lemma Complete_completes:
  assumes d: "distinct (map ow_operation (ld_operations db))"
    and op: "lb_Complete run env custody audit pf snap db cancelled e = (db', x)"
  shows "db' = db \<or> (\<exists>w. completes env custody db db' e w)"
proof -
  consider "db' = db" | canon digest preflight row obs rs y where "CanonicalCompletionEvidence env e = Inr (canon, digest)"
      "op_intent_digest (lo_operation preflight) = ce_intent_digest e"
      "loadLifecycleOperation env (pf 0) (snap 0) (ce_operation e) = Inr (Some preflight)"
      "loadBackupEvidence env (pf 2) (pf 3) (snap 2) (snap 3) (ce_operation e) = Inr (obs, rs)"
      "ValidateCompletionAgainst env e obs rs custody = None"
      "complete_body run env e canon digest preflight row obs rs db = Inr (db', y)"
    using op unfolding lb_Complete_def Let_def
    by (auto split: if_splits option.splits sum.splits prod.splits dest!: immediate_tx_db)
  then show ?thesis
  proof cases
    case 2
    from 2(6) obtain stored_row where row: "loadLifecycleOperation env (sr_fault run 1) db (ce_operation e) = Inr (Some stored_row)"
      and cases: "db' = db \<or> (\<exists>obs' rs' db1 fault. op_state (lo_operation stored_row) = BackupsPending \<and> sameOperationSnapshot preflight stored_row \<and>
        loadBackupEvidence env (sr_fault run 4) (sr_fault run 5) db db (ce_operation e) = Inr (obs', rs') \<and>
        sameBackupEvidence env obs rs obs' rs' \<and> completionReferencesStored env e obs' rs' \<and>
        insert_completion db (completion_row_of env e) = Some db1 \<and>
        exactlyOne fault LUnavailable (update_operation db1 (ce_operation e) (ce_intent_digest e) BackupsPending (\<lambda>w. w\<lparr>ow_state := Completed\<rparr>)) = Inr db')"
      using 2(1) by (auto simp: complete_body_def bindE_Inr Let_def completion_row_of_def split: if_splits sum.splits option.splits prod.splits)
    obtain w i where w: "stored env db w i" "ow_operation w = ce_operation e" "stored_row = scan_operation w i" using row by (rule load_stored)
    from cases show ?thesis
    proof (elim disjE exE conjE)
      fix obs' rs' db1 fault
      assume ev: "loadBackupEvidence env (sr_fault run 4) (sr_fault run 5) db db (ce_operation e) = Inr (obs', rs')"
        and same: "sameBackupEvidence env obs rs obs' rs'" and refs: "completionReferencesStored env e obs' rs'"
        and ins: "insert_completion db (completion_row_of env e) = Some db1"
        and upd: "exactlyOne fault LUnavailable (update_operation db1 (ce_operation e) (ce_intent_digest e) BackupsPending (\<lambda>w. w\<lparr>ow_state := Completed\<rparr>)) = Inr db'"
      have eq: "obs' = obs" "rs' = rs" using sameBackupEvidence_eq [OF 2(4) ev same] by simp_all
      have "cw_operation (completion_row_of env e) = ce_operation e" using 2(1) by (simp add: completion_row_of_def)
      then have db1: "db1 = db\<lparr>ld_completions := ld_completions db @ [completion_row_of env e]\<rparr>" "\<forall>r \<in> set (ld_completions db). cw_operation r \<noteq> ow_operation w"
        using ins w(2) by (auto simp: insert_completion_def list_ex_iff split: if_splits)
      have "db' = put_operation db1 (w\<lparr>ow_state := Completed\<rparr>) \<and> ow_state w = BackupsPending \<and> ow_intent_digest w = ce_intent_digest e"
        using update_stored [OF _ _ w(2) upd] d w(1) by (simp add: db1 stored_def)
      then have "completes env custody db db' e w"
        using w db1 loadBackupEvidence_ok [OF ev] 2(5) refs eq unfolding completes_def by auto
      then show ?thesis by blast
    qed simp
  qed simp
qed

lemma Complete_saga:
  assumes "distinct (map ow_operation (ld_operations db))" "lb_Complete run env custody audit pf snap db cancelled e = (db', x)"
  shows "db' = db \<or> saga env verify custody db db'"
  using Complete_completes [OF assms] by (auto simp: completes_def intro: saga.completed)

end
