(* ===== verification/Lifecycle_Laws.thy ===== *)
theory Lifecycle_Laws
  imports Lifecycle_Saga
begin

text \<open>
  Histories of relay and lifecycle operations over one database. Each call makes at most one step of the saga; from the steps follow
  that rows of operations only advance, which payloads a step removes, and the invariant \<open>lc_inv\<close>: marked transcripts are inactive,
  and tombstones, identifiers and the removal digests of the operations agree.
\<close>

section \<open>Histories\<close>

text \<open>Every call of an operation that may write, with any faults, snapshots and arguments.\<close>

inductive lifecycle_step ::
  "lifecycle_env \<Rightarrow> receipt_verifier \<Rightarrow> verifier option \<Rightarrow> LifecycleDB \<Rightarrow> LifecycleDB \<Rightarrow> bool" for env verify custody where
  relay: "sq_step (ld_relay db) relay \<Longrightarrow> lifecycle_step env verify custody db (db\<lparr>ld_relay := relay\<rparr>)"
| reserve: "lp_Reserve run env penv prep db cancelled i = (db', x) \<Longrightarrow> lifecycle_step env verify custody db db'"
| bind_export: "lp_BindExport run env db cancelled e = (db', x) \<Longrightarrow> lifecycle_step env verify custody db db'"
| persist_marker: "lp_PersistMarker run env db cancelled p = (db', x) \<Longrightarrow> lifecycle_step env verify custody db db'"
| attach_signature: "lr_AttachSignature run env verify fault db0 db cancelled a = (db', x) \<Longrightarrow> lifecycle_step env verify custody db db'"
| remove_payload: "lr_RemovePayload run rfault env verify fault db0 db cancelled ref = (db', x) \<Longrightarrow> lifecycle_step env verify custody db db'"
| bind_obligations: "lb_BindBackupObligations run env pf snap db cancelled v = (db', x) \<Longrightarrow> lifecycle_step env verify custody db db'"
| record_receipt: "lb_RecordBackupReceipt run env custody pf snap db cancelled r = (db', x) \<Longrightarrow> lifecycle_step env verify custody db db'"
| complete: "lb_Complete run env custody audit pf snap db cancelled e = (db', x) \<Longrightarrow> lifecycle_step env verify custody db db'"

definition lc_tables :: "LifecycleDB \<Rightarrow> bool" where
  "lc_tables db \<longleftrightarrow> sq_inv (ld_relay db) \<and> distinct (map ow_operation (ld_operations db))"

lemma step_saga:
  assumes "lifecycle_step env verify custody db db'" "lc_tables db"
  shows "db' = db \<or> saga env verify custody db db'"
  using assms(1)
proof cases
  case (relay relay)
  then show ?thesis using saga.relay by simp
next
  case (reserve run penv prep cancelled i x)
  then show ?thesis by (rule Reserve_saga)
next
  case (bind_export run cancelled e x)
  then show ?thesis using assms(2) BindExport_saga by (simp add: lc_tables_def)
next
  case (persist_marker run cancelled p x)
  then show ?thesis using assms(2) PersistMarker_saga by (simp add: lc_tables_def)
next
  case (attach_signature run fault db0 cancelled a x)
  then show ?thesis using assms(2) AttachSignature_saga by (simp add: lc_tables_def)
next
  case (remove_payload run rfault fault db0 cancelled ref x)
  then show ?thesis using assms(2) RemovePayload_saga by (simp add: lc_tables_def)
next
  case (bind_obligations run pf snap cancelled v x)
  then show ?thesis using assms(2) BindBackupObligations_saga by (simp add: lc_tables_def)
next
  case (record_receipt run pf snap cancelled r x)
  then show ?thesis by (rule RecordBackupReceipt_saga)
next
  case (complete run audit pf snap cancelled e x)
  then show ?thesis using assms(2) Complete_saga by (simp add: lc_tables_def)
qed

section \<open>The relay tables\<close>

text \<open>Relay operations keep tombstones and the lifecycle of existing transcripts.\<close>

lemma create_body_tombstones:
  assumes "create_body run channel db = Inr (db', u)"
  shows "rd_payload_tombstones db' = rd_payload_tombstones db" "rd_identifier_tombstones db' = rd_identifier_tombstones db"
proof -
  from assms obtain db1 n where e: "ensure_identity run channel db = Inr db1" and t: "insert_transcript db1 channel = Some (db', n)"
    by (auto simp: create_body_def split: sum.splits option.splits if_splits)
  obtain ids where "db1 = db\<lparr>rd_identities := ids\<rparr>" using ensure_identity_Inr(3) [OF e] ..
  then show "rd_payload_tombstones db' = rd_payload_tombstones db" "rd_identifier_tombstones db' = rd_identifier_tombstones db"
    using t by (auto simp: insert_transcript_def split: if_splits)
qed

lemma sq_step_keeps:
  assumes "sq_step db db'" "sq_inv db"
  shows "rd_payload_tombstones db' = rd_payload_tombstones db" "rd_identifier_tombstones db' = rd_identifier_tombstones db"
    and "find_transcript db k = Some t \<Longrightarrow>
      \<exists>t'. find_transcript db' k = Some t' \<and> tw_lifecycle t' = tw_lifecycle t \<and> tw_completeness t' = tw_completeness t"
proof -
  have "rd_payload_tombstones db' = rd_payload_tombstones db \<and> rd_identifier_tombstones db' = rd_identifier_tombstones db \<and>
    (find_transcript db k = Some t \<longrightarrow> (\<exists>t'. find_transcript db' k = Some t' \<and> tw_lifecycle t' = tw_lifecycle t \<and> tw_completeness t' = tw_completeness t))"
    using assms
  proof (cases rule: sq_step_cases)
    case (created run channel u)
    then show ?thesis using create_body_tombstones [OF created] sq_inv_create(3) [OF assms(2) created, of k] by auto
  next
    case (appended i prepare r)
    then show ?thesis using find_transcript_appended [of db r k] by (auto simp: appended_def)
  qed (auto simp: find_transcript_def)
  then show "rd_payload_tombstones db' = rd_payload_tombstones db" "rd_identifier_tombstones db' = rd_identifier_tombstones db"
    "find_transcript db k = Some t \<Longrightarrow>
      \<exists>t'. find_transcript db' k = Some t' \<and> tw_lifecycle t' = tw_lifecycle t \<and> tw_completeness t' = tw_completeness t" by auto
qed

lemma set_lifecycle_find:
  "find_transcript (fst (set_lifecycle db k from to)) k' = map_option (\<lambda>t. if tw_key t = k \<and> tw_lifecycle t = from
     then t\<lparr>tw_lifecycle := to, tw_completeness := ''incomplete''\<rparr> else t) (find_transcript db k')"
  by (simp add: set_lifecycle_def Let_def find_transcript_map)

lemma sq_inv_set_lifecycle:
  assumes "sq_inv db"
  shows "sq_inv (fst (set_lifecycle db k from to))"
proof -
  let ?db = "fst (set_lifecycle db k from to)"
  have same: "rd_records ?db = rd_records db" "rd_identities ?db = rd_identities db" "rd_payload_tombstones ?db = rd_payload_tombstones db"
    and keys: "map tw_key (rd_transcripts ?db) = map tw_key (rd_transcripts db)"
    by (auto simp: set_lifecycle_def Let_def)
  have rows: "rows_of ?db k' = rows_of db k'" "tombs_of ?db k' = tombs_of db k'" for k'
    by (simp_all add: rows_of_def tombs_of_def same)
  have "case find_transcript ?db k' of None \<Rightarrow> rows_of ?db k' = [] \<and> tombs_of ?db k' = [] | Some t \<Rightarrow> transcript_ok ?db k' t" for k'
    using sq_invD(4,5) [OF assms, of k']
    by (auto simp: set_lifecycle_find rows transcript_ok_def same split: option.split)
  then show ?thesis using sq_invD(1-3) [OF assms] keys by (simp add: sq_inv_def same)
qed

lemma removed_relay_rows:
  "rows_of (removed_relay operation t rs db) k = filter (\<lambda>r. \<not> (k = transcript_key t \<and> ar_sequence r \<in> ar_sequence ` set rs)) (rows_of db k)"
  "tombs_of (removed_relay operation t rs db) k = tombs_of db k @ (if k = transcript_key t then map (payload_tombstone_of operation t \<circ> removal_of) rs else [])"
  "find_transcript (removed_relay operation t rs db) k = find_transcript db k"
  "rd_identities (removed_relay operation t rs db) = rd_identities db"
  by (auto simp: rows_of_def tombs_of_def removed_relay_def find_transcript_def payload_tombstone_of_def filter_empty_conv comp_def
      intro!: filter_cong)

lemma mset_removed:
  assumes "distinct (map f xs)" "distinct (map f ys)" "set ys \<subseteq> set xs"
  shows "mset (map f (filter (\<lambda>x. f x \<notin> f ` set ys) xs)) + mset (map f ys) = mset (map f xs)"
proof -
  let ?in = "filter (\<lambda>x. f x \<in> f ` set ys) xs"
  have "distinct (map f ?in)" using assms(1) by (simp add: distinct_map_filter)
  moreover have "set (map f ?in) = set (map f ys)" using assms(3) by auto
  ultimately have "mset (map f ?in) = mset (map f ys)" using assms(2) set_eq_iff_mset_eq_distinct by blast
  moreover have "mset (map f xs) = mset (map f ?in) + mset (map f (filter (\<lambda>x. f x \<notin> f ` set ys) xs))"
    by (simp flip: image_mset_union)
  ultimately show ?thesis by (simp only: add.commute)
qed

lemma unat_eq: "unat (a :: u64) = unat b \<longleftrightarrow> a = b"
  by (auto intro: unsigned_word_eqI)

lemma sq_inv_removed:
  assumes inv: "sq_inv db" and cov: "set rs \<subseteq> set (rows_of db (transcript_key t))" and d: "distinct (map ar_sequence rs)"
  shows "sq_inv (removed_relay operation t rs db)"
proof -
  let ?db = "removed_relay operation t rs db" and ?k = "transcript_key t"
  have recs: "set (rd_records ?db) \<subseteq> set (rd_records db)" "rd_transcripts ?db = rd_transcripts db"
    and "distinct (map (\<lambda>r. (channel_of (ar_channel r), ar_event_id r)) (rd_records ?db))" "distinct (map ar_receipt_id (rd_records ?db))"
    using sq_invD(2,3) [OF inv] by (auto simp: removed_relay_def distinct_map_filter)
  moreover have "case find_transcript ?db k of None \<Rightarrow> rows_of ?db k = [] \<and> tombs_of ?db k = [] | Some t \<Rightarrow> transcript_ok ?db k t" for k
  proof (cases "find_transcript db k")
    case None
    then show ?thesis using sq_invD(5) [OF inv None] cov by (auto simp: removed_relay_rows)
  next
    case (Some x)
    note ok = sq_invD(4) [OF inv Some, unfolded transcript_ok_def]
    show ?thesis
    proof (cases "k = ?k")
      case True
      have dist: "distinct (map (unat \<circ> ar_sequence) (rows_of db k))" "distinct (map (unat \<circ> ar_sequence) rs)"
        using rows_distinct [OF inv, of k] d by (auto simp: distinct_map inj_on_def unat_eq)
      have acc: "A + B = R \<Longrightarrow> R + T = U \<Longrightarrow> A + (T + B) = U" for A B R T U :: "nat multiset" by (auto simp: ac_simps)
      have "filter (\<lambda>r. (unat \<circ> ar_sequence) r \<notin> (unat \<circ> ar_sequence) ` set rs) (rows_of db k) =
          filter (\<lambda>r. ar_sequence r \<notin> ar_sequence ` set rs) (rows_of db k)"
        by (intro filter_cong) (auto simp: image_iff unat_eq)
      then have rows: "rows_of ?db k = filter (\<lambda>r. (unat \<circ> ar_sequence) r \<notin> (unat \<circ> ar_sequence) ` set rs) (rows_of db k)"
        using True by (simp add: removed_relay_rows)
      have tombs: "map (unat \<circ> pt_sequence) (tombs_of ?db k) = map (unat \<circ> pt_sequence) (tombs_of db k) @ map (unat \<circ> ar_sequence) rs"
        using True by (simp add: removed_relay_rows payload_tombstone_of_def removal_of_def)
      have "mset (map (unat \<circ> ar_sequence) (rows_of ?db k)) + mset (map (unat \<circ> pt_sequence) (tombs_of ?db k)) = mset [1..<tw_next x]"
        unfolding rows tombs mset_append using mset_removed [OF dist] cov True ok by (intro acc) auto
      moreover have "sorted (map ar_sequence (rows_of ?db k))" using ok by (simp add: removed_relay_rows sorted_filter)
      ultimately show ?thesis using Some ok by (simp add: removed_relay_rows(3,4) transcript_ok_def)
    next
      case False
      then show ?thesis using Some ok by (simp add: removed_relay_rows transcript_ok_def)
    qed
  qed
  ultimately show ?thesis using sq_invD(1) [OF inv] by (simp add: sq_inv_def)
qed

section \<open>Operations only advance\<close>

text \<open>How the row of an operation may change over time: its identity and intent never, its state forwards, and the
  evidence of a step never after that step.\<close>

definition reached :: "operation_row \<Rightarrow> nat \<Rightarrow> bool" where
  "reached w n \<longleftrightarrow> (\<exists>m. saga_index (ow_state w) = Some m \<and> n \<le> m)"

definition row_le :: "operation_row \<Rightarrow> operation_row \<Rightarrow> bool" where
  "row_le w w' \<longleftrightarrow> ow_operation w' = ow_operation w \<and> ow_intent_digest w' = ow_intent_digest w \<and> ow_intent w' = ow_intent w \<and>
     ow_key w' = ow_key w \<and> ow_policy_digest w' = ow_policy_digest w \<and> ow_requested_at w' = ow_requested_at w \<and>
     (\<forall>n. reached w n \<longrightarrow> reached w' n) \<and>
     (reached w 1 \<longrightarrow> ow_manifest w' = ow_manifest w \<and> ow_custody w' = ow_custody w) \<and>
     (reached w 2 \<longrightarrow> ow_marker w' = ow_marker w \<and> ow_receipt w' = ow_receipt w) \<and>
     (reached w 3 \<longrightarrow> ow_signature w' = ow_signature w) \<and> (reached w 4 \<longrightarrow> ow_removal w' = ow_removal w)"

lemma row_le_refl [simp]: "row_le w w"
  by (simp add: row_le_def)

lemma row_le_trans: "row_le u v \<Longrightarrow> row_le v w \<Longrightarrow> row_le u w"
  by (auto simp: row_le_def)

lemma saga_index_simps [simp]:
  "saga_index Reserved = Some 0" "saga_index ExportSatisfied = Some 1" "saga_index MarkerPersisted = Some 2"
  "saga_index ReceiptSigned = Some 3" "saga_index PayloadRemoved = Some 4" "saga_index BackupsPending = Some 5"
  "saga_index Completed = Some 6"
  by (simp_all add: saga_index_def saga_order_def upt_conv_Cons)

lemma put_operation_mem:
  assumes "distinct (map ow_operation (ld_operations db))" "w \<in> set (ld_operations db)" "ow_operation w' = ow_operation w"
  shows "v \<in> set (ld_operations (put_operation db w')) \<longleftrightarrow> v = w' \<or> v \<in> set (ld_operations db) \<and> v \<noteq> w"
  using assms operation_unique [OF assms(1) _ assms(2)] by (auto simp: put_operation_def image_iff split: if_splits)

text \<open>The three ways in which a step treats the rows of the operations.\<close>

definition reservation :: "lifecycle_env \<Rightarrow> LifecycleDB \<Rightarrow> LifecycleDB \<Rightarrow> operation_row \<Rightarrow> bool" where
  "reservation env db db' w \<longleftrightarrow> ld_relay db' = ld_relay db \<and> (\<exists>i canon digest policy t. CanonicalIntent env i = Inr (canon, digest) \<and>
     w = reserved_row i digest canon policy \<and> find_transcript (ld_relay db) (transcript_key (li_transcript i)) = Some t \<and> tw_lifecycle t = Active)"

lemma saga_rows:
  assumes "saga env verify custody db db'" "lc_tables db"
  obtains (same) "ld_operations db' = ld_operations db"
    | (new) w where "ld_operations db' = ld_operations db @ [w]" "find_operation db (ow_operation w) = None"
        "\<forall>v \<in> set (ld_operations db). ow_key v = ow_key w \<longrightarrow> ow_state v = Completed" "reached w 0" "\<not> reached w 2"
        "reservation env db db' w"
    | (put) w w' where "w \<in> set (ld_operations db)" "row_le w w'" "ow_state w \<noteq> Completed"
        "ld_operations db' = ld_operations (put_operation db w')"
  using assms(1)
proof cases
  case (relay relay)
  then show ?thesis using same by simp
next
  case (reserved i canon digest k t high bindings row policy policies)
  then have "reservation env db db' row" unfolding reservation_def by auto
  then show ?thesis using reserved new [of row] by (simp add: reserved_row_def reached_def)
next
  case (exported w i custodyDigest manifest)
  then show ?thesis
    using put [of w "w\<lparr>ow_manifest := Some manifest, ow_custody := Some custodyDigest, ow_state := ExportSatisfied\<rparr>"]
    by (simp add: stored_def row_le_def reached_def)
next
  case (marked w i markerBytes marker preimage t relay)
  then show ?thesis
    using put [of w "w\<lparr>ow_marker := markerBytes, ow_receipt := preimage, ow_state := MarkerPersisted\<rparr>"]
    by (simp add: stored_def row_le_def reached_def put_operation_def)
next
  case (signed w i signature)
  then show ?thesis
    using put [of w "w\<lparr>ow_signature := signature, ow_state := ReceiptSigned\<rparr>"] by (simp add: stored_def row_le_def reached_def)
next
  case (removed w i rs)
  then show ?thesis
    using put [of w "w\<lparr>ow_removal := Some (removalDigest (map (evidence_record \<circ> removal_of) rs)), ow_state := PayloadRemoved\<rparr>"]
    by (simp add: stored_def row_le_def reached_def put_operation_def)
next
  case (bound w i v canon digest)
  then show ?thesis
    using put [of w "w\<lparr>ow_state := BackupsPending\<rparr>"] by (simp add: stored_def row_le_def reached_def put_operation_def)
next
  case (recorded w i r obligation raw digest)
  then show ?thesis using same by simp
next
  case (completed w i e obligations receipts)
  then show ?thesis
    using put [of w "w\<lparr>ow_state := Completed\<rparr>"] by (simp add: stored_def row_le_def reached_def put_operation_def)
qed

lemma saga_distinct:
  assumes "saga env verify custody db db'" "lc_tables db"
  shows "distinct (map ow_operation (ld_operations db'))"
  using assms
proof (cases rule: saga_rows)
  case (new w)
  then show ?thesis using assms(2) by (auto simp: lc_tables_def find_operation_def find_None_iff)
qed (use assms(2) in \<open>simp_all add: lc_tables_def\<close>)

lemma saga_sq_inv:
  assumes "saga env verify custody db db'" "sq_inv (ld_relay db)"
  shows "sq_inv (ld_relay db')"
  using assms(1)
proof cases
  case (removed w i rs)
  then show ?thesis using sq_inv_removed [OF assms(2)] by (simp add: covered_def)
qed (use assms(2) in \<open>auto intro: sq_step_inv sq_inv_set_lifecycle\<close>)

lemma saga_tables: "saga env verify custody db db' \<Longrightarrow> lc_tables db \<Longrightarrow> lc_tables db'"
  using saga_distinct saga_sq_inv by (simp add: lc_tables_def)

lemma saga_row_le:
  assumes "saga env verify custody db db'" "lc_tables db" "w \<in> set (ld_operations db)"
  shows "\<exists>w' \<in> set (ld_operations db'). row_le w w'"
  using assms(1,2)
proof (cases rule: saga_rows)
  case (put u u')
  then have "v \<in> set (ld_operations db') \<longleftrightarrow> v = u' \<or> v \<in> set (ld_operations db) \<and> v \<noteq> u" for v
    using put_operation_mem [of db u u' v] assms(2) by (simp add: lc_tables_def row_le_def)
  then show ?thesis using put assms(3) row_le_refl by metis
qed (use assms(3) in \<open>auto intro: row_le_refl\<close>)

lemma schema_tables [simp]: "lc_tables lifecycle_schema"
  by (simp add: lc_tables_def lifecycle_schema_def)

lemma steps_tables: "(lifecycle_step env verify custody)\<^sup>*\<^sup>* db db' \<Longrightarrow> lc_tables db \<Longrightarrow> lc_tables db'"
  by (induction rule: rtranclp_induct) (use step_saga saga_tables in blast)+

section \<open>The invariant\<close>

text \<open>What is relied on of the JSON decoder: a text that the strict decoder accepts, the plain one decodes alike.\<close>

definition marker_decoding :: "lifecycle_env \<Rightarrow> bool" where
  "marker_decoding env \<longleftrightarrow> (\<forall>raw k. le_strict_marker env raw = Some k \<longrightarrow> le_marker env raw = Some k)"

definition op_tombs :: "LifecycleDB \<Rightarrow> string \<Rightarrow> payload_tombstone list" where
  "op_tombs db operation = filter (\<lambda>p. pt_operation p = operation) (rd_payload_tombstones (ld_relay db))"

definition marked_ok :: "lifecycle_env \<Rightarrow> LifecycleDB \<Rightarrow> operation_row \<Rightarrow> bool" where
  "marked_ok env db w \<longleftrightarrow> (\<exists>i t. le_intent env (ow_intent w) = Some i \<and> li_operation i = ow_operation w \<and>
     find_transcript (ld_relay db) (transcript_key (li_transcript i)) = Some t \<and> tw_lifecycle t \<noteq> Active)"

definition tombstone_ok :: "lifecycle_env \<Rightarrow> LifecycleDB \<Rightarrow> payload_tombstone \<Rightarrow> bool" where
  "tombstone_ok env db p \<longleftrightarrow> (\<exists>w \<in> set (ld_operations db). ow_operation w = pt_operation p \<and> reached w 4 \<and>
     (\<exists>i. le_intent env (ow_intent w) = Some i \<and> pt_key p = transcript_key (li_transcript i)))"

definition removal_ok :: "LifecycleDB \<Rightarrow> operation_row \<Rightarrow> bool" where
  "removal_ok db w \<longleftrightarrow> op_tombs db (ow_operation w) \<noteq> [] \<and>
     ow_removal w = Some (removalDigest (map tombstone_record (sort_key pt_sequence (op_tombs db (ow_operation w)))))"

definition identifiers_ok :: "LifecycleDB \<Rightarrow> payload_tombstone \<Rightarrow> bool" where
  "identifiers_ok db p \<longleftrightarrow> event_tombstoned (ld_relay db) (pt_key p) (pt_event_id_digest p) \<and>
     receipt_tombstoned (ld_relay db) (pt_receipt_id_digest p)"

definition lc_inv :: "lifecycle_env \<Rightarrow> LifecycleDB \<Rightarrow> bool" where
  "lc_inv env db \<longleftrightarrow> lc_tables db \<and> (\<forall>w \<in> set (ld_operations db). reached w 2 \<longrightarrow> marked_ok env db w) \<and>
     (\<forall>p \<in> set (rd_payload_tombstones (ld_relay db)). tombstone_ok env db p \<and> identifiers_ok db p) \<and>
     (\<forall>w \<in> set (ld_operations db). reached w 4 \<longrightarrow> removal_ok db w)"

lemma ValidateMarkerPersistence_None:
  assumes "ValidateMarkerPersistence env p = None"
  obtains k where "le_strict_marker env (mp_marker p) = Some k" "ValidateMarker env k = None" "mk_operation k = mp_operation p"
  using assms
  by (auto simp: ValidateMarkerPersistence_def decodeCanonical_def split: if_splits option.splits sum.splits)

lemma marker_transition:
  assumes law: "marker_decoding env" and valid: "ValidateMarkerPersistence env p = None" and k: "le_marker env (mp_marker p) = Some k"
  shows "mk_resulting k \<noteq> Active" "mk_operation k = mp_operation p"
proof -
  obtain k' where "le_strict_marker env (mp_marker p) = Some k'" "ValidateMarker env k' = None" "mk_operation k' = mp_operation p"
    using valid by (rule ValidateMarkerPersistence_None)
  then have "ValidateMarker env k = None" "mk_operation k = mp_operation p" using law k by (auto simp: marker_decoding_def)
  then show "mk_resulting k \<noteq> Active" "mk_operation k = mp_operation p"
    by (auto simp: ValidateMarker_def validTransition_def split: if_splits)
qed

lemma saga_inactive:
  assumes step: "saga env verify custody db db'" and law: "marker_decoding env" and inv: "sq_inv (ld_relay db)"
    and t: "find_transcript (ld_relay db) k = Some t" "tw_lifecycle t \<noteq> Active"
  shows "\<exists>t'. find_transcript (ld_relay db') k = Some t' \<and> tw_lifecycle t' \<noteq> Active"
  using step
proof cases
  case (relay relay)
  then show ?thesis using sq_step_keeps(3) [OF _ inv t(1)] t(2) by fastforce
next
  case (marked w i markerBytes marker preimage t' relay)
  then have "mk_resulting marker \<noteq> Active" using marker_transition(1) [OF law] by fastforce
  then show ?thesis using marked t by (simp add: set_lifecycle_find)
qed (use t in \<open>simp_all add: removed_relay_rows(3)\<close>)

lemma marked_ok_mono:
  assumes "saga env verify custody db db'" "marker_decoding env" "sq_inv (ld_relay db)" "marked_ok env db w"
    "ow_intent w' = ow_intent w" "ow_operation w' = ow_operation w"
  shows "marked_ok env db' w'"
  using assms saga_inactive [OF assms(1-3)] by (fastforce simp: marked_ok_def)

lemma saga_row_origin:
  assumes step: "saga env verify custody db db'" and tabs: "lc_tables db" and w': "w' \<in> set (ld_operations db')"
  shows "(\<exists>w \<in> set (ld_operations db). row_le w w') \<or> \<not> reached w' 2"
proof -
  have old: ?thesis if "w' \<in> set (ld_operations db)" using that row_le_refl by blast
  from step tabs show ?thesis
  proof (cases rule: saga_rows)
    case (put u u')
    then have "w' = u' \<or> w' \<in> set (ld_operations db)"
      using put_operation_mem [of db u u' w'] tabs w' by (auto simp: lc_tables_def row_le_def)
    then show ?thesis using put old by blast
  qed (use w' old in auto)
qed

text \<open>The step in which a row reaches the marker.\<close>

lemma put_operation_sub: "v \<in> set (ld_operations (put_operation db w)) \<Longrightarrow> v = w \<or> v \<in> set (ld_operations db)"
  by (auto simp: put_operation_def split: if_splits)

lemma saga_new_mark:
  assumes step: "saga env verify custody db db'" and law: "marker_decoding env"
    and w': "w' \<in> set (ld_operations db')" "reached w' 2"
  shows "(\<exists>w \<in> set (ld_operations db). reached w 2 \<and> row_le w w') \<or> marked_ok env db' w'"
proof -
  have old: ?thesis if "w \<in> set (ld_operations db)" "reached w 2" "row_le w w'" for w using that by blast
  have put: ?thesis if "db' = put_operation d v" "ld_operations d = ld_operations db" "u \<in> set (ld_operations db)" "row_le u v" "reached v 2 \<longrightarrow> reached u 2" for d u v
    using that w' put_operation_sub [of w' d v] old [of w'] old [of u] by auto
  from step show ?thesis
  proof cases
    case (marked u i markerBytes marker preimage t relay)
    have k: "mk_resulting marker \<noteq> Active" "mk_operation marker = ow_operation u" using marker_transition [OF law marked(6)] marked(4) by simp_all
    have "w' = u\<lparr>ow_marker := markerBytes, ow_receipt := preimage, ow_state := MarkerPersisted\<rparr> \<or> w' \<in> set (ld_operations db)"
      using put_operation_sub w'(1) marked(1) by fastforce
    then show ?thesis
    proof
      assume "w' = u\<lparr>ow_marker := markerBytes, ow_receipt := preimage, ow_state := MarkerPersisted\<rparr>"
      then have "marked_ok env db' w'"
        using k marked by (auto simp: marked_ok_def stored_def set_lifecycle_find markerMatchesIntent_def dest: find_transcript_Some)
      then show ?thesis ..
    qed (use old [of w'] w' in simp)
  next
    case (signed u i signature)
    then show ?thesis by (intro put [OF signed(1)]) (auto simp: stored_def row_le_def reached_def)
  next
    case (removed u i rs)
    then show ?thesis by (intro put [OF removed(1)]) (auto simp: stored_def row_le_def reached_def)
  next
    case (bound u i v canon digest)
    then show ?thesis by (intro put [OF bound(1)]) (auto simp: stored_def row_le_def reached_def)
  next
    case (completed u i e obligations receipts)
    then show ?thesis by (intro put [OF completed(1)]) (auto simp: stored_def row_le_def reached_def)
  next
    case (exported u i custodyDigest manifest)
    then show ?thesis by (intro put [OF exported(1)]) (auto simp: stored_def row_le_def reached_def)
  qed (use w' old [of w'] in \<open>auto simp: reached_def reserved_row_def\<close>)
qed

lemma saga_marked:
  assumes step: "saga env verify custody db db'" and law: "marker_decoding env" and inv: "lc_inv env db"
    and w': "w' \<in> set (ld_operations db')" "reached w' 2"
  shows "marked_ok env db' w'"
  using saga_new_mark [OF step law w']
proof
  assume "\<exists>w \<in> set (ld_operations db). reached w 2 \<and> row_le w w'"
  then obtain w where "w \<in> set (ld_operations db)" "reached w 2" "row_le w w'" by blast
  then show ?thesis using marked_ok_mono [OF step law, of w w'] inv by (simp add: lc_inv_def lc_tables_def row_le_def)
qed

text \<open>The removal of payloads, as a relation, and what every other step keeps.\<close>

definition removes :: "lifecycle_env \<Rightarrow> receipt_verifier \<Rightarrow> LifecycleDB \<Rightarrow> LifecycleDB \<Rightarrow> operation_row \<Rightarrow> Intent \<Rightarrow> AcceptedRecord list \<Rightarrow> bool" where
  "removes env verify db db' w i rs \<longleftrightarrow> stored env db w i \<and> ow_state w = ReceiptSigned \<and>
     verify_receipt env verify (ow_receipt w) (ow_signature w) = None \<and> covered (ld_relay db) i rs \<and> rs \<noteq> [] \<and>
     distinct (map ar_sequence rs) \<and> sorted (map ar_sequence rs) \<and>
     db' = put_operation (db\<lparr>ld_relay := removed_relay (li_operation i) (li_transcript i) rs (ld_relay db)\<rparr>)
      (w\<lparr>ow_removal := Some (removalDigest (map (evidence_record \<circ> removal_of) rs)), ow_state := PayloadRemoved\<rparr>)"

definition keeps_payloads :: "LifecycleDB \<Rightarrow> LifecycleDB \<Rightarrow> bool" where
  "keeps_payloads db db' \<longleftrightarrow> rd_payload_tombstones (ld_relay db') = rd_payload_tombstones (ld_relay db) \<and>
     rd_identifier_tombstones (ld_relay db') = rd_identifier_tombstones (ld_relay db) \<and>
     (\<forall>k rs. sq_records (ld_relay db) k = Some rs \<longrightarrow> (\<exists>rs'. sq_records (ld_relay db') k = Some rs' \<and> extends rs rs'))"

lemma keeps_payloads_same: "ld_relay db' = ld_relay db \<Longrightarrow> keeps_payloads db db'"
  by (auto simp: keeps_payloads_def)

lemma put_operation_relay [simp]: "ld_relay (put_operation db w) = ld_relay db"
  by (simp add: put_operation_def)

lemma sq_records_set_lifecycle: "sq_records (fst (set_lifecycle db k from to)) = sq_records db"
proof -
  have "rows_of (fst (set_lifecycle db k from to)) = rows_of db" by (rule ext) (simp add: rows_of_def set_lifecycle_def Let_def)
  then show ?thesis by (intro ext) (simp add: sq_records_def set_lifecycle_find)
qed

lemma saga_payloads:
  assumes step: "saga env verify custody db db'" and inv: "sq_inv (ld_relay db)"
  shows "keeps_payloads db db' \<or> (\<exists>w i rs. removes env verify db db' w i rs)"
  using step
proof cases
  case (relay relay)
  then have "keeps_payloads db db'" using sq_step_keeps(1,2) [OF relay(2) inv] sq_step_extends [OF relay(2) inv] by (simp add: keeps_payloads_def)
  then show ?thesis ..
next
  case (marked w i markerBytes marker preimage t relay)
  then have "keeps_payloads db db'"
    by (simp add: keeps_payloads_def sq_records_set_lifecycle) (simp add: set_lifecycle_def Let_def)
  then show ?thesis ..
next
  case (removed w i rs)
  then have "removes env verify db db' w i rs" by (simp add: removes_def)
  then show ?thesis by blast
qed (simp_all add: keeps_payloads_same)

lemma saga_new_removal:
  assumes step: "saga env verify custody db db'" and w': "w' \<in> set (ld_operations db')" "reached w' 4"
  shows "(\<exists>w \<in> set (ld_operations db). reached w 4 \<and> row_le w w') \<or>
    (\<exists>w i rs. removes env verify db db' w i rs \<and> w' = w\<lparr>ow_removal := Some (removalDigest (map (evidence_record \<circ> removal_of) rs)), ow_state := PayloadRemoved\<rparr>)"
proof -
  have old: ?thesis if "w \<in> set (ld_operations db)" "reached w 4" "row_le w w'" for w using that by blast
  have put: ?thesis if "db' = put_operation d v" "ld_operations d = ld_operations db" "u \<in> set (ld_operations db)" "row_le u v" "reached v 4 \<longrightarrow> reached u 4" for d u v
    using that w' put_operation_sub [of w' d v] old [of w'] old [of u] by auto
  from step show ?thesis
  proof cases
    case (exported u i custodyDigest manifest)
    then show ?thesis by (intro put [OF exported(1)]) (auto simp: stored_def row_le_def reached_def)
  next
    case (marked u i markerBytes marker preimage t relay)
    then show ?thesis by (intro put [OF marked(1)]) (auto simp: stored_def row_le_def reached_def)
  next
    case (signed u i signature)
    then show ?thesis by (intro put [OF signed(1)]) (auto simp: stored_def row_le_def reached_def)
  next
    case (bound u i v canon digest)
    then show ?thesis by (intro put [OF bound(1)]) (auto simp: stored_def row_le_def reached_def)
  next
    case (completed u i e obligations receipts)
    then show ?thesis by (intro put [OF completed(1)]) (auto simp: stored_def row_le_def reached_def)
  next
    case (removed u i rs)
    let ?u = "u\<lparr>ow_removal := Some (removalDigest (map (evidence_record \<circ> removal_of) rs)), ow_state := PayloadRemoved\<rparr>"
    have "removes env verify db db' u i rs" using removed by (simp add: removes_def)
    moreover have "w' = ?u \<or> w' \<in> set (ld_operations db)" using put_operation_sub w'(1) removed(1) by fastforce
    ultimately show ?thesis using old [of w'] w'(2) row_le_refl by blast
  qed (use w' old [of w'] in \<open>auto simp: reached_def reserved_row_def\<close>)
qed

lemma lc_invD:
  assumes "lc_inv env db"
  shows "lc_tables db" "sq_inv (ld_relay db)" "distinct (map ow_operation (ld_operations db))"
    and "w \<in> set (ld_operations db) \<Longrightarrow> reached w 2 \<Longrightarrow> marked_ok env db w"
    and "p \<in> set (rd_payload_tombstones (ld_relay db)) \<Longrightarrow> tombstone_ok env db p"
    and "p \<in> set (rd_payload_tombstones (ld_relay db)) \<Longrightarrow> identifiers_ok db p"
    and "w \<in> set (ld_operations db) \<Longrightarrow> reached w 4 \<Longrightarrow> removal_ok db w"
  using assms by (auto simp: lc_inv_def lc_tables_def)

lemma removes_tombs:
  assumes "removes env verify db db' w i rs"
  shows "rd_payload_tombstones (ld_relay db') = rd_payload_tombstones (ld_relay db) @ map (payload_tombstone_of (li_operation i) (li_transcript i) \<circ> removal_of) rs"
    and "rd_identifier_tombstones (ld_relay db') = rd_identifier_tombstones (ld_relay db) @
       concat (map (\<lambda>r. [identifier_tombstone_of (li_operation i) (li_transcript i) ''event'' (ar_event_id r),
         identifier_tombstone_of (li_operation i) (li_transcript i) ''receipt'' (ar_receipt_id r)]) rs)"
  using assms by (simp_all add: removes_def removed_relay_def)

lemma removes_fresh:
  assumes inv: "lc_inv env db" and rem: "removes env verify db db' w i rs"
  shows "li_operation i = ow_operation w" "op_tombs db (ow_operation w) = []"
proof -
  have w: "w \<in> set (ld_operations db)" "le_intent env (ow_intent w) = Some i" "ow_state w = ReceiptSigned"
    using rem by (simp_all add: removes_def stored_def)
  then show "li_operation i = ow_operation w" using lc_invD(4) [OF inv w(1)] by (auto simp: marked_ok_def reached_def)
  show "op_tombs db (ow_operation w) = []"
  proof (rule ccontr)
    assume "op_tombs db (ow_operation w) \<noteq> []"
    then obtain p where "p \<in> set (rd_payload_tombstones (ld_relay db))" "pt_operation p = ow_operation w"
      by (auto simp: op_tombs_def filter_empty_conv)
    then obtain v where "v \<in> set (ld_operations db)" "ow_operation v = ow_operation w" "reached v 4"
      using lc_invD(5) [OF inv, of p] by (auto simp: tombstone_ok_def)
    then show False using operation_unique [OF lc_invD(3) [OF inv], of v w] w by (auto simp: reached_def)
  qed
qed

lemma saga_tombstone_ok:
  assumes step: "saga env verify custody db db'" and inv: "lc_inv env db" and p: "p \<in> set (rd_payload_tombstones (ld_relay db'))"
  shows "tombstone_ok env db' p"
proof -
  have old: ?thesis if "p \<in> set (rd_payload_tombstones (ld_relay db))"
    using lc_invD(5) [OF inv that] saga_row_le [OF step lc_invD(1) [OF inv]] unfolding tombstone_ok_def row_le_def by metis
  from saga_payloads [OF step lc_invD(2) [OF inv]] show ?thesis
  proof
    assume "keeps_payloads db db'"
    then show ?thesis using old p by (simp add: keeps_payloads_def)
  next
    assume "\<exists>w i rs. removes env verify db db' w i rs"
    then obtain w i rs where rem: "removes env verify db db' w i rs" by blast
    let ?w = "w\<lparr>ow_removal := Some (removalDigest (map (evidence_record \<circ> removal_of) rs)), ow_state := PayloadRemoved\<rparr>"
    have "?w \<in> set (ld_operations db')" "le_intent env (ow_intent w) = Some i"
      using rem put_operation_mem [of "db\<lparr>ld_relay := removed_relay (li_operation i) (li_transcript i) rs (ld_relay db)\<rparr>" w ?w] lc_invD(3) [OF inv]
      by (simp_all add: removes_def stored_def)
    then have "tombstone_ok env db' (payload_tombstone_of (li_operation i) (li_transcript i) (removal_of r))" for r
      unfolding tombstone_ok_def using removes_fresh(1) [OF inv rem] by (intro bexI [of _ ?w]) (simp_all add: payload_tombstone_of_def reached_def)
    then show ?thesis using old p removes_tombs(1) [OF rem] by auto
  qed
qed

lemma removes_identifiers:
  assumes "removes env verify db db' w i rs" "r \<in> set rs"
  shows "identifiers_ok db' (payload_tombstone_of (li_operation i) (li_transcript i) (removal_of r))"
proof -
  let ?e = "identifier_tombstone_of (li_operation i) (li_transcript i) ''event'' (ar_event_id r)"
  let ?r = "identifier_tombstone_of (li_operation i) (li_transcript i) ''receipt'' (ar_receipt_id r)"
  have "?e \<in> set (rd_identifier_tombstones (ld_relay db'))" "?r \<in> set (rd_identifier_tombstones (ld_relay db'))"
    unfolding removes_tombs [OF assms(1)] using assms(2) by auto
  then show ?thesis
    unfolding identifiers_ok_def event_tombstoned_def receipt_tombstoned_def list_ex_iff
    by (intro conjI bexI [of _ ?e] bexI [of _ ?r])
      (simp_all add: payload_tombstone_of_def identifier_tombstone_of_def transcript_key_def removal_of_def)
qed

lemma saga_identifiers_ok:
  assumes step: "saga env verify custody db db'" and inv: "lc_inv env db" and p: "p \<in> set (rd_payload_tombstones (ld_relay db'))"
  shows "identifiers_ok db' p"
  using saga_payloads [OF step lc_invD(2) [OF inv]]
proof
  assume "keeps_payloads db db'"
  then show ?thesis using lc_invD(6) [OF inv, of p] p by (simp add: keeps_payloads_def identifiers_ok_def event_tombstoned_def receipt_tombstoned_def)
next
  assume "\<exists>w i rs. removes env verify db db' w i rs"
  then obtain w i rs where rem: "removes env verify db db' w i rs" by blast
  have "identifiers_ok db' p" if "p \<in> set (rd_payload_tombstones (ld_relay db))"
    using lc_invD(6) [OF inv that] unfolding identifiers_ok_def event_tombstoned_def receipt_tombstoned_def removes_tombs [OF rem] by simp
  then show ?thesis using p removes_identifiers [OF rem] unfolding removes_tombs [OF rem] by auto
qed

lemma saga_removal_ok:
  assumes step: "saga env verify custody db db'" and inv: "lc_inv env db" and w': "w' \<in> set (ld_operations db')" "reached w' 4"
  shows "removal_ok db' w'"
  using saga_new_removal [OF step w']
proof
  assume "\<exists>w \<in> set (ld_operations db). reached w 4 \<and> row_le w w'"
  then obtain w where w: "w \<in> set (ld_operations db)" "reached w 4" "row_le w w'" by blast
  have "op_tombs db' (ow_operation w) = op_tombs db (ow_operation w)"
    using saga_payloads [OF step lc_invD(2) [OF inv]]
  proof
    assume "\<exists>w i rs. removes env verify db db' w i rs"
    then obtain u i rs where rem: "removes env verify db db' u i rs" by blast
    then have "u \<in> set (ld_operations db)" "\<not> reached u 4" by (simp_all add: removes_def stored_def reached_def)
    then have "ow_operation u \<noteq> ow_operation w" using operation_unique [OF lc_invD(3) [OF inv], of u w] w by blast
    then show ?thesis
      unfolding op_tombs_def removes_tombs [OF rem] by (simp add: removes_fresh(1) [OF inv rem] payload_tombstone_of_def comp_def)
  qed (simp add: op_tombs_def keeps_payloads_def)
  then show ?thesis using lc_invD(7) [OF inv w(1,2)] w by (simp add: removal_ok_def row_le_def)
next
  assume "\<exists>w i rs. removes env verify db db' w i rs \<and> w' = w\<lparr>ow_removal := Some (removalDigest (map (evidence_record \<circ> removal_of) rs)), ow_state := PayloadRemoved\<rparr>"
  then obtain w i rs where rem: "removes env verify db db' w i rs"
    and eq: "w' = w\<lparr>ow_removal := Some (removalDigest (map (evidence_record \<circ> removal_of) rs)), ow_state := PayloadRemoved\<rparr>" by blast
  let ?p = "payload_tombstone_of (li_operation i) (li_transcript i) \<circ> removal_of"
  have "op_tombs db' (ow_operation w) = map ?p rs"
    using removes_fresh [OF inv rem] by (simp add: op_tombs_def removes_tombs [OF rem] payload_tombstone_of_def filter_empty_conv comp_def)
  moreover have "sort_key pt_sequence (map ?p rs) = map ?p rs"
    using rem by (intro sort_key_id_if_sorted) (simp add: removes_def payload_tombstone_of_def removal_of_def comp_def)
  moreover have "tombstone_record \<circ> ?p = evidence_record \<circ> removal_of"
    by (rule ext) (simp add: tombstone_record_def payload_tombstone_of_def evidence_record_def removal_of_def)
  ultimately show ?thesis using rem eq by (simp add: removal_ok_def removes_def)
qed

lemma saga_inv:
  assumes "saga env verify custody db db'" "marker_decoding env" "lc_inv env db"
  shows "lc_inv env db'"
  using saga_tables [OF assms(1) lc_invD(1) [OF assms(3)]] saga_marked [OF assms] saga_tombstone_ok [OF assms(1,3)]
    saga_identifiers_ok [OF assms(1,3)] saga_removal_ok [OF assms(1,3)]
  by (simp add: lc_inv_def)

lemma schema_inv: "lc_inv env lifecycle_schema"
  using schema_tables by (simp add: lc_inv_def) (simp add: lifecycle_schema_def relay_schema_def)

lemma steps_inv:
  assumes "(lifecycle_step env verify custody)\<^sup>*\<^sup>* db db'" "marker_decoding env" "lc_inv env db"
  shows "lc_inv env db'"
  using assms(1)
proof (induction rule: rtranclp_induct)
  case (step y z)
  then show ?case using step_saga [OF step.hyps(2)] saga_inv assms(2) lc_invD(1) by blast
qed (fact assms(3))

end
