(* ===== verification/Lifecycle_Example.thy ===== *)
theory Lifecycle_Example
  imports Lifecycle_Completion
begin

text \<open>
  One lifecycle operation on a concrete database: a channel with one signed record is created, its deletion is reserved,
  marked, signed and carried out. The equations say what each call answers and how it changes the tables; digests stay
  symbolic. They are the instances at which the laws of the lifecycle are exercised.
\<close>

section \<open>The relay\<close>

definition lx_key :: ChannelKey where
  "lx_key = \<lparr>ck_tenant = ''t'', ck_channel = ''c'', ck_epoch = ''0''\<rparr>"

definition lx_channel :: Channel where
  "lx_channel = \<lparr>ch_key = lx_key, ch_uri = ''u'', ch_metadata = [1], ch_metadata_digest = ''d'', ch_lifecycle = ''active''\<rparr>"

definition lx_append :: AppendIntent where
  "lx_append = \<lparr>in_channel = lx_key, in_event_id = ''ev'', in_canonical = [7]\<rparr>"

definition lx_record :: "bytes \<Rightarrow> AcceptedRecord" where
  "lx_record signature = \<lparr>ar_channel = lx_key, ar_sequence = 1, ar_event_id = ''ev'', ar_canonical = [7], ar_digest = EventDigest [7],
     ar_authn = [1], ar_authz = [1], ar_receipt_id = ''r'', ar_key_id = ''k'', ar_algorithm = ''a'', ar_preimage = [9],
     ar_signature = signature\<rparr>"

definition lx_relay :: "nat \<Rightarrow> string \<Rightarrow> string \<Rightarrow> AcceptedRecord list \<Rightarrow> RelayDB" where
  "lx_relay n lifecycle completeness rs = \<lparr>rd_identities = [((''t'', ''c''), ''u'')],
     rd_transcripts = [\<lparr>tw_key = lx_key, tw_next = n, tw_metadata = [1], tw_digest = ''d'', tw_lifecycle = lifecycle,
       tw_completeness = completeness\<rparr>],
     rd_records = rs, rd_payload_tombstones = [], rd_identifier_tombstones = []\<rparr>"

lemmas lx_defs = lx_key_def lx_channel_def lx_append_def lx_record_def lx_relay_def

lemma lx_created: "sq_CreateChannel no_faults relay_schema None lx_channel = (lx_relay 1 ''active'' ''complete'' [], None)"
  by (simp add: sq_CreateChannel_def ValidateChannel_def lx_defs immediate_tx_def no_faults_def create_body_def ensure_identity_def
      Let_def relay_schema_def channel_of_def insert_identity_def insert_transcript_def find_transcript_def)

lemma lx_appended:
  "sq_AppendChecked no_faults (lx_relay 1 ''active'' ''complete'' []) None lx_append (Some (\<lambda>_. None)) (Some (\<lambda>_ _. Inr (lx_record []))) =
     (lx_relay 2 ''active'' ''complete'' [lx_record []], Inr \<lparr>res_outcome = AppendOutcomeAppended, res_record = lx_record []\<rparr>)"
  by (simp add: lx_defs sq_AppendChecked_def ValidateCheckedAppend_def ValidateAppendIntent_def ValidateIntent_def immediate_tx_def
      append_body_def findRecord_def event_tombstoned_def receipt_tombstoned_def append_new_def ValidatePreparedRecord_def
      insert_record_def advance_sequence_def find_transcript_def no_faults_def MaxInt64_def Let_def)

lemma lx_attached:
  "sq_AttachSignature no_faults (lx_relay 2 ''active'' ''complete'' [lx_record []]) None
      \<lparr>sa_channel = lx_key, sa_receipt_id = ''r'', sa_preimage = [9], sa_signature = [5]\<rparr> =
   (lx_relay 2 ''active'' ''complete'' [lx_record [5]], Inr (lx_record [5]))"
  by (simp add: sq_AttachSignature_def ValidateSignatureAttachment_def immediate_tx_def attach_body_def findReceipt_def no_faults_def
      set_signature_def lx_defs Let_def)

section \<open>The documents\<close>

text \<open>The environment encodes a document by its type, and a backup document by its domain.\<close>

definition lx_policy :: Policy where
  "lx_policy = \<lparr>pl_profile = ''yukh-transcript-lifecycle-policy/v0.1'', pl_id = ''p'', pl_epoch = 1, pl_digest = ex_policy_digest,
     pl_active_retention = 1, pl_event_backup = 1, pl_identity_backup = 1, pl_audit_backup = 1, pl_export_mode = ExportPermitted,
     pl_redaction_role = ''r'', pl_deletion_role = ''d'', pl_integrity_profile = ''sequence-event-receipt-operation/v0.1'',
     pl_issued_at = ex_evidenced, pl_activated_at = ex_deadline, pl_approver = ''a''\<rparr>"

definition lx_transcript :: TranscriptKey where
  "lx_transcript = \<lparr>tk_tenant = ''t'', tk_channel = ''c'', tk_epoch = 0\<rparr>"

definition lx_target :: Target where
  "lx_target = \<lparr>tg_kind = ''transcript'', tg_sequences = []\<rparr>"

definition lx_intent :: Intent where
  "lx_intent = \<lparr>li_profile = ''yukh-transcript-lifecycle-intent/v0.1'', li_operation = ''op'', li_transcript = lx_transcript,
     li_action = DeleteTranscript, li_reason = ''authorized_request'', li_policy_id = ''p'', li_policy_epoch = 1,
     li_policy_digest = ex_policy_digest, li_target = lx_target, li_high_water = ''r'', li_requested_at = ex_evidenced,
     li_requester = ''a'', li_audit_receipt = ''a'', li_export_mode = ExportPermitted,
     li_deadlines = map (\<lambda>d. \<lparr>bd_domain = d, bd_deadline = ex_deadline\<rparr>) backup_domains\<rparr>"

definition lx_marker :: Marker where
  "lx_marker = \<lparr>mk_profile = ''yukh-transcript-lifecycle-marker/v0.1'', mk_operation = ''op'', mk_intent_digest = ex_intent_digest,
     mk_transcript = lx_transcript, mk_previous = Active, mk_resulting = Deleted, mk_target = lx_target,
     mk_policy_digest = ex_policy_digest, mk_high_water = ''r'', mk_time = ex_evidenced, mk_audit_receipt = ''a''\<rparr>"

definition lx_preimage :: ReceiptPreimage where
  "lx_preimage = \<lparr>rp_profile = ''yukh-transcript-lifecycle-receipt-preimage/v0.1'', rp_receipt_id = ''x'',
     rp_marker_digest = lc_digest markerDigestDomain [2], rp_operation = ''op'', rp_intent_digest = ex_intent_digest,
     rp_transcript = lx_transcript, rp_resulting = Deleted, rp_policy_digest = ex_policy_digest, rp_issued_at = ex_evidenced,
     rp_key_id = ''k'', rp_algorithm = ''ed25519''\<rparr>"

definition lx_set :: BackupObligationSet where
  "lx_set = \<lparr>bs_profile = ''yukh-transcript-backup-obligation-set/v0.1'', bs_operation = ''op'', bs_intent_digest = ex_intent_digest,
     bs_policy_digest = ex_policy_digest, bs_obligations = ex_obligations\<rparr>"

definition lx_env :: lifecycle_env where
  "lx_env = \<lparr>le_Parse = \<lambda>s. Some (7, s), le_Transform = \<lambda>b. if b = [] then None else Some b,
     le_Marshal = \<lambda>v. case v of VIntent i \<Rightarrow> if i = lx_intent then [1] else [] | _ \<Rightarrow> ex_Marshal v, le_intent = \<lambda>_. Some lx_intent,
     le_marker = \<lambda>_. Some lx_marker, le_receipt = \<lambda>_. Some lx_preimage, le_strict_marker = \<lambda>_. Some lx_marker,
     le_strict_receipt = \<lambda>_. Some lx_preimage, le_obligation = \<lambda>b. find (\<lambda>v. str_bytes (bo_domain v) = b) ex_obligations,
     le_obligation_set = \<lambda>_. Some lx_set,
     le_custodian = \<lambda>b. find (\<lambda>v. str_bytes (cr_domain v) = b) (map (ex_receipt BackupSucceeded) backup_domains),
     le_completion = \<lambda>_. Some ex_completion\<rparr>"

lemma lx_like [simp]: "ex_like lx_env"
  by (simp add: ex_like_def lx_env_def split: lc_value.split)

lemma lx_intents: "canonical lx_env (VIntent i) = (if i = lx_intent then Some [1] else None)"
  by (simp add: canonical_def lx_env_def)

lemma lx_policy_simps [simp]:
  "pl_profile lx_policy = ''yukh-transcript-lifecycle-policy/v0.1''" "pl_id lx_policy = ''p''" "pl_epoch lx_policy = 1"
  "pl_digest lx_policy = ex_policy_digest" "pl_active_retention lx_policy = 1" "pl_event_backup lx_policy = 1"
  "pl_identity_backup lx_policy = 1" "pl_audit_backup lx_policy = 1" "pl_export_mode lx_policy = ExportPermitted"
  "pl_redaction_role lx_policy = ''r''" "pl_deletion_role lx_policy = ''d''"
  "pl_integrity_profile lx_policy = ''sequence-event-receipt-operation/v0.1''" "pl_issued_at lx_policy = ex_evidenced"
  "pl_activated_at lx_policy = ex_deadline" "pl_approver lx_policy = ''a''"
  by (simp_all add: lx_policy_def)

lemma lx_intent_simps [simp]:
  "li_profile lx_intent = ''yukh-transcript-lifecycle-intent/v0.1''" "li_operation lx_intent = ''op''"
  "li_transcript lx_intent = lx_transcript" "li_action lx_intent = DeleteTranscript" "li_reason lx_intent = ''authorized_request''"
  "li_policy_id lx_intent = ''p''" "li_policy_epoch lx_intent = 1" "li_policy_digest lx_intent = ex_policy_digest"
  "li_target lx_intent = lx_target" "li_high_water lx_intent = ''r''" "li_requested_at lx_intent = ex_evidenced"
  "li_requester lx_intent = ''a''" "li_audit_receipt lx_intent = ''a''" "li_export_mode lx_intent = ExportPermitted"
  "li_deadlines lx_intent = map (\<lambda>d. \<lparr>bd_domain = d, bd_deadline = ex_deadline\<rparr>) backup_domains"
  by (simp_all add: lx_intent_def)

lemma lx_marker_simps [simp]:
  "mk_profile lx_marker = ''yukh-transcript-lifecycle-marker/v0.1''" "mk_operation lx_marker = ''op''"
  "mk_intent_digest lx_marker = ex_intent_digest" "mk_transcript lx_marker = lx_transcript" "mk_previous lx_marker = Active"
  "mk_resulting lx_marker = Deleted" "mk_target lx_marker = lx_target" "mk_policy_digest lx_marker = ex_policy_digest"
  "mk_high_water lx_marker = ''r''" "mk_time lx_marker = ex_evidenced" "mk_audit_receipt lx_marker = ''a''"
  by (simp_all add: lx_marker_def)

lemma lx_preimage_simps [simp]:
  "rp_profile lx_preimage = ''yukh-transcript-lifecycle-receipt-preimage/v0.1''" "rp_receipt_id lx_preimage = ''x''"
  "rp_marker_digest lx_preimage = lc_digest markerDigestDomain [2]" "rp_operation lx_preimage = ''op''"
  "rp_intent_digest lx_preimage = ex_intent_digest" "rp_transcript lx_preimage = lx_transcript" "rp_resulting lx_preimage = Deleted"
  "rp_policy_digest lx_preimage = ex_policy_digest" "rp_issued_at lx_preimage = ex_evidenced" "rp_key_id lx_preimage = ''k''"
  "rp_algorithm lx_preimage = ''ed25519''"
  by (simp_all add: lx_preimage_def)

lemma lx_env_simps [simp]:
  "b \<noteq> [] \<Longrightarrow> le_Transform lx_env b = Some b" "le_intent lx_env b = Some lx_intent"
  "le_marker lx_env b = Some lx_marker" "le_receipt lx_env b = Some lx_preimage" "le_strict_marker lx_env b = Some lx_marker"
  "le_strict_receipt lx_env b = Some lx_preimage" "le_obligation_set lx_env b = Some lx_set" "le_completion lx_env b = Some ex_completion"
  by (simp_all add: lx_env_def)

lemma lx_patterns [simp]:
  "validTranscript lx_transcript"
  "validTime ex_deadline" "validTime ex_evidenced" "transcript_key lx_transcript = lx_key"
  using ex_times by (simp_all add: validTranscript_def lx_transcript_def lc_identifierPattern_def
      maxSafeInteger_def transcript_key_def lx_key_def FormatUint_def pad.simps dchr_0)

lemma lx_deadlines: "validDeadlines (li_deadlines lx_intent) ex_evidenced"
proof -
  have ok: "fields_ok 2026 1 1 0 0 0 0" "fields_ok 2026 1 2 0 0 0 0" by (simp_all add: fields_ok_def daysIn_def month_days_def leap_def)
  show ?thesis
    using time_Parse_layout [OF ok(1)] time_Parse_layout [OF ok(2)]
    by (simp add: validDeadlines_def lx_intent_def ex_evidenced_def ex_deadline_def backup_domains_def time_After_def time_Date_def
        days_of_def Millisecond_def)
qed

lemma lx_CanonicalIntent [simp]: "CanonicalIntent lx_env lx_intent = Inr ([1], ex_intent_digest)"
proof -
  have "lc_ValidateIntent lx_env lx_intent = None"
    using lx_deadlines by (simp add: lc_ValidateIntent_def lx_intent_def validAction_def validReason_def lc_identifierPattern_def Lifecycle.positive_def
        maxSafeInteger_def validTarget_def lx_target_def lc_referencePattern_def validExport_def)
  then show ?thesis by (simp add: CanonicalIntent_def ex_intent_digest_def lx_intents)
qed

lemma lx_CanonicalPolicy [simp]: "CanonicalPolicy lx_env lx_policy = Inr [4]"
proof -
  have "validPolicyFields lx_policy"
    using ex_times(3) by (simp add: validPolicyFields_def lx_policy_def lc_identifierPattern_def Lifecycle.positive_def maxSafeInteger_def validExport_def)
  then have "ValidatePolicy lx_env lx_policy = None" by (simp add: ValidatePolicy_def PolicyDigest_def lx_policy_def ex_policy_digest_def)
  then show ?thesis by (simp add: CanonicalPolicy_def)
qed

lemma lx_retention: "retention_deadline ex_evidenced lx_policy = Inr (layout_text 2026 1 1 0 0 0 1)"
proof -
  have ok: "fields_ok 2026 1 1 0 0 0 0" "fields_ok 2026 1 1 0 0 0 1" by (simp_all add: fields_ok_def daysIn_def month_days_def leap_def)
  have "time_Add (time_fields 2026 1 1 0 0 0 0) 1000000 = time_fields 2026 1 1 0 0 0 1"
    by (simp add: time_Add_def time_Date_def Millisecond_def)
  then show ?thesis
    using time_Parse_layout [OF ok(1)] time_Parse_layout [OF ok(2)] time_Format_fields [OF ok(2)]
    by (simp add: retention_deadline_def ex_evidenced_def lx_policy_def)
qed

section \<open>The operation\<close>

definition lx_protocol :: protocol_env where
  "lx_protocol = \<lparr>pe_Unmarshal = \<lambda>_. Some (JObj [(''tenant_id'', JStr ''t''), (''channel_id'', JStr ''c''), (''channel_uri'', JStr ''u''),
       (''acl_policy_version'', JStr ''v''), (''acl_policy_digest'', JStr ''a''), (''retention_policy_digest'', JStr ex_policy_digest),
       (''retention_epoch'', JNum 1), (''created_at'', JStr ex_evidenced)]),
     pe_tokens = \<lambda>_. ([], True), pe_Transform = Some\<rparr>"

definition lx_prep :: LifecyclePreparation where
  "lx_prep = \<lparr>lp_validator = \<lparr>vd_envelope = None, vd_metadata = Some (\<lambda>_. True), vd_receipt = None\<rparr>,
     lp_policies = [(ex_policy_digest, lx_policy)]\<rparr>"

definition lx_row :: operation_row where
  "lx_row = \<lparr>ow_operation = ''op'', ow_intent_digest = ex_intent_digest, ow_intent = [1], ow_key = lx_key,
     ow_policy_digest = ex_policy_digest, ow_requested_at = ex_evidenced, ow_state = ExportSatisfied, ow_manifest = None, ow_custody = None,
     ow_marker = [], ow_receipt = [], ow_signature = [], ow_removal = None\<rparr>"

definition lx_db :: "RelayDB \<Rightarrow> operation_row \<Rightarrow> LifecycleDB" where
  "lx_db relay w = \<lparr>ld_relay = relay,
     ld_policies = [\<lparr>pw_digest = ex_policy_digest, pw_id = ''p'', pw_epoch = 1, pw_canonical = [4], pw_retention = 1, pw_export = ExportPermitted\<rparr>],
     ld_bindings = [\<lparr>tb_key = lx_key, tb_digest = ex_policy_digest, tb_id = ''p'', tb_epoch = 1, tb_deadline = layout_text 2026 1 1 0 0 0 1\<rparr>],
     ld_operations = [w], ld_sets = [], ld_obligations = [], ld_receipts = [], ld_completions = []\<rparr>"

lemma lx_row_simps [simp]:
  "ow_operation lx_row = ''op''" "ow_intent_digest lx_row = ex_intent_digest" "ow_intent lx_row = [1]" "ow_key lx_row = lx_key"
  "ow_policy_digest lx_row = ex_policy_digest" "ow_requested_at lx_row = ex_evidenced" "ow_state lx_row = ExportSatisfied"
  "ow_manifest lx_row = None" "ow_custody lx_row = None" "ow_marker lx_row = []" "ow_receipt lx_row = []" "ow_signature lx_row = []"
  "ow_removal lx_row = None"
  by (simp_all add: lx_row_def)

lemma lx_metadata:
  "\<exists>d. ValidateChannelMetadata lx_protocol (Some (lp_validator lx_prep)) [1] =
     Inr \<lparr>cm_TenantID = ''t'', cm_ChannelID = ''c'', cm_ChannelURI = ''u'', cm_ACLPolicyVersion = ''v'', cm_ACLPolicyDigest = ''a'',
       cm_RetentionPolicyDigest = ex_policy_digest, cm_RetentionEpoch = 1, cm_CreatedAt = ex_evidenced, cm_Digest = d\<rparr>"
  by (simp add: ValidateChannelMetadata_def lx_protocol_def lx_prep_def utf8_Valid_def Json.member_def as_object_def as_string_def
      as_float64_def)

definition lx_db0 :: LifecycleDB where
  "lx_db0 = lifecycle_schema\<lparr>ld_relay := lx_relay 2 Active ''complete'' [lx_record [5]]\<rparr>"

lemma no_faults_simps [simp]: "sr_fault no_faults n = False" "sr_commit no_faults = Committed"
  by (simp_all add: no_faults_def)

lemma lx_persisted:
  "persistLifecyclePolicy no_faults lx_db0 lx_policy [4] = Inr (lx_db0\<lparr>ld_policies := ld_policies (lx_db r w)\<rparr>)"
  "persistTranscriptPolicyBinding no_faults (lx_db0\<lparr>ld_policies := ld_policies (lx_db r w)\<rparr>) lx_intent lx_key (layout_text 2026 1 1 0 0 0 1) =
     Inr (lx_db0\<lparr>ld_policies := ld_policies (lx_db r w), ld_bindings := ld_bindings (lx_db r w)\<rparr>)"
  "insert_operation (lx_db0\<lparr>ld_policies := ld_policies (lx_db r w), ld_bindings := ld_bindings (lx_db r w)\<rparr>) lx_row =
     Some (lx_db (lx_relay 2 Active ''complete'' [lx_record [5]]) lx_row)"
  by (simp_all add: persistLifecyclePolicy_def persistTranscriptPolicyBinding_def insert_policy_def insert_binding_def insert_operation_def
      find_operation_def find_transcript_def saga_order_def lx_db_def lx_db0_def lx_relay_def lifecycle_schema_def MaxInt64_def Let_def)

lemma lx_reserved:
  "lp_Reserve no_faults lx_env lx_protocol lx_prep lx_db0 False lx_intent =
     (lx_db (lx_relay 2 Active ''complete'' [lx_record [5]]) lx_row, Inr \<lparr>op_intent = lx_intent, op_intent_digest = ex_intent_digest,
       op_state = ExportSatisfied, op_marker = [], op_receipt = [], op_signature = []\<rparr>)"
proof -
  let ?t = "\<lparr>tw_key = lx_key, tw_next = 2, tw_metadata = [1], tw_digest = ''d'', tw_lifecycle = Active, tw_completeness = ''complete''\<rparr>"
  obtain d where m: "reservable lx_protocol lx_prep lx_intent lx_policy ?t =
     Some \<lparr>cm_TenantID = ''t'', cm_ChannelID = ''c'', cm_ChannelURI = ''u'', cm_ACLPolicyVersion = ''v'', cm_ACLPolicyDigest = ''a'',
       cm_RetentionPolicyDigest = ex_policy_digest, cm_RetentionEpoch = 1, cm_CreatedAt = ex_evidenced, cm_Digest = d\<rparr>"
    using lx_metadata by (auto simp: reservable_def lx_transcript_def)
  have high: "validateLifecycleHighWater no_faults lx_db0 lx_intent lx_key 1 = Inr ()"
    by (simp add: validateLifecycleHighWater_def signed_at_def find_sequence_def lx_db0_def lx_relay_def lx_record_def lx_target_def)
  have "find_transcript (ld_relay lx_db0) lx_key = Some ?t" "map_of (lp_policies lx_prep) ex_policy_digest = Some lx_policy"
    by (simp_all add: find_transcript_def lx_db0_def lx_relay_def lx_prep_def)
  moreover have "reserved_row lx_intent ex_intent_digest [1] lx_policy = lx_row" by (simp add: reserved_row_def lx_row_def)
  ultimately have "reserve_new no_faults lx_env lx_protocol lx_prep lx_intent [1] ex_intent_digest lx_db0 =
      Inr (lx_db (lx_relay 2 Active ''complete'' [lx_record [5]]) lx_row, \<lparr>op_intent = lx_intent, op_intent_digest = ex_intent_digest,
       op_state = ExportSatisfied, op_marker = [], op_receipt = [], op_signature = []\<rparr>)"
    using m high lx_retention lx_persisted [of relay_schema lx_row] by (simp add: reserve_new_def Let_def)
  moreover have "loadLifecycleOperation lx_env False lx_db0 ''op'' = Inr None"
    by (simp add: loadLifecycleOperation_def find_operation_def lx_db0_def lifecycle_schema_def)
  ultimately show ?thesis by (simp add: lp_Reserve_def immediate_tx_def reserve_body_def)
qed

text \<open>Loading the row in each of its states.\<close>

definition lx_marked_row :: operation_row where
  "lx_marked_row = lx_row\<lparr>ow_marker := [2], ow_receipt := [3], ow_state := MarkerPersisted\<rparr>"

definition lx_signed_row :: operation_row where
  "lx_signed_row = lx_marked_row\<lparr>ow_signature := replicate 64 0, ow_state := ReceiptSigned\<rparr>"

definition lx_removed_row :: operation_row where
  "lx_removed_row = lx_signed_row\<lparr>ow_removal := Some (removalDigest [evidence_record (removal_of (lx_record [5]))]), ow_state := PayloadRemoved\<rparr>"

definition lx_pending_row :: operation_row where
  "lx_pending_row = lx_removed_row\<lparr>ow_state := BackupsPending\<rparr>"

lemma lx_rows [simp]:
  "ow_operation lx_marked_row = ''op''" "ow_operation lx_signed_row = ''op''" "ow_operation lx_removed_row = ''op''"
  "ow_intent_digest lx_marked_row = ex_intent_digest" "ow_intent_digest lx_signed_row = ex_intent_digest" "ow_intent_digest lx_removed_row = ex_intent_digest"
  "ow_intent lx_marked_row = [1]" "ow_intent lx_signed_row = [1]" "ow_intent lx_removed_row = [1]"
  "ow_state lx_marked_row = MarkerPersisted" "ow_state lx_signed_row = ReceiptSigned" "ow_state lx_removed_row = PayloadRemoved"
  "ow_operation lx_pending_row = ''op''" "ow_intent_digest lx_pending_row = ex_intent_digest" "ow_intent lx_pending_row = [1]"
  "ow_state lx_pending_row = BackupsPending"
  by (simp_all add: lx_marked_row_def lx_signed_row_def lx_removed_row_def lx_pending_row_def)

lemma lx_canonical [simp]: "ValidateCanonical lx_env [b] = None" "decodeCanonical lx_env f [b] = f [b]"
  by (simp_all add: ValidateCanonical_def decodeCanonical_def)

lemma lx_valid_marker [simp]: "ValidateMarker lx_env lx_marker = None"
  by (simp add: ValidateMarker_def validTransition_def actionForLifecycle_def validTarget_def lx_target_def lc_referencePattern_def)

lemma lx_valid_preimage [simp]:
  "ValidateReceiptPreimage lx_env lx_preimage = None" "CanonicalReceiptPreimage lx_env lx_preimage = Inr ([3], str_bytes receiptSignDomain @ [3])"
proof -
  show v: "ValidateReceiptPreimage lx_env lx_preimage = None" by (simp add: ValidateReceiptPreimage_def lc_identifierPattern_def)
  show "CanonicalReceiptPreimage lx_env lx_preimage = Inr ([3], str_bytes receiptSignDomain @ [3])" by (simp add: CanonicalReceiptPreimage_def v)
qed

definition lx_persistence :: MarkerPersistence where
  "lx_persistence = \<lparr>mp_operation = ''op'', mp_intent_digest = ex_intent_digest, mp_marker = [2], mp_preimage = [3]\<rparr>"

lemma lx_valid_persistence [simp]: "ValidateMarkerPersistence lx_env lx_persistence = None"
  by (simp add: ValidateMarkerPersistence_def lx_persistence_def CanonicalMarker_def)

lemma removalDigest_valid: "validLifecycleDigest (removalDigest rs)"
proof -
  have "removalDigest rs = lc_digest removalDigestDomain (concat (map removal_bytes rs))" by (simp add: removalDigest_def lc_digest_def)
  then have "lc_digestPattern (removalDigest rs)" by simp
  moreover have "list_all (\<lambda>c. \<not> (c < CHR ''0'' \<or> CHR ''9'' < c \<and> c < CHR ''a'' \<or> CHR ''f'' < c)) ''0123456789abcdef''"
    by code_simp
  ultimately show ?thesis unfolding validLifecycleDigest_def lc_digestPattern_def list_all_iff by blast
qed

lemma lx_load:
  assumes "w \<in> {lx_row, lx_marked_row, lx_signed_row, lx_removed_row, lx_pending_row}" "ld_operations db = [w]"
  shows "loadLifecycleOperation lx_env False db ''op'' = Inr (Some (scan_operation w lx_intent))"
proof -
  have "validStoredLifecycle lx_env (scan_operation w lx_intent)"
    using assms lx_valid_persistence removalDigest_valid
    by (auto simp: validStoredLifecycle_def scan_operation_def validExportBinding_def validMarkerPersistence_def lx_marked_row_def lx_signed_row_def
        lx_removed_row_def lx_pending_row_def lx_persistence_def Let_def)
  then show ?thesis using assms by (auto simp: loadLifecycleOperation_def find_operation_def)
qed

lemma lx_db_operations [simp]: "ld_operations (lx_db relay w) = [w]"
  by (simp add: lx_db_def)

lemma lx_update:
  "ow_operation w = ''op'' \<Longrightarrow> ow_intent_digest w = ex_intent_digest \<Longrightarrow>
     update_operation (lx_db relay w) ''op'' ex_intent_digest (ow_state w) f = (lx_db relay (f w), 1)"
  by (simp add: update_operation_def lx_db_def Let_def)

definition lx_relay_marked :: RelayDB where
  "lx_relay_marked = lx_relay 2 Deleted ''incomplete'' [lx_record [5]]"

lemma lx_marked:
  "\<exists>v. lp_PersistMarker no_faults lx_env (lx_db (lx_relay 2 Active ''complete'' [lx_record [5]]) lx_row) False lx_persistence =
     (lx_db lx_relay_marked lx_marked_row, Inr v)"
proof -
  let ?db = "lx_db (lx_relay 2 Active ''complete'' [lx_record [5]]) lx_row"
  have "set_lifecycle (ld_relay ?db) lx_key Active Deleted = (lx_relay_marked, 1)"
    by (simp add: set_lifecycle_def lx_db_def lx_relay_def lx_relay_marked_def Let_def)
  moreover have "?db\<lparr>ld_relay := lx_relay_marked\<rparr> = lx_db lx_relay_marked lx_row" by (simp add: lx_db_def)
  moreover have "update_operation (lx_db lx_relay_marked lx_row) ''op'' ex_intent_digest ExportSatisfied
      (\<lambda>w. w\<lparr>ow_marker := [2], ow_receipt := [3], ow_state := MarkerPersisted\<rparr>) = (lx_db lx_relay_marked lx_marked_row, 1)"
    using lx_update [of lx_row lx_relay_marked] by (simp add: lx_marked_row_def)
  ultimately have "\<exists>v. persist_marker_body no_faults lx_env lx_persistence lx_marker ?db = Inr (lx_db lx_relay_marked lx_marked_row, v)"
    using lx_load [of lx_row "lx_db (lx_relay 2 Active ''complete'' [lx_record [5]]) lx_row"]
    by (simp add: persist_marker_body_def lx_persistence_def closedFound_def scan_operation_def markerMatchesIntent_def exactlyOne_def lx_db_def Let_def)
  then show ?thesis by (auto simp: lp_PersistMarker_def immediate_tx_def lx_persistence_def [THEN arg_cong, of mp_marker] lx_persistence_def [THEN arg_cong, of mp_preimage])
qed

lemma lx_verify [simp]: "verify_receipt lx_env (\<lambda>_ _ _ _. True) raw signature = None"
  by (simp add: verify_receipt_def)

lemma lx_attach:
  "\<exists>v. lr_AttachSignature no_faults lx_env (\<lambda>_ _ _ _. True) False (lx_db lx_relay_marked lx_marked_row) (lx_db lx_relay_marked lx_marked_row) False
       \<lparr>ls_operation = ''op'', ls_intent_digest = ex_intent_digest, ls_preimage = [3], ls_signature = replicate 64 0\<rparr> =
     (lx_db lx_relay_marked lx_signed_row, Inr v)"
proof -
  let ?a = "\<lparr>ls_operation = ''op'', ls_intent_digest = ex_intent_digest, ls_preimage = [3], ls_signature = replicate 64 0\<rparr>"
  have row: "ow_receipt lx_marked_row = [3]" "ow_signature lx_marked_row = []" by (simp_all add: lx_marked_row_def)
  have "update_operation (lx_db lx_relay_marked lx_marked_row) ''op'' ex_intent_digest MarkerPersisted
      (\<lambda>w. w\<lparr>ow_signature := replicate 64 0, ow_state := ReceiptSigned\<rparr>) = (lx_db lx_relay_marked lx_signed_row, 1)"
    using lx_update [of lx_marked_row lx_relay_marked] by (simp add: lx_signed_row_def)
  then have "\<exists>v. lr_attach_body no_faults lx_env ?a (lx_db lx_relay_marked lx_marked_row) = Inr (lx_db lx_relay_marked lx_signed_row, v)"
    using lx_load [of lx_marked_row "lx_db lx_relay_marked lx_marked_row"] row by (simp add: lr_attach_body_def closedFound_def scan_operation_def exactlyOne_def Let_def)
  moreover have "lc_ValidateSignatureAttachment lx_env ?a = None" by (simp add: lc_ValidateSignatureAttachment_def)
  ultimately show ?thesis
    using lx_load [of lx_marked_row "lx_db lx_relay_marked lx_marked_row"] row
    by (auto simp: lr_AttachSignature_def closedFound_def scan_operation_def immediate_tx_def Let_def)
qed

definition lx_relay_removed :: RelayDB where
  "lx_relay_removed = (lx_relay 2 Deleted ''incomplete'' [])\<lparr>
     rd_payload_tombstones := [payload_tombstone_of ''op'' lx_transcript (removal_of (lx_record [5]))],
     rd_identifier_tombstones := [identifier_tombstone_of ''op'' lx_transcript ''event'' ''ev'', identifier_tombstone_of ''op'' lx_transcript ''receipt'' ''r'']\<rparr>"

lemma lx_remove_records:
  "remove_records (\<lambda>_. False) ''op'' lx_transcript 0 (lx_db lx_relay_marked lx_signed_row) [removal_of (lx_record [5])] =
     Inr (lx_db lx_relay_removed lx_signed_row)"
  by (simp add: insertRemovalEvidence_def insert_payload_tombstone_def insert_identifier_tombstone_def exactlyOne_def delete_record_def
      payload_tombstone_of_def identifier_tombstone_of_def removal_of_def find_operation_def lx_db_def lx_relay_marked_def lx_relay_removed_def
      lx_relay_def lx_record_def MaxInt64_def Let_def)

definition lx_ref :: OperationReference where
  "lx_ref = \<lparr>or_operation = ''op'', or_intent_digest = ex_intent_digest\<rparr>"

lemma lx_removed:
  "\<exists>v. lr_RemovePayload no_faults (\<lambda>_. False) lx_env (\<lambda>_ _ _ _. True) False (lx_db lx_relay_marked lx_signed_row) (lx_db lx_relay_marked lx_signed_row)
      False lx_ref = (lx_db lx_relay_removed lx_removed_row, Inr v)"
proof -
  let ?db = "lx_db lx_relay_marked lx_signed_row"
  note load = lx_load [of lx_signed_row "lx_db lx_relay_marked lx_signed_row"]
  have select: "selectRemovalRecords no_faults (ld_relay ?db) lx_intent = Inr [removal_of (lx_record [5])]"
    by (simp add: selectRemovalRecords_def lx_db_def lx_relay_marked_def lx_relay_def lx_record_def Let_def)
  have "update_operation (lx_db lx_relay_removed lx_signed_row) ''op'' ex_intent_digest ReceiptSigned
      (\<lambda>w. w\<lparr>ow_removal := Some (removalDigest [evidence_record (removal_of (lx_record [5]))]), ow_state := PayloadRemoved\<rparr>) =
      (lx_db lx_relay_removed lx_removed_row, 1)"
    using lx_update [of lx_signed_row lx_relay_removed] by (simp add: lx_removed_row_def)
  then have "\<exists>v. remove_payload_body no_faults (\<lambda>_. False) lx_env lx_ref (lo_operation (scan_operation lx_signed_row lx_intent)) ?db =
      Inr (lx_db lx_relay_removed lx_removed_row, v)"
    using load select lx_remove_records
    by (simp add: remove_payload_body_def lx_ref_def closedFound_def scan_operation_def exactlyOne_def Let_def del: remove_records.simps)
  moreover have "verifyStoredSignature lx_env (\<lambda>_ _ _ _. True) v = None" for v by (simp add: verifyStoredSignature_def)
  ultimately show ?thesis
    using load by (auto simp: lr_RemovePayload_def lx_ref_def closedFound_def immediate_tx_def Let_def scan_operation_def)
qed

section \<open>The completion\<close>

definition lx_set_row :: set_row where
  "lx_set_row = \<lparr>os_operation = ''op'', os_digest = lc_digest backupObligationSetDigestDomain [5], os_canonical = [5]\<rparr>"

definition lx_backup_db :: LifecycleDB where
  "lx_backup_db = (lx_db lx_relay_removed lx_pending_row)\<lparr>ld_sets := [lx_set_row],
     ld_obligations := map (\<lambda>d. \<lparr>ob_operation = ''op'', ob_domain = d, ob_digest = lc_digest backupObligationDigestDomain (str_bytes d),
       ob_canonical = str_bytes d, ob_deadline = ex_deadline, ob_kind = ''generation'', ob_binding = ex_hash\<rparr>) backup_domains,
     ld_receipts := map (\<lambda>d. \<lparr>rr_id = d, rr_digest = lc_digest custodianReceiptDigestDomain (str_bytes d), rr_operation = ''op'', rr_domain = d,
       rr_canonical = str_bytes d, rr_time = ex_evidenced, rr_outcome = BackupSucceeded\<rparr>) backup_domains\<rparr>"

definition lx_completed_db :: LifecycleDB where
  "lx_completed_db = lx_backup_db\<lparr>ld_operations := [lx_pending_row\<lparr>ow_state := Completed\<rparr>],
     ld_completions := [\<lparr>cw_operation = ''op'', cw_digest = lc_digest completionEvidenceDigestDomain [6], cw_canonical = [6],
       cw_completed_at = ex_deadline\<rparr>]\<rparr>"

lemma lx_backup_db_simps [simp]:
  "ld_operations lx_backup_db = [lx_pending_row]" "ld_sets lx_backup_db = [lx_set_row]" "ld_completions lx_backup_db = []"
  by (simp_all add: lx_backup_db_def lx_db_def)

lemma lx_decode [simp]:
  assumes "d \<in> set backup_domains"
  shows "ValidateCanonical lx_env (str_bytes d) = None" "le_obligation lx_env (str_bytes d) = Some (ex_obligation d)"
    "le_custodian lx_env (str_bytes d) = Some (ex_receipt BackupSucceeded d)" "validBackupDomain d"
  using assms by (auto simp: backup_domains_def ValidateCanonical_def str_bytes_def lx_env_def ex_obligations_def ex_obligation_def ex_receipt_def
      validBackupDomain_def)

lemma lx_evidence: "loadBackupEvidence lx_env False False lx_backup_db lx_backup_db ''op'' =
    Inr (ex_obligations, map (ex_receipt BackupSucceeded) backup_domains)"
proof -
  let ?o = "\<lambda>d. \<lparr>ob_operation = ''op'', ob_domain = d, ob_digest = lc_digest backupObligationDigestDomain (str_bytes d),
       ob_canonical = str_bytes d, ob_deadline = ex_deadline, ob_kind = ''generation'', ob_binding = ex_hash\<rparr>"
  let ?r = "\<lambda>d. \<lparr>rr_id = d, rr_digest = lc_digest custodianReceiptDigestDomain (str_bytes d), rr_operation = ''op'', rr_domain = d,
       rr_canonical = str_bytes d, rr_time = ex_evidenced, rr_outcome = BackupSucceeded\<rparr>"
  have o: "obligation_of lx_env (?o d) = Some (ex_obligation d)" if "d \<in> set backup_domains" for d
    using that by (simp add: obligation_of_def) (simp add: ex_obligation_def)
  have r: "custodian_of lx_env (?r d) = Some (ex_receipt BackupSucceeded d)" if "d \<in> set backup_domains" for d
    using that by (simp add: custodian_of_def) (simp add: ex_receipt_def)
  have "sort_key (domain_rank \<circ> ob_domain) (map ?o backup_domains) = map ?o backup_domains"
    by (simp add: backup_domains_def domain_rank_def)
  moreover have "map_option_all (obligation_of lx_env) (map ?o backup_domains) = Some ex_obligations"
    using o by (simp add: backup_domains_def ex_obligations_def)
  moreover have "map_option_all (custodian_of lx_env) (map ?r backup_domains) = Some (map (ex_receipt BackupSucceeded) backup_domains)"
    using r by (simp add: backup_domains_def)
  moreover have "filter (\<lambda>row. ob_operation row = ''op'') (map ?o ds) = map ?o ds" "filter (\<lambda>row. rr_operation row = ''op'') (map ?r ds) = map ?r ds" for ds
    by simp_all
  ultimately show ?thesis by (simp only: loadBackupEvidence_def lx_backup_db_def) simp
qed

lemma lx_loaded_set: "loadObligationSet lx_env False lx_backup_db ''op'' = Inr (Some lx_set_row)"
proof -
  have "ValidateBackupObligationSet lx_env lx_set = None"
    by (simp add: ValidateBackupObligationSet_def lx_set_def ex_obligations_def backup_domains_def validBackupDomain_def) (simp add: ex_obligation_def)
  then show ?thesis
    by (simp add: loadObligationSet_def decodeObligationSet_def lx_set_row_def CanonicalBackupObligationSet_def)
qed

lemma lx_references: "completionReferencesStored lx_env ex_completion ex_obligations (map (ex_receipt BackupSucceeded) backup_domains)"
proof -
  let ?rs = "map (ex_receipt BackupSucceeded) backup_domains"
  have r: "cr_domain (ex_receipt out d) = d" "cr_receipt_id (ex_receipt out d) = d" "cr_outcome (ex_receipt out d) = out"
      "cr_evidence_time (ex_receipt out d) = ex_evidenced" "bo_deadline (ex_obligation d) = ex_deadline" for out d
    by (simp_all add: ex_receipt_def ex_obligation_def)
  have d: "by_domain ?rs d = Some (ex_receipt BackupSucceeded d)" "bo_deadline (ex_obligations ! indexBackupDomain d) = ex_deadline" if "d \<in> set backup_domains" for d
    using that by (auto simp: by_domain_def backup_domains_def ex_obligations_def indexBackupDomain_def r)
  have "ce_receipts ex_completion = map (\<lambda>d. \<lparr>re_domain = d, re_receipt_id = d, re_digest = lc_digest custodianReceiptDigestDomain (str_bytes d)\<rparr>) backup_domains"
    "ce_completed_at ex_completion = ex_deadline" by (simp_all add: ex_completion_def)
  moreover have "length backup_domains = 3" by (simp add: backup_domains_def)
  ultimately show ?thesis
    using order.strict_implies_order [OF ex_times(3)] d r by (simp add: completionReferencesStored_def list_all_iff)
qed

lemma lx_completed:
  "\<exists>v. lb_Complete no_faults lx_env ex_verifier (\<lambda>_. None) (\<lambda>_. False) (\<lambda>_. lx_backup_db) lx_backup_db False ex_completion =
     (lx_completed_db, Inr v)"
proof -
  let ?row = "\<lparr>cw_operation = ''op'', cw_digest = lc_digest completionEvidenceDigestDomain [6], cw_canonical = [6], cw_completed_at = ex_deadline\<rparr>"
  note valid = ex_completion_valid [OF lx_like]
  have e: "ce_operation ex_completion = ''op''" "ce_intent_digest ex_completion = ex_intent_digest" "ce_policy_digest ex_completion = ex_policy_digest"
      "ce_completed_at ex_completion = ex_deadline" "CloneCompletionEvidence ex_completion = ex_completion"
    by (simp_all add: ex_completion_def CloneCompletionEvidence_def)
  have canon: "CanonicalCompletionEvidence lx_env ex_completion = Inr ([6], lc_digest completionEvidenceDigestDomain [6])"
    using valid by (simp add: CanonicalCompletionEvidence_def ValidateCompletionAgainst_def split: if_splits)
  note load = lx_load [of lx_pending_row lx_backup_db, simplified]
  have none: "loadCompletion lx_env False lx_backup_db ''op'' = Inr None" by (simp add: loadCompletion_def)
  have ins: "insert_completion lx_backup_db ?row = Some (lx_backup_db\<lparr>ld_completions := [?row]\<rparr>)"
    by (simp add: insert_completion_def find_operation_def)
  have upd: "update_operation (lx_backup_db\<lparr>ld_completions := [?row]\<rparr>) ''op'' ex_intent_digest BackupsPending (\<lambda>w. w\<lparr>ow_state := Completed\<rparr>) = (lx_completed_db, 1)"
    by (simp add: update_operation_def lx_completed_db_def Let_def)
  have same: "sameOperationSnapshot x x" "sameBackupEvidence env os rs os rs" for x env os rs
    by (simp_all add: sameOperationSnapshot_def sameBackupEvidence_def)
  have "\<exists>v. complete_body no_faults lx_env ex_completion [6] (lc_digest completionEvidenceDigestDomain [6]) (scan_operation lx_pending_row lx_intent)
      lx_set_row ex_obligations (map (ex_receipt BackupSucceeded) backup_domains) lx_backup_db = Inr (lx_completed_db, v)"
    using load lx_loaded_set lx_evidence lx_references ins upd same
    by (simp add: complete_body_def e closedFound_def exactlyOne_def Let_def scan_operation_def)
  then show ?thesis
    using load lx_loaded_set lx_evidence valid none
    by (auto simp: lb_Complete_def canon e closedFound_def immediate_tx_def Let_def scan_operation_def)
qed

end
