(* ===== verification/Lifecycle_History.thy ===== *)
theory Lifecycle_History
  imports Lifecycle_Laws Lifecycle_Example
begin

text \<open>
  What the transcript lifecycle guarantees in every history of relay and lifecycle operations over one database, whatever
  statements fail and whatever runs between two calls.
\<close>

section \<open>An example history\<close>

abbreviation accept_all :: receipt_verifier where "accept_all \<equiv> \<lambda>_ _ _ _. True"

abbreviation lx_reach :: "LifecycleDB \<Rightarrow> LifecycleDB \<Rightarrow> bool" where
  "lx_reach \<equiv> (lifecycle_step lx_env accept_all ex_verifier)\<^sup>*\<^sup>*"

lemma lx_decoding [simp]: "marker_decoding lx_env"
  by (simp add: marker_decoding_def)

lemma lx_reach_db0: "lx_reach lifecycle_schema lx_db0"
proof -
  have relay: "lx_reach (lifecycle_schema\<lparr>ld_relay := r\<rparr>) (lifecycle_schema\<lparr>ld_relay := r'\<rparr>)" if "sq_step r r'" for r r'
    using that lifecycle_step.relay [of "lifecycle_schema\<lparr>ld_relay := r\<rparr>" r' lx_env accept_all ex_verifier] by (intro r_into_rtranclp) simp
  have "lifecycle_schema = lifecycle_schema\<lparr>ld_relay := relay_schema\<rparr>" by (simp add: lifecycle_schema_def)
  then have created: "lx_reach lifecycle_schema (lifecycle_schema\<lparr>ld_relay := lx_relay 1 Active ''complete'' []\<rparr>)"
    using relay [OF sq_step.create [OF lx_created]] by simp
  show ?thesis
    unfolding lx_db0_def
    by (rule rtranclp_trans [OF rtranclp_trans [OF created relay [OF sq_step.append [OF lx_appended]]] relay [OF sq_step.attach [OF lx_attached]]])
qed

lemma lx_reach_reserved: "lx_reach lifecycle_schema (lx_db (lx_relay 2 Active ''complete'' [lx_record [5]]) lx_row)"
  using lx_reach_db0 lifecycle_step.reserve [OF lx_reserved] by (rule rtranclp.rtrancl_into_rtrancl)

lemma lx_reach_marked: "lx_reach lifecycle_schema (lx_db lx_relay_marked lx_marked_row)"
  using lx_marked lx_reach_reserved by (blast intro: rtranclp.rtrancl_into_rtrancl lifecycle_step.persist_marker)

lemma lx_reach_signed: "lx_reach lifecycle_schema (lx_db lx_relay_marked lx_signed_row)"
  using lx_attach lx_reach_marked by (blast intro: rtranclp.rtrancl_into_rtrancl lifecycle_step.attach_signature)

lemma lx_step_removed: "lifecycle_step lx_env accept_all ex_verifier (lx_db lx_relay_marked lx_signed_row) (lx_db lx_relay_removed lx_removed_row)"
  using lx_removed by (blast intro: lifecycle_step.remove_payload)

lemma lx_steps_removed: "lx_reach (lx_db lx_relay_marked lx_signed_row) (lx_db lx_relay_removed lx_removed_row)"
  using lx_step_removed by (rule r_into_rtranclp)

lemma lx_reach_removed: "lx_reach lifecycle_schema (lx_db lx_relay_removed lx_removed_row)"
  using lx_reach_signed lx_step_removed by (rule rtranclp.rtrancl_into_rtrancl)

section \<open>Operations only advance\<close>

text \<open>
  C8: the operations of a lifecycle only advance. In every history, and whatever fails, the row of an operation keeps its
  identity and its intent, its state never goes back in the order of the saga, and the export evidence, the marker with its receipt, the
  signature and the removal digest never change once their step is reached.
\<close>

theorem lifecycle_monotone:
  assumes "(lifecycle_step env verify custody)\<^sup>*\<^sup>* lifecycle_schema db" "(lifecycle_step env verify custody)\<^sup>*\<^sup>* db db'"
    "w \<in> set (ld_operations db)"
  shows "\<exists>w' \<in> set (ld_operations db'). row_le w w'"
  using assms(2)
proof (induction rule: rtranclp_induct)
  case base
  then show ?case using assms(3) row_le_refl by blast
next
  case (step x y)
  then obtain v where v: "v \<in> set (ld_operations x)" "row_le w v" by blast
  have "lc_tables x" using steps_tables [OF step.hyps(1) steps_tables [OF assms(1) schema_tables]] .
  then show ?case using step_saga [OF step.hyps(2)] saga_row_le v row_le_trans by metis
qed

theorem lifecycle_monotone_witness:
  "\<exists>w' \<in> set (ld_operations (lx_db lx_relay_removed lx_removed_row)). row_le lx_signed_row w'"
  by (rule lifecycle_monotone [OF lx_reach_signed lx_steps_removed]) simp

section \<open>Refinement\<close>

text \<open>
  C5: the code refines the saga. In every reachable database a call of any operation, with any failing statements, uncertain
  commit and outdated preliminary reads, leaves the tables as they are or makes exactly one step of the abstract saga.
\<close>

theorem lifecycle_refines_saga:
  assumes "(lifecycle_step env verify custody)\<^sup>*\<^sup>* lifecycle_schema db" "lifecycle_step env verify custody db db'"
  shows "db' = db \<or> saga env verify custody db db'"
  using step_saga [OF assms(2) steps_tables [OF assms(1) schema_tables]] .

theorem lifecycle_refines_saga_witness:
  "saga lx_env accept_all ex_verifier (lx_db lx_relay_marked lx_signed_row) (lx_db lx_relay_removed lx_removed_row)"
proof -
  have "lx_signed_row \<noteq> lx_removed_row" using lx_rows(11,12) by force
  then have "lx_db lx_relay_removed lx_removed_row \<noteq> lx_db lx_relay_marked lx_signed_row" by (auto simp: lx_db_def)
  then show ?thesis using lifecycle_refines_saga [OF lx_reach_signed lx_step_removed] by blast
qed

section \<open>Payloads\<close>

lemma transcript_sorted:
  assumes "transcript_ok db k t" "tombs_of db k = []"
  shows "map (unat \<circ> ar_sequence) (rows_of db k) = [1..<tw_next t]"
proof -
  have "sorted (map (unat \<circ> ar_sequence) (rows_of db k))"
    using assms(1) by (auto simp: transcript_ok_def sorted_map sorted_wrt_map word_le_nat_alt comp_def elim!: sorted_wrt_mono_rel [rotated])
  moreover have "mset (map (unat \<circ> ar_sequence) (rows_of db k)) = mset [1..<tw_next t]" using assms by (simp add: transcript_ok_def)
  ultimately show ?thesis by (metis properties_for_sort sorted_upt)
qed

text \<open>
  C7: an active transcript is complete. In every reachable database the records of a transcript that is still active
  carry exactly the sequence numbers from 1 up to the last one assigned: no lifecycle operation has touched them.
\<close>

theorem active_transcript_complete:
  assumes law: "marker_decoding env" and reach: "(lifecycle_step env verify custody)\<^sup>*\<^sup>* lifecycle_schema db"
    and t: "find_transcript (ld_relay db) k = Some t" "tw_lifecycle t = Active"
  shows "map (unat \<circ> ar_sequence) (rows_of (ld_relay db) k) = [1..<tw_next t]"
proof -
  have inv: "lc_inv env db" using steps_inv [OF reach law schema_inv] .
  have "pt_key p \<noteq> k" if p: "p \<in> set (rd_payload_tombstones (ld_relay db))" for p
  proof -
    obtain w i where w: "w \<in> set (ld_operations db)" "reached w 4" "le_intent env (ow_intent w) = Some i" "pt_key p = transcript_key (li_transcript i)"
      using lc_invD(5) [OF inv p] by (auto simp: tombstone_ok_def)
    then have "reached w 2" by (auto simp: reached_def)
    then show ?thesis using lc_invD(4) [OF inv w(1)] w(3,4) t by (auto simp: marked_ok_def)
  qed
  then have "tombs_of (ld_relay db) k = []" by (auto simp: tombs_of_def filter_empty_conv)
  then show ?thesis using transcript_sorted sq_invD(4) [OF lc_invD(2) [OF inv] t(1)] by blast
qed

theorem active_transcript_complete_witness:
  "map (unat \<circ> ar_sequence) (rows_of (lx_relay 2 Active ''complete'' [lx_record [5]]) lx_key) = [1..<2]"
  using active_transcript_complete [OF lx_decoding lx_reach_reserved, of lx_key]
  by (simp add: lx_db_def find_transcript_def lx_relay_def)

lemma keeps_record:
  assumes "keeps_payloads db db'" "sq_inv (ld_relay db)" "r \<in> set (rd_records (ld_relay db))"
  shows "\<exists>r' \<in> set (rd_records (ld_relay db')). ar_channel r' = ar_channel r \<and> ar_sequence r' = ar_sequence r"
proof -
  obtain rs where rs: "sq_records (ld_relay db) (ar_channel r) = Some rs" "r \<in> set rs" using sq_records_mem [OF assms(2,3)] by blast
  then obtain rs' where rs': "sq_records (ld_relay db') (ar_channel r) = Some rs'" "extends rs rs'" using assms(1) by (auto simp: keeps_payloads_def)
  obtain n where n: "n < length rs" "rs ! n = r" using rs(2) by (auto simp: in_set_conv_nth)
  then have "rs' ! n \<in> set rs'" "rec_le r (rs' ! n)" using rs'(2) by (auto simp: extends_def)
  moreover have "set rs' \<subseteq> set (rd_records (ld_relay db'))" using rs'(1) by (auto simp: sq_records_def rows_of_def split: if_splits)
  moreover have "rec_le r r' \<Longrightarrow> ar_channel r' = ar_channel r \<and> ar_sequence r' = ar_sequence r" for r'
    by (cases r; cases r') (auto simp: rec_le_def)
  ultimately show ?thesis by blast
qed

lemma removed_member:
  assumes "sq_inv db" "set rs \<subseteq> set (rows_of db (ar_channel r))" "r \<in> set (rd_records db)" "ar_sequence r \<in> ar_sequence ` set rs"
  shows "r \<in> set rs"
proof -
  obtain q where q: "q \<in> set rs" "ar_sequence q = ar_sequence r" using assms(4) by auto
  have "r \<in> set (rows_of db (ar_channel r))" using assms(3) by (simp add: rows_of_def)
  then have "q = r" using q assms(2) rows_distinct [OF assms(1), of "ar_channel r"] by (auto simp: distinct_map inj_on_def)
  then show ?thesis using q by simp
qed

text \<open>
  C3: payloads leave only under a verified receipt. When a step of any history makes a record disappear, the step is the removal of
  an operation whose receipt was signed and whose signature the verifier accepts again; the operation's intent covers
  the record, its transcript is no longer active, required export evidence is bound, and a tombstone with the digests of
  the record stays behind.
\<close>

theorem payload_removal_authorised:
  assumes law: "marker_decoding env" and reach: "(lifecycle_step env verify custody)\<^sup>*\<^sup>* lifecycle_schema db"
    and step: "lifecycle_step env verify custody db db'" and r: "r \<in> set (rd_records (ld_relay db))"
    and gone: "\<forall>r' \<in> set (rd_records (ld_relay db')). ar_channel r' = ar_channel r \<longrightarrow> ar_sequence r' \<noteq> ar_sequence r"
  shows "\<exists>w i rs t. stored env db w i \<and> ow_state w = ReceiptSigned \<and> verify_receipt env verify (ow_receipt w) (ow_signature w) = None \<and>
     r \<in> set rs \<and> covered (ld_relay db) i rs \<and> find_transcript (ld_relay db) (ar_channel r) = Some t \<and> tw_lifecycle t \<noteq> Active \<and>
     (li_export_mode i = ExportRequired \<longrightarrow> ow_manifest w \<noteq> None \<and> ow_custody w \<noteq> None) \<and>
     payload_tombstone_of (li_operation i) (li_transcript i) (removal_of r) \<in> set (rd_payload_tombstones (ld_relay db'))"
proof -
  have inv: "lc_inv env db" using steps_inv [OF reach law schema_inv] .
  note sq = lc_invD(2) [OF inv]
  have "\<not> keeps_payloads db db'" using keeps_record [OF _ sq r] gone by blast
  then obtain w i rs where rem: "removes env verify db db' w i rs"
    using step_saga [OF step lc_invD(1) [OF inv]] saga_payloads sq keeps_payloads_same by blast
  have key: "ar_channel r = transcript_key (li_transcript i)" "ar_sequence r \<in> ar_sequence ` set rs"
    using gone r rem by (auto simp: removes_def removed_relay_def)
  then have rs: "r \<in> set rs" using rem removed_member [OF sq _ r] by (auto simp: removes_def covered_def)
  have w: "w \<in> set (ld_operations db)" "reached w 2" "le_intent env (ow_intent w) = Some i" "validStoredLifecycle env (scan_operation w i)"
      "ow_state w = ReceiptSigned"
    using rem by (auto simp: removes_def stored_def reached_def)
  obtain t where "find_transcript (ld_relay db) (ar_channel r) = Some t" "tw_lifecycle t \<noteq> Active"
    using lc_invD(4) [OF inv w(1,2)] w(3) key(1) by (auto simp: marked_ok_def)
  moreover have "li_export_mode i = ExportRequired \<longrightarrow> ow_manifest w \<noteq> None \<and> ow_custody w \<noteq> None"
    using w(4,5) by (auto simp: validStoredLifecycle_def scan_operation_def validExportBinding_def Let_def split: option.splits)
  moreover have "payload_tombstone_of (li_operation i) (li_transcript i) (removal_of r) \<in> set (rd_payload_tombstones (ld_relay db'))"
    using removes_tombs(1) [OF rem] rs by auto
  ultimately show ?thesis using rem rs unfolding removes_def by blast
qed

theorem payload_removal_authorised_witness:
  "\<exists>w i rs t. stored lx_env (lx_db lx_relay_marked lx_signed_row) w i \<and> ow_state w = ReceiptSigned \<and> lx_record [5] \<in> set rs \<and>
     covered lx_relay_marked i rs \<and> find_transcript lx_relay_marked lx_key = Some t \<and> tw_lifecycle t \<noteq> Active"
proof -
  have relay: "ld_relay (lx_db relay w) = relay" for relay w by (simp add: lx_db_def)
  have "lx_record [5] \<in> set (rd_records lx_relay_marked)" "rd_records lx_relay_removed = []" "ar_channel (lx_record [5]) = lx_key"
    by (simp_all add: lx_relay_marked_def lx_relay_removed_def lx_relay_def lx_record_def)
  then show ?thesis
    using payload_removal_authorised [OF lx_decoding lx_reach_signed lx_step_removed, of "lx_record [5]"] unfolding relay by auto
qed

lemma saga_event_tombstoned:
  assumes "saga env verify custody db db'" "sq_inv (ld_relay db)" "event_tombstoned (ld_relay db) k d"
  shows "event_tombstoned (ld_relay db') k d"
  using saga_payloads [OF assms(1,2)]
proof
  assume "\<exists>w i rs. removes env verify db db' w i rs"
  then obtain w i rs where rem: "removes env verify db db' w i rs" by blast
  show ?thesis using assms(3) unfolding event_tombstoned_def removes_tombs [OF rem] by simp
qed (use assms(3) in \<open>simp add: keeps_payloads_def event_tombstoned_def\<close>)

lemma steps_event_tombstoned:
  assumes "(lifecycle_step env verify custody)\<^sup>*\<^sup>* db db'" "lc_tables db" "event_tombstoned (ld_relay db) k d"
  shows "event_tombstoned (ld_relay db') k d"
  using assms(1)
proof (induction rule: rtranclp_induct)
  case (step y z)
  then have "lc_tables y" using steps_tables assms(2) by blast
  then show ?case using step_saga [OF step.hyps(2)] saga_event_tombstoned step.IH by (auto simp: lc_tables_def)
qed (fact assms(3))

text \<open>
  C6: removed events never come back. Once a payload has its tombstone, at no later point of any history does the relay
  accept an append, new or repeated, with the identifier of the removed event in its channel, in whichever epoch.
\<close>

theorem removed_event_never_readmitted:
  assumes law: "marker_decoding env" and reach: "(lifecycle_step env verify custody)\<^sup>*\<^sup>* lifecycle_schema db"
    and p: "p \<in> set (rd_payload_tombstones (ld_relay db))" and later: "(lifecycle_step env verify custody)\<^sup>*\<^sup>* db db'"
    and i: "ck_tenant (in_channel i) = ck_tenant (pt_key p)" "ck_channel (in_channel i) = ck_channel (pt_key p)"
      "identifierDigest ''event'' (in_event_id i) = pt_event_id_digest p"
  shows "\<exists>e. sq_AppendChecked run (ld_relay db') c i admit prepare = (ld_relay db', Inl e)"
proof -
  have inv: "lc_inv env db" using steps_inv [OF reach law schema_inv] .
  have "event_tombstoned (ld_relay db') (pt_key p) (pt_event_id_digest p)"
    using steps_event_tombstoned [OF later lc_invD(1) [OF inv]] lc_invD(6) [OF inv p] by (simp add: identifiers_ok_def)
  then have "event_tombstoned (ld_relay db') (in_channel i) (identifierDigest ''event'' (in_event_id i))"
    using i by (simp add: event_tombstoned_def)
  then have "isl (append_body run i adm prep (ld_relay db'))" for adm prep by (simp add: append_body_def Let_def split: option.split)
  then obtain f where "append_body run i adm prep (ld_relay db') = Inl (f adm prep)" for adm prep unfolding isl_def by metis
  then show ?thesis by (auto simp: sq_AppendChecked_def immediate_tx_def split: option.splits)
qed

theorem removed_event_never_readmitted_witness:
  "\<exists>e. sq_AppendChecked no_faults lx_relay_removed None lx_append (Some (\<lambda>_. None)) (Some (\<lambda>_ _. Inr (lx_record []))) = (lx_relay_removed, Inl e)"
proof -
  have relay: "ld_relay (lx_db relay w) = relay" for relay w by (simp add: lx_db_def)
  let ?p = "payload_tombstone_of ''op'' lx_transcript (removal_of (lx_record [5]))"
  have "?p \<in> set (rd_payload_tombstones lx_relay_removed)" by (simp add: lx_relay_removed_def)
  then show ?thesis
    using removed_event_never_readmitted [OF lx_decoding lx_reach_removed, of ?p "lx_db lx_relay_removed lx_removed_row" lx_append] unfolding relay
    by (simp add: payload_tombstone_of_def lx_append_def removal_of_def lx_record_def)
qed

text \<open>
  C9: the evidence of a removal always verifies. In every reachable database the tombstones of an operation that has
  removed its payloads are there and hash to the digest in its row, so that a retry of the removal never finds its own
  evidence broken.
\<close>

theorem removal_evidence_verifies:
  assumes law: "marker_decoding env" and reach: "(lifecycle_step env verify custody)\<^sup>*\<^sup>* lifecycle_schema db"
    and load: "loadLifecycleOperation env False db operation = Inr (Some row)"
    and state: "op_state (lo_operation row) \<in> {PayloadRemoved, BackupsPending, Completed}"
  shows "validateRemovalEvidence False db row"
proof -
  have inv: "lc_inv env db" using steps_inv [OF reach law schema_inv] .
  obtain w i where w: "stored env db w i" "row = scan_operation w i" using load by (rule load_stored)
  have r: "w \<in> set (ld_operations db)" "reached w 4" "reached w 2" "le_intent env (ow_intent w) = Some i"
    using w state by (auto simp: stored_def reached_def scan_operation_def)
  then have "li_operation i = ow_operation w" using lc_invD(4) [OF inv r(1,3)] by (auto simp: marked_ok_def)
  moreover have "sort_key pt_sequence ps = [] \<longleftrightarrow> ps = []" for ps :: "payload_tombstone list" by (metis length_0_conv length_sort)
  ultimately show ?thesis
    using lc_invD(7) [OF inv r(1,2)] w(2) by (simp add: removal_ok_def validateRemovalEvidence_def op_tombs_def scan_operation_def Let_def)
qed

theorem removal_evidence_verifies_witness:
  "validateRemovalEvidence False (lx_db lx_relay_removed lx_removed_row) (scan_operation lx_removed_row lx_intent)"
  by (rule removal_evidence_verifies [OF lx_decoding lx_reach_removed lx_load]) (simp_all add: scan_operation_def)

section \<open>Completion\<close>

definition evidence_kept :: "LifecycleDB \<Rightarrow> LifecycleDB \<Rightarrow> string \<Rightarrow> bool" where
  "evidence_kept db db' operation \<longleftrightarrow>
     filter (\<lambda>row. ob_operation row = operation) (ld_obligations db') = filter (\<lambda>row. ob_operation row = operation) (ld_obligations db) \<and>
     filter (\<lambda>row. rr_operation row = operation) (ld_receipts db') = filter (\<lambda>row. rr_operation row = operation) (ld_receipts db) \<and>
     set (ld_completions db) \<subseteq> set (ld_completions db')"

lemma evidence_kept_load: "evidence_kept db db' operation \<Longrightarrow>
    loadBackupEvidence env f f' db' db' operation = loadBackupEvidence env f f' db db operation"
  by (simp add: evidence_kept_def loadBackupEvidence_def split: option.split)

lemma obligation_row_operation:
  assumes "CanonicalBackupObligationSet env v = Inr x" "o1 \<in> set (bs_obligations v)"
  shows "ob_operation (obligation_row_of env o1) = bs_operation v"
proof -
  have "ValidateBackupObligationSet env v = None" using assms(1) by (auto simp: CanonicalBackupObligationSet_def split: if_splits)
  then have "list_all2 (\<lambda>b want. bo_operation b = bs_operation v) (bs_obligations v) backup_domains"
    by (auto simp: ValidateBackupObligationSet_def split: if_splits elim: list_all2_mono)
  then have "bo_operation o1 = bs_operation v" using assms(2) by (auto simp: list_all2_conv_all_nth in_set_conv_nth)
  then show ?thesis by (simp add: obligation_row_of_def split: prod.split)
qed

text \<open>The evidence of a completed operation is never touched again.\<close>

lemma saga_evidence:
  assumes step: "saga env verify custody db db'" and tabs: "lc_tables db" and w: "w \<in> set (ld_operations db)" "ow_state w = Completed"
  shows "w \<in> set (ld_operations db') \<and> evidence_kept db db' (ow_operation w)"
proof -
  have other: "ow_operation u \<noteq> ow_operation w" if "stored env db u i" "ow_state u \<noteq> Completed" for u i
    using that w operation_unique [of db u w] tabs by (auto simp: lc_tables_def stored_def)
  have row: "w \<in> set (ld_operations db')"
    using step tabs
  proof (cases rule: saga_rows)
    case (put u u')
    then show ?thesis using w put_operation_mem [of db u u' w] tabs by (auto simp: lc_tables_def row_le_def)
  qed (use w in auto)
  from step have "evidence_kept db db' (ow_operation w)"
  proof cases
    case (bound u i v canon digest)
    then have "\<forall>o1 \<in> set (bs_obligations v). ob_operation (obligation_row_of env o1) \<noteq> ow_operation w"
      using obligation_row_operation [OF bound(4)] other [OF bound(2)] by auto
    then show ?thesis using bound by (auto simp: evidence_kept_def put_operation_def filter_empty_conv)
  next
    case (recorded u i r obligation raw digest)
    then have "rr_operation (receipt_row_of env r) \<noteq> ow_operation w" using other [OF recorded(2)] by (simp add: receipt_row_of_def split: prod.split)
    then show ?thesis using recorded by (simp add: evidence_kept_def)
  qed (simp_all add: evidence_kept_def put_operation_def subset_insertI)
  then show ?thesis using row by simp
qed

lemma steps_evidence:
  assumes "(lifecycle_step env verify custody)\<^sup>*\<^sup>* db db'" "lc_tables db" "w \<in> set (ld_operations db)" "ow_state w = Completed"
  shows "w \<in> set (ld_operations db') \<and> evidence_kept db db' (ow_operation w)"
  using assms(1)
proof (induction rule: rtranclp_induct)
  case base
  then show ?case using assms(3) by (simp add: evidence_kept_def)
next
  case (step y z)
  have "lc_tables y" using steps_tables [OF step.hyps(1) assms(2)] .
  then show ?case using step_saga [OF step.hyps(2)] saga_evidence [of env verify custody y z w] step.IH assms(4) unfolding evidence_kept_def by auto
qed

text \<open>
  C4: a completion is permanent and stays justified. When a call of \<^verbatim>\<open>Complete\<close> changes the tables, then at every later point of any
  history the operation is completed, the completion evidence is stored, and the obligations and receipts that are stored for
  the operation still validate it.
\<close>

theorem completion_permanent:
  assumes tabs: "lc_tables db" and call: "lb_Complete run env custody audit pf snap db cancelled e = (db1, x)" "db1 \<noteq> db"
    and later: "(lifecycle_step env verify custody)\<^sup>*\<^sup>* db1 db'"
  shows "(\<exists>w \<in> set (ld_operations db'). ow_operation w = ce_operation e \<and> ow_state w = Completed) \<and>
     completion_row_of env e \<in> set (ld_completions db') \<and>
     (\<exists>obligations receipts. loadBackupEvidence env False False db' db' (ce_operation e) = Inr (obligations, receipts) \<and>
       ValidateCompletionAgainst env e obligations receipts custody = None)"
proof -
  obtain w where "completes env custody db db1 e w" using Complete_completes [OF _ call(1)] tabs call(2) by (auto simp: lc_tables_def)
  then obtain i obligations receipts where c: "stored env db w i" "ce_operation e = ow_operation w"
      "loadBackupEvidence env False False db db (ow_operation w) = Inr (obligations, receipts)"
      "ValidateCompletionAgainst env e obligations receipts custody = None"
      "db1 = put_operation (db\<lparr>ld_completions := ld_completions db @ [completion_row_of env e]\<rparr>) (w\<lparr>ow_state := Completed\<rparr>)"
    unfolding completes_def by blast
  let ?w = "w\<lparr>ow_state := Completed\<rparr>"
  have "?w \<in> set (ld_operations db1)"
    using c(1,5) tabs put_operation_mem [of "db\<lparr>ld_completions := ld_completions db @ [completion_row_of env e]\<rparr>" w ?w]
    by (simp add: lc_tables_def stored_def)
  moreover have "lc_tables db1" using Complete_saga [OF _ call(1), of verify] saga_tables tabs by (auto simp: lc_tables_def)
  ultimately have later: "?w \<in> set (ld_operations db')" "evidence_kept db1 db' (ow_operation w)" using steps_evidence [OF later, of ?w] by simp_all
  have "evidence_kept db db1 (ow_operation w)" "completion_row_of env e \<in> set (ld_completions db1)"
    using c(5) by (auto simp: evidence_kept_def put_operation_def)
  then have "loadBackupEvidence env False False db' db' (ow_operation w) = Inr (obligations, receipts)" "completion_row_of env e \<in> set (ld_completions db')"
    using c(3) evidence_kept_load [OF later(2)] evidence_kept_load [of db db1] later(2) by (auto simp: evidence_kept_def)
  then show ?thesis using c(2,4) later(1) by (intro conjI bexI [of _ ?w]) auto
qed

theorem completion_permanent_witness:
  "\<exists>obligations receipts. loadBackupEvidence lx_env False False lx_completed_db lx_completed_db ''op'' = Inr (obligations, receipts) \<and>
     ValidateCompletionAgainst lx_env ex_completion obligations receipts ex_verifier = None"
proof -
  obtain v where call: "lb_Complete no_faults lx_env ex_verifier (\<lambda>_. None) (\<lambda>_. False) (\<lambda>_. lx_backup_db) lx_backup_db False ex_completion = (lx_completed_db, Inr v)"
    using lx_completed by blast
  have "sq_inv lx_relay_removed" using steps_tables [OF lx_reach_removed schema_tables] by (simp add: lc_tables_def lx_db_def)
  then have "lc_tables lx_backup_db" by (simp add: lc_tables_def) (simp add: lx_backup_db_def lx_db_def)
  moreover have "lx_completed_db \<noteq> lx_backup_db" by (rule notI, drule arg_cong [of _ _ ld_completions]) (simp add: lx_completed_db_def)
  ultimately show ?thesis
    using completion_permanent [OF _ call, of accept_all lx_completed_db] by (auto simp: ex_completion_def [THEN arg_cong, of ce_operation])
qed

section \<open>The lifecycle of a transcript\<close>

text \<open>What is relied on of the JSON codec: the canonical bytes of a valid intent decode to that intent.\<close>

definition intent_decoding :: "lifecycle_env \<Rightarrow> bool" where
  "intent_decoding env \<longleftrightarrow> (\<forall>i canon digest. CanonicalIntent env i = Inr (canon, digest) \<longrightarrow> le_intent env canon = Some i)"

definition key_ok :: "lifecycle_env \<Rightarrow> operation_row \<Rightarrow> bool" where
  "key_ok env w \<longleftrightarrow> (\<exists>i. le_intent env (ow_intent w) = Some i \<and> ow_key w = transcript_key (li_transcript i))"

definition fenced_ok :: "LifecycleDB \<Rightarrow> operation_row \<Rightarrow> bool" where
  "fenced_ok db w \<longleftrightarrow> reached w 2 \<or> (\<exists>t. find_transcript (ld_relay db) (ow_key w) = Some t \<and> tw_lifecycle t = Active)"

definition fence_inv :: "lifecycle_env \<Rightarrow> LifecycleDB \<Rightarrow> bool" where
  "fence_inv env db \<longleftrightarrow> lc_tables db \<and> (\<forall>w \<in> set (ld_operations db). key_ok env w \<and> fenced_ok db w) \<and>
     (\<forall>v \<in> set (ld_operations db). \<forall>w \<in> set (ld_operations db). ow_key v = ow_key w \<longrightarrow> ow_state v \<noteq> Completed \<longrightarrow> ow_state w \<noteq> Completed \<longrightarrow> v = w)"

lemma saga_lifecycle:
  assumes step: "saga env verify custody db db'" and inv: "sq_inv (ld_relay db)" and t: "find_transcript (ld_relay db) k = Some t"
  shows "(\<exists>t'. find_transcript (ld_relay db') k = Some t' \<and> tw_lifecycle t' = tw_lifecycle t) \<or>
    (\<exists>u u' i. stored env db u i \<and> ow_state u = ExportSatisfied \<and> k = transcript_key (li_transcript i) \<and> ow_operation u' = ow_operation u \<and>
       reached u' 2 \<and> u' \<in> set (ld_operations db'))"
  using step
proof cases
  case (relay relay)
  then show ?thesis using sq_step_keeps(3) [OF relay(2) inv t] by auto
next
  case (marked u i markerBytes marker preimage t' relay)
  let ?u = "u\<lparr>ow_marker := markerBytes, ow_receipt := preimage, ow_state := MarkerPersisted\<rparr>"
  have u: "?u \<in> set (ld_operations db')" using marked by (auto simp: put_operation_def stored_def image_iff)
  show ?thesis
  proof (cases "k = transcript_key (li_transcript i)")
    case False
    then show ?thesis using marked t by (auto simp: set_lifecycle_find dest: find_transcript_Some)
  next
    case True
    then show ?thesis using marked(2,3) u by (intro disjI2 exI [of _ u] exI [of _ ?u] exI [of _ i]) (simp add: reached_def)
  qed
qed (use t in \<open>simp_all add: removed_relay_rows(3)\<close>)

lemma fence_invD:
  assumes "fence_inv env db"
  shows "lc_tables db" "sq_inv (ld_relay db)" "distinct (map ow_operation (ld_operations db))"
    and "w \<in> set (ld_operations db) \<Longrightarrow> key_ok env w" "w \<in> set (ld_operations db) \<Longrightarrow> fenced_ok db w"
    and "v \<in> set (ld_operations db) \<Longrightarrow> w \<in> set (ld_operations db) \<Longrightarrow> ow_key v = ow_key w \<Longrightarrow> ow_state v \<noteq> Completed \<Longrightarrow>
      ow_state w \<noteq> Completed \<Longrightarrow> v = w"
  using assms unfolding fence_inv_def lc_tables_def by blast+

lemma saga_key_ok:
  assumes "saga env verify custody db db'" "intent_decoding env" "fence_inv env db" "w' \<in> set (ld_operations db')"
  shows "key_ok env w'"
  using assms(1) fence_invD(1) [OF assms(3)]
proof (cases rule: saga_rows)
  case (new w)
  then obtain i canon digest policy where "CanonicalIntent env i = Inr (canon, digest)" "w = reserved_row i digest canon policy"
    unfolding reservation_def by blast
  then have "le_intent env (ow_intent w) = Some i" "ow_key w = transcript_key (li_transcript i)"
    using assms(2) unfolding intent_decoding_def by (auto simp: reserved_row_def)
  then have "key_ok env w" by (simp add: key_ok_def)
  then show ?thesis using new assms(4) fence_invD(4) [OF assms(3)] by auto
next
  case (put u u')
  then have "key_ok env u'" using fence_invD(4) [OF assms(3), of u] by (simp add: key_ok_def row_le_def)
  then show ?thesis using put assms(4) put_operation_sub [of w' db u'] fence_invD(4) [OF assms(3)] by auto
qed (use assms(4) fence_invD(4) [OF assms(3)] in simp)

lemma saga_fenced_ok:
  assumes step: "saga env verify custody db db'" and law: "intent_decoding env" and inv: "fence_inv env db" and w': "w' \<in> set (ld_operations db')"
  shows "fenced_ok db' w'"
proof (rule ccontr)
  assume open_row: "\<not> fenced_ok db' w'"
  then have n: "\<not> reached w' 2" by (simp add: fenced_ok_def)
  note D = fence_invD [OF inv]
  have "False" if w: "w \<in> set (ld_operations db)" "row_le w w'" for w
  proof -
    have "\<not> reached w 2" using n w(2) by (auto simp: row_le_def)
    then obtain t where t: "find_transcript (ld_relay db) (ow_key w) = Some t" "tw_lifecycle t = Active" using D(5) [OF w(1)] by (auto simp: fenced_ok_def)
    obtain u u' i where u: "stored env db u i" "ow_state u = ExportSatisfied" "ow_key w = transcript_key (li_transcript i)"
        "ow_operation u' = ow_operation u" "reached u' 2" "u' \<in> set (ld_operations db')"
      using saga_lifecycle [OF step D(2) t(1)] open_row t(2) w(2) by (auto simp: fenced_ok_def row_le_def)
    have "ow_key u = ow_key w" using D(4) [of u] u by (auto simp: key_ok_def stored_def)
    moreover have "ow_state w \<noteq> Completed" using \<open>\<not> reached w 2\<close> by (auto simp: reached_def)
    ultimately have "u = w" using D(6) [of u w] u w(1) by (auto simp: stored_def)
    then have "u' = w'" using operation_unique [OF saga_distinct [OF step D(1)] u(6) w'] u(4) w(2) by (simp add: row_le_def)
    then show False using u(5) n by simp
  qed
  then have none: "\<not> (\<exists>w \<in> set (ld_operations db). row_le w w')" by blast
  from step D(1) show False
  proof (cases rule: saga_rows)
    case (new w)
    then have "w' = w" using w' none by auto
    then show False using new(6) open_row by (auto simp: reservation_def reserved_row_def fenced_ok_def)
  next
    case (put u u')
    then show False using w' none put_operation_sub [of w' db u'] by auto
  qed (use w' none in auto)
qed

lemma saga_fence_inv:
  assumes step: "saga env verify custody db db'" and law: "intent_decoding env" and inv: "fence_inv env db"
  shows "fence_inv env db'"
proof -
  note D = fence_invD [OF inv]
  have "v = w" if vw: "v \<in> set (ld_operations db')" "w \<in> set (ld_operations db')" "ow_key v = ow_key w" "ow_state v \<noteq> Completed" "ow_state w \<noteq> Completed" for v w
    using step D(1)
  proof (cases rule: saga_rows)
    case (put u u')
    have mem: "x = u' \<or> x \<in> set (ld_operations db) \<and> x \<noteq> u" if "x \<in> set (ld_operations db')" for x
      using put put_operation_mem [of db u u' x] D(3) that by (simp add: row_le_def)
    have "x \<in> set (ld_operations db) \<Longrightarrow> ow_key x = ow_key u' \<Longrightarrow> ow_state x \<noteq> Completed \<Longrightarrow> x = u" for x
      using put D(6) [of x u] by (simp add: row_le_def)
    then show ?thesis using mem [OF vw(1)] mem [OF vw(2)] vw(3-5) D(6) [of v w] by metis
  next
    case (new x)
    then show ?thesis using vw D(6) [of v w] by auto
  qed (use vw D(6) [of v w] in simp)
  then show ?thesis
    unfolding fence_inv_def using saga_tables [OF step D(1)] saga_key_ok [OF step law inv] saga_fenced_ok [OF step law inv] by blast
qed

lemma schema_fence_inv: "fence_inv env lifecycle_schema"
  using schema_tables by (simp add: fence_inv_def) (simp add: lifecycle_schema_def)

lemma steps_fence_inv:
  assumes "(lifecycle_step env verify custody)\<^sup>*\<^sup>* db db'" "intent_decoding env" "fence_inv env db"
  shows "fence_inv env db'"
  using assms(1)
proof (induction rule: rtranclp_induct)
  case (step y z)
  then show ?case using step_saga [OF step.hyps(2)] saga_fence_inv assms(2) fence_invD(1) by blast
qed (fact assms(3))

text \<open>
  C12: the lifecycle of a transcript changes at most once. Once it has left the active state, it keeps its lifecycle in every
  later database: a redacted transcript can never be deleted, although the contract admits the transition from redacted to deleted.
\<close>

theorem lifecycle_final:
  assumes law: "intent_decoding env" and reach: "(lifecycle_step env verify custody)\<^sup>*\<^sup>* lifecycle_schema db"
    and t: "find_transcript (ld_relay db) k = Some t" "tw_lifecycle t \<noteq> Active"
    and later: "(lifecycle_step env verify custody)\<^sup>*\<^sup>* db db'"
  shows "\<exists>t'. find_transcript (ld_relay db') k = Some t' \<and> tw_lifecycle t' = tw_lifecycle t"
  using later
proof (induction rule: rtranclp_induct)
  case (step y z)
  then obtain t' where t': "find_transcript (ld_relay y) k = Some t'" "tw_lifecycle t' = tw_lifecycle t" by blast
  have inv: "fence_inv env y" using steps_fence_inv [OF step.hyps(1) law steps_fence_inv [OF reach law schema_fence_inv]] .
  have "\<not> (stored env y u i \<and> ow_state u = ExportSatisfied \<and> k = transcript_key (li_transcript i))" for u i
    using fence_invD(4,5) [OF inv, of u] t' t(2) by (auto simp: stored_def key_ok_def fenced_ok_def reached_def)
  then show ?case
    using step_saga [OF step.hyps(2) fence_invD(1) [OF inv]] saga_lifecycle [OF _ fence_invD(2) [OF inv] t'(1)] t' by metis
qed (use t in simp)

lemma lx_intent_decoding: "intent_decoding lx_env"
  by (auto simp: intent_decoding_def CanonicalIntent_def lx_intents split: option.splits if_splits)

theorem lifecycle_final_witness:
  "\<exists>t'. find_transcript lx_relay_removed lx_key = Some t' \<and> tw_lifecycle t' = Deleted"
proof -
  have relay: "ld_relay (lx_db relay w) = relay" for relay w by (simp add: lx_db_def)
  have "find_transcript lx_relay_marked lx_key =
      Some \<lparr>tw_key = lx_key, tw_next = 2, tw_metadata = [1], tw_digest = ''d'', tw_lifecycle = Deleted, tw_completeness = ''incomplete''\<rparr>"
    by (simp add: find_transcript_def lx_relay_marked_def lx_relay_def)
  then show ?thesis
    using lifecycle_final [OF lx_intent_decoding lx_reach_signed, of lx_key _ "lx_db lx_relay_removed lx_removed_row"] lx_steps_removed unfolding relay by simp
qed

lemma reserve_new_relay:
  assumes "reserve_new run env penv prep i canon digest db = Inr (db', v)"
  shows "ld_relay db' = ld_relay db"
proof -
  from assms obtain policy canonicalPolicy k deadline db1 db2 where "persistLifecyclePolicy run db policy canonicalPolicy = Inr db1"
      "persistTranscriptPolicyBinding run db1 i k deadline = Inr db2" "insert_operation db2 (reserved_row i digest canon policy) = Some db'"
    by (auto simp: reserve_new_def bindE_Inr Let_def split: option.splits if_splits)
  then show ?thesis
    using persistLifecyclePolicy_Inr [of run db policy canonicalPolicy db1]
    by (auto simp: insert_operation_def split: if_splits elim!: persistTranscriptPolicyBinding_Inr)
qed

text \<open>
  C13: a reservation does not fence its transcript. Whatever \<^verbatim>\<open>Reserve\<close> answers, the relay accepts and refuses exactly the same
  appends afterwards as before; only the marker stops them.
\<close>

theorem reservation_does_not_fence:
  assumes "lp_Reserve run env penv prep db cancelled i = (db', x)"
  shows "sq_AppendChecked run' (ld_relay db') c j admit prepare = sq_AppendChecked run' (ld_relay db) c j admit prepare"
proof -
  consider "db' = db" | canon digest v where "reserve_body run env penv prep i canon digest db = Inr (db', v)"
    using assms by (auto simp: lp_Reserve_def split: if_splits sum.splits dest!: immediate_tx_db)
  then have "ld_relay db' = ld_relay db"
    using reserve_new_relay by cases (auto simp: reserve_body_def bindE_Inr split: option.splits if_splits)
  then show ?thesis by simp
qed

theorem reservation_does_not_fence_witness:
  "sq_AppendChecked no_faults (ld_relay (lx_db (lx_relay 2 Active ''complete'' [lx_record [5]]) lx_row)) None lx_append (Some (\<lambda>_. None)) (Some (\<lambda>_ _. Inr (lx_record []))) =
     sq_AppendChecked no_faults (ld_relay lx_db0) None lx_append (Some (\<lambda>_. None)) (Some (\<lambda>_ _. Inr (lx_record [])))"
  by (rule reservation_does_not_fence [OF lx_reserved])

end
