(* ===== verification/Spec2Isabelle.thy ===== *)
theory Spec2Isabelle
  imports Sha256_Vector Append_Service Transition_Laws Coordination Budget_KV Ledger Primitives JetStream_Laws Sqlite_Laws
    Lifecycle_History
begin

text \<open>
  Yukh Coordination is a Go service for groups of agents. Its \<^bold>\<open>relay\<close> keeps an ordered, signed transcript of events per channel;
  its \<^bold>\<open>lifecycle\<close> removes payloads of a transcript under signed authority and keeps the evidence; its \<^bold>\<open>security audit\<close> is an
  append-only ledger with a Merkle tree; its \<^bold>\<open>coordination primitives\<close> are nonces, fenced leases and capability budgets
  that clients use through sealed capabilities. File names below are relative to \<^verbatim>\<open>src/internal\<close>.

  \<^bold>\<open>How the parts interact.\<close> An event enters as bytes that \<^verbatim>\<open>relay/protocol\<close> validates. The append service
  (\<^verbatim>\<open>relay/service/append.go\<close>) looks the event up, appends it through the interface \<^verbatim>\<open>Store\<close> of \<^verbatim>\<open>relay/store.go\<close>, has the
  receipt signed and attaches the signature; inside the append the store lets the transition validator
  (\<^verbatim>\<open>relay/service/transition.go\<close>) replay the transcript and admit or refuse the event. There are three stores: in memory, over SQLite
  and over a JetStream log. The lifecycle (\<^verbatim>\<open>relay/lifecycle\<close> for the documents, \<^verbatim>\<open>relay/sqlite\<close> for the operations) works on the
  database of the SQLite store. The primitives service (\<^verbatim>\<open>primitives\<close>) works on the nonce store, lease store and budget of
  \<^verbatim>\<open>coordination\<close>, which have an in-memory and a JetStream key-value adapter each.

  \<^bold>\<open>Conventions\<close> (theory \<open>Prelude\<close>). Bytes are 8-bit words, \<^verbatim>\<open>uint64\<close> is a 64-bit word and wraps, Go maps are association lists, an
  interface value is a record of functions, an error is a value of a sum or option type, a method under a mutex is one function
  from state to state, and each reading of a clock or context is an argument. A database table is the list of its rows, and a statement
  fails where a constraint of the schema does. Digests are computed by \<open>Sha256\<close> (FIPS 180-4, with the known answer
  of \<open>Sha256_Vector\<close>); \<open>Base64\<close>, \<open>Json\<close> and \<open>Go_Time\<close> model what is used of those library packages.

  \<^bold>\<open>Relay.\<close>
  \<^item> \<open>Relay_Types\<close>: \<^verbatim>\<open>relay/store.go\<close>. Its locales \<open>relay_store_safe\<close> and \<open>relay_store\<close> are the contract of \<^verbatim>\<open>Store\<close>: what an
    answer means, and when there is one.
  \<^item> \<open>Relay_Memory\<close>: \<^verbatim>\<open>relay/memory/store.go\<close>; the store invariant holds in every reachable state, history only grows, and
    the store interprets \<open>relay_store\<close>.
  \<^item> \<open>Append_Service\<close>: \<^verbatim>\<open>relay/service/append.go\<close>; from the contract alone, a successful append is durable and signed whatever
    other requests do between its calls, and a retry of an unsigned append completes it.
  \<^item> \<open>Transitions\<close> and \<open>Transition_Laws\<close>: \<^verbatim>\<open>relay/service/transition.go\<close>, with the shared claim and offer objects on explicit heaps;
    the paging loop terminates and replays the whole transcript, admitted events always replay, claims and handoffs
    keep their limits and are used once. Locale \<open>admission_view\<close> is what the validator relies on of a store.
  \<^item> \<open>Relay_Sqlite\<close> and \<open>Sqlite_Laws\<close>: \<^verbatim>\<open>relay/sqlite/store.go\<close> as immediate transactions whose statements and commits may fail, also
    with an unknown outcome; the table invariant, \<open>relay_store_safe\<close> and the durability of the append service over it.
  \<^item> \<open>Relay_JetStream\<close> and \<open>JetStream_Laws\<close>: \<^verbatim>\<open>relay/jetstream\<close> (commands, reducer, loading, operations); every log the adapter writes
    reduces, to a state that simulates the in-memory store, loading is complete and successful appends are durable.
  \<^item> \<open>Protocol\<close>: \<^verbatim>\<open>relay/protocol/validator.go\<close>; the strict decoder accepts exactly the token sequences of admissible values,
    and validation accepts only canonical bytes that the decoded event describes, without a panic.

  \<^bold>\<open>Transcript lifecycle.\<close>
  \<^item> \<open>Lifecycle\<close> and \<open>Backup\<close>: \<^verbatim>\<open>relay/lifecycle\<close> (\<^verbatim>\<open>types.go\<close>, \<^verbatim>\<open>validation.go\<close>, \<^verbatim>\<open>canonical.go\<close>, \<^verbatim>\<open>backup.go\<close>): documents, their validation and
    digests, the recovery classification, and that a validated completion rests on a timely verified success in every backup domain.
  \<^item> \<open>Lifecycle_Sqlite\<close>: \<^verbatim>\<open>relay/sqlite/lifecycle.go\<close> and \<^verbatim>\<open>removal.go\<close> (reserve, bind the export, persist the marker, attach the signature,
    remove the payloads); \<open>Lifecycle_Completion\<close>: \<^verbatim>\<open>relay/sqlite/backup_completion.go\<close>. A read before a transaction sees a database of
    its own.
  \<^item> \<open>Lifecycle_Saga\<close>: the abstract relation \<open>saga\<close>, which has no statements, faults or snapshots, and the refinement of each operation.
  \<^item> \<open>Lifecycle_Laws\<close>: the invariant of every history; \<open>Lifecycle_Example\<close>: one operation carried through on concrete tables;
    \<open>Lifecycle_History\<close>: the properties of all histories: payloads leave only under a verified receipt and never
    return, the evidence of a removal and of a completion stays valid, operations only advance, active transcripts have no gaps.

  \<^bold>\<open>Security audit.\<close>
  \<^item> \<open>Merkle\<close>: \<^verbatim>\<open>relay/audit/merkle.go\<close>; proofs verify (completeness), and what verifies is in the tree up to an exhibited collision
    (soundness). \<open>Merkle_Cache\<close>: the node cache of \<^verbatim>\<open>relay/audit/sqlite/merkle.go\<close>, which computes the same hashes.
  \<^item> \<open>Audit_Record\<close>: \<^verbatim>\<open>relay/audit/record.go\<close> and the record of \<^verbatim>\<open>relay/identity/audit.go\<close>. \<open>Ledger\<close>: \<^verbatim>\<open>relay/audit/sqlite/ledger.go\<close>; appends keep a
    ledger verified, also when the commit reports an error, its proofs are accepted for its heads, and a head commits to all records.

  \<^bold>\<open>Coordination primitives.\<close>
  \<^item> \<open>Coordination\<close> and \<open>Budget\<close>: \<^verbatim>\<open>coordination/store.go\<close>, \<^verbatim>\<open>budget.go\<close> and the adapters of \<^verbatim>\<open>coordination/memory\<close>; exclusion of everybody else until a lease expires, growing
    fencing tokens, the bound of a budget.
  \<^item> \<open>Lease_KV\<close> and \<open>Budget_KV\<close>: \<^verbatim>\<open>coordination/jetstreamkv\<close>, with other clients between the calls, lost acknowledgements and reads that lag.
  \<^item> \<open>Capability\<close> and \<open>Primitives\<close>: \<^verbatim>\<open>primitives/capability.go\<close> and \<^verbatim>\<open>service.go\<close>; sealed capabilities open to what was sealed, and a
    lease session through the service over the in-memory adapters.

  \<^bold>\<open>Bounds and loops.\<close> No definition has artificial fuel. \<open>js_mutate\<close> counts down the 64 attempts of the source. \<open>load_loop\<close> ends
  because each round advances the revision towards the head; \<open>decodeValue\<close> consumes tokens, and its depth is limited to 16 as in
  the source; the Merkle recursions halve or split their size. The paging loop of the validator depends on the store it reads, so it is
  a partial function, and its termination is a property. Natural numbers stand for \<^verbatim>\<open>uint64\<close> only where the source bounds them first
  (Merkle sizes, SQLite sequence numbers).

  \<^bold>\<open>Parameters.\<close> Code outside the repository is an argument: JSON text, the canonicaliser, UUIDs, compiled schemas, ciphers, signers and
  verifiers, the JetStream server, the SQLite driver's faults. What is relied on of it is a named predicate, with an instance in the
  examples: \<open>kv_contract\<close> (atomic writes, reads that may lag; \<open>kv_linear\<close> is the case of
  up-to-date reads), \<open>js_contract\<close> (conditional publish), \<open>codec_ok\<close> (decoding inverts encoding), \<open>marker_decoding\<close> (strict and lenient decoding agree), \<open>intent_decoding\<close> (a canonical intent decodes to itself).

  \<^bold>\<open>Not modelled.\<close> Opening, configuring and migrating databases, streams and buckets (set-up of services); compiling the embedded
  schemas; tokens, proofs of possession and key sets of \<^verbatim>\<open>relay/identity\<close> (public-key libraries); audit checkpoints and restoring from files;
  HTTP interfaces, application wiring and live delivery (goroutines and network I/O); the clients, key custody, deployment and
  preview tools, and the JavaScript client. The modelled operations call none of this, except through the parameters above.
\<close>

end
